(* ===== verification/Prelude.thy ===== *)
theory Prelude
  imports Main "HOL-Library.Word"
begin

text \<open>
  Types and combinators shared by every component.  The kernel is C++ code built for WIN32:
  \<open>uint8\<close>, \<open>uint16\<close> and \<open>uint32\<close> of \<open>src/Kernel/kernelTypes.h\<close> are words of that width.
  A function that can throw a \<open>TErrorObject\<close>, fail an \<open>assert\<close>, dereference a null pointer,
  access memory out of the bounds of an array, or wait for another thread returns a value of
  \<open>fault + 'a\<close>.  The collections \<open>kdefs\<close> and \<open>kinvs\<close> gather the unfolding rules of the
  operations and of the invariants.
\<close>

named_theorems kdefs "unfolding rules of the kernel operations"
named_theorems kinvs "unfolding rules of the invariants"

type_synonym u8 = "8 word"
type_synonym u16 = "16 word"
type_synonym u32 = "32 word"

text \<open>Addresses of kernel buffers; \<open>None\<close> is the null pointer.\<close>

type_synonym addr = nat
type_synonym ptr = "addr option"

datatype fault =
    Throw u32        \<comment> \<open>\<open>ThrowError(TErrorObject(.., code))\<close>\<close>
  | AssertFail       \<comment> \<open>a failed \<open>assert\<close> of a debug build\<close>
  | NullDeref        \<comment> \<open>a null pointer is dereferenced\<close>
  | OutOfBounds      \<comment> \<open>an access outside of an array or a buffer\<close>
  | Blocked          \<comment> \<open>the call waits for another thread\<close>
  | NoFuel           \<comment> \<open>a loop over a corrupted (cyclic) list, or one that does not end\<close>
  | Exits u32        \<comment> \<open>the program ends with \<open>exit\<close>\<close>
  | NetException string      \<comment> \<open>\<open>throw NetException(text)\<close>\<close>
  | ThreadException string   \<comment> \<open>\<open>throw ThreadException(text)\<close>\<close>

type_synonym 'a result = "fault + 'a"

subsection \<open>Sequencing of fallible operations\<close>

definition bindR :: "'a result \<Rightarrow> ('a \<Rightarrow> 'b result) \<Rightarrow> 'b result" where
  "bindR r f = (case r of Inl e \<Rightarrow> Inl e | Inr x \<Rightarrow> f x)"

lemma bindR_Inl [simp]: "bindR (Inl e) f = Inl e"
  by (simp add: bindR_def)

lemma bindR_Inr [simp]: "bindR (Inr x) f = f x"
  by (simp add: bindR_def)

lemma bindR_eq_Inr: "bindR r f = Inr y \<longleftrightarrow> (\<exists>x. r = Inr x \<and> f x = Inr y)"
  by (cases r) auto

lemma bindR_eq_Inl: "bindR r f = Inl e \<longleftrightarrow> r = Inl e \<or> (\<exists>x. r = Inr x \<and> f x = Inl e)"
  by (cases r) auto

lemma bindR_cong [fundef_cong]:
  "r = r' \<Longrightarrow> (\<And>x. r' = Inr x \<Longrightarrow> f x = g x) \<Longrightarrow> bindR r f = bindR r' g"
  by (cases r') auto

lemma bindR_assoc: "bindR (bindR r f) g = bindR r (\<lambda>x. bindR (f x) g)"
  by (cases r) auto

text \<open>
  \<open>assertC nd b x\<close> is \<open>x\<close> after \<open>assert(b)\<close>: in a release build (\<open>nd\<close>, the macro
  \<open>NDEBUG\<close> of the project file) the assertion is compiled away.
\<close>

definition assertC :: "bool \<Rightarrow> bool \<Rightarrow> 'a result \<Rightarrow> 'a result" where
  "assertC nd b x = (if nd \<or> b then x else Inl AssertFail)"

definition checkC :: "bool \<Rightarrow> u32 \<Rightarrow> 'a result \<Rightarrow> 'a result" where
  "checkC bad code x = (if bad then Inl (Throw code) else x)"

definition deref :: "ptr \<Rightarrow> (addr \<Rightarrow> 'a result) \<Rightarrow> 'a result" where
  "deref p f = (case p of None \<Rightarrow> Inl NullDeref | Some a \<Rightarrow> f a)"

lemma assertC_True [simp]: "assertC nd True x = x"
  by (simp add: assertC_def)

lemma assertC_release [simp]: "assertC True b x = x"
  by (simp add: assertC_def)

lemma assertC_debug [simp]: "assertC False False x = Inl AssertFail"
  by (simp add: assertC_def)

lemma assertC_Inr: "assertC nd b x = Inr y \<longleftrightarrow> (nd \<or> b) \<and> x = Inr y"
  by (simp add: assertC_def)

lemma checkC_simps [simp]:
  "checkC False c x = x"
  "checkC True c x = Inl (Throw c)"
  by (simp_all add: checkC_def)

lemma checkC_Inr: "checkC b c x = Inr y \<longleftrightarrow> \<not> b \<and> x = Inr y"
  by (simp add: checkC_def)

lemma deref_simps [simp]:
  "deref None f = Inl NullDeref"
  "deref (Some a) f = f a"
  by (simp_all add: deref_def)

lemma deref_Inr: "deref p f = Inr y \<longleftrightarrow> (\<exists>a. p = Some a \<and> f a = Inr y)"
  by (cases p) auto

subsection \<open>Operations on a state\<close>

text \<open>
  A member function that changes its object and the kernel is an operation \<open>('s, 'a) op\<close>;
  \<open>bnd\<close> runs two of them in sequence and \<open>run\<close> the statements of a function body.
\<close>

type_synonym ('s, 'a) op = "'s \<Rightarrow> ('a \<times> 's) result"

definition ret :: "'a \<Rightarrow> ('s, 'a) op" where
  "ret x s = Inr (x, s)"

definition bnd :: "('s, 'a) op \<Rightarrow> ('a \<Rightarrow> ('s, 'b) op) \<Rightarrow> ('s, 'b) op" where
  "bnd f g s = bindR (f s) (\<lambda>(x, s). g x s)"

fun run :: "('s, unit) op list \<Rightarrow> ('s, unit) op" where
  "run [] s = Inr ((), s)"
| "run (f # fs) s = bindR (f s) (\<lambda>(_, s). run fs s)"

definition fails :: "fault \<Rightarrow> ('s, 'a) op" where
  "fails e s = Inl e"

definition asserts :: "bool \<Rightarrow> ('s \<Rightarrow> bool) \<Rightarrow> ('s, unit) op" where
  "asserts nd b s = assertC nd (b s) (Inr ((), s))"

lemma op_simps [simp]:
  "ret x s = Inr (x, s)" "fails e s = Inl e"
  "f s = Inr (x, s') \<Longrightarrow> bnd f g s = g x s'" "f s = Inl e \<Longrightarrow> bnd f g s = Inl e"
  "b s \<Longrightarrow> asserts nd b s = Inr ((), s)" "asserts True b s = Inr ((), s)"
  "\<not> b s \<Longrightarrow> asserts False b s = Inl AssertFail"
  by (simp_all add: ret_def fails_def bnd_def asserts_def)

lemma run_append: "run (fs @ gs) s = bindR (run fs s) (\<lambda>(_, s). run gs s)"
  by (induction fs arbitrary: s) (auto simp: bindR_assoc case_prod_beta' intro!: bindR_cong)

subsection \<open>Lists\<close>

lemma take_append_exact [simp]: "n = length xs \<Longrightarrow> take n (xs @ ys) = xs"
  by simp

lemma drop_append_exact [simp]: "n = length xs \<Longrightarrow> drop n (xs @ ys) = ys"
  by simp

lemma nth_append_exact: "i = length xs \<Longrightarrow> (xs @ y # ys) ! i = y"
  by simp

lemma distinct_concat_update:
  assumes "i < length xss"
  shows "distinct (concat (xss[i := ys])) \<longleftrightarrow>
    distinct (concat (take i xss) @ ys @ concat (drop (Suc i) xss))"
  using assms by (simp add: upd_conv_take_nth_drop)

lemma unat_of_nat_less:
  "n < 2 ^ LENGTH('a) \<Longrightarrow> unat (of_nat n :: 'a :: len word) = n"
  by (simp add: unat_of_nat take_bit_nat_eq_self)

lemma unat_u16_less: "unat (x :: u16) < 65536"
proof -
  have "unat x < 2 ^ LENGTH(16)" by (rule unsigned_less)
  then show ?thesis by simp
qed

lemma unat_ucast_u16 [simp]: "unat (ucast (x :: u16) :: u32) = unat x"
  using unat_u16_less [of x] by (simp add: unsigned_ucast_eq take_bit_nat_eq_self)

lemma unat_ucast_u8 [simp]: "unat (ucast (x :: u8) :: u32) = unat x"
proof -
  have "unat x < 2 ^ LENGTH(8)" by (rule unsigned_less)
  then show ?thesis by (simp add: unsigned_ucast_eq take_bit_nat_eq_self)
qed

end
