(* ===== verification/KernelTypes.thy ===== *)
theory KernelTypes
  imports Prelude
begin

text \<open>
  Byte-wise memory access of \<open>src/Kernel/KernelFunctions.cpp\<close> and the offsets of
  \<open>src/Kernel/kernelConsts.h\<close>.  A buffer is a list of bytes; an address inside of it is an
  offset.  The lemmas are the round trips of the accessors and their independence at
  disjoint offsets, collected in \<open>mem_simps\<close>.
\<close>

unbundle bit_operations_syntax

named_theorems mem_simps "reads after writes of a byte list"

subsection \<open>KernelFunctions.cpp\<close>

definition SetByte :: "u8 list \<Rightarrow> nat \<Rightarrow> u8 \<Rightarrow> u8 list" where
  "SetByte bs off v = bs[off := v]"

definition SetUint16 :: "u8 list \<Rightarrow> nat \<Rightarrow> u16 \<Rightarrow> u8 list" where
  "SetUint16 bs off v = bs[off := ucast v, off + 1 := ucast (drop_bit 8 v)]"

definition SetUint32 :: "u8 list \<Rightarrow> nat \<Rightarrow> u32 \<Rightarrow> u8 list" where
  "SetUint32 bs off v =
     bs[off := ucast v, off + 1 := ucast (drop_bit 8 v),
        off + 2 := ucast (drop_bit 16 v), off + 3 := ucast (drop_bit 24 v)]"

definition GetUint16 :: "u8 list \<Rightarrow> nat \<Rightarrow> u16" where
  "GetUint16 bs off =
     (let tmp = ucast (bs ! (off + 1)); tmp = push_bit 8 tmp
      in tmp OR ucast (bs ! off))"

definition GetUint32 :: "u8 list \<Rightarrow> nat \<Rightarrow> u32" where
  "GetUint32 bs off =
     (let tmp = ucast (bs ! (off + 3)); tmp = push_bit 8 tmp;
          tmp = tmp OR ucast (bs ! (off + 2)); tmp = push_bit 8 tmp;
          tmp = tmp OR ucast (bs ! (off + 1)); tmp = push_bit 8 tmp
      in tmp OR ucast (bs ! off))"

subsection \<open>kernelConsts.h\<close>

definition DISCARDED :: u16 where "DISCARDED = 0x7FFF"

definition MSG_FROM_AUTOMATE :: nat where "MSG_FROM_AUTOMATE = 0"
definition MSG_FROM_GROUP :: nat where "MSG_FROM_GROUP = 1"
definition MSG_TO_AUTOMATE :: nat where "MSG_TO_AUTOMATE = 2"
definition MSG_TO_GROUP :: nat where "MSG_TO_GROUP = 3"
definition MSG_CODE :: nat where "MSG_CODE = 4"
definition MSG_OBJECT_ID_FROM :: nat where "MSG_OBJECT_ID_FROM = 6"
definition MSG_OBJECT_ID_TO :: nat where "MSG_OBJECT_ID_TO = 10"
definition CALL_ID :: nat where "CALL_ID = 14"
definition MSG_INFO_CODING :: nat where "MSG_INFO_CODING = 18"
definition MSG_LENGTH :: nat where "MSG_LENGTH = 19"
definition MSG_INFO :: nat where "MSG_INFO = 21"
definition MSG_HEADER_LENGTH :: nat where "MSG_HEADER_LENGTH = 21"
definition TIMER_MBX_ID :: nat where "TIMER_MBX_ID = MSG_FROM_GROUP"
definition TIMER_COUNT :: nat where "TIMER_COUNT = MSG_OBJECT_ID_FROM"
definition TIMER :: u8 where "TIMER = 0"
definition INVALID_08 :: u8 where "INVALID_08 = 0xff"
definition INVALID_16 :: u16 where "INVALID_16 = 0xffff"
definition INVALID_32 :: u32 where "INVALID_32 = 0xffffffff"
definition MAX_BUFF_CLASS_NO :: nat where "MAX_BUFF_CLASS_NO = 32"

text \<open>One byte for \<open>BUFF_CODE\<close> and two 32-bit pointers in front of every buffer.\<close>

definition BUFF_HEADER_LENGTH :: u32 where "BUFF_HEADER_LENGTH = 1 + 4 + 4"

lemmas offset_defs = MSG_FROM_AUTOMATE_def MSG_FROM_GROUP_def MSG_TO_AUTOMATE_def
  MSG_TO_GROUP_def MSG_CODE_def MSG_OBJECT_ID_FROM_def MSG_OBJECT_ID_TO_def CALL_ID_def
  MSG_INFO_CODING_def MSG_LENGTH_def MSG_INFO_def MSG_HEADER_LENGTH_def TIMER_MBX_ID_def
  TIMER_COUNT_def

subsection \<open>Round trips\<close>

lemma length_Set [simp]:
  "length (SetByte bs off b) = length bs"
  "length (SetUint16 bs off v) = length bs"
  "length (SetUint32 bs off w) = length bs"
  by (simp_all add: SetByte_def SetUint16_def SetUint32_def)

lemma ucast_bytes16: "push_bit 8 (ucast (ucast (drop_bit 8 v) :: u8)) OR ucast (ucast v :: u8) = (v :: u16)"
  by (rule bit_word_eqI)
    (auto simp: bit_or_iff bit_push_bit_iff bit_ucast_iff bit_drop_bit_eq)

lemma ucast_bytes32:
  "((push_bit 24 (ucast (ucast (drop_bit 24 v) :: u8)) OR
      push_bit 16 (ucast (ucast (drop_bit 16 v) :: u8))) OR
      push_bit 8 (ucast (ucast (drop_bit 8 v) :: u8))) OR
      ucast (ucast v :: u8) = (v :: u32)"
  (is "?x = v")
proof (rule bit_word_eqI)
  fix n assume "n < LENGTH(32)"
  then have "n < 8 \<or> (8 \<le> n \<and> n < 16) \<or> (16 \<le> n \<and> n < 24) \<or> (24 \<le> n \<and> n < 32)"
    by simp arith
  then show "bit ?x n = bit v n"
    by (elim disjE conjE; auto simp: bit_simps)
qed

lemma Get_Set16 [mem_simps]: "off + 1 < length bs \<Longrightarrow> GetUint16 (SetUint16 bs off v) off = v"
  by (simp add: GetUint16_def SetUint16_def Let_def ucast_bytes16)

lemma Get_Set32 [mem_simps]: "off + 3 < length bs \<Longrightarrow> GetUint32 (SetUint32 bs off v) off = v"
  by (simp add: GetUint32_def SetUint32_def Let_def ucast_bytes32)

lemma Get16_frame [mem_simps]:
  "j + 1 < i \<or> i < j \<Longrightarrow> GetUint16 (SetByte bs i b) j = GetUint16 bs j"
  "j + 1 < i \<or> i + 1 < j \<Longrightarrow> GetUint16 (SetUint16 bs i v) j = GetUint16 bs j"
  "j + 1 < i \<or> i + 3 < j \<Longrightarrow> GetUint16 (SetUint32 bs i w) j = GetUint16 bs j"
  by (auto simp: GetUint16_def SetByte_def SetUint16_def SetUint32_def Let_def nth_list_update)

lemma Get32_frame [mem_simps]:
  "j + 3 < i \<or> i < j \<Longrightarrow> GetUint32 (SetByte bs i b) j = GetUint32 bs j"
  "j + 3 < i \<or> i + 1 < j \<Longrightarrow> GetUint32 (SetUint16 bs i v) j = GetUint32 bs j"
  "j + 3 < i \<or> i + 3 < j \<Longrightarrow> GetUint32 (SetUint32 bs i w) j = GetUint32 bs j"
  by (auto simp: GetUint32_def SetByte_def SetUint16_def SetUint32_def Let_def nth_list_update)

lemma nth_frame [mem_simps]:
  "j \<noteq> i \<Longrightarrow> SetByte bs i b ! j = bs ! j"
  "j < i \<or> i + 1 < j \<Longrightarrow> SetUint16 bs i v ! j = bs ! j"
  "j < i \<or> i + 3 < j \<Longrightarrow> SetUint32 bs i w ! j = bs ! j"
  "i < length bs \<Longrightarrow> SetByte bs i b ! i = b"
  by (auto simp: SetByte_def SetUint16_def SetUint32_def nth_list_update)

text \<open>Little-endian encodings, the value a reader sees at a given place of a list.\<close>

definition le16 :: "u16 \<Rightarrow> u8 list" where
  "le16 v = [ucast v, ucast (drop_bit 8 v)]"

lemma length_le16 [simp]: "length (le16 v) = 2"
  by (simp add: le16_def)

lemma Get16_le16 [simp]: "GetUint16 (le16 v @ bs) 0 = v"
  by (simp add: GetUint16_def le16_def Let_def ucast_bytes16)

lemma Get16_append: "GetUint16 (xs @ ys) (length xs + k) = GetUint16 ys k"
  by (simp add: GetUint16_def nth_append)

lemma Get16_at: "off = length xs \<Longrightarrow> GetUint16 (xs @ le16 v @ ys) off = v"
  using Get16_append [of xs "le16 v @ ys" 0] by simp

lemma Set16_split:
  assumes "length ys = 2" and "off = length xs"
  shows "SetUint16 (xs @ ys @ zs) off v = xs @ le16 v @ zs"
proof -
  from assms(1) obtain a b where "ys = [a, b]"
    by (auto simp: length_Suc_conv numeral_2_eq_2)
  with assms(2) show ?thesis
    by (simp add: SetUint16_def le16_def list_update_append)
qed

end
