(* ===== verification/KHeap.thy ===== *)
theory KHeap
  imports KernelTypes
begin

text \<open>
  The memory of the kernel buffers and the linked lists threaded through it.  Every buffer
  carries, in front of its bytes, the code of its queue (\<open>BUFF_CODE\<close>) and two pointers
  (\<open>BUFF_PREV\<close>, \<open>BUFF_NEXT\<close>); the model keeps one map per field.  The free queues, the
  mailboxes and the timer list are all chained by \<open>BUFF_NEXT\<close>, so a buffer can be in one list
  only: the abstraction \<open>lq\<close> relates a head and a tail pointer to the list of the addresses,
  and its frame lemma says which writes leave a list alone.
\<close>

record mem =
  m_next :: "addr \<Rightarrow> ptr"
  m_prev :: "addr \<Rightarrow> ptr"
  m_code :: "addr \<Rightarrow> u8"
  m_data :: "addr \<Rightarrow> u8 list"
  m_top  :: nat

definition SetNext :: "addr \<Rightarrow> ptr \<Rightarrow> mem \<Rightarrow> mem" where
  "SetNext a p m = m\<lparr>m_next := (m_next m)(a := p)\<rparr>"

definition SetPrev :: "addr \<Rightarrow> ptr \<Rightarrow> mem \<Rightarrow> mem" where
  "SetPrev a p m = m\<lparr>m_prev := (m_prev m)(a := p)\<rparr>"

definition SetCode :: "addr \<Rightarrow> u8 \<Rightarrow> mem \<Rightarrow> mem" where
  "SetCode a c m = m\<lparr>m_code := (m_code m)(a := c)\<rparr>"

definition SetData :: "addr \<Rightarrow> u8 list \<Rightarrow> mem \<Rightarrow> mem" where
  "SetData a bs m = m\<lparr>m_data := (m_data m)(a := bs)\<rparr>"

lemma mem_sel [simp]:
  "m_next (SetNext a p m) = (m_next m)(a := p)" "m_prev (SetNext a p m) = m_prev m"
  "m_code (SetNext a p m) = m_code m" "m_data (SetNext a p m) = m_data m"
  "m_top (SetNext a p m) = m_top m"
  "m_next (SetPrev a p m) = m_next m" "m_prev (SetPrev a p m) = (m_prev m)(a := p)"
  "m_code (SetPrev a p m) = m_code m" "m_data (SetPrev a p m) = m_data m"
  "m_top (SetPrev a p m) = m_top m"
  "m_next (SetCode a c m) = m_next m" "m_prev (SetCode a c m) = m_prev m"
  "m_code (SetCode a c m) = (m_code m)(a := c)" "m_data (SetCode a c m) = m_data m"
  "m_top (SetCode a c m) = m_top m"
  "m_next (SetData a bs m) = m_next m" "m_prev (SetData a bs m) = m_prev m"
  "m_code (SetData a bs m) = m_code m" "m_data (SetData a bs m) = (m_data m)(a := bs)"
  "m_top (SetData a bs m) = m_top m"
  by (simp_all add: SetNext_def SetPrev_def SetCode_def SetData_def)

text \<open>\<open>in_buff m a n x\<close> is \<open>x\<close>, an access to the first \<open>n\<close> bytes of the buffer \<open>a\<close>.\<close>

definition in_buff :: "mem \<Rightarrow> addr \<Rightarrow> nat \<Rightarrow> 'a result \<Rightarrow> 'a result" where
  "in_buff m a n x = (if n \<le> length (m_data m a) then x else Inl OutOfBounds)"

lemma in_buff_ok [simp]: "n \<le> length (m_data m a) \<Longrightarrow> in_buff m a n x = x"
  by (simp add: in_buff_def)

lemma in_buff_Inr: "in_buff m a n x = Inr y \<longleftrightarrow> n \<le> length (m_data m a) \<and> x = Inr y"
  by (simp add: in_buff_def)

subsection \<open>Chains\<close>

fun chain :: "(addr \<Rightarrow> ptr) \<Rightarrow> ptr \<Rightarrow> addr list \<Rightarrow> bool" where
  "chain nx p [] \<longleftrightarrow> p = None"
| "chain nx p (a # as) \<longleftrightarrow> p = Some a \<and> chain nx (nx a) as"

lemma chain_cong:
  "(\<And>a. a \<in> set as \<Longrightarrow> nx' a = nx a) \<Longrightarrow> chain nx' p as = chain nx p as"
  by (induction as arbitrary: p) auto

lemma chain_upd [simp]: "a \<notin> set as \<Longrightarrow> chain (nx(a := q)) p as = chain nx p as"
  by (rule chain_cong) auto

lemma chain_None [simp]: "chain nx None as \<longleftrightarrow> as = []"
  by (cases as) auto

lemma chain_unique: "chain nx p as \<Longrightarrow> chain nx p bs \<Longrightarrow> as = bs"
  by (induction as arbitrary: p bs) (auto, case_tac bs, auto)

lemma chain_snoc:
  "chain nx p (as @ [b]) \<Longrightarrow> b \<notin> set as \<Longrightarrow> a \<noteq> b \<Longrightarrow> a \<notin> set as \<Longrightarrow>
   chain (nx(a := None, b := Some a)) p (as @ [b, a])"
  by (induction as arbitrary: p) auto

lemma chain_last: "chain nx p (as @ [b]) \<Longrightarrow> nx b = None"
  by (induction as arbitrary: p) auto

subsection \<open>Lists with a head and a tail pointer\<close>

definition lq :: "(addr \<Rightarrow> ptr) \<Rightarrow> ptr \<Rightarrow> ptr \<Rightarrow> addr list \<Rightarrow> bool" where
  "lq nx h t as \<longleftrightarrow> chain nx h as \<and> distinct as \<and> t = (if as = [] then None else Some (last as))"

lemma lq_Nil [simp]: "lq nx h t [] \<longleftrightarrow> h = None \<and> t = None"
  by (auto simp: lq_def)

lemma lq_empty_iff: "lq nx h t as \<Longrightarrow> h = None \<longleftrightarrow> as = []"
  by (cases as) (auto simp: lq_def)

lemma lq_tail_iff: "lq nx h t as \<Longrightarrow> t = None \<longleftrightarrow> as = []"
  by (auto simp: lq_def)

lemma lq_cong:
  "(\<And>a. a \<in> set as \<Longrightarrow> nx' a = nx a) \<Longrightarrow> lq nx' h t as = lq nx h t as"
  using chain_cong [of as nx' nx h] by (simp add: lq_def)

lemma lq_unique: "lq nx h t as \<Longrightarrow> lq nx h t bs \<Longrightarrow> as = bs"
  by (auto simp: lq_def intro: chain_unique)

lemma lq_put_empty: "lq (nx(a := None)) (Some a) (Some a) [a]"
  by (simp add: lq_def)

lemma lq_put:
  assumes "lq nx h (Some b) as" and "a \<notin> set as"
  shows "lq (nx(a := None, b := Some a)) h (Some a) (as @ [a])"
proof -
  from assms(1) have "as \<noteq> []" and b: "b = last as"
    by (auto simp: lq_def split: if_splits)
  then obtain bs where as: "as = bs @ [b]"
    by (metis append_butlast_last_id)
  with assms show ?thesis
    using chain_snoc [of nx h bs b a] by (auto simp: lq_def)
qed

lemma lq_get:
  assumes "lq nx h t (a # as)"
  shows "h = Some a" and "lq nx (nx a) (if nx a = None then None else t) as"
    and "nx a = None \<longleftrightarrow> as = []"
proof -
  from assms show "h = Some a" by (simp add: lq_def)
  from assms have "chain nx (nx a) as" by (simp add: lq_def)
  then show nx: "nx a = None \<longleftrightarrow> as = []" by (cases as) auto
  with assms show "lq nx (nx a) (if nx a = None then None else t) as"
    by (auto simp: lq_def split: if_splits)
qed

subsection \<open>The contract of a FIFO list\<close>

text \<open>
  \<open>TBufferQue\<close>, \<open>TMailBox\<close> and \<open>FSMList\<close> all promise a first-in first-out list.  The contract
  is relational: \<open>content s as\<close> says that the state \<open>s\<close> holds the elements \<open>as\<close>, the oldest
  first.  \<open>put_all\<close> and \<open>get_all\<close> are the runs that the contract speaks about.
\<close>

definition put_all :: "('s \<Rightarrow> 'x \<Rightarrow> 's) \<Rightarrow> 's \<Rightarrow> 'x list \<Rightarrow> 's" where
  "put_all put s as = fold (\<lambda>a s. put s a) as s"

fun get_all :: "('s \<Rightarrow> 'x option \<times> 's) \<Rightarrow> nat \<Rightarrow> 's \<Rightarrow> 'x option list" where
  "get_all get 0 s = []"
| "get_all get (Suc n) s = fst (get s) # get_all get n (snd (get s))"

locale fifo_list =
  fixes put :: "'s \<Rightarrow> 'x \<Rightarrow> 's"
    and get :: "'s \<Rightarrow> 'x option \<times> 's"
    and content :: "'s \<Rightarrow> 'x list \<Rightarrow> bool"
  assumes put: "content s as \<Longrightarrow> a \<notin> set as \<Longrightarrow> content (put s a) (as @ [a])"
    and get_Nil: "content s [] \<Longrightarrow> fst (get s) = None \<and> content (snd (get s)) []"
    and get_Cons: "content s (a # as) \<Longrightarrow> fst (get s) = Some a \<and> content (snd (get s)) as"
begin

lemma content_put_all:
  "content s as \<Longrightarrow> distinct (as @ bs) \<Longrightarrow> content (put_all put s bs) (as @ bs)"
proof (induction bs arbitrary: s as)
  case Nil
  then show ?case by (simp add: put_all_def)
next
  case (Cons b bs)
  from Cons.prems have "content (put s b) (as @ [b])" by (auto intro: put)
  from Cons.IH [OF this] Cons.prems(2) show ?case by (simp add: put_all_def)
qed

lemma get_all_content:
  "content s as \<Longrightarrow> get_all get n s = map Some (take n as) @ replicate (n - length as) None"
proof (induction n arbitrary: s as)
  case 0
  then show ?case by simp
next
  case (Suc n)
  show ?case
  proof (cases as)
    case Nil
    with Suc.prems get_Nil [of s] have "fst (get s) = None" "content (snd (get s)) []" by auto
    with Suc.IH [of "snd (get s)" "[]"] Nil show ?thesis by simp
  next
    case (Cons a bs)
    with Suc.prems get_Cons [of s a bs] have "fst (get s) = Some a" "content (snd (get s)) bs"
      by auto
    with Suc.IH [of "snd (get s)" bs] Cons show ?thesis by simp
  qed
qed

lemma fifo_order:
  assumes "content s as" and "distinct (as @ bs)" and "n = length as + length bs"
  shows "get_all get n (put_all put s bs) = map Some (as @ bs)"
  using get_all_content [OF content_put_all [OF assms(1,2)], of n] assms(3) by simp

end

end
