(* ===== verification/BufferQueue.thy ===== *)
theory BufferQueue
  imports KHeap
begin

text \<open>
  \<open>TBufferQue\<close> (\<open>src/Kernel/buffersQueue.h\<close>, \<open>buffersQueue.cpp\<close>): a queue of free buffers of
  one length.  The critical section of the queue is the number of times the running thread
  has entered it and not left it (WIN32 critical sections are recursive).
\<close>

record bqueue =
  bq_Head :: ptr
  bq_Tail :: ptr
  FreeBufferCount :: u32
  BuffersInitiated :: u32
  CsBuffer :: nat

type_synonym bq_state = "mem \<times> bqueue"

definition LockBuff :: "bqueue \<Rightarrow> bqueue" where
  "LockBuff q = q\<lparr>CsBuffer := CsBuffer q + 1\<rparr>"

definition UnlockBuff :: "bqueue \<Rightarrow> bqueue" where
  "UnlockBuff q = q\<lparr>CsBuffer := CsBuffer q - 1\<rparr>"

definition bq_GetFromHead :: "bq_state \<Rightarrow> ptr \<times> bq_state" where
  "bq_GetFromHead = (\<lambda>(m, q).
     let q = LockBuff q in
     case bq_Head q of
       None \<Rightarrow> (None, m, q)
     | Some info \<Rightarrow>
         let q = q\<lparr>bq_Head := m_next m info\<rparr>;
             q = (if bq_Head q = None then q\<lparr>bq_Tail := None\<rparr> else q);
             q = q\<lparr>FreeBufferCount := FreeBufferCount q - 1\<rparr>
         in (Some info, m, UnlockBuff q))"

definition bq_PutOnTail :: "bq_state \<Rightarrow> addr \<Rightarrow> bq_state" where
  "bq_PutOnTail = (\<lambda>(m, q) info.
     let m = SetNext info None m;
         q = LockBuff q;
         (m, q) = (case bq_Tail q of
             None \<Rightarrow> (m, q\<lparr>bq_Head := Some info\<rparr>)
           | Some t \<Rightarrow> (SetNext t (Some info) m, q));
         q = q\<lparr>bq_Tail := Some info\<rparr>;
         q = q\<lparr>FreeBufferCount := FreeBufferCount q + 1\<rparr>
     in (m, UnlockBuff q))"

definition bq_Add :: "bool \<Rightarrow> bq_state \<Rightarrow> ptr \<Rightarrow> bq_state result" where
  "bq_Add nd s info = assertC nd (info \<noteq> None) (deref info (\<lambda>a. Inr (bq_PutOnTail s a)))"

definition bq_Get :: "bool \<Rightarrow> bq_state \<Rightarrow> (ptr \<times> bq_state) result" where
  "bq_Get nd s = (let (info, s) = bq_GetFromHead s in assertC nd (info \<noteq> None) (Inr (info, s)))"

definition bq_IsEmpty :: "bqueue \<Rightarrow> bool \<times> bqueue" where
  "bq_IsEmpty q =
     (let q = LockBuff q; retValue = (FreeBufferCount q = 0) in (retValue, UnlockBuff q))"

definition bq_GetAvailable :: "bqueue \<Rightarrow> u32" where
  "bq_GetAvailable q = FreeBufferCount q"

text \<open>
  The constructor cuts \<open>buffersNo\<close> buffers of \<open>bufferLength\<close> bytes out of one array of
  \<open>memSize\<close> bytes.  \<open>memSize\<close> is computed on 32 bits: when the product wraps around, the array
  is too short and the loop writes behind it.  \<open>m_top\<close> is the first address not yet handed out
  by \<open>new\<close>; the content of new memory is arbitrary, \<open>junk\<close> is what it holds.
\<close>

definition bq_init_buffer :: "u32 \<Rightarrow> u8 \<Rightarrow> (addr \<Rightarrow> u8 list) \<Rightarrow> bq_state \<Rightarrow> bq_state" where
  "bq_init_buffer bufferLength bufferCode junk = (\<lambda>(m, q).
     let tmp = m_top m;
         m = m\<lparr>m_top := m_top m + 1\<rparr>;
         m = SetData tmp (take (unat bufferLength) (junk tmp @ replicate (unat bufferLength) 0)) m;
         m = SetCode tmp bufferCode m;
         m = SetPrev tmp None m;
         m = SetNext tmp None m
     in bq_PutOnTail (m, q) tmp)"

fun bq_init_loop :: "nat \<Rightarrow> u32 \<Rightarrow> u8 \<Rightarrow> (addr \<Rightarrow> u8 list) \<Rightarrow> bq_state \<Rightarrow> bq_state" where
  "bq_init_loop 0 len c junk s = s"
| "bq_init_loop (Suc n) len c junk s = bq_init_loop n len c junk (bq_init_buffer len c junk s)"

definition TBufferQue :: "u32 \<Rightarrow> u32 \<Rightarrow> u8 \<Rightarrow> (addr \<Rightarrow> u8 list) \<Rightarrow> mem \<Rightarrow> bq_state result" where
  "TBufferQue buffersNo bufferLength bufferCode junk m =
     checkC (buffersNo = 0) 0x01010500
     (checkC (bufferLength = 0) 0x01010501
     (let memSize = bufferLength + BUFF_HEADER_LENGTH;
          memSize = memSize * buffersNo;
          q = \<lparr>bq_Head = None, bq_Tail = None, FreeBufferCount = 0,
               BuffersInitiated = buffersNo, CsBuffer = 0\<rparr>
      in if unat memSize < (unat bufferLength + unat BUFF_HEADER_LENGTH) * unat buffersNo
         then Inl OutOfBounds
         else Inr (bq_init_loop (unat buffersNo) bufferLength bufferCode junk (m, q))))"

text \<open>The destructor only checks that every buffer has come back.\<close>

definition bq_destructor :: "bool \<Rightarrow> bqueue \<Rightarrow> unit result" where
  "bq_destructor nd q = assertC nd (FreeBufferCount q = BuffersInitiated q) (Inr ())"

subsection \<open>Abstraction to a list of buffers\<close>

definition bq_content :: "bq_state \<Rightarrow> addr list \<Rightarrow> bool" where
  "bq_content = (\<lambda>(m, q) as.
     lq (m_next m) (bq_Head q) (bq_Tail q) as \<and> FreeBufferCount q = of_nat (length as))"

lemma bq_content_cong:
  "(\<And>a. a \<in> set as \<Longrightarrow> m_next m' a = m_next m a) \<Longrightarrow> bq_content (m', q) as = bq_content (m, q) as"
  using lq_cong [of as "m_next m'" "m_next m"] by (simp add: bq_content_def)

lemma bq_PutOnTail_content:
  assumes "bq_content (m, q) as" and "a \<notin> set as"
  shows "bq_content (bq_PutOnTail (m, q) a) (as @ [a])"
proof (cases "bq_Tail q")
  case None
  with assms have "as = []" by (auto simp: bq_content_def dest: lq_tail_iff)
  with assms None show ?thesis
    by (simp add: bq_content_def bq_PutOnTail_def LockBuff_def UnlockBuff_def lq_def)
next
  case (Some b)
  with assms have "lq ((m_next m)(a := None, b := Some a)) (bq_Head q) (Some a) (as @ [a])"
    by (auto simp: bq_content_def intro: lq_put)
  with assms Some show ?thesis
    by (simp add: bq_content_def bq_PutOnTail_def LockBuff_def UnlockBuff_def)
qed

lemma bq_GetFromHead_empty:
  "bq_content (m, q) [] \<Longrightarrow> bq_GetFromHead (m, q) = (None, m, LockBuff q)"
  by (simp add: bq_content_def bq_GetFromHead_def LockBuff_def)

lemma bq_GetFromHead_cons:
  assumes "bq_content (m, q) (a # as)"
  shows "\<exists>q'. bq_GetFromHead (m, q) = (Some a, m, q') \<and> bq_content (m, q') as \<and>
    CsBuffer q' = CsBuffer q \<and> BuffersInitiated q' = BuffersInitiated q"
  using assms lq_get [of "m_next m" "bq_Head q" "bq_Tail q" a as]
  by (auto simp: bq_content_def bq_GetFromHead_def LockBuff_def UnlockBuff_def Let_def)

lemma bq_PutOnTail_frame:
  "bq_PutOnTail (m, q) a = (m', q') \<Longrightarrow>
     CsBuffer q' = CsBuffer q \<and> BuffersInitiated q' = BuffersInitiated q \<and>
     m_data m' = m_data m \<and> m_code m' = m_code m \<and> m_top m' = m_top m \<and> m_prev m' = m_prev m"
  by (auto simp: bq_PutOnTail_def LockBuff_def UnlockBuff_def Let_def split: option.splits)

lemma bq_PutOnTail_next:
  assumes "bq_content (m, q) as" and "bq_PutOnTail (m, q) a = (m', q')" and "b \<noteq> a" and "b \<notin> set as"
  shows "m_next m' b = m_next m b"
  using assms by (auto simp: bq_PutOnTail_def LockBuff_def UnlockBuff_def Let_def bq_content_def
      lq_def split: option.splits if_splits)

subsection \<open>The constructor\<close>

lemma bq_init_buffer_content:
  assumes "bq_content (m, q) as" and "\<forall>a\<in>set as. a < m_top m"
    and "bq_init_buffer len c junk (m, q) = (m', q')"
  shows "bq_content (m', q') (as @ [m_top m]) \<and> m_top m' = m_top m + 1 \<and>
    CsBuffer q' = CsBuffer q \<and> BuffersInitiated q' = BuffersInitiated q \<and>
    m_code m' = (m_code m)(m_top m := c) \<and>
    (\<exists>bs. length bs = unat len \<and> m_data m' = (m_data m)(m_top m := bs)) \<and>
    (\<forall>b. b < m_top m \<longrightarrow> b \<notin> set as \<longrightarrow> m_next m' b = m_next m b)"
proof -
  let ?a = "m_top m"
  define bs where "bs = take (unat len) (junk ?a @ replicate (unat len) (0 :: u8))"
  define m1 where "m1 = SetNext ?a None (SetPrev ?a None (SetCode ?a c
    (SetData ?a bs (m\<lparr>m_top := m_top m + 1\<rparr>))))"
  have a: "?a \<notin> set as" using assms(2) by auto
  have c1: "bq_content (m1, q) as"
  proof (rule bq_content_cong [THEN iffD2, OF _ assms(1)])
    fix b assume "b \<in> set as"
    with a show "m_next m1 b = m_next m b" by (auto simp: m1_def)
  qed
  have step: "bq_PutOnTail (m1, q) ?a = (m', q')"
    using assms(3) by (simp add: bq_init_buffer_def m1_def bs_def Let_def)
  have "length bs = unat len" by (simp add: bs_def)
  moreover have "bq_content (m', q') (as @ [?a])"
    using bq_PutOnTail_content [OF c1 a] step by simp
  moreover have "\<forall>b. b < ?a \<longrightarrow> b \<notin> set as \<longrightarrow> m_next m' b = m_next m b"
    using bq_PutOnTail_next [OF c1 step] by (auto simp: m1_def)
  ultimately show ?thesis
    using bq_PutOnTail_frame [OF step] by (auto simp: m1_def)
qed

lemma bq_init_loop_content:
  assumes "bq_content (m, q) as" and "\<forall>a\<in>set as. a < m_top m"
    and "bq_init_loop n len c junk (m, q) = (m', q')"
  shows "bq_content (m', q') (as @ [m_top m ..< m_top m + n]) \<and> m_top m' = m_top m + n \<and>
    CsBuffer q' = CsBuffer q \<and> BuffersInitiated q' = BuffersInitiated q \<and>
    (\<forall>b. m_top m \<le> b \<longrightarrow> b < m_top m + n \<longrightarrow> m_code m' b = c \<and> length (m_data m' b) = unat len) \<and>
    (\<forall>b. b < m_top m \<longrightarrow> m_code m' b = m_code m b \<and> m_data m' b = m_data m b \<and>
       (b \<notin> set as \<longrightarrow> m_next m' b = m_next m b))"
  using assms
proof (induction n arbitrary: m q as)
  case 0
  then show ?case by simp
next
  case (Suc n)
  obtain m1 q1 where step: "bq_init_buffer len c junk (m, q) = (m1, q1)" by fastforce
  note s1 = bq_init_buffer_content [OF Suc.prems(1,2) step]
  from s1 have c1: "bq_content (m1, q1) (as @ [m_top m])" and t1: "m_top m1 = m_top m + 1"
    by simp_all
  have lt: "\<forall>a\<in>set (as @ [m_top m]). a < m_top m1"
    using Suc.prems(2) t1 by auto
  have rest: "bq_init_loop n len c junk (m1, q1) = (m', q')"
    using Suc.prems(3) step by simp
  note s2 = Suc.IH [OF c1 lt rest]
  have up: "as @ [m_top m] @ [m_top m1 ..< m_top m1 + n] = as @ [m_top m ..< m_top m + Suc n]"
    using t1 by (simp add: upt_conv_Cons)
  have "m_code m' b = c \<and> length (m_data m' b) = unat len" if "m_top m \<le> b" "b < m_top m + Suc n" for b
    using s1 s2 t1 that by (cases "b = m_top m") (auto simp: fun_upd_def)
  moreover have "m_code m' b = m_code m b \<and> m_data m' b = m_data m b \<and>
      (b \<notin> set as \<longrightarrow> m_next m' b = m_next m b)" if "b < m_top m" for b
    using s1 s2 t1 that by (auto simp: fun_upd_def)
  ultimately show ?case
    using s1 s2 t1 up by auto
qed

lemma TBufferQue_content:
  assumes "TBufferQue n len c junk m = Inr (m', q)"
  shows "bq_content (m', q) [m_top m ..< m_top m + unat n] \<and> m_top m' = m_top m + unat n \<and>
    CsBuffer q = 0 \<and> BuffersInitiated q = n \<and> len \<noteq> 0 \<and> n \<noteq> 0 \<and>
    (\<forall>b. m_top m \<le> b \<longrightarrow> b < m_top m + unat n \<longrightarrow>
       m_code m' b = c \<and> length (m_data m' b) = unat len) \<and>
    (\<forall>b. b < m_top m \<longrightarrow> m_code m' b = m_code m b \<and> m_data m' b = m_data m b \<and>
       m_next m' b = m_next m b)"
proof -
  let ?q = "\<lparr>bq_Head = None, bq_Tail = None, FreeBufferCount = 0, BuffersInitiated = n, CsBuffer = 0\<rparr>"
  have empty: "bq_content (m, ?q) []" by (simp add: bq_content_def)
  from assms have "bq_init_loop (unat n) len c junk (m, ?q) = (m', q)" and "len \<noteq> 0" "n \<noteq> 0"
    by (auto simp: TBufferQue_def Let_def checkC_Inr split: if_splits)
  with bq_init_loop_content [OF empty, of "unat n" len c junk m' q] show ?thesis
    by simp
qed

interpretation bq: fifo_list bq_PutOnTail bq_GetFromHead bq_content
proof unfold_locales
  fix s :: bq_state and as a
  obtain m q where s: "s = (m, q)" by (cases s) auto
  show "bq_content s as \<Longrightarrow> a \<notin> set as \<Longrightarrow> bq_content (bq_PutOnTail s a) (as @ [a])"
    using bq_PutOnTail_content s by simp
  show "bq_content s [] \<Longrightarrow> fst (bq_GetFromHead s) = None \<and> bq_content (snd (bq_GetFromHead s)) []"
    using s by (simp add: bq_GetFromHead_empty) (simp add: bq_content_def LockBuff_def)
  show "bq_content s (a # as) \<Longrightarrow>
      fst (bq_GetFromHead s) = Some a \<and> bq_content (snd (bq_GetFromHead s)) as"
    using bq_GetFromHead_cons [of m q a as] s by auto
qed

end
