(* ===== verification/Buffers.thy ===== *)
theory Buffers
  imports BufferQueue "HOL-Library.Multiset"
begin

text \<open>
  \<open>TBuffers\<close> (\<open>src/Kernel/buffers.h\<close>, \<open>buffers.cpp\<close>): the memory pool of the kernel, an array of
  buffer queues sorted by the length of their buffers.  \<open>GetBuffer\<close> takes a buffer out of the
  first queue whose buffers are long enough, \<open>RetBuffer\<close> puts a buffer back in the queue its
  \<open>BUFF_CODE\<close> names.  The invariant \<open>tb_content\<close> relates the pool to the list of the free buffers
  of every queue.
\<close>

record tbuffers =
  Queues :: "bqueue list"
  BuffersLength :: "u32 list"
  ClassBufferNum :: u8

type_synonym tb_state = "mem \<times> tbuffers"

subsection \<open>The constructor\<close>

text \<open>The exchange sort of \<open>buffersLength\<close> and, in step with it, of \<open>buffersCount\<close>.\<close>

definition swap_at :: "nat \<Rightarrow> nat \<Rightarrow> 'a list \<Rightarrow> 'a list" where
  "swap_at i j xs = xs[i := xs ! j, j := xs ! i]"

definition sort_body :: "nat \<Rightarrow> nat \<Rightarrow> u32 list \<times> u32 list \<Rightarrow> u32 list \<times> u32 list" where
  "sort_body i j = (\<lambda>(lens, counts).
     if lens ! i > lens ! j then (swap_at i j lens, swap_at i j counts) else (lens, counts))"

definition sort_inner :: "nat \<Rightarrow> nat \<Rightarrow> u32 list \<times> u32 list \<Rightarrow> u32 list \<times> u32 list" where
  "sort_inner n i s = fold (sort_body i) [i + 1 ..< n] s"

definition sort_classes :: "nat \<Rightarrow> u32 list \<times> u32 list \<Rightarrow> u32 list \<times> u32 list" where
  "sort_classes n s = fold (sort_inner n) [0 ..< n - 1] s"

fun make_queues ::
  "nat \<Rightarrow> u32 list \<Rightarrow> u32 list \<Rightarrow> (addr \<Rightarrow> u8 list) \<Rightarrow> mem \<Rightarrow> (mem \<times> bqueue list) result" where
  "make_queues i [] counts junk m = Inr (m, [])"
| "make_queues i (len # lens) counts junk m =
     bindR (TBufferQue (counts ! i) len (of_nat i) junk m) (\<lambda>(m, q).
     bindR (make_queues (i + 1) lens counts junk m) (\<lambda>(m, qs).
     Inr (m, q # qs)))"

definition TBuffers ::
  "u8 \<Rightarrow> u32 list option \<Rightarrow> u32 list option \<Rightarrow> (addr \<Rightarrow> u8 list) \<Rightarrow> mem \<Rightarrow> tb_state result" where
  "TBuffers classBufferNum buffersCount buffersLength junk m =
     checkC (classBufferNum = 0) 0x01010600
     (checkC (classBufferNum = 0xff) 0x01010600
     (checkC (unat classBufferNum > MAX_BUFF_CLASS_NO) 0x01010600
     (case buffersCount of None \<Rightarrow> Inl (Throw 0x01010601) | Some counts \<Rightarrow>
     (case buffersLength of None \<Rightarrow> Inl (Throw 0x01010602) | Some lens \<Rightarrow>
      let n = unat classBufferNum in
      if length lens < n \<or> length counts < n then Inl OutOfBounds
      else let (lens, counts) = sort_classes n (take n lens, take n counts) in
        bindR (make_queues 0 lens counts junk m) (\<lambda>(m, qs).
        Inr (m, \<lparr>Queues = qs,
                 BuffersLength = lens @ replicate (MAX_BUFF_CLASS_NO - n) 0,
                 ClassBufferNum = classBufferNum\<rparr>))))))"

subsection \<open>Getting and returning buffers\<close>

text \<open>\<open>for(i=0; (bufferLength > BuffersLength[i]) && (i < ClassBufferNum); i++)\<close>: the entry is read
  before the index is compared.\<close>

function find_class :: "u32 list \<Rightarrow> nat \<Rightarrow> u32 \<Rightarrow> nat \<Rightarrow> nat result" where
  "find_class lens n bufferLength i =
     (if i \<ge> length lens then Inl OutOfBounds
      else if bufferLength > lens ! i \<and> i < n then find_class lens n bufferLength (i + 1)
      else Inr i)"
  by pat_completeness auto
termination by (relation "measure (\<lambda>(lens, n, l, i). length lens - i)") auto

declare find_class.simps [simp del]

function take_buffer :: "bool \<Rightarrow> tb_state \<Rightarrow> nat \<Rightarrow> (addr \<times> tb_state) result" where
  "take_buffer nd (m, B) i =
     (if i \<ge> length (Queues B) then Inl NullDeref
      else bindR (bq_Get nd (m, Queues B ! i)) (\<lambda>(buff, m, q).
        let B = B\<lparr>Queues := (Queues B)[i := q]\<rparr> in
        case buff of
          Some a \<Rightarrow> Inr (a, m, B)
        | None \<Rightarrow>
            if i + 1 = unat (ClassBufferNum B) then Inl (Throw 0x21000604)
            else take_buffer nd (m, B) (i + 1)))"
  by pat_completeness auto
termination by (relation "measure (\<lambda>(nd, (m, B), i). length (Queues B) - i)") auto

declare take_buffer.simps [simp del]

definition GetBuffer :: "bool \<Rightarrow> u32 \<Rightarrow> tb_state \<Rightarrow> (addr \<times> tb_state) result" where
  "GetBuffer nd bufferLength = (\<lambda>(m, B).
     bindR (find_class (BuffersLength B) (unat (ClassBufferNum B)) bufferLength 0) (\<lambda>i.
     checkC (i = unat (ClassBufferNum B)) 0x21000604
     (take_buffer nd (m, B) i)))"

definition RetBuffer :: "bool \<Rightarrow> ptr \<Rightarrow> tb_state \<Rightarrow> tb_state result" where
  "RetBuffer nd info = (\<lambda>(m, B).
     checkC (info = None) 0x21000605
     (deref info (\<lambda>a.
     checkC (m_code m a \<ge> ClassBufferNum B) 0x21050609
     (let i = unat (m_code m a) in
      bindR (bq_Add nd (m, Queues B ! i) info) (\<lambda>(m, q).
      Inr (m, B\<lparr>Queues := (Queues B)[i := q]\<rparr>))))))"

definition GetLength_class :: "u8 \<Rightarrow> tbuffers \<Rightarrow> u32 result" where
  "GetLength_class data B =
     checkC (data \<ge> ClassBufferNum B) 0x21050607 (Inr (BuffersLength B ! unat data))"

definition GetLength_buff :: "ptr \<Rightarrow> tb_state \<Rightarrow> u32 result" where
  "GetLength_buff info = (\<lambda>(m, B).
     checkC (info = None) 0x21050608
     (deref info (\<lambda>a.
     checkC (m_code m a \<ge> ClassBufferNum B) 0x21050609
     (Inr (BuffersLength B ! unat (m_code m a))))))"

fun tb_destructor :: "bool \<Rightarrow> bqueue list \<Rightarrow> unit result" where
  "tb_destructor nd [] = Inr ()"
| "tb_destructor nd (q # qs) = bindR (bq_destructor nd q) (\<lambda>_. tb_destructor nd qs)"

subsection \<open>The sort is a sort\<close>

lemma length_swap_at [simp]: "length (swap_at i j xs) = length xs"
  by (simp add: swap_at_def)

lemma swap_at_nth:
  "i < length xs \<Longrightarrow> j < length xs \<Longrightarrow> k < length xs \<Longrightarrow>
   swap_at i j xs ! k = (if k = j then xs ! i else if k = i then xs ! j else xs ! k)"
  by (auto simp: swap_at_def nth_list_update)

lemma zip_swap_at:
  "length xs = length ys \<Longrightarrow> i < length xs \<Longrightarrow> j < length xs \<Longrightarrow>
   zip (swap_at i j xs) (swap_at i j ys) = swap_at i j (zip xs ys)"
  by (auto simp: swap_at_def zip_update)

lemma mset_swap_at: "i < length xs \<Longrightarrow> j < length xs \<Longrightarrow> mset (swap_at i j xs) = mset xs"
  by (simp add: swap_at_def mset_swap)

text \<open>What the two loops keep: the lengths of the lists and the pairs (length, count).\<close>

definition same_classes :: "nat \<Rightarrow> u32 list \<times> u32 list \<Rightarrow> u32 list \<times> u32 list \<Rightarrow> bool" where
  "same_classes n s t \<longleftrightarrow> length (fst t) = n \<and> length (snd t) = n \<and>
     mset (zip (fst t) (snd t)) = mset (zip (fst s) (snd s))"

text \<open>Position \<open>i\<close> holds the least length of the positions \<open>i ..< j\<close>, positions before \<open>i\<close> hold
  what they held, and the lengths from \<open>i\<close> on are the same ones.\<close>

lemma sort_body_step:
  assumes "length (fst s) = n" "length (snd s) = n" "i < j" "j < n"
  shows "same_classes n s (sort_body i j s) \<and>
    (\<forall>k < i. fst (sort_body i j s) ! k = fst s ! k) \<and>
    fst (sort_body i j s) ! i = min (fst s ! i) (fst s ! j) \<and>
    (\<forall>k. i < k \<longrightarrow> k < n \<longrightarrow> k \<noteq> j \<longrightarrow> fst (sort_body i j s) ! k = fst s ! k) \<and>
    fst (sort_body i j s) ! j = max (fst s ! i) (fst s ! j)"
  using assms
  by (cases s) (auto simp: sort_body_def same_classes_def zip_swap_at mset_swap_at swap_at_nth
      min_def max_def)

lemma sort_inner_upto:
  assumes "length (fst s) = n" "length (snd s) = n" "i < n" "i + 1 \<le> j" "j \<le> n"
    and t: "t = fold (sort_body i) [i + 1 ..< j] s"
  shows "same_classes n s t \<and> (\<forall>k < i. fst t ! k = fst s ! k) \<and>
    (\<forall>k. i \<le> k \<longrightarrow> k < j \<longrightarrow> fst t ! i \<le> fst t ! k) \<and>
    (\<forall>k. j \<le> k \<longrightarrow> k < n \<longrightarrow> fst t ! k = fst s ! k) \<and>
    (\<forall>b. (\<forall>k. i \<le> k \<longrightarrow> k < n \<longrightarrow> b \<le> fst s ! k) \<longrightarrow> (\<forall>k. i \<le> k \<longrightarrow> k < n \<longrightarrow> b \<le> fst t ! k))"
  using assms(4,5) t
proof (induction j arbitrary: t rule: dec_induct)
  case base
  then show ?case
    using assms(1,2) by (auto simp: same_classes_def less_Suc_eq_le dest: le_antisym)
next
  case (step j)
  define u where "u = fold (sort_body i) [i + 1 ..< j] s"
  have t: "t = sort_body i j u" using step.prems(2) step.hyps by (simp add: u_def)
  from step.prems(1) have jn: "j \<le> n" by simp
  note IH = step.IH [OF jn u_def]
  have len: "length (fst u) = n" "length (snd u) = n"
    using IH by (simp_all add: same_classes_def)
  have ij: "i < j" "j < n" using step.hyps step.prems(1) by simp_all
  note body = sort_body_step [OF len ij, folded t]
  have low: "fst t ! i \<le> fst t ! k" if k: "i \<le> k" "k < Suc j" for k
  proof -
    have ti: "fst t ! i \<le> fst u ! i" "fst t ! i \<le> fst t ! j"
      using body IH by (auto simp: min_def max_def)
    from k consider "k = i" | "k = j" | "i < k" "k < j" by linarith
    then show ?thesis
    proof cases
      case 3
      then have "fst u ! i \<le> fst u ! k" "fst t ! k = fst u ! k" using IH body ij by simp_all
      with ti(1) show ?thesis by simp
    qed (use ti in auto)
  qed
  have bound: "b \<le> fst t ! k"
    if b: "\<forall>k. i \<le> k \<longrightarrow> k < n \<longrightarrow> b \<le> fst s ! k" and k: "i \<le> k" "k < n" for b k
  proof -
    from IH b have u: "\<forall>k. i \<le> k \<longrightarrow> k < n \<longrightarrow> b \<le> fst u ! k" by blast
    from k consider "k = i" | "k = j" | "i < k" "k \<noteq> j" by linarith
    then show ?thesis
      using body u ij k by cases (auto simp: min_def max_def)
  qed
  show ?case
    using IH body low bound ij by (auto simp: same_classes_def)
qed

lemma sort_inner_step:
  assumes "length (fst s) = n" "length (snd s) = n" "i < n" and t: "t = sort_inner n i s"
  shows "same_classes n s t \<and> (\<forall>k < i. fst t ! k = fst s ! k) \<and>
    (\<forall>k. i \<le> k \<longrightarrow> k < n \<longrightarrow> fst t ! i \<le> fst t ! k) \<and>
    (\<forall>b. (\<forall>k. i \<le> k \<longrightarrow> k < n \<longrightarrow> b \<le> fst s ! k) \<longrightarrow> (\<forall>k. i \<le> k \<longrightarrow> k < n \<longrightarrow> b \<le> fst t ! k))"
  using sort_inner_upto [OF assms(1-3), of n t] assms(3) t by (simp add: sort_inner_def)

lemma sort_classes_upto:
  assumes "length (fst s) = n" "length (snd s) = n" "i \<le> n"
    and t: "t = fold (sort_inner n) [0 ..< i] s"
  shows "same_classes n s t \<and> (\<forall>j k. j < i \<longrightarrow> j \<le> k \<longrightarrow> k < n \<longrightarrow> fst t ! j \<le> fst t ! k)"
  using assms(3) t
proof (induction i arbitrary: t)
  case 0
  then show ?case using assms(1,2) by (simp add: same_classes_def)
next
  case (Suc i)
  define u where "u = fold (sort_inner n) [0 ..< i] s"
  have t: "t = sort_inner n i u" using Suc.prems(2) by (simp add: u_def)
  from Suc.prems(1) have i: "i \<le> n" "i < n" by simp_all
  note IH = Suc.IH [OF i(1) u_def]
  have len: "length (fst u) = n" "length (snd u) = n" using IH by (simp_all add: same_classes_def)
  note inner = sort_inner_step [OF len i(2) t]
  have "fst t ! j \<le> fst t ! k" if jk: "j < Suc i" "j \<le> k" "k < n" for j k
  proof -
    from jk consider "j = i" | "j < i" "k < i" | "j < i" "i \<le> k" by linarith
    then show ?thesis
    proof cases
      case 3
      from IH 3 have "\<forall>k. i \<le> k \<longrightarrow> k < n \<longrightarrow> fst u ! j \<le> fst u ! k" by auto
      with inner 3 jk show ?thesis by auto
    qed (use inner IH jk in auto)
  qed
  with IH inner show ?case by (simp add: same_classes_def)
qed

lemma sort_classes_correct:
  assumes "length (fst s) = n" "length (snd s) = n" and "t = sort_classes n s"
  shows "same_classes n s t" and "sorted (fst t)"
proof -
  have t: "t = fold (sort_inner n) [0 ..< n - 1] s" using assms(3) by (simp add: sort_classes_def)
  note upto = sort_classes_upto [OF assms(1,2) _ t]
  then show "same_classes n s t" by simp
  then have "length (fst t) = n" by (simp add: same_classes_def)
  moreover have "fst t ! j \<le> fst t ! k" if "j \<le> k" "k < n" for j k
    using upto that by (cases "j = k") auto
  ultimately show "sorted (fst t)" by (simp add: sorted_iff_nth_mono)
qed

subsection \<open>The abstraction of the pool\<close>

text \<open>
  \<open>tb_wf\<close> is what the constructor establishes and no operation changes: as many queues as
  classes, at most 32 of them, sorted lengths.  \<open>tb_content (m, B) fss\<close> says in addition that
  the free buffers of queue \<open>i\<close> are \<open>fss ! i\<close>, that no buffer is in two queues and that each one
  carries the code of its queue.  \<open>in_pool (m, B) a\<close>: the buffer \<open>a\<close> was cut by this pool.
\<close>

definition pooled :: "addr list list \<Rightarrow> addr set" where
  "pooled fss = set (concat fss)"

definition tb_wf :: "tbuffers \<Rightarrow> bool" where
  "tb_wf B \<longleftrightarrow> length (Queues B) = unat (ClassBufferNum B) \<and> length (BuffersLength B) = MAX_BUFF_CLASS_NO \<and>
     0 < unat (ClassBufferNum B) \<and> unat (ClassBufferNum B) \<le> MAX_BUFF_CLASS_NO \<and>
     sorted (take (unat (ClassBufferNum B)) (BuffersLength B))"

definition in_pool :: "tb_state \<Rightarrow> addr \<Rightarrow> bool" where
  "in_pool = (\<lambda>(m, B) a. a < m_top m \<and> m_code m a < ClassBufferNum B \<and>
     length (m_data m a) = unat (BuffersLength B ! unat (m_code m a)))"

definition tb_content :: "tb_state \<Rightarrow> addr list list \<Rightarrow> bool" where
  "tb_content = (\<lambda>(m, B) fss. tb_wf B \<and> length fss = length (Queues B) \<and> distinct (concat fss) \<and>
     (\<forall>i < length fss. bq_content (m, Queues B ! i) (fss ! i)) \<and>
     (\<forall>i < length fss. \<forall>a \<in> set (fss ! i). unat (m_code m a) = i \<and> in_pool (m, B) a))"

lemma tb_contentD:
  assumes "tb_content (m, B) fss"
  shows "tb_wf B" "length fss = length (Queues B)" "length fss = unat (ClassBufferNum B)"
    "distinct (concat fss)"
    "i < length fss \<Longrightarrow> bq_content (m, Queues B ! i) (fss ! i)"
    "i < length fss \<Longrightarrow> a \<in> set (fss ! i) \<Longrightarrow> unat (m_code m a) = i \<and> in_pool (m, B) a"
  using assms by (auto simp: tb_content_def tb_wf_def)

lemma pooledI: "i < length fss \<Longrightarrow> a \<in> set (fss ! i) \<Longrightarrow> a \<in> pooled fss"
  using nth_mem [of i fss] by (auto simp: pooled_def)

text \<open>Frame: the pool depends only on the links, codes and lengths of its free buffers.\<close>

lemma tb_content_cong:
  assumes "tb_content (m, B) fss"
    and "\<And>a. a \<in> pooled fss \<Longrightarrow> m_next m' a = m_next m a \<and> m_code m' a = m_code m a \<and>
           length (m_data m' a) = length (m_data m a)"
    and "m_top m' = m_top m"
  shows "tb_content (m', B) fss"
proof -
  have mem: "a \<in> pooled fss" if "i < length fss" "a \<in> set (fss ! i)" for i a
    using that by (rule pooledI)
  have "bq_content (m', Queues B ! i) (fss ! i)" if "i < length fss" for i
    using bq_content_cong [of "fss ! i" m' m] tb_contentD(5) [OF assms(1) that] assms(2) mem [OF that]
    by blast
  moreover have "unat (m_code m' a) = i \<and> in_pool (m', B) a" if "i < length fss" "a \<in> set (fss ! i)" for i a
    using tb_contentD(6) [OF assms(1) that] assms(2) [OF mem [OF that]] assms(3) by (simp add: in_pool_def)
  ultimately show ?thesis
    using assms(1) by (simp add: tb_content_def)
qed

lemma in_pool_cong:
  "m_top m' = m_top m \<Longrightarrow> m_code m' a = m_code m a \<Longrightarrow> length (m_data m' a) = length (m_data m a) \<Longrightarrow>
   BuffersLength B' = BuffersLength B \<Longrightarrow> ClassBufferNum B' = ClassBufferNum B \<Longrightarrow>
   in_pool (m', B') a = in_pool (m, B) a"
  by (simp add: in_pool_def)

lemma concat_nth_disjoint:
  assumes "distinct (concat xss)" "i < length xss" "j < length xss" "i \<noteq> j"
  shows "set (xss ! i) \<inter> set (xss ! j) = {}"
  using assms
proof (induction xss arbitrary: i j)
  case Nil
  then show ?case by simp
next
  case (Cons xs xss)
  have "x \<notin> set xs" if "x \<in> set (xss ! k)" "k < length xss" for x k
    using Cons.prems(1) that nth_mem [of k xss] by fastforce
  with Cons show ?case by (cases i; cases j) auto
qed

lemma distinct_concat_tl:
  assumes "distinct (concat xss)" "i < length xss" "xss ! i = x # xs"
  shows "distinct (concat (xss[i := xs]))" "x \<notin> pooled (xss[i := xs])"
    "pooled (xss[i := xs]) = pooled xss - {x}"
proof -
  have xss: "xss = take i xss @ (x # xs) # drop (Suc i) xss"
    using assms(2,3) by (metis id_take_nth_drop)
  have upd: "xss[i := xs] = take i xss @ xs # drop (Suc i) xss"
    using assms(2) by (simp add: upd_conv_take_nth_drop)
  have c: "concat xss = concat (take i xss) @ x # xs @ concat (drop (Suc i) xss)"
    using arg_cong [OF xss, of concat] by simp
  have u: "concat (xss[i := xs]) = concat (take i xss) @ xs @ concat (drop (Suc i) xss)"
    by (simp add: upd)
  from assms(1) show "distinct (concat (xss[i := xs]))" "x \<notin> pooled (xss[i := xs])"
    "pooled (xss[i := xs]) = pooled xss - {x}"
    unfolding pooled_def c u by auto
qed

lemma concat_snoc:
  assumes "i < length xss"
  shows "pooled (xss[i := xss ! i @ [x]]) = insert x (pooled xss)"
    "distinct (concat xss) \<Longrightarrow> x \<notin> pooled xss \<Longrightarrow> distinct (concat (xss[i := xss ! i @ [x]]))"
proof -
  have xss: "xss = take i xss @ xss ! i # drop (Suc i) xss"
    using assms by (metis id_take_nth_drop)
  have c: "concat xss = concat (take i xss) @ xss ! i @ concat (drop (Suc i) xss)"
    using arg_cong [OF xss, of concat] by simp
  have u: "concat (xss[i := xss ! i @ [x]]) =
      concat (take i xss) @ xss ! i @ x # concat (drop (Suc i) xss)"
    using assms by (simp add: upd_conv_take_nth_drop)
  show "pooled (xss[i := xss ! i @ [x]]) = insert x (pooled xss)"
    "distinct (concat xss) \<Longrightarrow> x \<notin> pooled xss \<Longrightarrow> distinct (concat (xss[i := xss ! i @ [x]]))"
    unfolding pooled_def c u by auto
qed

text \<open>The lists of the free buffers after \<open>a\<close> has come back, and after all of \<open>as\<close> have.\<close>

definition give_back :: "(addr \<Rightarrow> u8) \<Rightarrow> addr \<Rightarrow> addr list list \<Rightarrow> addr list list" where
  "give_back code a fss = fss[unat (code a) := fss ! unat (code a) @ [a]]"

definition give_all :: "(addr \<Rightarrow> u8) \<Rightarrow> addr list \<Rightarrow> addr list list \<Rightarrow> addr list list" where
  "give_all code as fss = fold (give_back code) as fss"

lemma give_all_simps [simp]:
  "give_all code [] fss = fss"
  "give_all code (a # as) fss = give_all code as (give_back code a fss)"
  by (simp_all add: give_all_def)

lemma give_all_append: "give_all code (as @ bs) fss = give_all code bs (give_all code as fss)"
  by (simp add: give_all_def)

lemma length_give [simp]:
  "length (give_back code a fss) = length fss" "length (give_all code as fss) = length fss"
  by (simp add: give_back_def) (induction as arbitrary: fss; simp add: give_back_def)

lemma set_give_back:
  "unat (code a) < length fss \<Longrightarrow> pooled (give_back code a fss) = insert a (pooled fss)"
  by (simp add: give_back_def concat_snoc(1))

lemma set_give_all:
  "\<forall>a \<in> set as. unat (code a) < length fss \<Longrightarrow>
   pooled (give_all code as fss) = set as \<union> pooled fss"
proof (induction as arbitrary: fss)
  case Nil
  then show ?case by simp
next
  case (Cons a as)
  from Cons.IH [of "give_back code a fss"] Cons.prems set_give_back [of code a fss]
  show ?case by simp
qed

subsection \<open>\<open>RetBuffer\<close>\<close>

lemma RetBuffer_content:
  assumes c: "tb_content (m, B) fss" and a: "a \<notin> pooled fss" and p: "in_pool (m, B) a"
    and i: "i = unat (m_code m a)"
  shows "\<exists>m' q. RetBuffer nd (Some a) (m, B) = Inr (m', B\<lparr>Queues := (Queues B)[i := q]\<rparr>) \<and>
    tb_content (m', B\<lparr>Queues := (Queues B)[i := q]\<rparr>) (give_back (m_code m) a fss) \<and>
    CsBuffer q = CsBuffer (Queues B ! i) \<and> m_data m' = m_data m \<and> m_code m' = m_code m \<and>
    m_top m' = m_top m \<and> (\<forall>b. b \<noteq> a \<longrightarrow> b \<notin> pooled fss \<longrightarrow> m_next m' b = m_next m b)"
proof -
  note D = tb_contentD [OF c]
  from p D(3) i have i_lt: "i < length fss" by (simp add: in_pool_def word_less_nat_alt)
  obtain m' q where put: "bq_PutOnTail (m, Queues B ! i) a = (m', q)" by fastforce
  let ?B = "B\<lparr>Queues := (Queues B)[i := q]\<rparr>"
  let ?fss = "fss[i := fss ! i @ [a]]"
  have ai: "a \<notin> set (fss ! i)" using a pooledI [OF i_lt] by blast
  note F = bq_PutOnTail_frame [OF put]
  have nx: "m_next m' b = m_next m b" if "b \<noteq> a" "b \<notin> set (fss ! i)" for b
    using bq_PutOnTail_next [OF D(5) [OF i_lt] put] that by simp
  have run: "RetBuffer nd (Some a) (m, B) = Inr (m', ?B)"
    using p i put by (simp add: RetBuffer_def bq_Add_def in_pool_def word_less_nat_alt word_le_nat_alt)
  have cont: "bq_content (m', Queues ?B ! j) (?fss ! j)" if j: "j < length fss" for j
  proof (cases "j = i")
    case True
    then show ?thesis
      using bq_PutOnTail_content [OF D(5) [OF i_lt] ai] put i_lt D(2) by simp
  next
    case False
    have "m_next m' b = m_next m b" if "b \<in> set (fss ! j)" for b
      using nx [of b] that a pooledI [OF j that] concat_nth_disjoint [OF D(4) j i_lt False] by blast
    with bq_content_cong [of "fss ! j" m' m] D(5) [OF j] False show ?thesis by simp
  qed
  have code: "unat (m_code m' b) = j \<and> in_pool (m', ?B) b" if "j < length fss" "b \<in> set (?fss ! j)" for j b
    using D(6) [of j b] F p i that i_lt by (auto simp: in_pool_def nth_list_update split: if_splits)
  have "tb_content (m', ?B) ?fss"
    using cont code D(1,2) concat_snoc(2) [OF i_lt D(4) a]
    by (simp add: tb_content_def tb_wf_def)
  moreover have "m_next m' b = m_next m b" if "b \<noteq> a" "b \<notin> pooled fss" for b
    using nx [of b] that pooledI [OF i_lt, of b] by blast
  ultimately show ?thesis using run F i by (auto simp: give_back_def)
qed

text \<open>The same fact with the changes to the pool record hidden, for the callers.\<close>

definition same_pool :: "tbuffers \<Rightarrow> tbuffers \<Rightarrow> bool" where
  "same_pool B B' \<longleftrightarrow> BuffersLength B' = BuffersLength B \<and> ClassBufferNum B' = ClassBufferNum B"

definition same_bytes :: "mem \<Rightarrow> mem \<Rightarrow> bool" where
  "same_bytes m m' \<longleftrightarrow> m_data m' = m_data m \<and> m_code m' = m_code m \<and> m_top m' = m_top m"

lemma same_pool_refl [simp]: "same_pool B B"
  by (simp add: same_pool_def)

lemma same_bytes_refl [simp]: "same_bytes m m"
  by (simp add: same_bytes_def)

lemma same_bytes_trans: "same_bytes m1 m2 \<Longrightarrow> same_bytes m2 m3 \<Longrightarrow> same_bytes m1 m3"
  by (simp add: same_bytes_def)

lemma same_pool_trans: "same_pool B1 B2 \<Longrightarrow> same_pool B2 B3 \<Longrightarrow> same_pool B1 B3"
  by (simp add: same_pool_def)

lemma in_pool_same:
  "same_bytes m m' \<Longrightarrow> same_pool B B' \<Longrightarrow> in_pool (m', B') a = in_pool (m, B) a"
  by (simp add: same_bytes_def same_pool_def in_pool_def)

lemma in_pool_code:
  "in_pool (m, B) a \<Longrightarrow> tb_content (m, B) fss \<Longrightarrow> unat (m_code m a) < length fss"
  using tb_contentD(3) [of m B fss] by (simp add: in_pool_def word_less_nat_alt)

lemma RetBuffer_gives_back:
  assumes "tb_content (m, B) fss" "a \<notin> pooled fss" "in_pool (m, B) a"
  shows "\<exists>m' B'. RetBuffer nd (Some a) (m, B) = Inr (m', B') \<and>
    tb_content (m', B') (give_back (m_code m) a fss) \<and> same_pool B B' \<and> same_bytes m m' \<and>
    (\<forall>b. b \<noteq> a \<longrightarrow> b \<notin> pooled fss \<longrightarrow> m_next m' b = m_next m b)"
  using RetBuffer_content [OF assms refl, of nd] by (fastforce simp: same_pool_def same_bytes_def)

subsection \<open>\<open>GetBuffer\<close>\<close>

lemma find_class_spec:
  assumes "i \<le> n" "n \<le> length lens" "n < length lens \<or> (\<exists>j. i \<le> j \<and> j < n \<and> len \<le> lens ! j)"
  shows "\<exists>k. find_class lens n len i = Inr k \<and> i \<le> k \<and> k \<le> n \<and>
    (\<forall>j. i \<le> j \<longrightarrow> j < k \<longrightarrow> lens ! j < len) \<and> (k < n \<longrightarrow> len \<le> lens ! k)"
  using assms
proof (induction lens n len i rule: find_class.induct)
  case (1 lens n len i)
  show ?case
  proof (cases "len > lens ! i \<and> i < n")
    case True
    then have le: "i + 1 \<le> n" by simp
    have ex: "n < length lens \<or> (\<exists>j. i + 1 \<le> j \<and> j < n \<and> len \<le> lens ! j)"
    proof (cases "n < length lens")
      case False
      with "1.prems"(3) obtain j where "i \<le> j" "j < n" "len \<le> lens ! j" by blast
      with True show ?thesis by (cases "j = i") auto
    qed simp
    have ge: "\<not> length lens \<le> i" using True "1.prems"(2) by simp
    obtain k where k: "find_class lens n len (i + 1) = Inr k" "i + 1 \<le> k" "k \<le> n"
      "\<forall>j. i + 1 \<le> j \<longrightarrow> j < k \<longrightarrow> lens ! j < len" "k < n \<longrightarrow> len \<le> lens ! k"
      using "1.IH" [OF ge True le "1.prems"(2) ex] by blast
    have "\<forall>j. i \<le> j \<longrightarrow> j < k \<longrightarrow> lens ! j < len"
    proof (intro allI impI)
      fix j assume "i \<le> j" "j < k"
      with k(4) True show "lens ! j < len" by (cases "j = i") auto
    qed
    moreover have "find_class lens n len i = Inr k"
      using k(1) True ge by (subst find_class.simps) simp
    ultimately show ?thesis using k(2,3,5) by (intro exI [of _ k]) simp
  next
    case False
    have "i < length lens" using "1.prems" by auto
    with False have "find_class lens n len i = Inr i" by (subst find_class.simps) auto
    with False "1.prems" show ?thesis by (auto simp: not_less)
  qed
qed

lemma tb_content_queue_upd:
  assumes c: "tb_content (m, B) fss" and i: "i < length fss"
    and q: "bq_content (m, q) xs" and xs: "set xs \<subseteq> set (fss ! i)"
    and d: "distinct (concat (fss[i := xs]))"
  shows "tb_content (m, B\<lparr>Queues := (Queues B)[i := q]\<rparr>) (fss[i := xs])"
proof -
  note D = tb_contentD [OF c]
  let ?B = "B\<lparr>Queues := (Queues B)[i := q]\<rparr>"
  have "bq_content (m, Queues ?B ! j) (fss[i := xs] ! j)" if "j < length fss" for j
    using D(2) D(5) [OF that] q that by (cases "j = i") auto
  moreover have "unat (m_code m a) = j \<and> in_pool (m, ?B) a"
    if "j < length fss" "a \<in> set (fss[i := xs] ! j)" for j a
    using D(6) [of j a] that xs i by (auto simp: in_pool_def nth_list_update split: if_splits)
  ultimately show ?thesis
    using D(1,2) d by (simp add: tb_content_def tb_wf_def)
qed

lemma take_buffer_hit:
  assumes c: "tb_content (m, B) fss" and i: "i < length fss" "fss ! i = x # xs"
  shows "\<exists>q. take_buffer nd (m, B) i = Inr (x, m, B\<lparr>Queues := (Queues B)[i := q]\<rparr>) \<and>
    tb_content (m, B\<lparr>Queues := (Queues B)[i := q]\<rparr>) (fss[i := xs]) \<and>
    CsBuffer q = CsBuffer (Queues B ! i)"
proof -
  note D = tb_contentD [OF c]
  from D(5) [OF i(1)] i(2) obtain q where q: "bq_GetFromHead (m, Queues B ! i) = (Some x, m, q)"
    "bq_content (m, q) xs" "CsBuffer q = CsBuffer (Queues B ! i)"
    using bq_GetFromHead_cons [of m "Queues B ! i" x xs] by auto
  have "take_buffer nd (m, B) i = Inr (x, m, B\<lparr>Queues := (Queues B)[i := q]\<rparr>)"
    using q(1) i(1) D(2) by (subst take_buffer.simps) (simp add: bq_Get_def)
  moreover have "tb_content (m, B\<lparr>Queues := (Queues B)[i := q]\<rparr>) (fss[i := xs])"
    by (rule tb_content_queue_upd [OF c i(1) q(2)])
      (use i distinct_concat_tl [OF D(4) i] in auto)
  ultimately show ?thesis using q(3) by blast
qed

lemma take_buffer_debug_empty:
  assumes "tb_content (m, B) fss" "i < length fss" "fss ! i = []"
  shows "take_buffer False (m, B) i = Inl AssertFail"
proof -
  have "bq_GetFromHead (m, Queues B ! i) = (None, m, LockBuff (Queues B ! i))"
    using tb_contentD(5) [OF assms(1,2)] assms(3) bq_GetFromHead_empty by simp
  then show ?thesis
    using tb_contentD(2) [OF assms(1)] assms(2) by (subst take_buffer.simps) (simp add: bq_Get_def)
qed

text \<open>In a release build an empty queue is passed over, and its lock stays held.\<close>

lemma take_buffer_release_empty:
  assumes c: "tb_content (m, B) fss" and i: "i < length fss" "fss ! i = []"
  shows "take_buffer True (m, B) i =
      (if i + 1 = length fss then Inl (Throw 0x21000604)
       else take_buffer True (m, B\<lparr>Queues := (Queues B)[i := LockBuff (Queues B ! i)]\<rparr>) (i + 1))"
    and "tb_content (m, B\<lparr>Queues := (Queues B)[i := LockBuff (Queues B ! i)]\<rparr>) fss"
proof -
  note D = tb_contentD [OF c]
  have e: "bq_GetFromHead (m, Queues B ! i) = (None, m, LockBuff (Queues B ! i))"
    using D(5) [OF i(1)] i(2) bq_GetFromHead_empty by simp
  then show "take_buffer True (m, B) i =
      (if i + 1 = length fss then Inl (Throw 0x21000604)
       else take_buffer True (m, B\<lparr>Queues := (Queues B)[i := LockBuff (Queues B ! i)]\<rparr>) (i + 1))"
    using i(1) D(2,3) by (subst take_buffer.simps) (simp add: bq_Get_def)
  have "bq_content (m, LockBuff (Queues B ! i)) []"
    using D(5) [OF i(1)] i(2) by (simp add: bq_content_def LockBuff_def)
  from tb_content_queue_upd [OF c i(1) this] D(4)
  show "tb_content (m, B\<lparr>Queues := (Queues B)[i := LockBuff (Queues B ! i)]\<rparr>) fss"
    using i(2) by (metis empty_subsetI list.set(1) list_update_id)
qed

lemma take_buffer_release:
  assumes "tb_content (m, B) fss" "i \<le> j" "j < length fss" "fss ! j = x # xs"
    and "\<forall>k. i \<le> k \<longrightarrow> k < j \<longrightarrow> fss ! k = []"
  shows "\<exists>B'. take_buffer True (m, B) i = Inr (x, m, B') \<and> tb_content (m, B') (fss[j := xs]) \<and>
    BuffersLength B' = BuffersLength B \<and> ClassBufferNum B' = ClassBufferNum B \<and>
    (\<forall>k < length fss. CsBuffer (Queues B' ! k) =
       CsBuffer (Queues B ! k) + (if i \<le> k \<and> k < j then 1 else 0))"
  using assms
proof (induction "j - i" arbitrary: i B)
  case 0
  then have ij: "i = j" by simp
  from take_buffer_hit [OF 0(2) 0(4) 0(5), of True] obtain q where
    q: "take_buffer True (m, B) j = Inr (x, m, B\<lparr>Queues := (Queues B)[j := q]\<rparr>)"
      "tb_content (m, B\<lparr>Queues := (Queues B)[j := q]\<rparr>) (fss[j := xs])"
      "CsBuffer q = CsBuffer (Queues B ! j)" by blast
  have "CsBuffer ((Queues B)[j := q] ! k) = CsBuffer (Queues B ! k)" if "k < length fss" for k
    using q(3) that tb_contentD(2) [OF 0(2)] by (cases "k = j") auto
  with q ij show ?case by (intro exI [of _ "B\<lparr>Queues := (Queues B)[j := q]\<rparr>"]) simp
next
  case (Suc d)
  let ?B = "B\<lparr>Queues := (Queues B)[i := LockBuff (Queues B ! i)]\<rparr>"
  from Suc.hyps(2) have ij: "i < j" by simp
  with Suc.prems have i: "i < length fss" "fss ! i = []" by simp_all
  note E = take_buffer_release_empty [OF Suc.prems(1) i]
  have d: "d = j - (i + 1)" and le: "i + 1 \<le> j" using Suc.hyps(2) by simp_all
  have "\<forall>k. i + 1 \<le> k \<longrightarrow> k < j \<longrightarrow> fss ! k = []" using Suc.prems(5) by simp
  from Suc.hyps(1) [OF d E(2) le Suc.prems(3,4) this] obtain B' where
    B': "take_buffer True (m, ?B) (i + 1) = Inr (x, m, B')" "tb_content (m, B') (fss[j := xs])"
      "BuffersLength B' = BuffersLength B" "ClassBufferNum B' = ClassBufferNum B"
      "\<forall>k < length fss. CsBuffer (Queues B' ! k) =
         CsBuffer (Queues ?B ! k) + (if i + 1 \<le> k \<and> k < j then 1 else 0)"
    by auto
  have "take_buffer True (m, B) i = Inr (x, m, B')"
    using E(1) B'(1) ij Suc.prems(3) by simp
  moreover have "CsBuffer (Queues B' ! k) = CsBuffer (Queues B ! k) + (if i \<le> k \<and> k < j then 1 else 0)"
    if "k < length fss" for k
    using B'(5) that ij tb_contentD(2) [OF Suc.prems(1)]
    by (cases "k = i") (auto simp: LockBuff_def)
  ultimately show ?case using B'(2-4) by blast
qed

lemma take_buffer_release_none:
  assumes "tb_content (m, B) fss" "i < length fss"
    and "\<forall>k. i \<le> k \<longrightarrow> k < length fss \<longrightarrow> fss ! k = []"
  shows "take_buffer True (m, B) i = Inl (Throw 0x21000604)"
  using assms
proof (induction "length fss - i" arbitrary: i B)
  case 0
  then show ?case by simp
next
  case (Suc d)
  note E = take_buffer_release_empty [OF Suc.prems(1,2)]
  show ?case
  proof (cases "i + 1 = length fss")
    case True
    with E(1) Suc.prems show ?thesis by simp
  next
    case False
    with Suc.hyps(2) Suc.prems have "d = length fss - (i + 1)" "i + 1 < length fss" by simp_all
    from Suc.hyps(1) [OF this(1) E(2) this(2)] E(1) False Suc.prems show ?thesis by simp
  qed
qed

text \<open>The class a request of \<open>len\<close> bytes starts from: the first one that is long enough.\<close>

definition fits_class :: "tbuffers \<Rightarrow> u32 \<Rightarrow> nat \<Rightarrow> bool" where
  "fits_class B len i \<longleftrightarrow> i < unat (ClassBufferNum B) \<and> len \<le> BuffersLength B ! i \<and>
     (\<forall>j < i. BuffersLength B ! j < len)"

lemma find_class_fits:
  assumes "tb_wf B" and "fits_class B len i"
  shows "find_class (BuffersLength B) (unat (ClassBufferNum B)) len 0 = Inr i"
proof -
  have n: "unat (ClassBufferNum B) \<le> length (BuffersLength B)" using assms(1) by (simp add: tb_wf_def)
  obtain k where k: "find_class (BuffersLength B) (unat (ClassBufferNum B)) len 0 = Inr k"
    "k \<le> unat (ClassBufferNum B)" "\<forall>j < k. BuffersLength B ! j < len"
    "k < unat (ClassBufferNum B) \<longrightarrow> len \<le> BuffersLength B ! k"
    using find_class_spec [of 0 "unat (ClassBufferNum B)" "BuffersLength B" len] n assms(2)
    by (auto simp: fits_class_def)
  have "\<not> i < k" using k(3) assms(2) by (auto simp: fits_class_def not_less)
  moreover have "\<not> k < i"
    using k(4) assms(2) by (auto simp: fits_class_def dest: order_less_trans) 
  ultimately have "k = i" by simp
  with k(1) show ?thesis by simp
qed

lemma GetBuffer_start:
  assumes "tb_content (m, B) fss" and "fits_class B len i"
  shows "GetBuffer nd len (m, B) = take_buffer nd (m, B) i" and "i < length fss"
  using find_class_fits [OF tb_contentD(1) [OF assms(1)] assms(2)] assms tb_contentD(3) [OF assms(1)]
  by (auto simp: GetBuffer_def fits_class_def)

lemma GetBuffer_hit:
  assumes "tb_content (m, B) fss" and "fits_class B len i" and "fss ! i = x # xs"
  shows "\<exists>q. GetBuffer nd len (m, B) = Inr (x, m, B\<lparr>Queues := (Queues B)[i := q]\<rparr>) \<and>
    tb_content (m, B\<lparr>Queues := (Queues B)[i := q]\<rparr>) (fss[i := xs]) \<and>
    CsBuffer q = CsBuffer (Queues B ! i)"
  using GetBuffer_start(1) [OF assms(1,2), of nd]
    take_buffer_hit [OF assms(1) GetBuffer_start(2) [OF assms(1,2)] assms(3), of nd]
  by simp

lemma GetBuffer_too_long:
  assumes "tb_wf B" and "\<forall>i < unat (ClassBufferNum B). BuffersLength B ! i < len"
  shows "GetBuffer nd len (m, B) =
    Inl (if unat (ClassBufferNum B) = MAX_BUFF_CLASS_NO then OutOfBounds else Throw 0x21000604)"
proof -
  let ?n = "unat (ClassBufferNum B)"
  have L: "length (BuffersLength B) = MAX_BUFF_CLASS_NO" "?n \<le> MAX_BUFF_CLASS_NO"
    using assms(1) by (simp_all add: tb_wf_def)
  show ?thesis
  proof (cases "?n < MAX_BUFF_CLASS_NO")
    case True
    obtain k where k: "find_class (BuffersLength B) ?n len 0 = Inr k" "k \<le> ?n"
      "k < ?n \<longrightarrow> len \<le> BuffersLength B ! k"
      using find_class_spec [of 0 ?n "BuffersLength B" len] L True by auto
    have "k = ?n"
    proof (rule ccontr)
      assume "k \<noteq> ?n"
      with k(2) have "k < ?n" by simp
      with k(3) assms(2) show False by (auto simp: not_less [symmetric])
    qed
    with k(1) True show ?thesis by (simp add: GetBuffer_def)
  next
    case False
    have "find_class (BuffersLength B) ?n len i = Inl OutOfBounds" if "i \<le> ?n" for i
      using that
    proof (induction "?n - i" arbitrary: i)
      case 0
      then show ?case using L False by (subst find_class.simps) simp
    next
      case (Suc d)
      then have i: "i < ?n" "d = ?n - (i + 1)" "i + 1 \<le> ?n" by simp_all
      have "find_class (BuffersLength B) ?n len i = find_class (BuffersLength B) ?n len (i + 1)"
        using i(1) L assms(2) by (subst find_class.simps) simp
      with Suc.hyps(1) [OF i(2,3)] show ?case by simp
    qed
    with False L show ?thesis by (simp add: GetBuffer_def)
  qed
qed

subsection \<open>The pool the constructor builds\<close>

definition fresh_queues ::
  "nat \<Rightarrow> u32 list \<Rightarrow> u32 list \<Rightarrow> mem \<Rightarrow> mem \<Rightarrow> bqueue list \<Rightarrow> addr list list \<Rightarrow> bool" where
  "fresh_queues i lens counts m m' qs fss \<longleftrightarrow>
     length qs = length lens \<and> length fss = length lens \<and>
     m_top m \<le> m_top m' \<and> concat fss = [m_top m ..< m_top m'] \<and>
     (\<forall>j < length lens. bq_content (m', qs ! j) (fss ! j) \<and> CsBuffer (qs ! j) = 0 \<and>
        length (fss ! j) = unat (counts ! (i + j)) \<and>
        (\<forall>a \<in> set (fss ! j). m_code m' a = of_nat (i + j) \<and> length (m_data m' a) = unat (lens ! j))) \<and>
     (\<forall>b < m_top m. m_code m' b = m_code m b \<and> m_data m' b = m_data m b \<and> m_next m' b = m_next m b)"

lemma make_queues_fresh:
  "make_queues i lens counts junk m = Inr (m', qs) \<Longrightarrow>
   \<exists>fss. fresh_queues i lens counts m m' qs fss"
proof (induction lens arbitrary: i m qs)
  case Nil
  then show ?case by (simp add: fresh_queues_def)
next
  case (Cons len lens)
  from Cons.prems obtain m1 q qs1 where
    step: "TBufferQue (counts ! i) len (of_nat i) junk m = Inr (m1, q)"
    and rest: "make_queues (i + 1) lens counts junk m1 = Inr (m', qs1)" and qs: "qs = q # qs1"
    by (auto simp: bindR_eq_Inr)
  from Cons.IH [OF rest] obtain fss where F: "fresh_queues (i + 1) lens counts m1 m' qs1 fss" ..
  note Q = TBufferQue_content [OF step]
  let ?fs = "[m_top m ..< m_top m1]"
  from Q have top: "m_top m1 = m_top m + unat (counts ! i)" by simp
  have keep: "m_code m' b = m_code m1 b \<and> m_data m' b = m_data m1 b \<and> m_next m' b = m_next m1 b"
    if "b < m_top m1" for b
    using F that by (simp add: fresh_queues_def)
  have "bq_content (m', q) ?fs"
    using Q top bq_content_cong [of ?fs m' m1 q] keep by simp
  moreover have "m_code m' a = of_nat i \<and> length (m_data m' a) = unat len" if "a \<in> set ?fs" for a
    using Q top keep [of a] that by simp
  moreover have "concat (?fs # fss) = [m_top m ..< m_top m']"
    using F top upt_add_eq_append [of "m_top m" "m_top m1" "m_top m' - m_top m1"]
    by (simp add: fresh_queues_def)
  moreover have "m_code m' b = m_code m b \<and> m_data m' b = m_data m b \<and> m_next m' b = m_next m b"
    if "b < m_top m" for b
    using Q top keep [of b] that by simp
  ultimately have "fresh_queues i (len # lens) counts m m' qs (?fs # fss)"
    using F Q top by (auto simp: fresh_queues_def qs less_Suc_eq_0_disj)
  then show ?case ..
qed

lemma TBuffers_classes:
  assumes "TBuffers n (Some counts) (Some lens) junk m = Inr (m', B)"
  shows "\<exists>fss ls cs. sort_classes (unat n) (take (unat n) lens, take (unat n) counts) = (ls, cs) \<and>
    same_classes (unat n) (take (unat n) lens, take (unat n) counts) (ls, cs) \<and>
    BuffersLength B = ls @ replicate (MAX_BUFF_CLASS_NO - unat n) 0 \<and> map length fss = map unat cs \<and>
    tb_content (m', B) fss \<and> concat fss = [m_top m ..< m_top m'] \<and>
    ClassBufferNum B = n \<and> (\<forall>q \<in> set (Queues B). CsBuffer q = 0) \<and>
    (\<forall>b < m_top m. m_code m' b = m_code m b \<and> m_data m' b = m_data m b \<and> m_next m' b = m_next m b)"
proof -
  let ?n = "unat n"
  obtain ls cs where sort: "sort_classes ?n (take ?n lens, take ?n counts) = (ls, cs)" by fastforce
  from assms sort obtain qs where
    n: "n \<noteq> 0" "?n \<le> MAX_BUFF_CLASS_NO" "?n \<le> length lens" "?n \<le> length counts"
    and mk: "make_queues 0 ls cs junk m = Inr (m', qs)"
    and B: "B = \<lparr>Queues = qs, BuffersLength = ls @ replicate (MAX_BUFF_CLASS_NO - ?n) 0,
      ClassBufferNum = n\<rparr>"
    by (auto simp: TBuffers_def checkC_Inr bindR_eq_Inr Let_def split: if_splits)
  have sc: "same_classes ?n (take ?n lens, take ?n counts) (ls, cs)" "sorted ls"
    using sort_classes_correct [of "(take ?n lens, take ?n counts)" ?n "(ls, cs)"] n sort by auto
  then have len: "length ls = ?n" "length cs = ?n" by (simp_all add: same_classes_def)
  obtain fss where F: "fresh_queues 0 ls cs m m' qs fss" using make_queues_fresh [OF mk] ..
  have lq: "length qs = ?n" "length fss = ?n" using F len by (simp_all add: fresh_queues_def)
  have small: "?n < 256" using n(2) by (simp add: MAX_BUFF_CLASS_NO_def)
  have wf: "tb_wf B"
    using n len lq sc(2) by (simp add: tb_wf_def B unat_gt_0 MAX_BUFF_CLASS_NO_def)
  have code: "unat (m_code m' a) = j \<and> in_pool (m', B) a" if "j < ?n" "a \<in> set (fss ! j)" for j a
  proof -
    have c: "m_code m' a = of_nat j" "length (m_data m' a) = unat (ls ! j)"
      using F len that by (auto simp: fresh_queues_def)
    have u: "unat (of_nat j :: u8) = j"
      using that small by (intro unat_of_nat_less) simp
    have "a \<in> pooled fss" using that lq by (intro pooledI) auto
    then have "a \<in> {m_top m ..< m_top m'}" using F by (simp add: fresh_queues_def pooled_def del: set_concat)
    then have "a < m_top m'" by simp
    with u c that len show ?thesis
      by (simp add: in_pool_def B word_less_nat_alt nth_append)
  qed
  have "tb_content (m', B) fss"
    using F wf code lq len by (simp add: tb_content_def fresh_queues_def B)
  moreover have "map length fss = map unat cs"
    using F lq len by (intro nth_equalityI) (simp_all add: fresh_queues_def)
  moreover have "\<forall>q \<in> set (Queues B). CsBuffer q = 0"
    using F lq len by (auto simp: B fresh_queues_def in_set_conv_nth)
  ultimately show ?thesis
    using F sc(1) sort by (intro exI [of _ fss] exI [of _ ls] exI [of _ cs]) (simp add: B fresh_queues_def)
qed

lemma TBuffers_content:
  assumes "TBuffers n (Some counts) (Some lens) junk m = Inr (m', B)"
  shows "\<exists>fss. tb_content (m', B) fss \<and> concat fss = [m_top m ..< m_top m'] \<and>
    ClassBufferNum B = n \<and> (\<forall>q \<in> set (Queues B). CsBuffer q = 0) \<and>
    same_classes (unat n) (take (unat n) lens, take (unat n) counts)
      (take (unat n) (BuffersLength B), map (\<lambda>fs. of_nat (length fs)) fss) \<and>
    (\<forall>b < m_top m. m_code m' b = m_code m b \<and> m_data m' b = m_data m b \<and> m_next m' b = m_next m b)"
proof -
  from TBuffers_classes [OF assms] obtain fss ls cs where
    c: "same_classes (unat n) (take (unat n) lens, take (unat n) counts) (ls, cs)"
      "BuffersLength B = ls @ replicate (MAX_BUFF_CLASS_NO - unat n) 0" "map length fss = map unat cs"
      "tb_content (m', B) fss" "concat fss = [m_top m ..< m_top m']" "ClassBufferNum B = n"
      "\<forall>q \<in> set (Queues B). CsBuffer q = 0"
      "\<forall>b < m_top m. m_code m' b = m_code m b \<and> m_data m' b = m_data m b \<and> m_next m' b = m_next m b" by blast
  have "map (\<lambda>fs. of_nat (length fs)) fss = map of_nat (map length fss)" by simp
  also have "\<dots> = cs" unfolding c(3) by (simp add: comp_def)
  finally have "map (\<lambda>fs. of_nat (length fs)) fss = cs" .
  moreover have "take (unat n) (BuffersLength B) = ls" using c(1,2) by (simp add: same_classes_def)
  ultimately show ?thesis using c by (intro exI [of _ fss]) simp
qed

text \<open>The constructor of a queue succeeds when its memory can be counted in 32 bits.\<close>

definition class_ok :: "u32 \<Rightarrow> u32 \<Rightarrow> bool" where
  "class_ok len cnt \<longleftrightarrow> len \<noteq> 0 \<and> cnt \<noteq> 0 \<and> (unat len + 9) * unat cnt < 2 ^ 32"

lemma TBufferQue_ok:
  assumes "class_ok len cnt"
  shows "\<exists>m' q. TBufferQue cnt len c junk m = Inr (m', q)"
proof -
  let ?p = "(unat len + 9) * unat cnt"
  have "cnt \<noteq> 0" "?p < 2 ^ 32" using assms by (simp_all add: class_ok_def)
  have "(unat len + 9) * 1 \<le> ?p" using \<open>cnt \<noteq> 0\<close> by (intro mult_le_mono2) (simp add: Suc_le_eq unat_gt_0)
  then have "unat len + 9 \<le> ?p" by (simp only: mult_1_right)
  with \<open>?p < 2 ^ 32\<close> have "unat len + 9 < 2 ^ 32" by (rule le_less_trans [rotated])
  then have "unat (len + BUFF_HEADER_LENGTH) = unat len + 9"
    by (simp add: BUFF_HEADER_LENGTH_def unat_word_ariths)
  then have "unat ((len + BUFF_HEADER_LENGTH) * cnt) = ?p"
    using \<open>?p < 2 ^ 32\<close> by (simp add: unat_word_ariths(2))
  moreover have "unat BUFF_HEADER_LENGTH = 9" by (simp add: BUFF_HEADER_LENGTH_def)
  ultimately have "\<not> unat ((len + BUFF_HEADER_LENGTH) * cnt) < (unat len + unat BUFF_HEADER_LENGTH) * unat cnt"
    by simp
  then show ?thesis
    using assms surj_pair [of "bq_init_loop (unat cnt) len c junk (m, \<lparr>bq_Head = None, bq_Tail = None,
      FreeBufferCount = 0, BuffersInitiated = cnt, CsBuffer = 0\<rparr>)"]
    by (auto simp: TBufferQue_def class_ok_def Let_def)
qed

lemma make_queues_ok:
  assumes "\<forall>j < length lens. class_ok (lens ! j) (counts ! (i + j))"
  shows "\<exists>m' qs. make_queues i lens counts junk m = Inr (m', qs)"
  using assms
proof (induction lens arbitrary: i m)
  case (Cons len lens)
  have "class_ok len (counts ! i)" using Cons.prems by force
  from TBufferQue_ok [OF this] obtain m1 q where
    "TBufferQue (counts ! i) len (of_nat i) junk m = Inr (m1, q)" by blast
  moreover have "\<forall>j < length lens. class_ok (lens ! j) (counts ! (i + 1 + j))"
    using Cons.prems by force
  ultimately show ?case using Cons.IH [of "i + 1" m1] by auto
qed simp

lemma TBuffers_succeeds:
  assumes "0 < unat n" "unat n \<le> MAX_BUFF_CLASS_NO" "length lens = unat n" "length counts = unat n"
    and "\<forall>(len, cnt) \<in> set (zip lens counts). class_ok len cnt"
  shows "\<exists>m' B. TBuffers n (Some counts) (Some lens) junk m = Inr (m', B)"
proof -
  obtain ls cs where sort: "sort_classes (unat n) (lens, counts) = (ls, cs)" by fastforce
  from sort_classes_correct [of "(lens, counts)" "unat n" "(ls, cs)"] assms(3,4) sort
  have same: "length ls = unat n" "length cs = unat n" "mset (zip ls cs) = mset (zip lens counts)"
    by (auto simp: same_classes_def)
  have "class_ok (ls ! j) (cs ! j)" if "j < length ls" for j
  proof -
    have "(ls ! j, cs ! j) \<in> set (zip ls cs)" using that same(1,2) by (auto simp: set_zip)
    then show ?thesis using assms(5) mset_eq_setD [OF same(3)] by auto
  qed
  from make_queues_ok [of ls cs 0] this obtain m' qs where
    "make_queues 0 ls cs junk m = Inr (m', qs)" by fastforce
  moreover have "n \<noteq> 0" "n \<noteq> 0xff" using assms(1,2) by (auto simp: MAX_BUFF_CLASS_NO_def)
  ultimately show ?thesis
    using assms(2-4) sort by (simp add: TBuffers_def)
qed

text \<open>A sorted table is not changed.\<close>

lemma sort_classes_sorted:
  assumes "sorted lens" "n \<le> length lens"
  shows "sort_classes n (lens, counts) = (lens, counts)"
proof -
  have id: "fold f is s = s" if "\<forall>i \<in> set is. f i s = s" for f :: "nat \<Rightarrow> u32 list \<times> u32 list \<Rightarrow> u32 list \<times> u32 list" and "is" s
    using that by (induction "is") auto
  have "sort_inner n i (lens, counts) = (lens, counts)" for i
    unfolding sort_inner_def
  proof (rule id, rule ballI)
    fix j assume "j \<in> set [i + 1 ..< n]"
    then have "lens ! i \<le> lens ! j" using assms by (intro sorted_nth_mono) auto
    then show "sort_body i j (lens, counts) = (lens, counts)" by (simp add: sort_body_def not_less [THEN iffD2])
  qed
  then show ?thesis unfolding sort_classes_def by (intro id) simp
qed

end
