(* ===== verification/Mailbox.thy ===== *)
theory Mailbox
  imports Buffers
begin

text \<open>
  \<open>TMailBox\<close> (\<open>src/Kernel/mailbox.h\<close>, \<open>mailbox.cpp\<close>): the queue of the messages for one group of
  automata.  \<open>Get\<close> and \<open>Purge\<close> give discarded messages back to the pool, so their state is
  the memory, the pool and the mailbox.  The lock is the WIN32 critical section, counted as in
  \<open>BufferQueue\<close>.
\<close>

record mbox =
  mb_Head :: ptr
  mb_Tail :: ptr
  mb_Count :: u32
  CsMailBox :: nat

type_synonym mb_state = "mem \<times> mbox"
type_synonym mbp_state = "mem \<times> tbuffers \<times> mbox"

definition TMailBox :: "tbuffers option \<Rightarrow> mbox result" where
  "TMailBox buffers =
     checkC (buffers = None) 0x01010200
     (Inr \<lparr>mb_Head = None, mb_Tail = None, mb_Count = 0, CsMailBox = 0\<rparr>)"

definition MbxLock :: "mbox \<Rightarrow> mbox" where
  "MbxLock M = M\<lparr>CsMailBox := CsMailBox M + 1\<rparr>"

definition MbxUnlock :: "mbox \<Rightarrow> mbox" where
  "MbxUnlock M = M\<lparr>CsMailBox := CsMailBox M - 1\<rparr>"

definition mb_GetFromHead :: "mb_state \<Rightarrow> ptr \<times> mb_state" where
  "mb_GetFromHead = (\<lambda>(m, M).
     let M = MbxLock M in
     case mb_Head M of
       None \<Rightarrow> (None, m, MbxUnlock M)
     | Some info \<Rightarrow>
         let M = M\<lparr>mb_Head := m_next m info\<rparr>;
             M = (if mb_Head M = None then M\<lparr>mb_Tail := None\<rparr> else M);
             M = M\<lparr>mb_Count := mb_Count M - 1\<rparr>
         in (Some info, m, MbxUnlock M))"

definition mb_PutOnTail :: "mb_state \<Rightarrow> addr \<Rightarrow> mb_state" where
  "mb_PutOnTail = (\<lambda>(m, M) info.
     let M = MbxLock M;
         m = SetNext info None m;
         (m, M) = (case mb_Tail M of
             None \<Rightarrow> (m, M\<lparr>mb_Head := Some info\<rparr>)
           | Some t \<Rightarrow> (SetNext t (Some info) m, M));
         M = M\<lparr>mb_Tail := Some info\<rparr>;
         M = M\<lparr>mb_Count := mb_Count M + 1\<rparr>
     in (m, MbxUnlock M))"

definition mb_Add :: "mb_state \<Rightarrow> ptr \<Rightarrow> mb_state result" where
  "mb_Add s info =
     checkC (info = None) 0x01010202 (deref info (\<lambda>a. Inr (mb_PutOnTail s a)))"

text \<open>
  The loop of \<open>Get\<close>.  \<open>fuel\<close> bounds its iterations: a list without a cycle has at most \<open>m_top\<close>
  buffers (\<open>in_pool_fuel\<close> below), so that \<open>NoFuel\<close> is left for a list with a cycle, on which the
  code does not return.
\<close>

definition is_discarded :: "mem \<Rightarrow> addr \<Rightarrow> bool" where
  "is_discarded m a \<longleftrightarrow> GetUint16 (m_data m a) MSG_CODE = DISCARDED"

fun mb_get_loop :: "nat \<Rightarrow> bool \<Rightarrow> addr \<Rightarrow> mbp_state \<Rightarrow> (ptr \<times> mbp_state) result" where
  "mb_get_loop 0 nd info s = Inl NoFuel"
| "mb_get_loop (Suc fuel) nd info (m, B, M) =
     in_buff m info (MSG_CODE + 2)
     (if is_discarded m info
      then bindR (RetBuffer nd (Some info) (m, B)) (\<lambda>(m, B).
           let (tmp, m, M) = mb_GetFromHead (m, M)
           in (case tmp of None \<Rightarrow> Inr (None, m, B, M)
               | Some info \<Rightarrow> mb_get_loop fuel nd info (m, B, M)))
      else Inr (Some info, m, B, M))"

definition mb_Get :: "bool \<Rightarrow> mbp_state \<Rightarrow> (ptr \<times> mbp_state) result" where
  "mb_Get nd = (\<lambda>(m, B, M).
     let (info, m, M) = mb_GetFromHead (m, M)
     in (case info of None \<Rightarrow> Inr (None, m, B, M)
         | Some info \<Rightarrow> mb_get_loop (m_top m) nd info (m, B, M)))"

definition mb_QueryHead :: "mbox \<Rightarrow> ptr \<times> mbox" where
  "mb_QueryHead M = (let M = MbxLock M; tmp = mb_Head M in (tmp, MbxUnlock M))"

definition mb_GetCount :: "mbox \<Rightarrow> u32 \<times> mbox" where
  "mb_GetCount M = (let M = MbxLock M; ret = mb_Count M in (ret, MbxUnlock M))"

fun mb_purge_loop :: "nat \<Rightarrow> bool \<Rightarrow> mbp_state \<Rightarrow> mbp_state result" where
  "mb_purge_loop 0 nd (m, B, M) = (if mb_Head M = None then Inr (m, B, M) else Inl NoFuel)"
| "mb_purge_loop (Suc fuel) nd (m, B, M) =
     (if mb_Head M = None then Inr (m, B, M)
      else bindR (mb_Get nd (m, B, M)) (\<lambda>(tmp, m, B, M).
        if tmp \<noteq> None
        then bindR (RetBuffer nd tmp (m, B)) (\<lambda>(m, B). mb_purge_loop fuel nd (m, B, M))
        else mb_purge_loop fuel nd (m, B, M)))"

definition mb_Purge :: "bool \<Rightarrow> mbp_state \<Rightarrow> mbp_state result" where
  "mb_Purge nd = (\<lambda>(m, B, M). mb_purge_loop (m_top m) nd (m, B, M))"

definition mb_destructor :: "bool \<Rightarrow> mbp_state \<Rightarrow> (mem \<times> tbuffers) result" where
  "mb_destructor nd s = bindR (mb_Purge nd s) (\<lambda>(m, B, M). Inr (m, B))"

subsection \<open>Abstraction to the list of messages\<close>

definition mb_content :: "mb_state \<Rightarrow> addr list \<Rightarrow> bool" where
  "mb_content = (\<lambda>(m, M) as.
     lq (m_next m) (mb_Head M) (mb_Tail M) as \<and> mb_Count M = of_nat (length as))"

lemma mb_content_cong:
  "(\<And>a. a \<in> set as \<Longrightarrow> m_next m' a = m_next m a) \<Longrightarrow> mb_content (m', M) as = mb_content (m, M) as"
  using lq_cong [of as "m_next m'" "m_next m"] by (simp add: mb_content_def)

lemma mb_content_distinct: "mb_content (m, M) as \<Longrightarrow> distinct as"
  by (simp add: mb_content_def lq_def)

lemma mb_content_head: "mb_content (m, M) as \<Longrightarrow> mb_Head M = (case as of [] \<Rightarrow> None | a # _ \<Rightarrow> Some a)"
  by (cases as) (auto simp: mb_content_def lq_def)

lemma mb_PutOnTail_content:
  assumes "mb_content (m, M) as" and "a \<notin> set as"
  shows "mb_content (mb_PutOnTail (m, M) a) (as @ [a])"
proof (cases "mb_Tail M")
  case None
  with assms have "as = []" by (auto simp: mb_content_def dest: lq_tail_iff)
  with assms None show ?thesis
    by (simp add: mb_content_def mb_PutOnTail_def MbxLock_def MbxUnlock_def lq_def)
next
  case (Some b)
  with assms have "lq ((m_next m)(a := None, b := Some a)) (mb_Head M) (Some a) (as @ [a])"
    by (auto simp: mb_content_def intro: lq_put)
  with assms Some show ?thesis
    by (simp add: mb_content_def mb_PutOnTail_def MbxLock_def MbxUnlock_def)
qed

lemma mb_PutOnTail_frame:
  "mb_PutOnTail (m, M) a = (m', M') \<Longrightarrow> CsMailBox M' = CsMailBox M \<and> same_bytes m m' \<and> m_prev m' = m_prev m"
  by (auto simp: mb_PutOnTail_def MbxLock_def MbxUnlock_def Let_def same_bytes_def split: option.splits)

lemma mb_PutOnTail_next:
  assumes "mb_content (m, M) as" and "mb_PutOnTail (m, M) a = (m', M')" and "b \<noteq> a" and "b \<notin> set as"
  shows "m_next m' b = m_next m b"
  using assms by (auto simp: mb_PutOnTail_def MbxLock_def MbxUnlock_def Let_def mb_content_def
      lq_def split: option.splits if_splits)

lemma mb_GetFromHead_empty: "mb_content (m, M) [] \<Longrightarrow> mb_GetFromHead (m, M) = (None, m, M)"
  by (simp add: mb_content_def mb_GetFromHead_def MbxLock_def MbxUnlock_def)

lemma mb_GetFromHead_cons:
  assumes "mb_content (m, M) (a # as)"
  shows "\<exists>M'. mb_GetFromHead (m, M) = (Some a, m, M') \<and> mb_content (m, M') as \<and>
    CsMailBox M' = CsMailBox M"
  using assms lq_get [of "m_next m" "mb_Head M" "mb_Tail M" a as]
  by (auto simp: mb_content_def mb_GetFromHead_def MbxLock_def MbxUnlock_def Let_def)

interpretation mb: fifo_list mb_PutOnTail mb_GetFromHead mb_content
proof unfold_locales
  fix s :: mb_state and as a
  obtain m M where s: "s = (m, M)" by (cases s) auto
  show "mb_content s as \<Longrightarrow> a \<notin> set as \<Longrightarrow> mb_content (mb_PutOnTail s a) (as @ [a])"
    using mb_PutOnTail_content s by simp
  show "mb_content s [] \<Longrightarrow> fst (mb_GetFromHead s) = None \<and> mb_content (snd (mb_GetFromHead s)) []"
    using s by (simp add: mb_GetFromHead_empty)
  show "mb_content s (a # as) \<Longrightarrow>
      fst (mb_GetFromHead s) = Some a \<and> mb_content (snd (mb_GetFromHead s)) as"
    using mb_GetFromHead_cons [of m M a as] s by auto
qed

subsection \<open>The pool and the messages queued outside of it\<close>

text \<open>
  \<open>mb_ok (m, B, M) ms fss\<close>: the mailbox holds the messages \<open>ms\<close>, buffers of the pool that are not
  free, each with room for a message header.
\<close>

definition used_buffers :: "tb_state \<Rightarrow> addr list list \<Rightarrow> addr list \<Rightarrow> bool" where
  "used_buffers = (\<lambda>(m, B) fss ms. distinct ms \<and> set ms \<inter> pooled fss = {} \<and>
     (\<forall>a \<in> set ms. in_pool (m, B) a \<and> MSG_HEADER_LENGTH \<le> length (m_data m a)))"

definition mb_ok :: "mbp_state \<Rightarrow> addr list \<Rightarrow> addr list list \<Rightarrow> bool" where
  "mb_ok = (\<lambda>(m, B, M) ms fss.
     tb_content (m, B) fss \<and> mb_content (m, M) ms \<and> used_buffers (m, B) fss ms)"

lemma mb_ok_head: "mb_ok (m, B, M) ms fss \<Longrightarrow> mb_Head M = None \<longleftrightarrow> ms = []"
  by (auto simp: mb_ok_def mb_content_def dest: lq_empty_iff)

text \<open>What the operations of a mailbox leave as it is: the other lists and all bytes.\<close>

definition mb_frame :: "addr list \<Rightarrow> addr list list \<Rightarrow> mbp_state \<Rightarrow> mbp_state \<Rightarrow> bool" where
  "mb_frame ms fss = (\<lambda>(m, B, M) (m', B', M').
     same_pool B B' \<and> same_bytes m m' \<and> CsMailBox M' = CsMailBox M \<and>
     (\<forall>b. b \<notin> set ms \<longrightarrow> b \<notin> pooled fss \<longrightarrow> m_next m' b = m_next m b))"

lemma used_buffers_same:
  "same_bytes m m' \<Longrightarrow> same_pool B B' \<Longrightarrow> used_buffers (m', B') fss ms = used_buffers (m, B) fss ms"
  using in_pool_same [of m m' B B'] by (simp add: used_buffers_def same_bytes_def)

lemma used_buffers_Cons:
  "used_buffers (m, B) fss (a # ms) \<Longrightarrow>
     a \<notin> set ms \<and> a \<notin> pooled fss \<and> in_pool (m, B) a \<and> MSG_HEADER_LENGTH \<le> length (m_data m a) \<and>
     used_buffers (m, B) fss ms"
  by (auto simp: used_buffers_def)

lemma used_buffers_give_back:
  assumes "used_buffers (m, B) fss (a # ms)" "tb_content (m, B) fss"
  shows "used_buffers (m, B) (give_back (m_code m) a fss) ms"
  using assms in_pool_code [of m B a fss] set_give_back [of "m_code m" a fss]
  by (auto simp: used_buffers_def)

text \<open>The buffer \<open>a\<close>, just taken out of the list, is given back.\<close>

lemma mb_ok_return:
  assumes "tb_content (m, B) fss" "mb_content (m, M) ms" "used_buffers (m, B) fss (a # ms)"
  shows "\<exists>m' B'. RetBuffer nd (Some a) (m, B) = Inr (m', B') \<and>
    mb_ok (m', B', M) ms (give_back (m_code m) a fss) \<and>
    mb_frame (a # ms) fss (m, B, M) (m', B', M)"
proof -
  note U = used_buffers_Cons [OF assms(3)]
  from U RetBuffer_gives_back [OF assms(1), of a nd] obtain m' B' where
    r: "RetBuffer nd (Some a) (m, B) = Inr (m', B')"
      "tb_content (m', B') (give_back (m_code m) a fss)" "same_pool B B'" "same_bytes m m'"
      "\<forall>b. b \<noteq> a \<longrightarrow> b \<notin> pooled fss \<longrightarrow> m_next m' b = m_next m b"
    by blast
  have "m_next m' b = m_next m b" if "b \<in> set ms" for b
  proof -
    from that U have "b \<noteq> a" by blast
    moreover have "b \<notin> pooled fss" using that U by (auto simp: used_buffers_def)
    ultimately show ?thesis using r(5) by blast
  qed
  then have "mb_content (m', M) ms"
    using mb_content_cong [of ms m' m M] assms(2) by blast
  moreover have "used_buffers (m', B') (give_back (m_code m) a fss) ms"
    using used_buffers_give_back [OF assms(3,1)] used_buffers_same [OF r(4,3)] by simp
  ultimately show ?thesis
    using r(1-4) r(5) by (intro exI [of _ m'] exI [of _ B']) (simp add: mb_ok_def mb_frame_def)
qed

lemma in_pool_fuel:
  assumes "used_buffers (m, B) fss ms"
  shows "length ms \<le> m_top m"
proof -
  from assms have "set ms \<subseteq> {..< m_top m}" and d: "distinct ms"
    by (auto simp: used_buffers_def in_pool_def)
  then have "card (set ms) \<le> card {..< m_top m}" by (intro card_mono) auto
  with distinct_card [OF d] show ?thesis by simp
qed

subsection \<open>\<open>Get\<close> skips the discarded messages and frees them\<close>

text \<open>The messages \<open>Get\<close> takes out, and the ones it leaves behind.\<close>

definition live :: "mem \<Rightarrow> addr list \<Rightarrow> addr list" where
  "live m ms = dropWhile (is_discarded m) ms"

definition dead :: "mem \<Rightarrow> addr list \<Rightarrow> addr list" where
  "dead m ms = takeWhile (is_discarded m) ms"

lemma live_same:
  assumes "same_bytes m m'"
  shows "live m' ms = live m ms" "dead m' ms = dead m ms"
proof -
  from assms have "is_discarded m' = is_discarded m"
    by (simp add: fun_eq_iff is_discarded_def same_bytes_def)
  then show "live m' ms = live m ms" "dead m' ms = dead m ms"
    by (simp_all add: live_def dead_def)
qed

lemma live_simps [simp]:
  "live m [] = []" "dead m [] = []"
  "live m (a # ms) = (if is_discarded m a then live m ms else a # ms)"
  "dead m (a # ms) = (if is_discarded m a then a # dead m ms else [])"
  by (simp_all add: live_def dead_def)

lemma dead_live: "dead m ms @ live m ms = ms"
  by (simp add: live_def dead_def)

definition head_opt :: "'a list \<Rightarrow> 'a option" where
  "head_opt xs = (case xs of [] \<Rightarrow> None | x # _ \<Rightarrow> Some x)"

lemma head_opt_simps [simp]: "head_opt [] = None" "head_opt (x # xs) = Some x"
  by (simp_all add: head_opt_def)

text \<open>\<open>get_post\<close>: the result, the messages and the free buffers after \<open>Get\<close>.\<close>

definition get_post ::
  "mbp_state \<Rightarrow> addr list \<Rightarrow> addr list list \<Rightarrow> (ptr \<times> mbp_state) result \<Rightarrow> bool" where
  "get_post = (\<lambda>(m, B, M) ms fss r. \<exists>s'. r = Inr (head_opt (live m ms), s') \<and>
     mb_ok s' (tl (live m ms)) (give_all (m_code m) (dead m ms) fss) \<and>
     mb_frame ms fss (m, B, M) s')"

lemma get_postE:
  assumes "get_post (m, B, M) ms fss r"
  obtains m' B' M' where "r = Inr (head_opt (live m ms), m', B', M')"
    "mb_ok (m', B', M') (tl (live m ms)) (give_all (m_code m) (dead m ms) fss)"
    "mb_frame ms fss (m, B, M) (m', B', M')"
  using assms unfolding get_post_def split_conv by (metis prod_cases3)

lemma mb_frame_trans:
  assumes "mb_frame (a # ms) fss (m, B, M) (m1, B1, M)" "mb_frame ms fss1 (m1, B1, M1) s'"
    and "CsMailBox M1 = CsMailBox M" "pooled fss1 = insert a (pooled fss)"
  shows "mb_frame (a # ms) fss (m, B, M) s'"
  using assms same_bytes_trans [of m m1] same_pool_trans [of B B1]
  by (cases s') (auto simp: mb_frame_def)

lemma mb_frame_mono:
  "mb_frame ms fss s s' \<Longrightarrow> set ms \<subseteq> set ms' \<Longrightarrow> mb_frame ms' fss s s'"
  by (cases s; cases s') (auto simp: mb_frame_def)

lemma mb_ok_get_cons:
  assumes "mb_ok (m, B, M) (b # ms) fss"
  shows "\<exists>M'. mb_GetFromHead (m, M) = (Some b, m, M') \<and> mb_content (m, M') ms \<and>
    CsMailBox M' = CsMailBox M"
  using assms mb_GetFromHead_cons [of m M b ms] by (simp add: mb_ok_def)

lemma mb_get_loop_correct:
  assumes "tb_content (m, B) fss" "mb_content (m, M) ms" "used_buffers (m, B) fss (a # ms)"
    and "length ms < fuel"
  shows "get_post (m, B, M) (a # ms) fss (mb_get_loop fuel nd a (m, B, M))"
  using assms
proof (induction ms arbitrary: a m B M fss fuel)
  case Nil
  then obtain f where fuel: "fuel = Suc f" by (cases fuel) auto
  have len: "MSG_CODE + 2 \<le> length (m_data m a)"
    using used_buffers_Cons [OF Nil(3)] by (simp add: offset_defs)
  show ?case
  proof (cases "is_discarded m a")
    case False
    have "used_buffers (m, B) fss []" using Nil(3) by (simp add: used_buffers_def)
    with False Nil len fuel show ?thesis
      by (simp add: get_post_def mb_ok_def mb_frame_def)
  next
    case True
    from mb_ok_return [OF Nil(1-3), of nd] obtain m' B' where
      r: "RetBuffer nd (Some a) (m, B) = Inr (m', B')"
        "mb_ok (m', B', M) [] (give_back (m_code m) a fss)"
        "mb_frame [a] fss (m, B, M) (m', B', M)" by blast
    from r(2) have "mb_GetFromHead (m', M) = (None, m', M)"
      by (intro mb_GetFromHead_empty) (simp add: mb_ok_def)
    with r True len fuel show ?thesis by (simp add: get_post_def)
  qed
next
  case (Cons b ms)
  then obtain f where fuel: "fuel = Suc f" "length ms < f" by (cases fuel) auto
  have len: "MSG_CODE + 2 \<le> length (m_data m a)"
    using used_buffers_Cons [OF Cons.prems(3)] by (simp add: offset_defs)
  show ?case
  proof (cases "is_discarded m a")
    case False
    have "used_buffers (m, B) fss (b # ms)"
      using used_buffers_Cons [OF Cons.prems(3)] by blast
    with False Cons.prems len fuel show ?thesis
      by (simp add: get_post_def mb_ok_def mb_frame_def)
  next
    case True
    let ?fss = "give_back (m_code m) a fss"
    from mb_ok_return [OF Cons.prems(1-3), of nd] obtain m1 B1 where
      r: "RetBuffer nd (Some a) (m, B) = Inr (m1, B1)" "mb_ok (m1, B1, M) (b # ms) ?fss"
        "mb_frame (a # b # ms) fss (m, B, M) (m1, B1, M)" by blast
    from mb_ok_get_cons [OF r(2)] obtain M1 where
      g: "mb_GetFromHead (m1, M) = (Some b, m1, M1)" "mb_content (m1, M1) ms"
        "CsMailBox M1 = CsMailBox M" by blast
    have ok: "tb_content (m1, B1) ?fss" "used_buffers (m1, B1) ?fss (b # ms)"
      using r(2) by (simp_all add: mb_ok_def)
    from Cons.IH [OF ok(1) g(2) ok(2) fuel(2)] obtain m2 B2 M2 where
      s': "mb_get_loop f nd b (m1, B1, M1) = Inr (head_opt (live m1 (b # ms)), m2, B2, M2)"
        "mb_ok (m2, B2, M2) (tl (live m1 (b # ms))) (give_all (m_code m1) (dead m1 (b # ms)) ?fss)"
        "mb_frame (b # ms) ?fss (m1, B1, M1) (m2, B2, M2)" by (rule get_postE)
    have sb: "same_bytes m m1" using r(3) by (simp add: mb_frame_def)
    have "unat (m_code m a) < length fss"
      using in_pool_code [OF _ Cons.prems(1)] used_buffers_Cons [OF Cons.prems(3)] by blast
    then have pool: "pooled ?fss = insert a (pooled fss)" by (rule set_give_back)
    have frame: "mb_frame (a # b # ms) fss (m, B, M) (m2, B2, M2)"
      by (rule mb_frame_trans [OF r(3) s'(3) g(3) pool])
    have "mb_get_loop fuel nd a (m, B, M) = mb_get_loop f nd b (m1, B1, M1)"
      using True len fuel(1) r(1) g(1) by simp
    with s'(1,2) frame sb True live_same [OF sb, of "b # ms"] show ?thesis
      by (simp add: get_post_def same_bytes_def del: live_simps(3,4))
        (simp add: live_def dead_def)
  qed
qed

lemma mb_Get_correct:
  assumes "mb_ok (m, B, M) ms fss"
  shows "get_post (m, B, M) ms fss (mb_Get nd (m, B, M))"
proof (cases ms)
  case Nil
  with assms mb_GetFromHead_empty [of m M] show ?thesis
    by (simp add: mb_Get_def get_post_def mb_ok_def mb_frame_def)
next
  case (Cons a as)
  with assms have ok: "mb_ok (m, B, M) (a # as) fss" by simp
  from mb_ok_get_cons [OF ok] obtain M1 where
    g: "mb_GetFromHead (m, M) = (Some a, m, M1)" "mb_content (m, M1) as"
      "CsMailBox M1 = CsMailBox M" by blast
  have u: "tb_content (m, B) fss" "used_buffers (m, B) fss (a # as)"
    using ok by (simp_all add: mb_ok_def)
  have "length as < m_top m" using in_pool_fuel [OF u(2)] by simp
  from mb_get_loop_correct [OF u(1) g(2) u(2) this, of nd] g(1,3) Cons show ?thesis
    by (auto simp: mb_Get_def get_post_def mb_frame_def)
qed

subsection \<open>\<open>Purge\<close>\<close>

definition purge_post ::
  "mbp_state \<Rightarrow> addr list \<Rightarrow> addr list list \<Rightarrow> mbp_state result \<Rightarrow> bool" where
  "purge_post = (\<lambda>(m, B, M) ms fss r. \<exists>s'. r = Inr s' \<and>
     mb_ok s' [] (give_all (m_code m) ms fss) \<and> mb_frame ms fss (m, B, M) s')"

lemma purge_postE:
  assumes "purge_post (m, B, M) ms fss r"
  obtains m' B' M' where "r = Inr (m', B', M')" "mb_ok (m', B', M') [] (give_all (m_code m) ms fss)"
    "mb_frame ms fss (m, B, M) (m', B', M')"
  using assms unfolding purge_post_def split_conv by (metis prod_cases3)

lemma used_buffers_give_all:
  assumes "used_buffers (m, B) fss (ds @ ls)" "tb_content (m, B) fss"
  shows "used_buffers (m, B) (give_all (m_code m) ds fss) ls"
    and "pooled (give_all (m_code m) ds fss) = set ds \<union> pooled fss"
proof -
  have "\<forall>a \<in> set ds. unat (m_code m a) < length fss"
    using assms in_pool_code [of m B _ fss] by (auto simp: used_buffers_def)
  then show "pooled (give_all (m_code m) ds fss) = set ds \<union> pooled fss" by (rule set_give_all)
  with assms show "used_buffers (m, B) (give_all (m_code m) ds fss) ls"
    by (auto simp: used_buffers_def)
qed

lemma mb_frame_seq:
  assumes "mb_frame ms fss (m, B, M) (m1, B1, M1)" "mb_frame ms1 fss1 (m1, B1, M1) s'"
    and "set ms1 \<union> pooled fss1 \<subseteq> set ms \<union> pooled fss"
  shows "mb_frame ms fss (m, B, M) s'"
proof -
  obtain m' B' M' where s': "s' = (m', B', M')" by (cases s')
  have "b \<notin> set ms1 \<and> b \<notin> pooled fss1" if "b \<notin> set ms" "b \<notin> pooled fss" for b
    using assms(3) that by blast
  with assms(1,2) same_bytes_trans [of m m1 m'] same_pool_trans [of B B1 B'] show ?thesis
    by (simp add: s' mb_frame_def)
qed

lemma mb_purge_loop_correct:
  assumes "mb_ok (m, B, M) ms fss" "length ms \<le> fuel"
  shows "purge_post (m, B, M) ms fss (mb_purge_loop fuel nd (m, B, M))"
  using assms
proof (induction fuel arbitrary: m B M ms fss)
  case 0
  with mb_ok_head [OF 0(1)] show ?case by (simp add: purge_post_def mb_frame_def)
next
  case (Suc fuel)
  show ?case
  proof (cases ms)
    case Nil
    with Suc.prems mb_ok_head [OF Suc.prems(1)] show ?thesis
      by (simp add: purge_post_def mb_frame_def)
  next
    case (Cons a as)
    have head: "mb_Head M \<noteq> None"
      using mb_ok_head [OF Suc.prems(1)] Cons by simp
    let ?d = "dead m ms" and ?l = "live m ms"
    let ?fss = "give_all (m_code m) ?d fss"
    from mb_Get_correct [OF Suc.prems(1), of nd] obtain m1 B1 M1 where
      g: "mb_Get nd (m, B, M) = Inr (head_opt ?l, m1, B1, M1)"
        "mb_ok (m1, B1, M1) (tl ?l) ?fss" "mb_frame ms fss (m, B, M) (m1, B1, M1)"
      by (rule get_postE)
    have used: "used_buffers (m, B) fss (?d @ ?l)" and tb: "tb_content (m, B) fss"
      using Suc.prems(1) by (simp_all add: mb_ok_def dead_live)
    note U = used_buffers_give_all [OF used tb]
    have sb: "same_bytes m m1" "same_pool B B1" using g(3) by (simp_all add: mb_frame_def)
    have run: "mb_purge_loop (Suc fuel) nd (m, B, M) =
        (if ?l \<noteq> [] then bindR (RetBuffer nd (head_opt ?l) (m1, B1)) (\<lambda>(m, B). mb_purge_loop fuel nd (m, B, M1))
         else mb_purge_loop fuel nd (m1, B1, M1))"
      using g(1) head by (cases ?l) auto
    show ?thesis
    proof (cases ?l)
      case Nil
      with dead_live [of m ms] have d: "?d = ms" by simp
      from g(2) Nil have ok: "mb_ok (m1, B1, M1) [] ?fss" by simp
      have "purge_post (m1, B1, M1) [] ?fss (mb_purge_loop fuel nd (m1, B1, M1))"
        using Suc.IH [OF ok] by simp
      then obtain m2 B2 M2 where
        p: "mb_purge_loop fuel nd (m1, B1, M1) = Inr (m2, B2, M2)"
          "mb_ok (m2, B2, M2) [] ?fss" "mb_frame [] ?fss (m1, B1, M1) (m2, B2, M2)"
        by (elim purge_postE) simp
      have "mb_frame ms fss (m, B, M) (m2, B2, M2)"
        by (rule mb_frame_seq [OF g(3) p(3)]) (use U(2) d in auto)
      with p run Nil d show ?thesis by (simp add: purge_post_def)
    next
      case (Cons b l)
      have tb1: "tb_content (m1, B1) ?fss" and mc: "mb_content (m1, M1) l"
        using g(2) Cons by (simp_all add: mb_ok_def)
      have u1: "used_buffers (m1, B1) ?fss (b # l)"
        using U(1) Cons used_buffers_same [OF sb] by simp
      from mb_ok_return [OF tb1 mc u1, of nd] obtain m2 B2 where
        r: "RetBuffer nd (Some b) (m1, B1) = Inr (m2, B2)"
          "mb_ok (m2, B2, M1) l (give_back (m_code m1) b ?fss)"
          "mb_frame (b # l) ?fss (m1, B1, M1) (m2, B2, M1)" by blast
      have split: "ms = ?d @ b # l" using dead_live [of m ms] Cons by simp
      have len: "length l \<le> fuel"
        using Suc.prems(2) arg_cong [OF split, of length] by simp
      have code: "m_code m1 = m_code m" "m_code m2 = m_code m"
        using sb(1) r(3) by (simp_all add: mb_frame_def same_bytes_def)
      from Suc.IH [OF r(2) len] obtain m3 B3 M3 where
        p: "mb_purge_loop fuel nd (m2, B2, M1) = Inr (m3, B3, M3)"
          "mb_ok (m3, B3, M3) [] (give_all (m_code m2) l (give_back (m_code m1) b ?fss))"
          "mb_frame l (give_back (m_code m1) b ?fss) (m2, B2, M1) (m3, B3, M3)"
        by (rule purge_postE)
      have all: "give_all (m_code m2) l (give_back (m_code m1) b ?fss) = give_all (m_code m) ms fss"
        using code by (subst split) (simp add: give_all_append)
      have sub: "set (b # l) \<union> pooled ?fss \<subseteq> set ms \<union> pooled fss"
        using U(2) arg_cong [OF split, of set] by auto
      have pool: "pooled (give_back (m_code m1) b ?fss) = insert b (pooled ?fss)"
        using in_pool_code [OF _ tb1, of b] used_buffers_Cons [OF u1] by (intro set_give_back) blast
      have f2: "mb_frame ms fss (m, B, M) (m2, B2, M1)" by (rule mb_frame_seq [OF g(3) r(3) sub])
      have "set l \<union> pooled (give_back (m_code m1) b ?fss) \<subseteq> set ms \<union> pooled fss"
        using sub pool by auto
      from mb_frame_seq [OF f2 p(3) this] p(1,2) run Cons r(1) all show ?thesis
        by (simp add: purge_post_def)
    qed
  qed
qed

lemma mb_Purge_correct:
  assumes "mb_ok (m, B, M) ms fss"
  shows "purge_post (m, B, M) ms fss (mb_Purge nd (m, B, M))"
proof -
  have "length ms \<le> m_top m" using assms in_pool_fuel [of m B fss ms] by (simp add: mb_ok_def)
  from mb_purge_loop_correct [OF assms this] show ?thesis by (simp add: mb_Purge_def)
qed

end
