(* ===== verification/PostOffice.thy ===== *)
theory PostOffice
  imports Mailbox
begin

text \<open>
  \<open>TPostOffice\<close> (\<open>src/Kernel/postOffice.h\<close>, \<open>postOffice.cpp\<close>): the array of the mailboxes and one
  counting semaphore per mailbox.  \<open>GetSync\<close> waits until a semaphore is signalled.  The
  invariant \<open>po_ok\<close> relates the post office to the lists of the messages, \<open>signalled\<close> says that
  every queued message has a signal.
\<close>

record post_office =
  MailBoxes :: "mbox list"
  MailBoxesNum :: u8
  semHandle :: "nat list"

type_synonym po_state = "mem \<times> tbuffers \<times> post_office"

definition SEM_MAX :: nat where "SEM_MAX = 10000"
definition MAXIMUM_WAIT_OBJECTS :: nat where "MAXIMUM_WAIT_OBJECTS = 64"

fun make_mailboxes :: "nat \<Rightarrow> tbuffers option \<Rightarrow> mbox list result" where
  "make_mailboxes 0 buffers = Inr []"
| "make_mailboxes (Suc n) buffers =
     bindR (TMailBox buffers) (\<lambda>M. bindR (make_mailboxes n buffers) (\<lambda>Ms. Inr (M # Ms)))"

definition TPostOffice :: "u8 \<Rightarrow> tbuffers option \<Rightarrow> post_office result" where
  "TPostOffice mailBoxesNum buffers =
     checkC (mailBoxesNum = 0) 0x01010200
     (checkC (buffers = None) 0x01010200
     (bindR (make_mailboxes (unat mailBoxesNum) buffers) (\<lambda>Ms.
      Inr \<lparr>MailBoxes = Ms, MailBoxesNum = mailBoxesNum,
           semHandle = replicate (unat mailBoxesNum) 0\<rparr>)))"

text \<open>\<open>ReleaseSemaphore(h, 1, NULL)\<close> fails, and changes nothing, at the maximum count.\<close>

definition ReleaseSemaphore :: "nat \<Rightarrow> nat list \<Rightarrow> nat list" where
  "ReleaseSemaphore i sems = (if sems ! i < SEM_MAX then sems[i := sems ! i + 1] else sems)"

definition po_Add :: "u8 \<Rightarrow> ptr \<Rightarrow> po_state \<Rightarrow> po_state result" where
  "po_Add mailBoxID info = (\<lambda>(m, B, P).
     checkC (mailBoxID \<ge> MailBoxesNum P) 0x01010200
     (let i = unat mailBoxID in
      bindR (mb_Add (m, MailBoxes P ! i) info) (\<lambda>(m, M).
      Inr (m, B, P\<lparr>MailBoxes := (MailBoxes P)[i := M],
                   semHandle := ReleaseSemaphore i (semHandle P)\<rparr>))))"

definition mailbox_Get :: "bool \<Rightarrow> nat \<Rightarrow> po_state \<Rightarrow> (ptr \<times> po_state) result" where
  "mailbox_Get nd i = (\<lambda>(m, B, P).
     bindR (mb_Get nd (m, B, MailBoxes P ! i)) (\<lambda>(info, m, B, M).
     Inr (info, m, B, P\<lparr>MailBoxes := (MailBoxes P)[i := M]\<rparr>)))"

definition po_Get :: "bool \<Rightarrow> u8 \<Rightarrow> po_state \<Rightarrow> (ptr \<times> po_state) result" where
  "po_Get nd mailBoxID = (\<lambda>(m, B, P).
     checkC (mailBoxID \<ge> MailBoxesNum P) 0x01010200
     (mailbox_Get nd (unat mailBoxID) (m, B, P)))"

text \<open>
  \<open>WaitForMultipleObjects(n, semHandle, FALSE, INFINITE)\<close>: with more than 64 handles it returns
  \<open>WAIT_FAILED\<close>, whose low byte is 255; otherwise it takes one signal of the first semaphore that
  has one, and waits for another thread when none has.
\<close>

fun first_signalled :: "nat list \<Rightarrow> nat option" where
  "first_signalled [] = None"
| "first_signalled (s # ss) = (if s > 0 then Some 0 else map_option Suc (first_signalled ss))"

definition WaitForMultipleObjects :: "nat \<Rightarrow> nat list \<Rightarrow> (u32 \<times> nat list) result" where
  "WaitForMultipleObjects n sems =
     (if n > MAXIMUM_WAIT_OBJECTS then Inr (0xFFFFFFFF, sems)
      else case first_signalled (take n sems) of
          None \<Rightarrow> Inl Blocked
        | Some i \<Rightarrow> Inr (of_nat i, sems[i := sems ! i - 1]))"

definition po_GetSync :: "bool \<Rightarrow> po_state \<Rightarrow> (ptr \<times> u8 \<times> po_state) result" where
  "po_GetSync nd = (\<lambda>(m, B, P).
     bindR (WaitForMultipleObjects (unat (MailBoxesNum P)) (semHandle P)) (\<lambda>(dwWaitResult, sems).
     let mailBoxID = (ucast dwWaitResult :: u8);
         P = P\<lparr>semHandle := sems\<rparr>
     in checkC (mailBoxID \<ge> MailBoxesNum P) 0x01010200
        (bindR (mailbox_Get nd (unat mailBoxID) (m, B, P)) (\<lambda>(info, s). Inr (info, mailBoxID, s)))))"

definition po_GetCount :: "u8 \<Rightarrow> post_office \<Rightarrow> (u32 \<times> post_office) result" where
  "po_GetCount mailBoxID P =
     checkC (mailBoxID \<ge> MailBoxesNum P) 0x01010200
     (let i = unat mailBoxID; (n, M) = mb_GetCount (MailBoxes P ! i)
      in Inr (n, P\<lparr>MailBoxes := (MailBoxes P)[i := M]\<rparr>))"

definition PurgeMailBox :: "bool \<Rightarrow> u8 \<Rightarrow> po_state \<Rightarrow> po_state result" where
  "PurgeMailBox nd mailBoxID = (\<lambda>(m, B, P).
     checkC (mailBoxID \<ge> MailBoxesNum P) 0x01010200
     (let i = unat mailBoxID in
      bindR (mb_Purge nd (m, B, MailBoxes P ! i)) (\<lambda>(m, B, M).
      Inr (m, B, P\<lparr>MailBoxes := (MailBoxes P)[i := M]\<rparr>))))"

fun purge_upto :: "bool \<Rightarrow> nat \<Rightarrow> nat \<Rightarrow> po_state \<Rightarrow> po_state result" where
  "purge_upto nd i 0 s = Inr s"
| "purge_upto nd i (Suc n) s =
     bindR (PurgeMailBox nd (of_nat i) s) (\<lambda>s. purge_upto nd (i + 1) n s)"

definition po_Purge :: "bool \<Rightarrow> po_state \<Rightarrow> po_state result" where
  "po_Purge nd = (\<lambda>(m, B, P). purge_upto nd 0 (unat (MailBoxesNum P)) (m, B, P))"

text \<open>The destructor purges, then deletes the mailboxes, whose destructors purge once more.\<close>

fun delete_mailboxes :: "bool \<Rightarrow> mbox list \<Rightarrow> mem \<times> tbuffers \<Rightarrow> (mem \<times> tbuffers) result" where
  "delete_mailboxes nd [] s = Inr s"
| "delete_mailboxes nd (M # Ms) (m, B) =
     bindR (mb_destructor nd (m, B, M)) (\<lambda>s. delete_mailboxes nd Ms s)"

definition po_destructor :: "bool \<Rightarrow> po_state \<Rightarrow> (mem \<times> tbuffers) result" where
  "po_destructor nd s =
     bindR (po_Purge nd s) (\<lambda>(m, B, P). delete_mailboxes nd (MailBoxes P) (m, B))"

subsection \<open>The invariant of the post office\<close>

text \<open>
  \<open>po_ok (m, B, P) mss fss\<close>: mailbox \<open>i\<close> holds the messages \<open>mss ! i\<close>; the messages of all
  mailboxes are distinct buffers of the pool, none of them free.
\<close>

definition po_ok :: "po_state \<Rightarrow> addr list list \<Rightarrow> addr list list \<Rightarrow> bool" where
  "po_ok = (\<lambda>(m, B, P) mss fss.
     tb_content (m, B) fss \<and> length mss = unat (MailBoxesNum P) \<and>
     length (MailBoxes P) = length mss \<and> length (semHandle P) = length mss \<and>
     (\<forall>i < length mss. mb_content (m, MailBoxes P ! i) (mss ! i)) \<and>
     used_buffers (m, B) fss (concat mss))"

definition signalled :: "post_office \<Rightarrow> addr list list \<Rightarrow> bool" where
  "signalled P mss \<longleftrightarrow> (\<forall>i < length mss. length (mss ! i) \<le> semHandle P ! i)"

lemma po_okD:
  assumes "po_ok (m, B, P) mss fss"
  shows "tb_content (m, B) fss" "length mss = unat (MailBoxesNum P)"
    "length (MailBoxes P) = length mss" "length (semHandle P) = length mss"
    "i < length mss \<Longrightarrow> mb_content (m, MailBoxes P ! i) (mss ! i)"
    "used_buffers (m, B) fss (concat mss)"
  using assms by (auto simp: po_ok_def)

lemma po_ok_signals: "po_ok (m, B, P\<lparr>semHandle := sems\<rparr>) mss fss \<longleftrightarrow>
    po_ok (m, B, P\<lparr>semHandle := replicate (length mss) 0\<rparr>) mss fss \<and> length sems = length mss"
  by (auto simp: po_ok_def)

lemma po_ok_mailbox:
  assumes "po_ok (m, B, P) mss fss" "i < length mss"
  shows "mb_ok (m, B, MailBoxes P ! i) (mss ! i) fss"
proof -
  note D = po_okD [OF assms(1)]
  have "distinct (mss ! i)" using mb_content_distinct [OF D(5) [OF assms(2)]] .
  moreover have "a \<in> set (concat mss)" if "a \<in> set (mss ! i)" for a
    using pooledI [OF assms(2) that] by (simp only: pooled_def)
  ultimately have "used_buffers (m, B) fss (mss ! i)"
    using D(6) by (auto simp: used_buffers_def)
  with D(1) D(5) [OF assms(2)] show ?thesis by (simp add: mb_ok_def)
qed

text \<open>One mailbox has changed: the others are as they were.\<close>

lemma po_ok_update:
  assumes ok: "po_ok (m, B, P) mss fss" and i: "i < length mss"
    and mb: "tb_content (m', B') fss'" "mb_content (m', M) ms'"
    and used: "used_buffers (m', B') fss' (concat (mss[i := ms']))"
    and frame: "\<And>j b. j < length mss \<Longrightarrow> j \<noteq> i \<Longrightarrow> b \<in> set (mss ! j) \<Longrightarrow> m_next m' b = m_next m b"
    and sems: "length sems = length mss"
  shows "po_ok (m', B', P\<lparr>MailBoxes := (MailBoxes P)[i := M], semHandle := sems\<rparr>) (mss[i := ms']) fss'"
proof -
  note D = po_okD [OF ok]
  have "mb_content (m', (MailBoxes P)[i := M] ! j) (mss[i := ms'] ! j)" if j: "j < length mss" for j
  proof (cases "j = i")
    case True
    with mb(2) i D(3) show ?thesis by simp
  next
    case False
    with mb_content_cong [of "mss ! j" m' m] frame [OF j False] D(5) [OF j] show ?thesis by simp
  qed
  with D mb(1) used sems show ?thesis by (simp add: po_ok_def del: set_concat)
qed

subsection \<open>\<open>Add\<close>\<close>

lemma mset_concat_update:
  "i < length xss \<Longrightarrow> mset (concat (xss[i := ys])) + mset (xss ! i) = mset (concat xss) + mset ys"
proof -
  assume i: "i < length xss"
  then have "concat xss = concat (take i xss) @ xss ! i @ concat (drop (Suc i) xss)"
    by (metis id_take_nth_drop concat.simps(2) concat_append)
  with i show ?thesis by (simp add: upd_conv_take_nth_drop)
qed

lemma po_Add_correct:
  assumes ok: "po_ok (m, B, P) mss fss" and id: "mailBoxID < MailBoxesNum P"
    and a: "used_buffers (m, B) fss [a]" "a \<notin> set (concat mss)" and i: "i = unat mailBoxID"
  shows "\<exists>m' P'. po_Add mailBoxID (Some a) (m, B, P) = Inr (m', B, P') \<and>
    po_ok (m', B, P') (mss[i := mss ! i @ [a]]) fss \<and> same_bytes m m' \<and>
    semHandle P' = ReleaseSemaphore i (semHandle P) \<and> MailBoxesNum P' = MailBoxesNum P \<and>
    (\<forall>b. b \<noteq> a \<longrightarrow> b \<notin> set (mss ! i) \<longrightarrow> m_next m' b = m_next m b)"
proof -
  note D = po_okD [OF ok]
  have il: "i < length mss" using id i D(2) by (simp add: word_less_nat_alt)
  obtain m' M where put: "mb_PutOnTail (m, MailBoxes P ! i) a = (m', M)" by fastforce
  note F = mb_PutOnTail_frame [OF put]
  note nx = mb_PutOnTail_next [OF D(5) [OF il] put]
  have mem: "b \<in> set (concat mss)" if "j < length mss" "b \<in> set (mss ! j)" for j b
    using pooledI [OF that] by (simp only: pooled_def)
  have ai: "a \<notin> set (mss ! i)" using a(2) mem [OF il] by blast
  have fa: "a \<notin> pooled fss" using a(1) by (simp add: used_buffers_def)
  have free: "m_next m' b = m_next m b" if "b \<in> pooled fss" for b
  proof (rule nx)
    show "b \<noteq> a" using that fa by blast
    show "b \<notin> set (mss ! i)" using that mem [OF il, of b] D(6) by (auto simp: used_buffers_def)
  qed
  have tb: "tb_content (m', B) fss"
    using free F by (intro tb_content_cong [OF D(1)]) (auto simp: same_bytes_def)
  have mc: "mb_content (m', M) (mss ! i @ [a])"
    using mb_PutOnTail_content [OF D(5) [OF il] ai] put by simp
  have sz: "mset (concat (mss[i := mss ! i @ [a]])) = mset (a # concat mss)"
    using mset_concat_update [OF il, of "mss ! i @ [a]"] by simp
  have "used_buffers (m, B) fss (a # concat mss)"
    using a D(6) by (simp add: used_buffers_def)
  then have "used_buffers (m, B) fss (concat (mss[i := mss ! i @ [a]]))"
    using mset_eq_setD [OF sz] mset_eq_imp_distinct_iff [OF sz] unfolding used_buffers_def by simp
  then have used: "used_buffers (m', B) fss (concat (mss[i := mss ! i @ [a]]))"
    using used_buffers_same [of m m' B B] F by simp
  have other: "m_next m' b = m_next m b" if "j < length mss" "j \<noteq> i" "b \<in> set (mss ! j)" for j b
  proof (rule nx)
    show "b \<noteq> a" using mem [OF that(1,3)] a(2) by blast
    have "distinct (concat mss)" using D(6) by (simp add: used_buffers_def)
    from concat_nth_disjoint [OF this that(1) il that(2)] that(3)
    show "b \<notin> set (mss ! i)" by blast
  qed
  let ?P = "P\<lparr>MailBoxes := (MailBoxes P)[i := M], semHandle := ReleaseSemaphore i (semHandle P)\<rparr>"
  have "po_ok (m', B, ?P) (mss[i := mss ! i @ [a]]) fss"
    by (rule po_ok_update [OF ok il tb mc used other])
      (simp_all add: D(4) ReleaseSemaphore_def)
  moreover have "po_Add mailBoxID (Some a) (m, B, P) = Inr (m', B, ?P)"
    using iffD2 [OF not_le id] i put by (simp add: po_Add_def mb_Add_def Let_def)
  ultimately show ?thesis using F nx by (intro exI [of _ m'] exI [of _ ?P]) simp
qed

subsection \<open>\<open>Get\<close> and \<open>GetSync\<close>\<close>

lemma used_buffers_mset:
  "mset xs = mset ys \<Longrightarrow> used_buffers s fss xs = used_buffers s fss ys"
  using mset_eq_setD [of xs ys] mset_eq_imp_distinct_iff [of xs ys]
  by (cases s) (simp add: used_buffers_def)

lemma used_buffers_append2: "used_buffers s fss (xs @ ys) \<Longrightarrow> used_buffers s fss ys"
  by (cases s) (auto simp: used_buffers_def)

text \<open>
  \<open>po_get_post\<close>: mailbox \<open>i\<close> has lost its messages up to the first live one, which is the
  result; the discarded ones are back in the pool, the result belongs to the caller.
\<close>

definition po_get_post ::
  "nat \<Rightarrow> po_state \<Rightarrow> addr list list \<Rightarrow> addr list list \<Rightarrow> nat list \<Rightarrow> ptr \<Rightarrow> po_state \<Rightarrow> bool" where
  "po_get_post i = (\<lambda>(m, B, P) mss fss sems res (m', B', P').
     res = head_opt (live m (mss ! i)) \<and>
     po_ok (m', B', P') (mss[i := tl (live m (mss ! i))]) (give_all (m_code m) (dead m (mss ! i)) fss) \<and>
     used_buffers (m', B') (give_all (m_code m) (dead m (mss ! i)) fss)
       (take 1 (live m (mss ! i)) @ concat (mss[i := tl (live m (mss ! i))])) \<and>
     semHandle P' = sems \<and> MailBoxesNum P' = MailBoxesNum P \<and>
     same_pool B B' \<and> same_bytes m m' \<and>
     (\<forall>b. b \<notin> set (mss ! i) \<longrightarrow> b \<notin> pooled fss \<longrightarrow> m_next m' b = m_next m b))"

lemma other_messages:
  assumes "po_ok (m, B, P) mss fss" "i < length mss" "j < length mss" "j \<noteq> i" "b \<in> set (mss ! j)"
  shows "b \<notin> set (mss ! i) \<and> b \<notin> pooled fss"
proof -
  note D = po_okD [OF assms(1)]
  have "b \<in> set (concat mss)" using pooledI [OF assms(3,5)] by (simp only: pooled_def)
  with D(6) have "b \<notin> pooled fss" by (auto simp: used_buffers_def)
  moreover have "distinct (concat mss)" using D(6) by (simp add: used_buffers_def)
  ultimately show ?thesis using concat_nth_disjoint [of mss j i] assms(2-5) by blast
qed

lemma mailbox_Get_correct:
  assumes ok: "po_ok (m, B, P) mss fss" and i: "i < length mss"
  shows "\<exists>s'. mailbox_Get nd i (m, B, P) = Inr (head_opt (live m (mss ! i)), s') \<and>
    po_get_post i (m, B, P) mss fss (semHandle P) (head_opt (live m (mss ! i))) s'"
proof -
  note D = po_okD [OF ok]
  let ?d = "dead m (mss ! i)" and ?l = "live m (mss ! i)"
  let ?fss = "give_all (m_code m) ?d fss" and ?mss = "mss[i := tl ?l]"
  from mb_Get_correct [OF po_ok_mailbox [OF ok i], of nd] obtain m' B' M where
    g: "mb_Get nd (m, B, MailBoxes P ! i) = Inr (head_opt ?l, m', B', M)"
      "mb_ok (m', B', M) (tl ?l) ?fss"
      "mb_frame (mss ! i) fss (m, B, MailBoxes P ! i) (m', B', M)" by (rule get_postE)
  have split: "mset (mss ! i) = mset ?d + mset (take 1 ?l) + mset (tl ?l)"
    using arg_cong [OF dead_live [of m "mss ! i"], of mset] by (cases ?l) auto
  have "mset (concat mss) = mset (?d @ take 1 ?l @ concat ?mss)"
    using mset_concat_update [OF i, of "tl ?l"] split by (simp add: ac_simps)
  with D(6) have used: "used_buffers (m, B) fss (?d @ take 1 ?l @ concat ?mss)"
    using used_buffers_mset by blast
  have same: "same_bytes m m'" "same_pool B B'"
    and nx: "\<forall>b. b \<notin> set (mss ! i) \<longrightarrow> b \<notin> pooled fss \<longrightarrow> m_next m' b = m_next m b"
    using g(3) by (simp_all add: mb_frame_def)
  have used': "used_buffers (m', B') ?fss (take 1 ?l @ concat ?mss)"
    using used_buffers_give_all(1) [OF used D(1)] used_buffers_same [OF same] by simp
  have tb: "tb_content (m', B') ?fss" and mc: "mb_content (m', M) (tl ?l)"
    using g(2) by (simp_all add: mb_ok_def)
  have other: "m_next m' b = m_next m b" if "j < length mss" "j \<noteq> i" "b \<in> set (mss ! j)" for j b
    using other_messages [OF ok i that] nx by blast
  have "po_ok (m', B', P\<lparr>MailBoxes := (MailBoxes P)[i := M], semHandle := semHandle P\<rparr>) ?mss ?fss"
    by (rule po_ok_update [OF ok i tb mc used_buffers_append2 [OF used'] other D(4)])
  moreover have "P\<lparr>MailBoxes := Ms, semHandle := semHandle P\<rparr> = P\<lparr>MailBoxes := Ms\<rparr>" for Ms
    by simp
  moreover have "mailbox_Get nd i (m, B, P) =
      Inr (head_opt ?l, m', B', P\<lparr>MailBoxes := (MailBoxes P)[i := M]\<rparr>)"
    using g(1) by (simp add: mailbox_Get_def)
  ultimately show ?thesis using used' same nx by (simp add: po_get_post_def)
qed

lemma po_Get_correct:
  assumes "po_ok (m, B, P) mss fss" "mailBoxID < MailBoxesNum P" "i = unat mailBoxID"
  shows "\<exists>s'. po_Get nd mailBoxID (m, B, P) = Inr (head_opt (live m (mss ! i)), s') \<and>
    po_get_post i (m, B, P) mss fss (semHandle P) (head_opt (live m (mss ! i))) s'"
  using mailbox_Get_correct [OF assms(1), of i nd] assms(2,3) po_okD(2) [OF assms(1)]
  by (simp add: po_Get_def word_less_nat_alt word_le_nat_alt)

lemma first_signalled_Some:
  "first_signalled ss = Some i \<longleftrightarrow> i < length ss \<and> ss ! i > 0 \<and> (\<forall>j < i. ss ! j = 0)"
proof (induction ss arbitrary: i)
  case Nil
  then show ?case by simp
next
  case (Cons s ss)
  show ?case
  proof (cases i)
    case 0
    then show ?thesis using Cons by auto
  next
    case (Suc k)
    then show ?thesis using Cons [of k] by (auto simp: All_less_Suc2)
  qed
qed

lemma first_signalled_None: "first_signalled ss = None \<longleftrightarrow> (\<forall>j < length ss. ss ! j = 0)"
  by (induction ss) (auto simp: All_less_Suc2)

text \<open>A queued message with a signal is delivered: \<open>GetSync\<close> serves the first signalled mailbox.\<close>

lemma po_GetSync_correct:
  assumes ok: "po_ok (m, B, P) mss fss" and n: "unat (MailBoxesNum P) \<le> MAXIMUM_WAIT_OBJECTS"
    and i: "i < length mss" "0 < semHandle P ! i" "\<forall>j < i. semHandle P ! j = 0"
  shows "\<exists>s'. po_GetSync nd (m, B, P) = Inr (head_opt (live m (mss ! i)), of_nat i, s') \<and>
    po_get_post i (m, B, P) mss fss ((semHandle P)[i := semHandle P ! i - 1])
      (head_opt (live m (mss ! i))) s'"
proof -
  note D = po_okD [OF ok]
  let ?sems = "(semHandle P)[i := semHandle P ! i - 1]"
  let ?P = "P\<lparr>semHandle := ?sems\<rparr>"
  have il: "i < 64" using n i(1) D(2) by (simp add: MAXIMUM_WAIT_OBJECTS_def)
  have ok': "po_ok (m, B, ?P) mss fss" using ok by (simp add: po_ok_def)
  have "first_signalled (take (unat (MailBoxesNum P)) (semHandle P)) = Some i"
    using i D(2,4) by (simp add: first_signalled_Some)
  then have wait: "WaitForMultipleObjects (unat (MailBoxesNum P)) (semHandle P) = Inr (of_nat i, ?sems)"
    using n by (simp add: WaitForMultipleObjects_def)
  have id: "ucast (of_nat i :: u32) = (of_nat i :: u8)"
    using il by (simp add: unsigned_of_nat take_bit_nat_eq_self)
  have u: "unat (of_nat i :: u8) = i" using il by (intro unat_of_nat_less) simp
  have lt: "\<not> MailBoxesNum P \<le> (of_nat i :: u8)"
    using i(1) D(2) u by (simp add: word_le_nat_alt)
  from mailbox_Get_correct [OF ok' i(1), of nd] obtain s' where
    s': "mailbox_Get nd i (m, B, ?P) = Inr (head_opt (live m (mss ! i)), s')"
      "po_get_post i (m, B, ?P) mss fss ?sems (head_opt (live m (mss ! i))) s'" by auto
  have "po_GetSync nd (m, B, P) = Inr (head_opt (live m (mss ! i)), of_nat i, s')"
    using wait id u lt s'(1) by (simp add: po_GetSync_def)
  moreover have "po_get_post i (m, B, P) mss fss ?sems (head_opt (live m (mss ! i))) s'"
    using s'(2) by (cases s') (simp add: po_get_post_def)
  ultimately show ?thesis by blast
qed

subsection \<open>\<open>Purge\<close>\<close>

lemma PurgeMailBox_correct:
  assumes ok: "po_ok (m, B, P) mss fss" and id: "mailBoxID < MailBoxesNum P"
    and idx: "i = unat mailBoxID"
  shows "\<exists>m' B' P'. PurgeMailBox nd mailBoxID (m, B, P) = Inr (m', B', P') \<and>
    po_ok (m', B', P') (mss[i := []]) (give_all (m_code m) (mss ! i) fss) \<and>
    semHandle P' = semHandle P \<and> MailBoxesNum P' = MailBoxesNum P \<and>
    same_pool B B' \<and> same_bytes m m' \<and>
    (\<forall>b. b \<notin> set (mss ! i) \<longrightarrow> b \<notin> pooled fss \<longrightarrow> m_next m' b = m_next m b)"
proof -
  note D = po_okD [OF ok]
  have i: "i < length mss" using id idx D(2) by (simp add: word_less_nat_alt)
  let ?fss = "give_all (m_code m) (mss ! i) fss"
  from mb_Purge_correct [OF po_ok_mailbox [OF ok i], of nd] obtain m' B' M where
    g: "mb_Purge nd (m, B, MailBoxes P ! i) = Inr (m', B', M)" "mb_ok (m', B', M) [] ?fss"
      "mb_frame (mss ! i) fss (m, B, MailBoxes P ! i) (m', B', M)" by (rule purge_postE)
  have "mset (concat mss) = mset (mss ! i @ concat (mss[i := []]))"
    using mset_concat_update [OF i, of "[]"] by (simp add: ac_simps)
  with D(6) have used: "used_buffers (m, B) fss (mss ! i @ concat (mss[i := []]))"
    using used_buffers_mset by blast
  have same: "same_bytes m m'" "same_pool B B'"
    and nx: "\<forall>b. b \<notin> set (mss ! i) \<longrightarrow> b \<notin> pooled fss \<longrightarrow> m_next m' b = m_next m b"
    using g(3) by (simp_all add: mb_frame_def)
  have used': "used_buffers (m', B') ?fss (concat (mss[i := []]))"
    using used_buffers_give_all(1) [OF used D(1)] used_buffers_same [OF same] by simp
  have tb: "tb_content (m', B') ?fss" and mc: "mb_content (m', M) []"
    using g(2) by (simp_all add: mb_ok_def)
  have other: "m_next m' b = m_next m b" if "j < length mss" "j \<noteq> i" "b \<in> set (mss ! j)" for j b
    using other_messages [OF ok i that] nx by blast
  let ?P = "P\<lparr>MailBoxes := (MailBoxes P)[i := M], semHandle := semHandle P\<rparr>"
  have "po_ok (m', B', ?P) (mss[i := []]) ?fss"
    by (rule po_ok_update [OF ok i tb mc used' other D(4)])
  moreover have "PurgeMailBox nd mailBoxID (m, B, P) = Inr (m', B', ?P)"
    using g(1) iffD2 [OF not_le id] idx by (simp add: PurgeMailBox_def Let_def)
  ultimately show ?thesis using same nx by (intro exI [of _ m'] exI [of _ B'] exI [of _ ?P]) simp
qed

end
