(* ===== verification/DeltaList.thy ===== *)
theory DeltaList
  imports Prelude
begin

text \<open>
  The abstract timer list that \<open>CTimer\<close> refines: a delta list, in which every entry counts the
  ticks after the entry in front of it.  \<open>absol\<close> reads it as the list of the absolute expiry
  times; insertion is then a stable insertion into a sorted list and a tick takes one off
  every time.
\<close>

type_synonym 'a dlist = "('a \<times> nat) list"

fun dins :: "'a \<Rightarrow> nat \<Rightarrow> 'a dlist \<Rightarrow> 'a dlist" where
  "dins t c [] = [(t, c)]"
| "dins t c ((a, d) # L) = (if c < d then (t, c) # (a, d - c) # L else (a, d) # dins t (c - d) L)"

definition due :: "'a dlist \<Rightarrow> 'a list" where
  "due L = map fst (takeWhile (\<lambda>(a, d). d = 0) L)"

definition pending :: "'a dlist \<Rightarrow> 'a dlist" where
  "pending L = dropWhile (\<lambda>(a, d). d = 0) L"

fun dtick :: "'a dlist \<Rightarrow> 'a list \<times> 'a dlist" where
  "dtick [] = ([], [])"
| "dtick ((a, d) # L) = (due ((a, d - 1) # L), pending ((a, d - 1) # L))"

text \<open>\<open>fires n L\<close>: what each of \<open>n\<close> ticks delivers.\<close>

fun fires :: "nat \<Rightarrow> 'a dlist \<Rightarrow> 'a list list" where
  "fires 0 L = []"
| "fires (Suc n) L = fst (dtick L) # fires n (snd (dtick L))"

fun absol :: "nat \<Rightarrow> 'a dlist \<Rightarrow> ('a \<times> nat) list" where
  "absol t [] = []"
| "absol t ((a, d) # L) = (a, t + d) # absol (t + d) L"

text \<open>No tick finds a count of zero at the head, which would wrap around.\<close>

definition d_ok :: "'a dlist \<Rightarrow> bool" where
  "d_ok L \<longleftrightarrow> (case L of [] \<Rightarrow> True | (a, d) # _ \<Rightarrow> 0 < d)"

lemma d_ok_simps [simp]: "d_ok []" "d_ok ((a, d) # L) \<longleftrightarrow> 0 < d"
  by (simp_all add: d_ok_def)

lemma due_pending_simps [simp]:
  "due [] = []" "pending [] = []"
  "due ((a, d) # L) = (if d = 0 then a # due L else [])"
  "pending ((a, d) # L) = (if d = 0 then pending L else (a, d) # L)"
  by (simp_all add: due_def pending_def)

lemma absol_ge: "(a, x) \<in> set (absol t L) \<Longrightarrow> t \<le> x"
  by (induction L arbitrary: t) (auto, fastforce)

lemma absol_shift: "absol (t + k) L = map (\<lambda>(a, x). (a, x + k)) (absol t L)"
proof (induction L arbitrary: t)
  case (Cons p L)
  obtain a d where p: "p = (a, d)" by fastforce
  from Cons [of "t + d"] show ?case by (simp add: p ac_simps)
qed simp

lemma map_fst_absol [simp]: "map fst (absol t L) = map fst L"
  by (induction L arbitrary: t) auto

lemma set_dins: "set (map fst (dins t c L)) = insert t (set (map fst L))"
  by (induction t c L rule: dins.induct) auto

lemma length_dins [simp]: "length (dins t c L) = Suc (length L)"
  by (induction t c L rule: dins.induct) auto

lemma mset_dins: "distinct (map fst (dins t c L)) \<longleftrightarrow> distinct (t # map fst L)"
proof (induction t c L rule: dins.induct)
  case (2 t c a d L)
  then show ?case using set_dins [of t "c - d" L] by auto
qed simp

lemma d_ok_dins: "d_ok L \<Longrightarrow> 0 < c \<Longrightarrow> d_ok (dins t c L)"
  by (cases L) (auto split: if_splits)

lemma d_ok_pending: "d_ok (pending L)"
  by (induction L) auto

lemma d_ok_dtick: "d_ok (snd (dtick L))"
  by (cases L rule: dtick.cases) (simp_all add: d_ok_pending)

text \<open>Insertion, read on absolute times: behind every timer that expires no later.\<close>

lemma absol_dins:
  "absol t (dins a c L) =
     takeWhile (\<lambda>(b, x). x \<le> t + c) (absol t L) @ (a, t + c) #
     dropWhile (\<lambda>(b, x). x \<le> t + c) (absol t L)"
proof (induction L arbitrary: t c)
  case Nil
  then show ?case by simp
next
  case (Cons p L)
  obtain b d where p: "p = (b, d)" by fastforce
  from Cons [of "t + d" "c - d"] show ?case by (auto simp: p)
qed

lemma due_absol: "due L = map fst (takeWhile (\<lambda>(a, x). x = 0) (absol 0 L))"
  by (induction L) auto

lemma pending_absol: "absol 0 (pending L) = dropWhile (\<lambda>(a, x). x = 0) (absol 0 L)"
  by (induction L) auto

text \<open>A tick, read on absolute times: the timers at 1 are delivered, the others lose one.\<close>

lemma absol_dtick:
  assumes "d_ok L"
  shows "fst (dtick L) = map fst (takeWhile (\<lambda>(a, x). x = 1) (absol 0 L))"
    and "absol 0 (snd (dtick L)) =
      map (\<lambda>(a, x). (a, x - 1)) (dropWhile (\<lambda>(a, x). x = 1) (absol 0 L))"
proof -
  have "fst (dtick L) = map fst (takeWhile (\<lambda>(a, x). x = 1) (absol 0 L)) \<and>
    absol 0 (snd (dtick L)) = map (\<lambda>(a, x). (a, x - 1)) (dropWhile (\<lambda>(a, x). x = 1) (absol 0 L))"
  proof (cases L)
    case (Cons p R)
    obtain a d where p: "p = (a, d)" by fastforce
    with assms Cons have d: "0 < d" by simp
    let ?L = "(a, d - 1) # R"
    let ?f = "\<lambda>(a, x). (a, x - 1 :: nat)"
    have "absol 0 L = map (\<lambda>(a, x). (a, x + 1)) (absol 0 ?L)"
      using absol_shift [of "d - 1" 1 R] d by (simp add: Cons p)
    then have L: "absol 0 L = map (\<lambda>(a, x). (a, x + 1)) (absol 0 ?L)" .
    have tick: "dtick L = (due ?L, pending ?L)" by (simp add: Cons p)
    have c: "(\<lambda>(a, x). x = Suc 0) \<circ> (\<lambda>(a, x). (a, x + 1)) = (\<lambda>(a, x). x = 0)"
      by (auto simp: fun_eq_iff)
    show ?thesis
      by (simp only: tick fst_conv snd_conv due_absol pending_absol L takeWhile_map dropWhile_map)
        (simp add: c map_map comp_def case_prod_beta')
  qed simp
  then show "fst (dtick L) = map fst (takeWhile (\<lambda>(a, x). x = 1) (absol 0 L))"
    and "absol 0 (snd (dtick L)) =
      map (\<lambda>(a, x). (a, x - 1)) (dropWhile (\<lambda>(a, x). x = 1) (absol 0 L))" by simp_all
qed

lemma absol_sorted: "sorted (map snd (absol t L))"
proof (induction L arbitrary: t)
  case (Cons p L)
  obtain a d where p: "p = (a, d)" by fastforce
  show ?case using Cons absol_ge [of _ _ "t + d" L] by (fastforce simp: p)
qed simp

lemma sorted_split_one:
  assumes "sorted (map snd A)" "\<forall>(b, y) \<in> set A. 0 < y"
  shows "takeWhile (\<lambda>(a, x). x = Suc 0) A = filter (\<lambda>(a, x). x = Suc 0) A"
    and "dropWhile (\<lambda>(a, x). x = Suc 0) A = filter (\<lambda>(a, x). x \<noteq> Suc 0) A"
proof -
  have "takeWhile (\<lambda>(a, x). x = Suc 0) A = filter (\<lambda>(a, x). x = Suc 0) A \<and>
      dropWhile (\<lambda>(a, x). x = Suc 0) A = filter (\<lambda>(a, x). x \<noteq> Suc 0) A"
    using assms
  proof (induction A)
    case (Cons p A)
    obtain b y where p: "p = (b, y)" by fastforce
    show ?case
    proof (cases "y = Suc 0")
      case False
      with Cons.prems have "1 < y" "\<forall>q \<in> set A. y \<le> snd q" by (auto simp: p)
      then have "\<forall>q \<in> set A. snd q \<noteq> Suc 0" by fastforce
      then have "filter (\<lambda>(a, x). x = Suc 0) A = []" "filter (\<lambda>(a, x). x \<noteq> Suc 0) A = A"
        by (auto simp: filter_empty_conv filter_id_conv)
      with False show ?thesis by (simp add: p)
    qed (use Cons in \<open>simp add: p\<close>)
  qed simp
  then show "takeWhile (\<lambda>(a, x). x = Suc 0) A = filter (\<lambda>(a, x). x = Suc 0) A"
    and "dropWhile (\<lambda>(a, x). x = Suc 0) A = filter (\<lambda>(a, x). x \<noteq> Suc 0) A" by simp_all
qed

lemma absol_pos: "d_ok L \<Longrightarrow> \<forall>(b, y) \<in> set (absol 0 L). 0 < y"
  using absol_ge by (cases L) fastforce+

lemma absol_unique:
  "distinct (map fst L) \<Longrightarrow> (a, x) \<in> set (absol t L) \<Longrightarrow> (a, y) \<in> set (absol t L) \<Longrightarrow> x = y"
  using eq_key_imp_eq_value [of "absol t L" a x y] by simp

lemma dtick_member:
  assumes "d_ok L" "(a, x) \<in> set (absol 0 L)" "distinct (map fst L)"
  shows "a \<in> set (fst (dtick L)) \<longleftrightarrow> x = 1"
    and "x \<noteq> 1 \<Longrightarrow> (a, x - 1) \<in> set (absol 0 (snd (dtick L)))"
    and "x = 1 \<Longrightarrow> a \<notin> set (map fst (snd (dtick L)))"
    and "distinct (map fst (snd (dtick L)))"
proof -
  note T = absol_dtick [OF assms(1)]
  note S = sorted_split_one [OF absol_sorted absol_pos [OF assms(1)]]
  have f: "set (fst (dtick L)) = {b. (b, 1) \<in> set (absol 0 L)}"
    using S(1) by (force simp: T(1))
  show "a \<in> set (fst (dtick L)) \<longleftrightarrow> x = 1"
    using absol_unique [OF assms(3), of a x 0 1] assms(2) by (auto simp: f)
  show "x \<noteq> 1 \<Longrightarrow> (a, x - 1) \<in> set (absol 0 (snd (dtick L)))"
    using assms(2) S(2) by (force simp: T(2))
  have m: "map fst (snd (dtick L)) = map fst (filter (\<lambda>(a, x). x \<noteq> 1) (absol 0 L))"
    using arg_cong [OF T(2), of "map fst"] S(2) by (simp add: comp_def case_prod_beta')
  show "distinct (map fst (snd (dtick L)))"
    unfolding m using assms(3) by (intro distinct_map_filter) simp
  show "x = 1 \<Longrightarrow> a \<notin> set (map fst (snd (dtick L)))"
  proof
    assume x: "x = 1" and "a \<in> set (map fst (snd (dtick L)))"
    then obtain y where "(a, y) \<in> set (absol 0 L)" "y \<noteq> 1" unfolding m by auto
    with absol_unique [OF assms(3,2)] x show False by blast
  qed
qed

text \<open>The timer that expires at time \<open>x\<close> is delivered by the \<open>x\<close>-th tick and by no other.\<close>

lemma fires_unknown:
  "a \<notin> set (map fst L) \<Longrightarrow> k < n \<Longrightarrow> a \<notin> set (fires n L ! k)"
proof (induction n arbitrary: L k)
  case (Suc n)
  have "due M @ map fst (pending M) = map fst M" for M :: "'a dlist"
    unfolding due_def pending_def map_append [symmetric] by simp
  from arg_cong [OF this, of set]
  have "set (due M) \<union> set (map fst (pending M)) = set (map fst M)" for M :: "'a dlist" by simp
  then have "a \<notin> set (fst (dtick L))" "a \<notin> set (map fst (snd (dtick L)))"
    using Suc.prems(1) by (cases L rule: dtick.cases; auto)+
  with Suc show ?case by (cases k) auto
qed simp

lemma fires_at:
  assumes "d_ok L" "(a, x) \<in> set (absol 0 L)" "distinct (map fst L)" "k < n"
  shows "a \<in> set (fires n L ! k) \<longleftrightarrow> k + 1 = x"
  using assms
proof (induction n arbitrary: L x k)
  case 0
  then show ?case by simp
next
  case (Suc n)
  note D = dtick_member [OF Suc.prems(1-3)]
  have pos: "0 < x" using absol_pos [OF Suc.prems(1)] Suc.prems(2) by auto
  show ?case
  proof (cases k)
    case 0
    then show ?thesis using D(1) by auto
  next
    case (Suc j)
    show ?thesis
    proof (cases "x = 1")
      case True
      then show ?thesis using fires_unknown [OF D(3), of j n] Suc Suc.prems(4) by simp
    next
      case False
      from Suc.IH [OF d_ok_dtick D(2) [OF False] D(4), of j] Suc Suc.prems(4) pos show ?thesis
        by auto
    qed
  qed
qed

end
