(* ===== verification/Timer.thy ===== *)
theory Timer
  imports PostOffice DeltaList
begin

text \<open>
  \<open>CTimer\<close> (\<open>src/Kernel/timer.h\<close>, \<open>timer.cpp\<close>): the running timers are buffers in a linked delta
  list behind a dummy entry.  A tick takes one off the first count and hands every timer whose
  count is 0 to the post office.  \<open>timer_content\<close> relates the list to a \<open>DeltaList\<close>, which \<open>Add\<close>
  and the tick handler refine.
\<close>

datatype TimerResolutionEnum = Timer1ms | Timer10ms | Timer100ms | Timer1s

fun res_ms :: "TimerResolutionEnum \<Rightarrow> nat" where
  "res_ms Timer1ms = 1"
| "res_ms Timer10ms = 10"
| "res_ms Timer100ms = 100"
| "res_ms Timer1s = 1000"

text \<open>\<open>t_First\<close> is the \<open>BUFF_NEXT\<close> field of the dummy entry, \<open>t_HeadCount\<close> its \<open>TIMER_COUNT\<close>.\<close>

record timers =
  t_First :: ptr
  t_HeadCount :: u32
  TimerResolution :: TimerResolutionEnum
  CsTimer :: nat

type_synonym timer_state = "mem \<times> timers"

text \<open>\<open>TimerIdent\<close> is what the call of \<open>timeSetEvent\<close> returns.\<close>

definition CTimer ::
  "tbuffers option \<Rightarrow> post_office option \<Rightarrow> TimerResolutionEnum \<Rightarrow> u32 \<Rightarrow> timers result" where
  "CTimer buffers postOffice timerRes TimerIdent =
     checkC (buffers = None) 0x01010400
     (checkC (postOffice = None) 0x01010401
     (checkC (TimerIdent = 0) 0x01010802
     (Inr \<lparr>t_First = None, t_HeadCount = 0, TimerResolution = timerRes, CsTimer = 0\<rparr>)))"

definition DisableTimer :: "timers \<Rightarrow> timers" where
  "DisableTimer T = T\<lparr>CsTimer := CsTimer T + 1\<rparr>"

definition EnableTimer :: "timers \<Rightarrow> timers" where
  "EnableTimer T = T\<lparr>CsTimer := CsTimer T - 1\<rparr>"

subsection \<open>The entries of the list\<close>

datatype tnode = Dummy | Node addr

definition timer_count :: "mem \<Rightarrow> addr \<Rightarrow> u32" where
  "timer_count m a = GetUint32 (m_data m a) TIMER_COUNT"

definition SetCount :: "addr \<Rightarrow> u32 \<Rightarrow> mem \<Rightarrow> mem" where
  "SetCount a c m = SetData a (SetUint32 (m_data m a) TIMER_COUNT c) m"

fun node_count :: "mem \<Rightarrow> timers \<Rightarrow> tnode \<Rightarrow> u32" where
  "node_count m T Dummy = t_HeadCount T"
| "node_count m T (Node a) = timer_count m a"

fun node_next :: "mem \<Rightarrow> timers \<Rightarrow> tnode \<Rightarrow> ptr" where
  "node_next m T Dummy = t_First T"
| "node_next m T (Node a) = m_next m a"

fun set_node_next :: "tnode \<Rightarrow> ptr \<Rightarrow> timer_state \<Rightarrow> timer_state" where
  "set_node_next Dummy p (m, T) = (m, T\<lparr>t_First := p\<rparr>)"
| "set_node_next (Node a) p (m, T) = (SetNext a p m, T)"

fun set_node_count :: "tnode \<Rightarrow> u32 \<Rightarrow> timer_state \<Rightarrow> timer_state" where
  "set_node_count Dummy c (m, T) = (m, T\<lparr>t_HeadCount := c\<rparr>)"
| "set_node_count (Node a) c (m, T) = (SetCount a c m, T)"

subsection \<open>\<open>Add\<close>\<close>

text \<open>
  The search loop of \<open>Add\<close>; \<open>fuel\<close> bounds its iterations as in \<open>Mailbox\<close>, and the list is at
  most \<open>m_top\<close> buffers long.
\<close>

fun add_loop :: "nat \<Rightarrow> addr \<Rightarrow> tnode option \<Rightarrow> tnode \<Rightarrow> timer_state \<Rightarrow>
    (tnode option \<times> tnode \<times> timer_state) result" where
  "add_loop 0 timer prev current s = Inl NoFuel"
| "add_loop (Suc fuel) timer prev current (m, T) =
     (case node_next m T current of
        None \<Rightarrow> Inr (prev, current, m, T)
      | Some n \<Rightarrow>
          if timer_count m timer \<ge> node_count m T current
          then add_loop fuel timer (Some current) (Node n)
                 (SetCount timer (timer_count m timer - node_count m T current) m, T)
          else Inr (prev, current, m, T))"

definition add_link :: "addr \<Rightarrow> tnode option \<times> tnode \<times> timer_state \<Rightarrow> timer_state result" where
  "add_link timer = (\<lambda>(prev, current, m, T).
     if timer_count m timer < node_count m T current
     then let (m, T) = set_node_count current (node_count m T current - timer_count m timer) (m, T);
              m = SetNext timer (case current of Dummy \<Rightarrow> None | Node a \<Rightarrow> Some a) m
          in (case prev of None \<Rightarrow> Inl NullDeref
              | Some p \<Rightarrow> Inr (set_node_next p (Some timer) (m, T)))
     else let m = SetCount timer (timer_count m timer - node_count m T current) m;
              m = SetNext timer None m
          in Inr (set_node_next current (Some timer) (m, T)))"

definition timer_Add :: "addr \<Rightarrow> timer_state \<Rightarrow> timer_state result" where
  "timer_Add timer = (\<lambda>(m, T).
     let T = DisableTimer T in
     bindR (bindR (add_loop (m_top m + 1) timer None Dummy (m, T)) (add_link timer)) (\<lambda>(m, T).
     Inr (m, EnableTimer T)))"

subsection \<open>Starting and stopping\<close>

definition kt_StartTimer ::
  "ptr \<Rightarrow> u8 \<Rightarrow> u32 \<Rightarrow> TimerResolutionEnum \<Rightarrow> timer_state \<Rightarrow> timer_state result" where
  "kt_StartTimer timerMessage mailBoxId cnt timerRes = (\<lambda>(m, T).
     checkC (cnt = 0) 0x21000403
     (let cnt = cnt * of_nat (res_ms timerRes div res_ms (TimerResolution T)) in
      deref timerMessage (\<lambda>a.
      in_buff m a (TIMER_COUNT + 4)
      (let m = SetCount a cnt m;
           m = SetData a (SetByte (m_data m a) MSG_FROM_AUTOMATE TIMER) m;
           m = SetData a (SetByte (m_data m a) TIMER_MBX_ID mailBoxId) m
       in timer_Add a (m, T)))))"

definition kt_StopTimer :: "ptr \<Rightarrow> mem \<Rightarrow> mem result" where
  "kt_StopTimer timerMessage m =
     (case timerMessage of None \<Rightarrow> Inr m
      | Some a \<Rightarrow> in_buff m a (MSG_CODE + 2)
          (Inr (SetData a (SetUint16 (m_data m a) MSG_CODE DISCARDED) m)))"

definition kt_RestartTimer :: "bool \<Rightarrow> ptr \<Rightarrow> u32 \<Rightarrow> TimerResolutionEnum \<Rightarrow>
    mem \<times> tbuffers \<times> timers \<Rightarrow> (ptr \<times> mem \<times> tbuffers \<times> timers) result" where
  "kt_RestartTimer nd timerMessage cnt timerRes = (\<lambda>(m, B, T).
     checkC (cnt = 0) 0x21000406
     (checkC (timerMessage = None) 0x21000407
     (deref timerMessage (\<lambda>a.
     in_buff m a MSG_HEADER_LENGTH
     (checkC (GetUint16 (m_data m a) MSG_CODE = DISCARDED) 0x21090408
     (let cnt = cnt * of_nat (res_ms timerRes div res_ms (TimerResolution T));
          len = MSG_HEADER_LENGTH + unat (GetUint16 (m_data m a) MSG_LENGTH)
      in bindR (GetBuffer nd (of_nat len) (m, B)) (\<lambda>(tmp, m, B).
         in_buff m a len (in_buff m tmp len
         (let m = SetData tmp (take len (m_data m a) @ drop len (m_data m tmp)) m;
              m = SetCount tmp cnt m
          in bindR (timer_Add tmp (m, T)) (\<lambda>(m, T).
             bindR (kt_StopTimer timerMessage m) (\<lambda>m.
             Inr (Some tmp, m, B, T))))))))))))"

definition TimerRunning :: "ptr \<Rightarrow> mem \<Rightarrow> bool result" where
  "TimerRunning timerMessage m =
     checkC (timerMessage = None) 0x21000409
     (deref timerMessage (\<lambda>a. in_buff m a (MSG_CODE + 2)
       (Inr (\<not> GetUint16 (m_data m a) MSG_CODE = DISCARDED))))"

definition kt_IsEmpty :: "timers \<Rightarrow> bool \<times> timers" where
  "kt_IsEmpty T = (let T = DisableTimer T; tmp = (t_First T = None) in (tmp, EnableTimer T))"

fun timer_purge_loop :: "nat \<Rightarrow> bool \<Rightarrow> mem \<times> tbuffers \<times> timers \<Rightarrow> (mem \<times> tbuffers \<times> timers) result" where
  "timer_purge_loop 0 nd (m, B, T) = (if t_First T = None then Inr (m, B, T) else Inl NoFuel)"
| "timer_purge_loop (Suc fuel) nd (m, B, T) =
     (case t_First T of None \<Rightarrow> Inr (m, B, T)
      | Some tmp \<Rightarrow>
          let T = T\<lparr>t_First := m_next m tmp\<rparr> in
          bindR (RetBuffer nd (Some tmp) (m, B)) (\<lambda>(m, B). timer_purge_loop fuel nd (m, B, T)))"

definition timer_Purge :: "bool \<Rightarrow> mem \<times> tbuffers \<times> timers \<Rightarrow> (mem \<times> tbuffers \<times> timers) result" where
  "timer_Purge nd = (\<lambda>(m, B, T).
     bindR (timer_purge_loop (m_top m) nd (m, B, DisableTimer T)) (\<lambda>(m, B, T).
     Inr (m, B, EnableTimer T)))"

text \<open>\<open>killed\<close> tells whether \<open>timeKillEvent\<close> has returned \<open>TIMERR_NOERROR\<close>.\<close>

definition timer_destructor ::
  "bool \<Rightarrow> bool \<Rightarrow> mem \<times> tbuffers \<times> timers \<Rightarrow> (mem \<times> tbuffers) result" where
  "timer_destructor nd killed s =
     bindR (timer_Purge nd s) (\<lambda>(m, B, T). checkC (\<not> killed) 0x0101080f (Inr (m, B)))"

subsection \<open>The tick\<close>

type_synonym tick_state = "mem \<times> tbuffers \<times> post_office \<times> timers"

fun tick_loop :: "nat \<Rightarrow> tick_state \<Rightarrow> tick_state result" where
  "tick_loop 0 s = Inl NoFuel"
| "tick_loop (Suc fuel) (m, B, P, T) =
     deref (t_First T) (\<lambda>tmp.
     if timer_count m tmp = 0
     then let T = T\<lparr>t_First := m_next m tmp\<rparr> in
          bindR (po_Add (m_data m tmp ! TIMER_MBX_ID) (Some tmp) (m, B, P)) (\<lambda>(m, B, P).
          if t_First T = None then Inr (m, B, P, T) else tick_loop fuel (m, B, P, T))
     else Inr (m, B, P, T))"

definition TimerIntHandler :: "tick_state \<Rightarrow> tick_state result" where
  "TimerIntHandler = (\<lambda>(m, B, P, T).
     let T = DisableTimer T in
     bindR (case t_First T of
         None \<Rightarrow> Inr (m, B, P, T)
       | Some tmp \<Rightarrow> tick_loop (m_top m + 1) (SetCount tmp (timer_count m tmp - 1) m, B, P, T))
       (\<lambda>(m, B, P, T). Inr (m, B, P, EnableTimer T)))"

subsection \<open>Abstraction to a delta list\<close>

definition timer_content :: "timer_state \<Rightarrow> addr dlist \<Rightarrow> bool" where
  "timer_content = (\<lambda>(m, T) L.
     chain (m_next m) (t_First T) (map fst L) \<and> distinct (map fst L) \<and> t_HeadCount T = 0 \<and>
     (\<forall>(a, d) \<in> set L. unat (timer_count m a) = d))"

text \<open>Only the \<open>TIMER_COUNT\<close> fields of the buffers in \<open>S\<close> have been written.\<close>

definition recounted :: "addr set \<Rightarrow> mem \<Rightarrow> mem \<Rightarrow> bool" where
  "recounted S m m' \<longleftrightarrow> m_code m' = m_code m \<and> m_top m' = m_top m \<and>
     (\<forall>b. b \<notin> S \<longrightarrow> m_data m' b = m_data m b) \<and>
     (\<forall>b. length (m_data m' b) = length (m_data m b) \<and>
        (\<forall>j. j < TIMER_COUNT \<or> TIMER_COUNT + 3 < j \<longrightarrow> m_data m' b ! j = m_data m b ! j))"

lemma recounted_refl [simp]: "recounted S m m"
  by (simp add: recounted_def)

lemma recounted_trans: "recounted S m m1 \<Longrightarrow> recounted S m1 m2 \<Longrightarrow> recounted S m m2"
  by (simp add: recounted_def)

lemma recounted_mono: "recounted S m m' \<Longrightarrow> S \<subseteq> S' \<Longrightarrow> recounted S' m m'"
  by (auto simp: recounted_def)

lemma recounted_SetCount: "a \<in> S \<Longrightarrow> recounted S m (SetCount a c m)"
  by (auto simp: recounted_def SetCount_def mem_simps)

lemma recounted_SetNext [simp]: "recounted S m (SetNext a p m') \<longleftrightarrow> recounted S m m'"
  by (simp add: recounted_def)

lemma timer_count_SetCount [simp]:
  "TIMER_COUNT + 4 \<le> length (m_data m a) \<Longrightarrow> timer_count (SetCount a c m) a = c"
  "b \<noteq> a \<Longrightarrow> timer_count (SetCount a c m) b = timer_count m b"
  by (simp_all add: timer_count_def SetCount_def mem_simps)

lemma timer_count_SetNext [simp]: "timer_count (SetNext a p m) b = timer_count m b"
  by (simp add: timer_count_def)

lemma SetCount_next [simp]: "m_next (SetCount a c m) = m_next m"
  by (simp add: SetCount_def)

lemma SetCount_length [simp]: "length (m_data (SetCount a c m) b) = length (m_data m b)"
  by (simp add: SetCount_def)

subsection \<open>\<open>Add\<close> refines the insertion into a delta list\<close>

definition has_count :: "mem \<Rightarrow> addr \<Rightarrow> bool" where
  "has_count m a \<longleftrightarrow> TIMER_COUNT + 4 \<le> length (m_data m a)"

lemma has_count_simps [simp]:
  "has_count (SetCount a c m) b = has_count m b" "has_count (SetNext a p m) b = has_count m b"
  by (simp_all add: has_count_def)

lemma timer_count_SetCount_same [simp]: "has_count m a \<Longrightarrow> timer_count (SetCount a c m) a = c"
  by (simp add: has_count_def)

definition counts_ok :: "mem \<Rightarrow> addr dlist \<Rightarrow> bool" where
  "counts_ok m L \<longleftrightarrow> (\<forall>(a, d) \<in> set L. unat (timer_count m a) = d \<and> has_count m a)"

lemma counts_ok_simps [simp]:
  "counts_ok m []" "counts_ok m ((a, d) # L) \<longleftrightarrow>
     unat (timer_count m a) = d \<and> has_count m a \<and> counts_ok m L"
  by (auto simp: counts_ok_def)

lemma counts_ok_SetCount [simp]:
  "a \<notin> set (map fst L) \<Longrightarrow> counts_ok (SetCount a c m) L = counts_ok m L"
  unfolding counts_ok_def by (rule ball_cong) (auto simp: image_iff)

lemma counts_ok_SetNext [simp]: "counts_ok (SetNext a p m) L = counts_ok m L"
  by (simp add: counts_ok_def)

lemma counts_ok_recounted:
  assumes "recounted S m m'" "set (map fst L) \<inter> S = {}" "counts_ok m L"
  shows "counts_ok m' L"
proof -
  have "m_data m' a = m_data m a" if "(a, d) \<in> set L" for a d
  proof -
    have "a \<notin> S" using that assms(2) by force
    with assms(1) show ?thesis by (simp add: recounted_def)
  qed
  then show ?thesis using assms(3) by (fastforce simp: counts_ok_def timer_count_def has_count_def)
qed

lemma counts_ok_len: "counts_ok m L \<Longrightarrow> a \<in> set (map fst L) \<Longrightarrow> has_count m a"
  by (auto simp: counts_ok_def)

text \<open>The part of \<open>Add\<close> behind an entry \<open>cur\<close> that expires no later than the new timer \<open>t\<close>.\<close>

definition add_post ::
  "addr \<Rightarrow> nat \<Rightarrow> tnode \<Rightarrow> addr dlist \<Rightarrow> timer_state \<Rightarrow> timer_state result \<Rightarrow> bool" where
  "add_post t c cur R = (\<lambda>(m, T) r. \<exists>m' T'. r = Inr (m', T') \<and>
     chain (m_next m') (node_next m' T' cur) (map fst (dins t c R)) \<and>
     counts_ok m' (dins t c R) \<and> recounted (insert t (set (map fst R))) m m' \<and>
     (\<forall>b. Node b \<noteq> cur \<longrightarrow> b \<noteq> t \<longrightarrow> b \<notin> set (map fst R) \<longrightarrow> m_next m' b = m_next m b) \<and>
     T' = T\<lparr>t_First := t_First T'\<rparr> \<and> (cur \<noteq> Dummy \<longrightarrow> T' = T))"

definition behind :: "addr \<Rightarrow> tnode \<Rightarrow> addr dlist \<Rightarrow> bool" where
  "behind t cur R \<longleftrightarrow> distinct (map fst R) \<and> t \<notin> set (map fst R) \<and> cur \<noteq> Node t \<and>
     (\<forall>a \<in> set (map fst R). cur \<noteq> Node a)"

lemma node_count_SetCount [simp]:
  "cur \<noteq> Node t \<Longrightarrow> node_count (SetCount t c m) T cur = node_count m T cur"
  "node_next (SetCount t c m) T cur = node_next m T cur"
  by (cases cur; simp)+

lemma add_from:
  assumes "behind t cur R" "chain (m_next m) (node_next m T cur) (map fst R)" "counts_ok m R"
    and "has_count m t" "node_count m T cur \<le> timer_count m t" "length R < fuel"
    and "c = unat (timer_count m t - node_count m T cur)"
  shows "add_post t c cur R (m, T) (bindR (add_loop fuel t prev cur (m, T)) (add_link t))"
  using assms
proof (induction R arbitrary: prev cur m fuel c)
  case Nil
  then obtain f where fuel: "fuel = Suc f" by (cases fuel) auto
  let ?m = "SetNext t None (SetCount t (timer_count m t - node_count m T cur) m)"
  have r: "recounted {t} m ?m" by (simp add: recounted_SetCount)
  have nl: "\<not> timer_count m t < node_count m T cur" using Nil(5) by (simp add: not_less)
  show ?case
  proof (cases cur)
    case Dummy
    with Nil fuel r nl show ?thesis
      by (simp add: add_post_def add_link_def behind_def Let_def)
  next
    case (Node a)
    with Nil fuel r nl show ?thesis
      by (simp add: add_post_def add_link_def behind_def Let_def)
  qed
next
  case (Cons p R)
  obtain a d where p: "p = (a, d)" by fastforce
  from Cons.prems(6) obtain f where fuel: "fuel = Suc f" "length R < f" by (cases fuel) auto
  then obtain g where f: "f = Suc g" by (cases f) auto
  let ?m = "SetCount t (timer_count m t - node_count m T cur) m"
  have at: "a \<noteq> t" "t \<noteq> a" "cur \<noteq> Node a" "cur \<noteq> Node t" "a \<notin> set (map fst R)" "t \<notin> set (map fst R)"
    using Cons.prems(1) by (auto simp: behind_def p)
  have nx: "node_next m T cur = Some a" and ch: "chain (m_next m) (m_next m a) (map fst R)"
    using Cons.prems(2) by (simp_all add: p)
  have cnt: "unat (timer_count m a) = d" "has_count m a" "counts_ok m R"
    using Cons.prems(3) by (simp_all add: p)
  have step: "add_loop fuel t prev cur (m, T) = add_loop f t (Some cur) (Node a) (?m, T)"
    using Cons.prems(5) nx by (simp add: fuel(1))
  have ct: "timer_count ?m t = timer_count m t - node_count m T cur" "timer_count ?m a = timer_count m a"
    using Cons.prems(4) at by simp_all
  show ?case
  proof (cases "c < d")
    case False
    have "behind t (Node a) R" using Cons.prems(1) at by (auto simp: behind_def p)
    moreover have "node_count ?m T (Node a) \<le> timer_count ?m t"
      using False ct Cons.prems(7) cnt(1) by (simp add: word_le_nat_alt)
    moreover have "c - d = unat (timer_count ?m t - node_count ?m T (Node a))"
      using False ct Cons.prems(7) cnt(1) by (subst unat_sub) (simp_all add: word_le_nat_alt)
    ultimately have "add_post t (c - d) (Node a) R (?m, T)
        (bindR (add_loop f t (Some cur) (Node a) (?m, T)) (add_link t))"
      using Cons.IH [of "Node a" ?m f "c - d" "Some cur"] ch cnt Cons.prems(4) fuel at by simp
    then obtain m' T' where r: "bindR (add_loop f t (Some cur) (Node a) (?m, T)) (add_link t) = Inr (m', T')"
      "chain (m_next m') (m_next m' a) (map fst (dins t (c - d) R))" "counts_ok m' (dins t (c - d) R)"
      "recounted (insert t (set (map fst R))) ?m m'"
      "\<forall>b. b \<noteq> a \<longrightarrow> b \<noteq> t \<longrightarrow> b \<notin> set (map fst R) \<longrightarrow> m_next m' b = m_next m b" "T' = T"
      by (auto simp: add_post_def)
    have "node_next m' T cur = Some a"
      using nx r(5) at Cons.prems(1) by (cases cur) (auto simp: behind_def p)
    moreover have "counts_ok m' [(a, d)]"
      by (rule counts_ok_recounted [OF r(4)]) (use at cnt in auto)
    moreover have "recounted (insert t (set (map fst ((a, d) # R)))) m m'"
      using recounted_mono [OF recounted_SetCount [of t "{t}" m]] recounted_mono [OF r(4)]
        recounted_trans by (metis (no_types, lifting) empty_subsetI insert_iff insert_subset list.set_intros(2) list.simps(9) subsetI)
    ultimately show ?thesis
      using r False step by (simp add: add_post_def p)
  next
    case True
    let ?k = "timer_count m a - timer_count ?m t"
    let ?m1 = "SetNext t (Some a) (SetCount a ?k ?m)"
    have lt: "timer_count ?m t < timer_count m a"
      using True ct Cons.prems(7) cnt(1) by (simp add: word_less_nat_alt)
    have "add_loop f t (Some cur) (Node a) (?m, T) = Inr (Some cur, Node a, ?m, T)"
      using iffD2 [OF not_le lt] ct(2) by (simp add: f split: option.split)
    then have run: "bindR (add_loop fuel t prev cur (m, T)) (add_link t) =
        Inr (set_node_next cur (Some t) (?m1, T))"
      using step lt ct(2) by (simp add: add_link_def Let_def)
    have k: "unat ?k = d - c"
      using lt ct Cons.prems(7) cnt(1) by (subst unat_sub) (simp_all add: word_le_nat_alt word_less_nat_alt)
    have rc: "recounted (insert t (set (map fst ((a, d) # R)))) m (SetCount a ?k ?m)"
      by (rule recounted_trans [OF recounted_SetCount [of t] recounted_SetCount]) auto
    have co: "counts_ok (SetCount a ?k ?m) ((t, c) # (a, d - c) # R)"
      using at cnt k ct Cons.prems(4,7) by simp
    show ?thesis
    proof (cases cur)
      case Dummy
      with run rc co True at ch Cons.prems(4) cnt(2) show ?thesis by (simp add: add_post_def p)
    next
      case (Node b)
      then have "b \<noteq> a" "b \<noteq> t" "b \<notin> set (map fst R)"
        using Cons.prems(1) by (auto simp: behind_def p)
      with Node run rc co True at ch Cons.prems(4) cnt(2) show ?thesis by (simp add: add_post_def p)
    qed
  qed
qed

lemma timer_contentD:
  "timer_content (m, T) L \<Longrightarrow> \<forall>a \<in> set (map fst L). has_count m a \<Longrightarrow>
   chain (m_next m) (t_First T) (map fst L) \<and> distinct (map fst L) \<and> t_HeadCount T = 0 \<and> counts_ok m L"
  by (auto simp: timer_content_def counts_ok_def)

lemma dlist_fuel:
  assumes "distinct (map fst L)" "\<forall>a \<in> set (map fst L). a < n"
  shows "length L \<le> (n :: nat)"
proof -
  have "set (map fst L) \<subseteq> {..< n}" using assms(2) by auto
  then have "card (set (map fst L)) \<le> card {..< n}" by (intro card_mono) auto
  with distinct_card [OF assms(1)] show ?thesis by simp
qed

text \<open>
  \<open>Add\<close> puts the timer into the delta list, and writes nothing but counts and the links of the
  timers.
\<close>

lemma timer_Add_correct:
  assumes L: "timer_content (m, T) L" and t: "t \<notin> set (map fst L)"
    and len: "\<forall>a \<in> insert t (set (map fst L)). has_count m a" "\<forall>a \<in> set (map fst L). a < m_top m"
  shows "\<exists>m' T'. timer_Add t (m, T) = Inr (m', T') \<and>
    timer_content (m', T') (dins t (unat (timer_count m t)) L) \<and>
    recounted (insert t (set (map fst L))) m m' \<and>
    (\<forall>b. b \<noteq> t \<longrightarrow> b \<notin> set (map fst L) \<longrightarrow> m_next m' b = m_next m b) \<and>
    T' = T\<lparr>t_First := t_First T'\<rparr>"
proof -
  have D: "chain (m_next m) (t_First T) (map fst L)" "distinct (map fst L)" "t_HeadCount T = 0"
    "counts_ok m L"
    using timer_contentD [OF L] len(1) by auto
  let ?T = "DisableTimer T"
  have "behind t Dummy L" using D(2) t by (simp add: behind_def)
  moreover have "length L < m_top m + 1" using dlist_fuel [OF D(2) len(2)] by simp
  ultimately have "add_post t (unat (timer_count m t)) Dummy L (m, ?T)
      (bindR (add_loop (m_top m + 1) t None Dummy (m, ?T)) (add_link t))"
    using D len by (intro add_from) (simp_all add: DisableTimer_def)
  then obtain m' T' where r: "bindR (add_loop (m_top m + 1) t None Dummy (m, ?T)) (add_link t) = Inr (m', T')"
    "chain (m_next m') (t_First T') (map fst (dins t (unat (timer_count m t)) L))"
    "counts_ok m' (dins t (unat (timer_count m t)) L)"
    "recounted (insert t (set (map fst L))) m m'"
    "\<forall>b. b \<noteq> t \<longrightarrow> b \<notin> set (map fst L) \<longrightarrow> m_next m' b = m_next m b"
    "T' = ?T\<lparr>t_First := t_First T'\<rparr>"
    by (auto simp: add_post_def)
  have "t_HeadCount T' = 0" by (subst r(6)) (simp add: DisableTimer_def D(3))
  moreover have "distinct (map fst (dins t (unat (timer_count m t)) L))"
    using D(2) t by (simp add: mset_dins)
  moreover have "EnableTimer T' = T\<lparr>t_First := t_First (EnableTimer T')\<rparr>"
    by (subst r(6), subst r(6)) (simp add: EnableTimer_def DisableTimer_def)
  ultimately show ?thesis
    using r D(3) by (intro exI [of _ m'] exI [of _ "EnableTimer T'"])
      (auto simp: timer_Add_def timer_content_def EnableTimer_def counts_ok_def)
qed

subsection \<open>The buffers of the kernel\<close>

text \<open>
  \<open>kernel_ok (m, B, P, T) mss L fss\<close>: every buffer of the pool is in at most one of the free
  queues \<open>fss\<close>, the mailboxes \<open>mss\<close> and the timer list \<open>L\<close>, and every running timer names an
  existing mailbox.
\<close>

definition kernel_ok :: "tick_state \<Rightarrow> addr list list \<Rightarrow> addr dlist \<Rightarrow> addr list list \<Rightarrow> bool" where
  "kernel_ok = (\<lambda>(m, B, P, T) mss L fss.
     po_ok (m, B, P) mss fss \<and> timer_content (m, T) L \<and>
     used_buffers (m, B) fss (map fst L @ concat mss) \<and>
     (\<forall>a \<in> set (map fst L). m_data m a ! TIMER_MBX_ID < MailBoxesNum P))"

definition mbox_of :: "mem \<Rightarrow> addr \<Rightarrow> nat" where
  "mbox_of m a = unat (m_data m a ! TIMER_MBX_ID)"

definition deliver :: "mem \<Rightarrow> addr list \<Rightarrow> addr list list \<Rightarrow> addr list list" where
  "deliver m as mss = fold (\<lambda>a mss. mss[mbox_of m a := mss ! mbox_of m a @ [a]]) as mss"

definition signal_all :: "mem \<Rightarrow> addr list \<Rightarrow> nat list \<Rightarrow> nat list" where
  "signal_all m as sems = fold (\<lambda>a. ReleaseSemaphore (mbox_of m a)) as sems"

lemma deliver_simps [simp]:
  "deliver m [] mss = mss"
  "deliver m (a # as) mss = deliver m as (mss[mbox_of m a := mss ! mbox_of m a @ [a]])"
  "signal_all m [] sems = sems"
  "signal_all m (a # as) sems = signal_all m as (ReleaseSemaphore (mbox_of m a) sems)"
  by (simp_all add: deliver_def signal_all_def)

lemma length_deliver [simp]: "length (deliver m as mss) = length mss"
  by (induction as arbitrary: mss) auto

lemma deliver_same:
  "same_bytes m m' \<Longrightarrow> deliver m' as mss = deliver m as mss \<and> signal_all m' as sems = signal_all m as sems"
  by (simp add: deliver_def signal_all_def mbox_of_def same_bytes_def)

lemma kernel_okD:
  assumes "kernel_ok (m, B, P, T) mss L fss"
  shows "po_ok (m, B, P) mss fss" "timer_content (m, T) L"
    "used_buffers (m, B) fss (map fst L @ concat mss)"
    "\<forall>a \<in> set (map fst L). m_data m a ! TIMER_MBX_ID < MailBoxesNum P"
    "\<forall>a \<in> set (map fst L). has_count m a \<and> a < m_top m"
proof -
  from assms show "po_ok (m, B, P) mss fss" "timer_content (m, T) L"
    and u: "used_buffers (m, B) fss (map fst L @ concat mss)"
    and "\<forall>a \<in> set (map fst L). m_data m a ! TIMER_MBX_ID < MailBoxesNum P"
    by (simp_all add: kernel_ok_def)
  show "\<forall>a \<in> set (map fst L). has_count m a \<and> a < m_top m"
  proof
    fix a assume "a \<in> set (map fst L)"
    with u have "in_pool (m, B) a" "MSG_HEADER_LENGTH \<le> length (m_data m a)"
      by (simp_all add: used_buffers_def)
    then show "has_count m a \<and> a < m_top m" by (simp add: has_count_def in_pool_def offset_defs)
  qed
qed

lemma timer_content_cong:
  assumes "timer_content (m, T) L" "same_bytes m m'" "t_HeadCount T' = t_HeadCount T"
    and "t_First T' = t_First T" "\<And>a. a \<in> set (map fst L) \<Longrightarrow> m_next m' a = m_next m a"
  shows "timer_content (m', T') L"
proof -
  have "chain (m_next m') (t_First T) (map fst L)"
    using chain_cong [of "map fst L" "m_next m'" "m_next m"] assms(1,5) by (simp add: timer_content_def)
  with assms show ?thesis by (simp add: timer_content_def timer_count_def same_bytes_def)
qed

text \<open>One expired timer moves from the list to its mailbox.\<close>

lemma tick_one:
  assumes ok: "kernel_ok (m, B, P, T) mss ((a, d) # L) fss"
  shows "t_First T = Some a" and "t_First T = None \<longleftrightarrow> False" and "m_next m a = None \<longleftrightarrow> L = []"
    and "\<exists>m' P'. po_Add (m_data m a ! TIMER_MBX_ID) (Some a) (m, B, P) = Inr (m', B, P') \<and>
      kernel_ok (m', B, P', T\<lparr>t_First := m_next m a\<rparr>) (deliver m [a] mss) L fss \<and> same_bytes m m' \<and>
      semHandle P' = signal_all m [a] (semHandle P) \<and>
      (\<forall>b. b \<noteq> a \<longrightarrow> b \<notin> set (concat mss) \<longrightarrow> m_next m' b = m_next m b)"
proof -
  note K = kernel_okD [OF ok]
  have C: "t_First T = Some a" "chain (m_next m) (m_next m a) (map fst L)" "distinct (map fst L)"
    "a \<notin> set (map fst L)" "t_HeadCount T = 0"
    using K(2) by (simp_all add: timer_content_def)
  then show "t_First T = Some a" "t_First T = None \<longleftrightarrow> False" by simp_all
  show "m_next m a = None \<longleftrightarrow> L = []" using C(2) by (cases L) auto
  let ?i = "mbox_of m a"
  have a: "used_buffers (m, B) fss [a]" "a \<notin> set (concat mss)"
    using K(3) by (auto simp: used_buffers_def)
  have id: "m_data m a ! TIMER_MBX_ID < MailBoxesNum P" using K(4) by simp
  from po_Add_correct [OF K(1) id a, of ?i] obtain m' P' where
    p: "po_Add (m_data m a ! TIMER_MBX_ID) (Some a) (m, B, P) = Inr (m', B, P')"
      "po_ok (m', B, P') (deliver m [a] mss) fss" "same_bytes m m'"
      "semHandle P' = ReleaseSemaphore ?i (semHandle P)" "MailBoxesNum P' = MailBoxesNum P"
      "\<forall>b. b \<noteq> a \<longrightarrow> b \<notin> set (mss ! ?i) \<longrightarrow> m_next m' b = m_next m b"
    by (auto simp: mbox_of_def)
  have il: "?i < length mss" using id po_okD(2) [OF K(1)] by (simp add: mbox_of_def word_less_nat_alt)
  have nx: "m_next m' b = m_next m b" if "b \<noteq> a" "b \<notin> set (concat mss)" for b
    using p(6) that pooledI [OF il, of b] unfolding pooled_def by blast
  have free: "m_next m' b = m_next m b" if "b \<in> set (map fst L)" for b
  proof (rule nx)
    show "b \<noteq> a" using that C(4) by blast
    show "b \<notin> set (concat mss)" using that K(3) by (auto simp: used_buffers_def)
  qed
  have "timer_content (m, T\<lparr>t_First := m_next m a\<rparr>) L"
    using K(2) C by (simp add: timer_content_def)
  then have tc: "timer_content (m', T\<lparr>t_First := m_next m a\<rparr>) L"
    by (rule timer_content_cong [OF _ p(3)]) (simp_all add: free del: list.set_map)
  have "mset (map fst L @ concat (deliver m [a] mss)) = mset (map fst ((a, d) # L) @ concat mss)"
    using mset_concat_update [OF il, of "mss ! ?i @ [a]"] by (simp add: ac_simps)
  with K(3) have "used_buffers (m, B) fss (map fst L @ concat (deliver m [a] mss))"
    using used_buffers_mset by blast
  then have "used_buffers (m', B) fss (map fst L @ concat (deliver m [a] mss))"
    using used_buffers_same [OF p(3) same_pool_refl] by blast
  moreover have "\<forall>b \<in> set (map fst L). m_data m' b ! TIMER_MBX_ID < MailBoxesNum P'"
    using K(4) p(3,5) by (simp add: same_bytes_def)
  ultimately have "kernel_ok (m', B, P', T\<lparr>t_First := m_next m a\<rparr>) (deliver m [a] mss) L fss"
    using p(2) tc by (simp add: kernel_ok_def)
  with p(1,3,4) nx show "\<exists>m' P'. po_Add (m_data m a ! TIMER_MBX_ID) (Some a) (m, B, P) = Inr (m', B, P') \<and>
      kernel_ok (m', B, P', T\<lparr>t_First := m_next m a\<rparr>) (deliver m [a] mss) L fss \<and> same_bytes m m' \<and>
      semHandle P' = signal_all m [a] (semHandle P) \<and>
      (\<forall>b. b \<noteq> a \<longrightarrow> b \<notin> set (concat mss) \<longrightarrow> m_next m' b = m_next m b)"
    by (intro exI [of _ m'] exI [of _ P']) simp
qed

lemma tick_loop_correct:
  assumes "kernel_ok (m, B, P, T) mss L fss" "L \<noteq> []" "length L \<le> fuel"
  shows "\<exists>m' P' T'. tick_loop fuel (m, B, P, T) = Inr (m', B, P', T') \<and>
    kernel_ok (m', B, P', T') (deliver m (due L) mss) (pending L) fss \<and> same_bytes m m' \<and>
    semHandle P' = signal_all m (due L) (semHandle P) \<and> T' = T\<lparr>t_First := t_First T'\<rparr>"
  using assms
proof (induction L arbitrary: m P T mss fuel)
  case Nil
  then show ?case by simp
next
  case (Cons p L)
  obtain a d where p: "p = (a, d)" by fastforce
  from Cons.prems obtain f where fuel: "fuel = Suc f" "length L \<le> f" by (cases fuel) auto
  note ok = Cons.prems(1) [unfolded p]
  note T1 = tick_one [OF ok]
  have cnt: "unat (timer_count m a) = d" using kernel_okD(2) [OF ok] by (simp add: timer_content_def)
  show ?case
  proof (cases "d = 0")
    case False
    then have "timer_count m a \<noteq> 0" using cnt by auto
    with False T1(1) fuel ok show ?thesis
      by (intro exI [of _ m] exI [of _ P] exI [of _ T]) (simp add: p)
  next
    case True
    then have z: "timer_count m a = 0" using cnt by (simp add: unat_eq_0)
    let ?T = "T\<lparr>t_First := m_next m a\<rparr>"
    from T1(4) obtain m1 P1 where
      s: "po_Add (m_data m a ! TIMER_MBX_ID) (Some a) (m, B, P) = Inr (m1, B, P1)"
        "kernel_ok (m1, B, P1, ?T) (deliver m [a] mss) L fss" "same_bytes m m1"
        "semHandle P1 = signal_all m [a] (semHandle P)" by blast
    have step: "tick_loop fuel (m, B, P, T) =
        (if L = [] then Inr (m1, B, P1, ?T) else tick_loop f (m1, B, P1, ?T))"
      using T1(1,3) z s(1) by (simp add: fuel(1))
    show ?thesis
    proof (cases "L = []")
      case True
      with step s \<open>d = 0\<close> show ?thesis
        by (intro exI [of _ m1] exI [of _ P1] exI [of _ ?T]) (simp add: p)
    next
      case False
      from Cons.IH [OF s(2) False fuel(2)] obtain m' P' T' where
        r: "tick_loop f (m1, B, P1, ?T) = Inr (m', B, P', T')"
          "kernel_ok (m', B, P', T') (deliver m1 (due L) (deliver m [a] mss)) (pending L) fss"
          "same_bytes m1 m'" "semHandle P' = signal_all m1 (due L) (semHandle P1)"
          "T' = ?T\<lparr>t_First := t_First T'\<rparr>" by blast
      have "T' = T\<lparr>t_First := t_First T'\<rparr>" by (subst r(5)) simp
      with r step False \<open>d = 0\<close> s(4) deliver_same [OF s(3)] same_bytes_trans [OF s(3) r(3)]
      show ?thesis
        by (intro exI [of _ m'] exI [of _ P'] exI [of _ T']) (simp add: p)
    qed
  qed
qed

text \<open>
  The tick handler refines \<open>dtick\<close>: the timers whose time has come are delivered, in order, to
  their mailboxes, and the others count one tick less.
\<close>

lemma kernel_ok_SetCount:
  assumes ok: "kernel_ok (m, B, P, T) mss ((a, d) # L) fss" and m': "m' = SetCount a (of_nat d') m"
    and d': "d' < 2 ^ 32"
  shows "kernel_ok (m', B, P, T) mss ((a, d') # L) fss"
proof -
  note K = kernel_okD [OF ok]
  have rc: "recounted {a} m m'" by (simp add: m' recounted_SetCount)
  have nx: "m_next m' = m_next m" by (simp add: m')
  have len: "length (m_data m' b) = length (m_data m b)" "m_code m' = m_code m" "m_top m' = m_top m" for b
    using rc by (simp_all add: recounted_def)
  have pool: "in_pool (m', B) b = in_pool (m, B) b" for b by (simp add: in_pool_def len)
  have used: "used_buffers (m', B) fs xs = used_buffers (m, B) fs xs" for fs xs
    by (simp add: used_buffers_def pool len)
  have "tb_content (m', B) fss"
    by (rule tb_content_cong [OF po_okD(1) [OF K(1)]]) (simp_all add: nx len)
  then have "po_ok (m', B, P) mss fss"
    using po_okD [OF K(1)] nx used by (simp add: po_ok_def mb_content_def del: set_concat)
  moreover have "timer_content (m', T) ((a, d') # L)"
  proof -
    have hc: "has_count m a" using K(5) by simp
    have "timer_count m' b = timer_count m b" if "b \<noteq> a" for b using that by (simp add: m')
    moreover have "a \<notin> fst ` set L" using K(2) by (simp add: timer_content_def)
    ultimately have "\<forall>(b, e) \<in> set L. unat (timer_count m' b) = e"
      using K(2) by (force simp: timer_content_def)
    moreover have "unat (of_nat d' :: u32) = d'" using d' by (intro unat_of_nat_less) simp
    ultimately show ?thesis using K(2) hc nx by (simp add: timer_content_def m')
  qed
  moreover have "m_data m' b ! TIMER_MBX_ID = m_data m b ! TIMER_MBX_ID" for b
    using rc by (simp add: recounted_def offset_defs)
  ultimately show ?thesis using K used by (simp add: kernel_ok_def)
qed

lemma TimerIntHandler_correct:
  assumes ok: "kernel_ok (m, B, P, T) mss L fss" and pos: "d_ok L"
  shows "\<exists>m' P' T'. TimerIntHandler (m, B, P, T) = Inr (m', B, P', T') \<and>
    kernel_ok (m', B, P', T') (deliver m (fst (dtick L)) mss) (snd (dtick L)) fss \<and>
    recounted (set (map fst L)) m m' \<and>
    semHandle P' = signal_all m (fst (dtick L)) (semHandle P) \<and> T' = T\<lparr>t_First := t_First T'\<rparr>"
proof (cases L)
  case Nil
  then have "t_First T = None" using kernel_okD(2) [OF ok] by (simp add: timer_content_def)
  with ok Nil show ?thesis
    by (simp add: TimerIntHandler_def DisableTimer_def EnableTimer_def)
next
  case (Cons p R)
  obtain a d where p: "p = (a, d)" by fastforce
  note okp = ok [unfolded Cons p]
  note K = kernel_okD [OF okp]
  let ?T = "DisableTimer T" and ?c = "timer_count m a - 1"
  let ?m = "SetCount a ?c m"
  have first: "t_First T = Some a" and cnt: "unat (timer_count m a) = d" and hc: "has_count m a"
    using K(2,5) by (simp_all add: timer_content_def)
  have "unat (timer_count m a) < 2 ^ LENGTH(32)" by (rule unsigned_less)
  with pos cnt have d: "0 < d" "d < 2 ^ 32" by (simp_all add: Cons p)
  have c: "?c = of_nat (d - 1)"
  proof -
    have "(of_nat (unat (timer_count m a)) :: u32) = timer_count m a" by simp
    then have "of_nat d = timer_count m a" by (simp only: cnt)
    with d show ?thesis by (simp add: of_nat_diff)
  qed
  have "kernel_ok (?m, B, P, T) mss ((a, d - 1) # R) fss"
    by (rule kernel_ok_SetCount [OF okp]) (use c d in auto)
  then have ok1: "kernel_ok (?m, B, P, ?T) mss ((a, d - 1) # R) fss"
    by (simp add: kernel_ok_def timer_content_def DisableTimer_def)
  have "length ((a, d - 1) # R) \<le> m_top m"
    by (rule dlist_fuel) (use K(2,5) in \<open>simp_all add: timer_content_def\<close>)
  then have "length ((a, d - 1) # R) \<le> m_top m + 1" by simp
  from tick_loop_correct [OF ok1 _ this] obtain m' P' T' where
    r: "tick_loop (m_top m + 1) (?m, B, P, ?T) = Inr (m', B, P', T')"
      "kernel_ok (m', B, P', T') (deliver ?m (due ((a, d - 1) # R)) mss) (pending ((a, d - 1) # R)) fss"
      "same_bytes ?m m'" "semHandle P' = signal_all ?m (due ((a, d - 1) # R)) (semHandle P)"
      "T' = ?T\<lparr>t_First := t_First T'\<rparr>" by blast
  have run: "TimerIntHandler (m, B, P, T) = Inr (m', B, P', EnableTimer T')"
    using r(1) first by (simp add: TimerIntHandler_def DisableTimer_def)
  have rc: "recounted {a} m ?m" by (simp add: recounted_SetCount)
  have "mbox_of ?m = mbox_of m" using rc by (simp add: fun_eq_iff mbox_of_def recounted_def offset_defs)
  then have dl: "deliver ?m as ms = deliver m as ms" "signal_all ?m as ss = signal_all m as ss" for as ms ss
    by (simp_all add: deliver_def signal_all_def)
  have "recounted (set (map fst L)) m m'"
    using rc r(3) by (auto simp: recounted_def same_bytes_def Cons p)
  moreover have "EnableTimer T' = T\<lparr>t_First := t_First (EnableTimer T')\<rparr>"
    by (subst r(5), subst r(5)) (simp add: EnableTimer_def DisableTimer_def)
  moreover have "kernel_ok (m', B, P', EnableTimer T') (deliver m (fst (dtick L)) mss) (snd (dtick L)) fss"
    using r(2) dl by (simp add: Cons p kernel_ok_def timer_content_def EnableTimer_def)
  ultimately show ?thesis
    using run r(4) dl by (intro exI [of _ m'] exI [of _ P'] exI [of _ "EnableTimer T'"]) (simp add: Cons p)
qed

end
