(* ===== verification/DemoKernel.thy ===== *)
theory DemoKernel
  imports Timer
begin

text \<open>
  A small concrete kernel, at which the properties with hypotheses are applied.  Two classes of
  buffers, three of 40 and four of 64 bytes; the buffers 0, 3 and 5 are free, 1 and 4 are
  messages in the mailboxes 0 and 1, the buffer 2 is a timer that expires at the third tick
  and goes to the mailbox 1, and the buffer 6 belongs to an automaton.
\<close>

definition demo_bytes :: "nat \<Rightarrow> u8 \<Rightarrow> u32 \<Rightarrow> u8 list" where
  "demo_bytes n mbx c = SetUint32 (SetByte (replicate n 0) TIMER_MBX_ID mbx) TIMER_COUNT c"

definition demo_mem :: mem where
  "demo_mem = \<lparr>m_next = \<lambda>a. if a = 3 then Some 5 else None, m_prev = \<lambda>_. None,
     m_code = \<lambda>a. if a < 3 then 0 else 1,
     m_data = \<lambda>a. if a < 3 then demo_bytes 40 1 3 else demo_bytes 64 1 3,
     m_top = 7\<rparr>"

definition demo_queue :: "ptr \<Rightarrow> ptr \<Rightarrow> u32 \<Rightarrow> u32 \<Rightarrow> bqueue" where
  "demo_queue h t n k = \<lparr>bq_Head = h, bq_Tail = t, FreeBufferCount = n, BuffersInitiated = k, CsBuffer = 0\<rparr>"

definition demo_pool :: tbuffers where
  "demo_pool = \<lparr>Queues = [demo_queue (Some 0) (Some 0) 1 3, demo_queue (Some 3) (Some 5) 2 4],
     BuffersLength = 40 # 64 # replicate 30 0, ClassBufferNum = 2\<rparr>"

definition demo_mbox :: "addr \<Rightarrow> mbox" where
  "demo_mbox a = \<lparr>mb_Head = Some a, mb_Tail = Some a, mb_Count = 1, CsMailBox = 0\<rparr>"

definition demo_post :: post_office where
  "demo_post = \<lparr>MailBoxes = [demo_mbox 1, demo_mbox 4], MailBoxesNum = 2, semHandle = [1, 1]\<rparr>"

definition demo_timers :: timers where
  "demo_timers = \<lparr>t_First = Some 2, t_HeadCount = 0, TimerResolution = Timer10ms, CsTimer = 0\<rparr>"

definition demo_free :: "addr list list" where
  "demo_free = [[0], [3, 5]]"

lemmas demo_defs = demo_mem_def demo_pool_def demo_post_def demo_timers_def demo_free_def
  demo_queue_def demo_mbox_def

lemma demo_bytes_length [simp]: "length (demo_bytes n b c) = n"
  by (simp add: demo_bytes_def)

lemma demo_bytes_read:
  "20 \<le> n \<Longrightarrow> GetUint32 (demo_bytes n b c) TIMER_COUNT = c"
  "20 \<le> n \<Longrightarrow> demo_bytes n b c ! TIMER_MBX_ID = b"
  by (simp_all add: demo_bytes_def mem_simps offset_defs)

lemma demo_tb_content: "tb_content (demo_mem, demo_pool) demo_free"
  by (auto simp: tb_content_def tb_wf_def demo_defs bq_content_def lq_def in_pool_def
      MAX_BUFF_CLASS_NO_def All_less_Suc2 word_less_nat_alt)

lemma demo_used: "used_buffers (demo_mem, demo_pool) demo_free [6, 2, 1, 4]"
  by (auto simp: used_buffers_def demo_defs in_pool_def pooled_def offset_defs word_less_nat_alt)

lemma demo_po_ok: "po_ok (demo_mem, demo_pool, demo_post) [[1], [4]] demo_free"
  using demo_tb_content demo_used
  by (auto simp: po_ok_def used_buffers_def mb_content_def lq_def demo_post_def demo_mbox_def
      All_less_Suc2) (simp_all add: demo_mem_def)

lemma demo_kernel_ok:
  "kernel_ok (demo_mem, demo_pool, demo_post, demo_timers) [[1], [4]] [(2, 3)] demo_free"
proof -
  have "timer_content (demo_mem, demo_timers) [(2, 3)]"
    by (simp add: timer_content_def demo_mem_def demo_timers_def timer_count_def demo_bytes_read)
  moreover have "used_buffers (demo_mem, demo_pool) demo_free [2, 1, 4]"
    using demo_used by (simp add: used_buffers_def)
  ultimately show ?thesis
    using demo_po_ok by (simp add: kernel_ok_def demo_mem_def demo_post_def demo_bytes_read)
qed

end
