(* ===== verification/TimerRuns.thy ===== *)
theory TimerRuns
  imports Timer
begin

text \<open>
  Runs of the tick handler and of the timer: \<open>ticks n\<close> is \<open>n\<close> calls of \<open>TimerIntHandler\<close>.  The
  lemmas say that a run keeps the invariant of the kernel, which timers it has delivered, and
  that starting and stopping a timer keep the invariant too.
\<close>

fun ticks :: "nat \<Rightarrow> tick_state \<Rightarrow> tick_state result" where
  "ticks 0 s = Inr s"
| "ticks (Suc n) s = bindR (TimerIntHandler s) (ticks n)"

fun dticks :: "nat \<Rightarrow> 'a dlist \<Rightarrow> 'a dlist" where
  "dticks 0 L = L"
| "dticks (Suc n) L = dticks n (snd (dtick L))"

lemma dtick_subset: "set (map fst (snd (dtick L))) \<subseteq> set (map fst L)"
proof -
  have "set (map fst (pending M)) \<subseteq> set (map fst M)" for M :: "'a dlist"
    unfolding pending_def by (metis (no_types, lifting) image_mono list.set_map set_dropWhileD subsetI)
  note p = this
  show ?thesis
  proof (cases L rule: dtick.cases)
    case (2 a d R)
    then show ?thesis using p [of "(a, d - 1) # R"] by simp
  qed simp
qed

lemma deliver_append: "deliver m (as @ bs) mss = deliver m bs (deliver m as mss)"
  by (simp add: deliver_def)

lemma deliver_recounted: "recounted S m m' \<Longrightarrow> deliver m' as mss = deliver m as mss"
  by (simp add: deliver_def mbox_of_def recounted_def offset_defs)

lemma ticks_correct:
  assumes "kernel_ok (m, B, P, T) mss L fss" "d_ok L"
  shows "\<exists>m' P' T'. ticks n (m, B, P, T) = Inr (m', B, P', T') \<and>
    kernel_ok (m', B, P', T') (deliver m (concat (fires n L)) mss) (dticks n L) fss \<and>
    recounted (set (map fst L)) m m'"
  using assms
proof (induction n arbitrary: m P T mss L)
  case (Suc n)
  from TimerIntHandler_correct [OF Suc.prems] obtain m1 P1 T1 where
    s: "TimerIntHandler (m, B, P, T) = Inr (m1, B, P1, T1)"
      "kernel_ok (m1, B, P1, T1) (deliver m (fst (dtick L)) mss) (snd (dtick L)) fss"
      "recounted (set (map fst L)) m m1" by blast
  from Suc.IH [OF s(2) d_ok_dtick] obtain m' P' T' where
    r: "ticks n (m1, B, P1, T1) = Inr (m', B, P', T')"
      "kernel_ok (m', B, P', T') (deliver m1 (concat (fires n (snd (dtick L)))) (deliver m (fst (dtick L)) mss))
         (dticks n (snd (dtick L))) fss"
      "recounted (set (map fst (snd (dtick L)))) m1 m'" by blast
  have "recounted (set (map fst L)) m m'"
    by (rule recounted_trans [OF s(3) recounted_mono [OF r(3) dtick_subset]])
  with s(1) r(1,2) show ?case by (simp add: deliver_append deliver_recounted [OF s(3)])
qed simp

lemma kernel_ok_data:
  assumes ok: "kernel_ok (m, B, P, T) mss L fss"
    and same: "m_next m' = m_next m" "m_code m' = m_code m" "m_top m' = m_top m"
      "\<And>b. length (m_data m' b) = length (m_data m b)"
    and t: "\<And>b. b \<in> set (map fst L) \<Longrightarrow> timer_count m' b = timer_count m b \<and>
      m_data m' b ! TIMER_MBX_ID = m_data m b ! TIMER_MBX_ID"
  shows "kernel_ok (m', B, P, T) mss L fss"
proof -
  note K = kernel_okD [OF ok]
  have pool: "in_pool (m', B) b = in_pool (m, B) b" for b by (simp add: in_pool_def same)
  have used: "used_buffers (m', B) fs xs = used_buffers (m, B) fs xs" for fs xs
    by (simp add: used_buffers_def pool same)
  have "tb_content (m', B) fss"
    by (rule tb_content_cong [OF po_okD(1) [OF K(1)]]) (simp_all add: same)
  then have "po_ok (m', B, P) mss fss"
    using po_okD [OF K(1)] same(1) used by (simp add: po_ok_def mb_content_def del: set_concat)
  moreover have "timer_content (m', T) L"
    using K(2) same(1) t by (force simp: timer_content_def)
  ultimately show ?thesis using K(3,4) used t by (simp add: kernel_ok_def)
qed

lemma kernel_ok_timer_Add:
  assumes ok: "kernel_ok (m, B, P, T) mss L fss"
    and t: "used_buffers (m, B) fss (t # map fst L @ concat mss)" "m_data m t ! TIMER_MBX_ID < MailBoxesNum P"
  shows "\<exists>m' T'. timer_Add t (m, T) = Inr (m', T') \<and>
    kernel_ok (m', B, P, T') mss (dins t (unat (timer_count m t)) L) fss \<and>
    recounted (insert t (set (map fst L))) m m'"
proof -
  note K = kernel_okD [OF ok]
  let ?L = "dins t (unat (timer_count m t)) L"
  have tl: "t \<notin> set (map fst L)" "in_pool (m, B) t" "MSG_HEADER_LENGTH \<le> length (m_data m t)"
    "t \<notin> pooled fss" "t \<notin> set (concat mss)"
    using t(1) by (auto simp: used_buffers_def)
  then have hc: "\<forall>a \<in> insert t (set (map fst L)). has_count m a"
    using K(5) by (auto simp: has_count_def offset_defs)
  from timer_Add_correct [OF K(2) tl(1) hc] K(5) obtain m' T' where
    r: "timer_Add t (m, T) = Inr (m', T')" "timer_content (m', T') ?L"
      "recounted (insert t (set (map fst L))) m m'"
      "\<forall>b. b \<noteq> t \<longrightarrow> b \<notin> set (map fst L) \<longrightarrow> m_next m' b = m_next m b" by blast
  have len: "length (m_data m' b) = length (m_data m b)" "m_code m' = m_code m" "m_top m' = m_top m" for b
    using r(3) by (simp_all add: recounted_def)
  have used: "used_buffers (m', B) fs xs = used_buffers (m, B) fs xs" for fs xs
    by (simp add: used_buffers_def in_pool_def len)
  have nx: "m_next m' b = m_next m b" if "b \<in> pooled fss \<or> b \<in> set (concat mss)" for b
  proof -
    have "b \<noteq> t" using that tl(4,5) by blast
    moreover have "b \<notin> set (map fst L)" using that K(3) unfolding used_buffers_def by auto
    ultimately show ?thesis using r(4) by blast
  qed
  have "tb_content (m', B) fss"
    by (rule tb_content_cong [OF po_okD(1) [OF K(1)]]) (simp_all add: nx len del: set_concat)
  moreover have "mb_content (m', MailBoxes P ! i) (mss ! i)" if i: "i < length mss" for i
  proof (rule mb_content_cong [THEN iffD2, OF _ po_okD(5) [OF K(1) i]])
    fix b assume "b \<in> set (mss ! i)"
    then have "b \<in> set (concat mss)" using pooledI [OF i] by (simp only: pooled_def)
    with nx show "m_next m' b = m_next m b" by blast
  qed
  ultimately have "po_ok (m', B, P) mss fss"
    using po_okD [OF K(1)] used by (simp add: po_ok_def del: set_concat)
  moreover have "mset (map fst ?L @ concat mss) = mset (t # map fst L @ concat mss)"
  proof -
    have "mset (map fst (dins t c M)) = mset (t # map fst M)" for c and M :: "addr dlist"
      by (induction t c M rule: dins.induct) auto
    then show ?thesis by simp
  qed
  then have "used_buffers (m', B) fss (map fst ?L @ concat mss)"
    using t(1) used used_buffers_mset by blast
  moreover have "m_data m' b ! TIMER_MBX_ID = m_data m b ! TIMER_MBX_ID" for b
    using r(3) by (simp add: recounted_def offset_defs)
  moreover have "\<forall>b \<in> set (map fst ?L). m_data m b ! TIMER_MBX_ID < MailBoxesNum P"
    unfolding set_dins using K(4) t(2) by simp
  ultimately show ?thesis
    using r(1-3) by (intro exI [of _ m'] exI [of _ T']) (simp add: kernel_ok_def)
qed

text \<open>A timer that has not been due: in the list exactly until its time.\<close>

lemma fires_before:
  assumes "d_ok L" "(a, x) \<in> set (absol 0 L)" "distinct (map fst L)"
  shows "a \<in> set (concat (fires n L)) \<longleftrightarrow> x \<le> n" "a \<in> set (map fst (dticks n L)) \<longleftrightarrow> n < x"
proof -
  have len: "length (fires n L) = n" by (induction n arbitrary: L) auto
  have "0 < x" using absol_pos [OF assms(1)] assms(2) by auto
  then have at_x: "(\<exists>k < n. k + 1 = x) \<longleftrightarrow> x \<le> n" by (auto intro: exI [of _ "x - 1"])
  have "a \<in> set (concat (fires n L)) \<longleftrightarrow> (\<exists>k < length (fires n L). a \<in> set (fires n L ! k))"
    by (auto simp: set_conv_nth [of "fires n L"])
  then show "a \<in> set (concat (fires n L)) \<longleftrightarrow> x \<le> n"
    using fires_at [OF assms(1-3), of _ n] at_x len by (simp cong: conj_cong del: set_concat)
  show "a \<in> set (map fst (dticks n L)) \<longleftrightarrow> n < x"
    using assms
  proof (induction n arbitrary: L x)
    case 0
    then have "a \<in> fst ` set (absol 0 L)" by force
    then have "a \<in> set (map fst L)" by (metis list.set_map map_fst_absol)
    with 0 absol_pos [OF 0(1)] show ?case by auto
  next
    case (Suc n)
    note D = dtick_member [OF Suc.prems]
    show ?case
    proof (cases "x = 1")
      case True
      have "set (map fst (dticks n M)) \<subseteq> set (map fst M)" for M :: "'a dlist"
      proof (induction n arbitrary: M)
        case (Suc n)
        from Suc [of "snd (dtick M)"] dtick_subset [of M] show ?case by auto
      qed simp
      with D(3) [OF True] True show ?thesis by fastforce
    next
      case False
      from Suc.IH [OF d_ok_dtick D(2) [OF False] D(4)] absol_pos [OF Suc.prems(1)] Suc.prems(2) show ?thesis
        by auto
    qed
  qed
qed

lemma deliver_mem: "a \<in> set as \<Longrightarrow> mbox_of m a < length mss \<Longrightarrow> a \<in> set (deliver m as mss ! mbox_of m a)"
proof -
  have keep: "a \<in> set (mss ! i) \<Longrightarrow> i < length mss \<Longrightarrow> a \<in> set (deliver m as mss ! i)" for mss as and i :: nat
  proof (induction as arbitrary: mss)
    case (Cons b as)
    then have "a \<in> set (mss[mbox_of m b := mss ! mbox_of m b @ [b]] ! i)"
      by (cases "i = mbox_of m b") simp_all
    with Cons show ?case by simp
  qed simp
  show "a \<in> set as \<Longrightarrow> mbox_of m a < length mss \<Longrightarrow> a \<in> set (deliver m as mss ! mbox_of m a)"
  proof (induction as arbitrary: mss)
    case (Cons b as)
    then show ?case
      using keep [of "mss[mbox_of m b := mss ! mbox_of m b @ [b]]" "mbox_of m b" as]
      by (cases "a = b") auto
  qed simp
qed

lemma absol_dins_mem: "(t, c) \<in> set (absol 0 (dins t c L))"
  using absol_dins [of 0 t c L] by simp

lemma is_discarded_recounted: "recounted S m m' \<Longrightarrow> is_discarded m' a = is_discarded m a"
  by (simp add: is_discarded_def recounted_def GetUint16_def offset_defs)

lemma live_head: "head_opt (live m ms) = Some a \<Longrightarrow> \<not> is_discarded m a"
  by (induction ms) (auto split: if_splits)

lemma kernel_ok_used: "kernel_ok (m, B, P, T) mss L fss \<Longrightarrow> a \<in> set (map fst L) \<union> set (concat mss) \<Longrightarrow>
    MSG_HEADER_LENGTH \<le> length (m_data m a)"
  by (auto simp: kernel_ok_def used_buffers_def)

lemma StopTimer_ok:
  assumes ok: "kernel_ok (m, B, P, T) mss L fss" and t: "MSG_HEADER_LENGTH \<le> length (m_data m t)"
  shows "\<exists>m'. kt_StopTimer (Some t) m = Inr m' \<and> kernel_ok (m', B, P, T) mss L fss \<and> is_discarded m' t"
proof -
  let ?m = "SetData t (SetUint16 (m_data m t) MSG_CODE DISCARDED) m"
  have "kernel_ok (?m, B, P, T) mss L fss"
    by (rule kernel_ok_data [OF ok]) (simp_all add: timer_count_def mem_simps offset_defs)
  moreover have "is_discarded ?m t" using t by (simp add: is_discarded_def mem_simps offset_defs)
  ultimately show ?thesis using t by (simp add: kt_StopTimer_def offset_defs)
qed

text \<open>
  What starting the timer \<open>t\<close> leaves as it was: everything outside of the list, and the header of
  \<open>t\<close> but for its first two bytes and the count.
\<close>

definition started_frame :: "addr \<Rightarrow> addr set \<Rightarrow> mem \<Rightarrow> mem \<Rightarrow> bool" where
  "started_frame t S m m' \<longleftrightarrow> m_code m' = m_code m \<and> m_top m' = m_top m \<and>
     (\<forall>b. length (m_data m' b) = length (m_data m b)) \<and>
     (\<forall>b. b \<notin> insert t S \<longrightarrow> m_data m' b = m_data m b) \<and>
     (\<forall>b j. b \<in> S \<longrightarrow> b \<noteq> t \<longrightarrow> j < TIMER_COUNT \<or> TIMER_COUNT + 3 < j \<longrightarrow> m_data m' b ! j = m_data m b ! j) \<and>
     (\<forall>j. TIMER_MBX_ID < j \<longrightarrow> j < TIMER_COUNT \<or> TIMER_COUNT + 3 < j \<longrightarrow> m_data m' t ! j = m_data m t ! j)"

lemma TimerResolution_node:
  "TimerResolution (snd (set_node_next x p s)) = TimerResolution (snd s)"
  by (cases x; cases s) simp_all

lemma TimerResolution_link: "add_link t (p, c, m, T) = Inr r \<Longrightarrow> TimerResolution (snd r) = TimerResolution T"
  by (cases c; cases p)
    (auto simp: add_link_def Let_def TimerResolution_node simp del: set_node_next.simps split: if_splits)

lemma add_loop_timers: "add_loop n t p c s = Inr (p', c', m1, T1) \<Longrightarrow> T1 = snd s"
  by (induction n t p c s rule: add_loop.induct) (auto split: option.splits if_splits)

lemma TimerResolution_add: "timer_Add t (m, T) = Inr (m', T') \<Longrightarrow> TimerResolution T' = TimerResolution T"
proof -
  assume "timer_Add t (m, T) = Inr (m', T')"
  then obtain p c m1 T1 T2 where r: "add_loop (m_top m + 1) t None Dummy (m, DisableTimer T) = Inr (p, c, m1, T1)"
    "add_link t (p, c, m1, T1) = Inr (m', T2)" "T' = EnableTimer T2"
    by (auto simp: timer_Add_def Let_def bindR_eq_Inr)
  have "TimerResolution T2 = TimerResolution T1" using TimerResolution_link [OF r(2)] by simp
  moreover have "T1 = DisableTimer T" using add_loop_timers [OF r(1)] by simp
  ultimately show ?thesis using r(3) by (simp add: EnableTimer_def DisableTimer_def)
qed

text \<open>Starting a timer, whose count in ticks is \<open>c\<close>.\<close>

lemma StartTimer_ok:
  assumes ok: "kernel_ok (m, B, P, T) mss L fss"
    and t: "used_buffers (m, B) fss (t # map fst L @ concat mss)" and mbx: "mbx < MailBoxesNum P"
    and c: "cnt \<noteq> 0" "c = cnt * of_nat (res_ms r div res_ms (TimerResolution T))"
  shows "\<exists>m' T'. kt_StartTimer (Some t) mbx cnt r (m, T) = Inr (m', T') \<and>
    kernel_ok (m', B, P, T') mss (dins t (unat c) L) fss \<and> mbox_of m' t = unat mbx \<and>
    started_frame t (set (map fst L)) m m' \<and> TimerResolution T' = TimerResolution T"
proof -
  define m1 where "m1 = SetCount t c m"
  define m2 where "m2 = SetData t (SetByte (m_data m1 t) MSG_FROM_AUTOMATE TIMER) m1"
  define m3 where "m3 = SetData t (SetByte (m_data m2 t) TIMER_MBX_ID mbx) m2"
  have tl: "t \<notin> set (map fst L)" "MSG_HEADER_LENGTH \<le> length (m_data m t)"
    using t by (auto simp: used_buffers_def)
  have m3: "m_next m3 = m_next m" "m_code m3 = m_code m" "m_top m3 = m_top m"
    "length (m_data m3 b) = length (m_data m b)" "b \<noteq> t \<Longrightarrow> m_data m3 b = m_data m b" for b
    by (simp_all add: m3_def m2_def m1_def SetCount_def)
  have v: "timer_count m3 t = c" "m_data m3 t ! TIMER_MBX_ID = mbx"
    using tl(2) by (simp_all add: m3_def m2_def m1_def SetCount_def timer_count_def mem_simps offset_defs)
  have "kernel_ok (m3, B, P, T) mss L fss"
  proof (rule kernel_ok_data [OF ok])
    fix b assume "b \<in> set (map fst L)"
    then have "b \<noteq> t" using tl(1) by blast
    then show "timer_count m3 b = timer_count m b \<and> m_data m3 b ! TIMER_MBX_ID = m_data m b ! TIMER_MBX_ID"
      by (simp add: m3 timer_count_def)
  qed (simp_all add: m3)
  moreover have "used_buffers (m3, B) fss (t # map fst L @ concat mss)"
    using t unfolding used_buffers_def in_pool_def split_conv m3 .
  ultimately obtain m' T' where
    r: "timer_Add t (m3, T) = Inr (m', T')" "kernel_ok (m', B, P, T') mss (dins t (unat c) L) fss"
      "recounted (insert t (set (map fst L))) m3 m'"
    using kernel_ok_timer_Add [of m3 B P T mss L fss t] mbx v by auto
  have "m_data m' t ! TIMER_MBX_ID = m_data m3 t ! TIMER_MBX_ID"
    using r(3) by (simp add: recounted_def offset_defs)
  moreover have "started_frame t (set (map fst L)) m m'"
  proof -
    have o: "m_data m3 t ! j = m_data m t ! j" if "TIMER_MBX_ID < j" "j < TIMER_COUNT \<or> TIMER_COUNT + 3 < j" for j
      using that by (simp add: m3_def m2_def m1_def SetCount_def mem_simps offset_defs)
    have rc: "m_code m' = m_code m3" "m_top m' = m_top m3" "\<forall>b. length (m_data m' b) = length (m_data m3 b)"
      "\<forall>b. b \<notin> insert t (set (map fst L)) \<longrightarrow> m_data m' b = m_data m3 b"
      "\<forall>b j. j < TIMER_COUNT \<or> TIMER_COUNT + 3 < j \<longrightarrow> m_data m' b ! j = m_data m3 b ! j"
      using r(3) unfolding recounted_def by blast+
    show ?thesis
      unfolding started_frame_def
    proof (intro conjI allI impI)
      show "m_data m' b = m_data m b" if "b \<notin> insert t (set (map fst L))" for b
        using rc(4) that m3(5) [of b] by simp
      show "m_data m' b ! j = m_data m b ! j"
        if "b \<in> set (map fst L)" "b \<noteq> t" "j < TIMER_COUNT \<or> TIMER_COUNT + 3 < j" for b j
      proof -
        have "m_data m' b ! j = m_data m3 b ! j" using rc(5) that(3) by blast
        then show ?thesis using m3(5) [of b] that(2) by simp
      qed
      show "m_data m' t ! j = m_data m t ! j"
        if "TIMER_MBX_ID < j" "j < TIMER_COUNT \<or> TIMER_COUNT + 3 < j" for j
        using rc(5) that(2) o [OF that] by metis
    qed (simp_all add: rc m3)
  qed
  moreover have "TimerResolution T' = TimerResolution T" by (rule TimerResolution_add [OF r(1)])
  ultimately show ?thesis
    using r v c tl(2)
    by (intro exI [of _ m'] exI [of _ T'])
      (simp add: kt_StartTimer_def Let_def m3_def m2_def m1_def mbox_of_def offset_defs)
qed

end
