(* ===== verification/KernelProps.thy ===== *)
theory KernelProps
  imports DemoKernel TimerRuns
begin

text \<open>
  The properties of the memory pool, the mailboxes, the post office and the timer.  Each one
  rests on the correctness lemma of its component and is applied at the kernel of \<open>DemoKernel\<close>.
\<close>

subsection \<open>The memory pool\<close>

text \<open>C12: The constructor of the pool succeeds on every table of 1 to 32 classes whose lengths and
  counts are positive and whose memory can be counted in 32 bits; it sorts the classes by the
  length of their buffers, keeping each count with its length, and leaves every buffer free in
  the queue of its class, with no lock held.\<close>

theorem TBuffers_builds_pool:
  assumes "0 < unat n" "unat n \<le> MAX_BUFF_CLASS_NO" "length lens = unat n" "length counts = unat n"
    and "\<forall>(len, cnt) \<in> set (zip lens counts). class_ok len cnt"
  shows "\<exists>m' B fss. TBuffers n (Some counts) (Some lens) junk m = Inr (m', B) \<and>
    tb_content (m', B) fss \<and> sorted (take (unat n) (BuffersLength B)) \<and>
    concat fss = [m_top m ..< m_top m'] \<and> (\<forall>q \<in> set (Queues B). CsBuffer q = 0) \<and>
    mset (zip (take (unat n) (BuffersLength B)) (map (\<lambda>fs. of_nat (length fs)) fss)) = mset (zip lens counts)"
proof -
  from TBuffers_succeeds [OF assms] obtain m' B where
    r: "TBuffers n (Some counts) (Some lens) junk m = Inr (m', B)" by blast
  from TBuffers_content [OF r] obtain fss where
    "tb_content (m', B) fss" "concat fss = [m_top m ..< m_top m']" "ClassBufferNum B = n"
    "\<forall>q \<in> set (Queues B). CsBuffer q = 0"
    "same_classes (unat n) (take (unat n) lens, take (unat n) counts)
      (take (unat n) (BuffersLength B), map (\<lambda>fs. of_nat (length fs)) fss)" by blast
  with r assms(3,4) show ?thesis
    by (intro exI [of _ m'] exI [of _ B] exI [of _ fss])
      (auto simp: same_classes_def tb_content_def tb_wf_def)
qed

theorem TBuffers_builds_pool_witness:
  "\<exists>m' B fss. TBuffers 2 (Some [3, 4]) (Some [64, 40]) (\<lambda>_. []) demo_mem = Inr (m', B) \<and>
    tb_content (m', B) fss \<and> sorted (take 2 (BuffersLength B)) \<and>
    concat fss = [7 ..< m_top m'] \<and> (\<forall>q \<in> set (Queues B). CsBuffer q = 0) \<and>
    mset (zip (take 2 (BuffersLength B)) (map (\<lambda>fs. of_nat (length fs)) fss)) = mset [(64, 3 :: u32), (40, 4)]"
  using TBuffers_builds_pool [of 2 "[64, 40]" "[3, 4]" "\<lambda>_. []" demo_mem]
  by (simp add: MAX_BUFF_CLASS_NO_def class_ok_def demo_mem_def)

text \<open>C13: \<open>GetBuffer\<close> takes the oldest free buffer of the first class that is long enough, in debug and
  in release builds; the buffer is at least as long as it was asked for, and nothing else changes.\<close>

theorem GetBuffer_smallest_class:
  assumes "tb_content (m, B) fss" "fits_class B len i" "fss ! i = x # xs"
  shows "\<exists>B'. GetBuffer nd len (m, B) = Inr (x, m, B') \<and> tb_content (m, B') (fss[i := xs]) \<and>
    unat len \<le> length (m_data m x) \<and> map CsBuffer (Queues B') = map CsBuffer (Queues B)"
proof -
  from GetBuffer_hit [OF assms, of nd] obtain q where q:
    "GetBuffer nd len (m, B) = Inr (x, m, B\<lparr>Queues := (Queues B)[i := q]\<rparr>)"
    "tb_content (m, B\<lparr>Queues := (Queues B)[i := q]\<rparr>) (fss[i := xs])"
    "CsBuffer q = CsBuffer (Queues B ! i)" by blast
  have i: "i < length fss" using GetBuffer_start(2) [OF assms(1,2)] .
  have "unat (m_code m x) = i" "in_pool (m, B) x"
    using tb_contentD(6) [OF assms(1) i, of x] assms(3) by auto
  moreover have "unat len \<le> unat (BuffersLength B ! i)"
    using assms(2) by (simp add: fits_class_def word_le_nat_alt)
  ultimately have "unat len \<le> length (m_data m x)" by (simp add: in_pool_def)
  moreover have "(map CsBuffer (Queues B))[i := CsBuffer q] = map CsBuffer (Queues B)"
    using q(3) i tb_contentD(2) [OF assms(1)] by (metis list_update_id nth_map)
  ultimately show ?thesis
    using q(1,2) by (intro exI [of _ "B\<lparr>Queues := (Queues B)[i := q]\<rparr>"]) (simp add: map_update)
qed

theorem GetBuffer_smallest_class_witness:
  "\<exists>B'. GetBuffer False 41 (demo_mem, demo_pool) = Inr (3, demo_mem, B') \<and>
    tb_content (demo_mem, B') [[0], [5]]"
proof -
  have "fits_class demo_pool 41 1" by (simp add: fits_class_def demo_pool_def)
  from GetBuffer_smallest_class [OF demo_tb_content this, of 3 "[5]" False] show ?thesis
    by (auto simp: demo_free_def)
qed

text \<open>C18: When the class a request starts from has no free buffer, a debug build stops at the
  assertion of the queue.  A release build takes a buffer of the next class that has one, but
  every empty queue it passes stays locked: \<open>GetFromHead\<close> returns without leaving its critical
  section.\<close>

theorem GetBuffer_spill_leaks_lock:
  assumes "tb_content (m, B) fss" "fits_class B len i" "i < j" "j < length fss" "fss ! j = x # xs"
    and "\<forall>k. i \<le> k \<longrightarrow> k < j \<longrightarrow> fss ! k = []"
  shows "GetBuffer False len (m, B) = Inl AssertFail \<and>
    (\<exists>B'. GetBuffer True len (m, B) = Inr (x, m, B') \<and> tb_content (m, B') (fss[j := xs]) \<and>
      CsBuffer (Queues B' ! i) = CsBuffer (Queues B ! i) + 1 \<and>
      CsBuffer (Queues B' ! j) = CsBuffer (Queues B ! j))"
proof
  note S = GetBuffer_start [OF assms(1,2)]
  have "fss ! i = []" using assms(3,6) by simp
  then show "GetBuffer False len (m, B) = Inl AssertFail"
    using take_buffer_debug_empty [OF assms(1) S(2)] S(1) by simp
  from take_buffer_release [OF assms(1) less_imp_le [OF assms(3)] assms(4-6)] obtain B' where
    "take_buffer True (m, B) i = Inr (x, m, B')" "tb_content (m, B') (fss[j := xs])"
    "\<forall>k < length fss. CsBuffer (Queues B' ! k) =
       CsBuffer (Queues B ! k) + (if i \<le> k \<and> k < j then 1 else 0)" by blast
  with S assms(3,4) show "\<exists>B'. GetBuffer True len (m, B) = Inr (x, m, B') \<and>
      tb_content (m, B') (fss[j := xs]) \<and> CsBuffer (Queues B' ! i) = CsBuffer (Queues B ! i) + 1 \<and>
      CsBuffer (Queues B' ! j) = CsBuffer (Queues B ! j)"
    by (intro exI [of _ B']) simp
qed

definition drained_pool :: tbuffers where
  "drained_pool = demo_pool\<lparr>Queues := [demo_queue None None 0 3, demo_queue (Some 3) (Some 5) 2 4]\<rparr>"

lemma drained_content: "tb_content (demo_mem, drained_pool) [[], [3, 5]]"
  by (auto simp: tb_content_def tb_wf_def demo_defs drained_pool_def bq_content_def lq_def in_pool_def
      MAX_BUFF_CLASS_NO_def All_less_Suc2 word_less_nat_alt)

theorem GetBuffer_spill_leaks_lock_witness:
  "GetBuffer False 30 (demo_mem, drained_pool) = Inl AssertFail \<and>
   (\<exists>B'. GetBuffer True 30 (demo_mem, drained_pool) = Inr (3, demo_mem, B') \<and>
     CsBuffer (Queues B' ! 0) = 1)"
proof -
  have "fits_class drained_pool 30 0" by (simp add: fits_class_def drained_pool_def demo_pool_def)
  from GetBuffer_spill_leaks_lock [OF drained_content this, of 1 3 "[5]"]
  show ?thesis by (auto simp: drained_pool_def demo_queue_def)
qed

text \<open>A request longer than every class is refused with an error, except when the pool has the
  full number of 32 classes: then the search loop, which reads \<open>BuffersLength[i]\<close> before it
  compares \<open>i\<close>, reads behind the end of the array.\<close>

theorem GetBuffer_longer_than_all:
  assumes "tb_wf B" "\<forall>i < unat (ClassBufferNum B). BuffersLength B ! i < len"
  shows "GetBuffer nd len (m, B) =
    Inl (if unat (ClassBufferNum B) = MAX_BUFF_CLASS_NO then OutOfBounds else Throw 0x21000604)"
  by (rule GetBuffer_too_long [OF assms])

definition full_pool :: tbuffers where
  "full_pool = \<lparr>Queues = replicate 32 (demo_queue None None 0 1), BuffersLength = replicate 32 40,
     ClassBufferNum = 32\<rparr>"

theorem GetBuffer_longer_than_all_witness:
  "GetBuffer False 41 (demo_mem, full_pool) = Inl OutOfBounds \<and>
   GetBuffer False 65 (demo_mem, demo_pool) = Inl (Throw 0x21000604)"
proof
  have "tb_wf full_pool" by (simp add: tb_wf_def full_pool_def MAX_BUFF_CLASS_NO_def sorted_replicate)
  from GetBuffer_longer_than_all [OF this, of 41 False demo_mem]
  show "GetBuffer False 41 (demo_mem, full_pool) = Inl OutOfBounds"
    by (simp add: full_pool_def MAX_BUFF_CLASS_NO_def)
  have "\<forall>i < unat (ClassBufferNum demo_pool). BuffersLength demo_pool ! i < 65"
    by (auto simp: demo_pool_def less_2_cases_iff)
  from GetBuffer_longer_than_all [OF tb_contentD(1) [OF demo_tb_content] this, of False demo_mem]
  show "GetBuffer False 65 (demo_mem, demo_pool) = Inl (Throw 0x21000604)"
    by (simp add: demo_pool_def MAX_BUFF_CLASS_NO_def)
qed

text \<open>C14: A buffer taken from the pool and given back is free again in its own queue, behind the
  other free buffers of its class: no buffer is lost and none is handed out twice.\<close>

theorem GetBuffer_RetBuffer:
  assumes "tb_content (m, B) fss" "fits_class B len i" "fss ! i = x # xs"
  shows "\<exists>m' B'. bindR (GetBuffer nd len (m, B)) (\<lambda>(a, s). RetBuffer nd (Some a) s) = Inr (m', B') \<and>
    tb_content (m', B') (fss[i := xs @ [x]]) \<and> m_data m' = m_data m"
proof -
  from GetBuffer_hit [OF assms, of nd] obtain q where q:
    "GetBuffer nd len (m, B) = Inr (x, m, B\<lparr>Queues := (Queues B)[i := q]\<rparr>)"
    "tb_content (m, B\<lparr>Queues := (Queues B)[i := q]\<rparr>) (fss[i := xs])" by blast
  have i: "i < length fss" using GetBuffer_start(2) [OF assms(1,2)] .
  have x: "unat (m_code m x) = i" "in_pool (m, B) x"
    using tb_contentD(6) [OF assms(1) i, of x] assms(3) by auto
  have "x \<notin> pooled (fss[i := xs])"
    by (rule distinct_concat_tl(2) [OF tb_contentD(4) [OF assms(1)] i assms(3)])
  moreover have "in_pool (m, B\<lparr>Queues := (Queues B)[i := q]\<rparr>) x" using x(2) by (simp add: in_pool_def)
  ultimately obtain m' B' where
    "RetBuffer nd (Some x) (m, B\<lparr>Queues := (Queues B)[i := q]\<rparr>) = Inr (m', B')"
    "tb_content (m', B') (give_back (m_code m) x (fss[i := xs]))" "same_bytes m m'"
    using RetBuffer_gives_back [OF q(2)] by blast
  with q(1) x(1) i show ?thesis
    by (intro exI [of _ m'] exI [of _ B']) (simp add: give_back_def same_bytes_def)
qed

theorem GetBuffer_RetBuffer_witness:
  "\<exists>m' B'. bindR (GetBuffer False 41 (demo_mem, demo_pool)) (\<lambda>(a, s). RetBuffer False (Some a) s) = Inr (m', B') \<and>
    tb_content (m', B') [[0], [5, 3]]"
proof -
  have "fits_class demo_pool 41 1" by (simp add: fits_class_def demo_pool_def)
  from GetBuffer_RetBuffer [OF demo_tb_content this, of 3 "[5]" False] show ?thesis
    by (auto simp: demo_free_def)
qed

subsection \<open>Mailboxes and the post office\<close>

text \<open>C15: A mailbox is a first-in first-out queue: after any messages have been put behind the ones it
  holds, taking out as many as there are gives all of them, the oldest first.\<close>

theorem mailbox_fifo:
  assumes "mb_content s ms" "distinct (ms @ new)" "n = length ms + length new"
  shows "get_all mb_GetFromHead n (put_all mb_PutOnTail s new) = map Some (ms @ new)"
  by (rule mb.fifo_order [OF assms])

theorem mailbox_fifo_witness:
  "get_all mb_GetFromHead 3 (put_all mb_PutOnTail (demo_mem, demo_mbox 1) [4, 2]) =
     [Some 1, Some 4, Some 2]"
proof -
  have "mb_content (demo_mem, demo_mbox 1) [1]" by (simp add: mb_content_def lq_def demo_defs)
  from mailbox_fifo [OF this, of "[4, 2]" 3] show ?thesis by simp
qed

lemma live_dead_split:
  assumes "\<forall>a \<in> set ds. is_discarded m a" "ms \<noteq> [] \<longrightarrow> \<not> is_discarded m (hd ms)"
  shows "live m (ds @ ms) = ms" "dead m (ds @ ms) = ds"
  using assms unfolding live_def dead_def
  by (cases ms; simp add: dropWhile_append takeWhile_append)+

text \<open>C16: \<open>Get\<close> gives the oldest message of the mailbox that has not been discarded, or none; the
  discarded messages in front of it are back in the pool, and nothing is lost from the other
  mailboxes.  A discarded message is never delivered.\<close>

theorem Get_skips_discarded:
  assumes "po_ok (m, B, P) mss fss" "mailBoxID < MailBoxesNum P" "i = unat mailBoxID"
    and "mss ! i = ds @ ms" "\<forall>a \<in> set ds. is_discarded m a" "ms \<noteq> [] \<longrightarrow> \<not> is_discarded m (hd ms)"
  shows "\<exists>m' B' P'. po_Get nd mailBoxID (m, B, P) = Inr (head_opt ms, m', B', P') \<and>
    po_ok (m', B', P') (mss[i := tl ms]) (give_all (m_code m) ds fss) \<and>
    semHandle P' = semHandle P \<and> m_data m' = m_data m"
proof -
  have "live m (mss ! i) = ms" "dead m (mss ! i) = ds"
    unfolding assms(4) by (rule live_dead_split [OF assms(5,6)])+
  moreover obtain m' B' P' where
    "po_Get nd mailBoxID (m, B, P) = Inr (head_opt (live m (mss ! i)), m', B', P')"
    "po_get_post i (m, B, P) mss fss (semHandle P) (head_opt (live m (mss ! i))) (m', B', P')"
    using po_Get_correct [OF assms(1-3), of nd] by (metis prod_cases3)
  ultimately show ?thesis
    by (intro exI [of _ m'] exI [of _ B'] exI [of _ P']) (simp add: po_get_post_def same_bytes_def)
qed

lemma demo_not_discarded: "\<not> is_discarded demo_mem a"
proof -
  have "(GetUint16 (demo_bytes n 1 3) MSG_CODE = 0)" if "20 \<le> n" for n
    using that by (simp add: demo_bytes_def mem_simps offset_defs)
      (simp add: GetUint16_def nth_append)
  then show ?thesis by (simp add: is_discarded_def demo_mem_def DISCARDED_def)
qed

text \<open>In the mailbox 0 the stopped timer 1 stands in front of the message 6.\<close>

definition stopped_mem :: mem where
  "stopped_mem = SetData 1 (SetUint16 (m_data demo_mem 1) MSG_CODE DISCARDED)
     (demo_mem\<lparr>m_next := (m_next demo_mem)(1 := Some 6)\<rparr>)"

definition stopped_post :: post_office where
  "stopped_post = \<lparr>MailBoxes = [\<lparr>mb_Head = Some 1, mb_Tail = Some 6, mb_Count = 2, CsMailBox = 0\<rparr>, demo_mbox 4],
     MailBoxesNum = 2, semHandle = [2, 1]\<rparr>"

lemma stopped_sel: "m_next stopped_mem = (m_next demo_mem)(1 := Some 6)" "m_code stopped_mem = m_code demo_mem"
  "m_top stopped_mem = m_top demo_mem" "length (m_data stopped_mem b) = length (m_data demo_mem b)"
  by (simp_all add: stopped_mem_def SetData_def)

lemma stopped_discarded: "is_discarded stopped_mem a \<longleftrightarrow> a = 1"
proof (cases "a = 1")
  case True
  have "is_discarded stopped_mem 1" by (simp add: is_discarded_def stopped_mem_def demo_mem_def mem_simps offset_defs)
  with True show ?thesis by simp
next
  case False
  then have "is_discarded stopped_mem a = is_discarded demo_mem a" by (simp add: is_discarded_def stopped_mem_def SetData_def)
  with False demo_not_discarded show ?thesis by simp
qed

lemma stopped_po_ok: "po_ok (stopped_mem, demo_pool, stopped_post) [[1, 6], [4]] demo_free"
proof -
  have "tb_content (stopped_mem, demo_pool) demo_free"
    by (rule tb_content_cong [OF demo_tb_content]) (auto simp: stopped_sel demo_free_def pooled_def)
  moreover have "used_buffers (stopped_mem, demo_pool) demo_free [1, 6, 4]"
    using demo_used by (auto simp: used_buffers_def stopped_sel in_pool_def)
  ultimately show ?thesis
    by (auto simp: po_ok_def used_buffers_def mb_content_def lq_def stopped_post_def demo_mbox_def stopped_sel
        All_less_Suc2) (simp_all add: demo_mem_def)
qed

theorem Get_skips_discarded_witness:
  "\<exists>m' B' P'. po_Get False 0 (stopped_mem, demo_pool, stopped_post) = Inr (Some 6, m', B', P') \<and>
    po_ok (m', B', P') [[], [4]] [[0, 1], [3, 5]] \<and> semHandle P' = [2, 1]"
proof -
  have "(0 :: u8) < MailBoxesNum stopped_post" by (simp add: stopped_post_def)
  from Get_skips_discarded [OF stopped_po_ok this, of 0 "[1]" "[6]" False] show ?thesis
    by (auto simp: stopped_discarded stopped_sel demo_free_def give_back_def demo_mem_def) (auto simp: stopped_post_def)
qed

text \<open>C17: A message put into a mailbox stands behind all others and raises the semaphore of the
  mailbox, so that every queued message still has a signal, as long as the semaphore is below
  its maximum.  At the maximum of 10000 the signal is lost: the message is queued, but the number
  of signals is smaller than the number of messages.\<close>

theorem Add_signals:
  assumes "po_ok (m, B, P) mss fss" "signalled P mss" "mailBoxID < MailBoxesNum P" "i = unat mailBoxID"
    and "used_buffers (m, B) fss [a]" "a \<notin> set (concat mss)"
  shows "\<exists>m' P'. po_Add mailBoxID (Some a) (m, B, P) = Inr (m', B, P') \<and>
    po_ok (m', B, P') (mss[i := mss ! i @ [a]]) fss \<and>
    (semHandle P ! i < SEM_MAX \<longrightarrow> signalled P' (mss[i := mss ! i @ [a]])) \<and>
    (semHandle P ! i = SEM_MAX \<longrightarrow> semHandle P' = semHandle P)"
proof -
  note D = po_okD [OF assms(1)]
  have i: "i < length mss" using assms(3,4) D(2) by (simp add: word_less_nat_alt)
  from po_Add_correct [OF assms(1,3,5,6,4)] obtain m' P' where
    r: "po_Add mailBoxID (Some a) (m, B, P) = Inr (m', B, P')"
      "po_ok (m', B, P') (mss[i := mss ! i @ [a]]) fss"
      "semHandle P' = ReleaseSemaphore i (semHandle P)" by blast
  have "signalled P' (mss[i := mss ! i @ [a]])" if "semHandle P ! i < SEM_MAX"
    using assms(2) r(3) i D(4) that by (auto simp: signalled_def ReleaseSemaphore_def nth_list_update)
  with r show ?thesis
    by (intro exI [of _ m'] exI [of _ P']) (simp add: ReleaseSemaphore_def)
qed

theorem Add_signals_witness:
  "\<exists>m' P'. po_Add 0 (Some 2) (demo_mem, demo_pool, demo_post) = Inr (m', demo_pool, P') \<and>
    po_ok (m', demo_pool, P') [[1, 2], [4]] demo_free \<and> signalled P' [[1, 2], [4]]"
proof -
  have id: "(0 :: u8) < MailBoxesNum demo_post" and s: "signalled demo_post [[1], [4]]"
    by (auto simp: demo_post_def signalled_def less_Suc_eq)
  have "used_buffers (demo_mem, demo_pool) demo_free [2]" "2 \<notin> set (concat [[1 :: nat], [4]])"
    using demo_used by (simp_all add: used_buffers_def)
  from Add_signals [OF demo_po_ok s id _ this, of 0] show ?thesis
    by (simp add: demo_post_def SEM_MAX_def)
qed

text \<open>C7: No lost wake-up: while every queued message has a signal, \<open>GetSync\<close> does not wait when there
  is a message, and serves the first mailbox with a signal.  It returns the oldest message of this
  mailbox that has not been discarded, or none when all of them have been; the discarded ones in
  front of it go back to the pool, and the signals stay ahead of the messages.\<close>

theorem GetSync_delivers:
  assumes "po_ok (m, B, P) mss fss" "signalled P mss" "unat (MailBoxesNum P) \<le> MAXIMUM_WAIT_OBJECTS"
    and "i < length mss" "mss ! i = ds @ ms" "ds @ ms \<noteq> []" "\<forall>j < i. semHandle P ! j = 0"
    and "\<forall>a \<in> set ds. is_discarded m a" "ms \<noteq> [] \<longrightarrow> \<not> is_discarded m (hd ms)"
  shows "\<exists>m' B' P'. po_GetSync nd (m, B, P) = Inr (head_opt ms, of_nat i, m', B', P') \<and>
    po_ok (m', B', P') (mss[i := tl ms]) (give_all (m_code m) ds fss) \<and> signalled P' (mss[i := tl ms])"
proof -
  have sem: "length (mss ! j) \<le> semHandle P ! j" if "j < length mss" for j
    using assms(2) that by (simp add: signalled_def)
  have pos: "length (ds @ ms) \<le> semHandle P ! i" "0 < semHandle P ! i"
    using sem [OF assms(4)] assms(5,6) by (auto simp: length_greater_0_conv [symmetric] simp del: length_greater_0_conv)
  have l: "live m (mss ! i) = ms" "dead m (mss ! i) = ds"
    unfolding assms(5) by (rule live_dead_split [OF assms(8,9)])+
  from po_GetSync_correct [OF assms(1,3,4) pos(2) assms(7), of nd] obtain m' B' P' where
    r: "po_GetSync nd (m, B, P) = Inr (head_opt ms, of_nat i, m', B', P')"
      "po_get_post i (m, B, P) mss fss ((semHandle P)[i := semHandle P ! i - 1]) (head_opt ms) (m', B', P')"
    unfolding l(1) by (metis prod_cases3)
  have "length (tl ms) \<le> semHandle P ! i - 1" using pos(1) by (cases ms) auto
  then have "signalled P' (mss[i := tl ms])"
    using r(2) sem assms(4) po_okD(4) [OF assms(1)]
    by (auto simp: po_get_post_def signalled_def nth_list_update)
  with r l show ?thesis
    by (intro exI [of _ m'] exI [of _ B'] exI [of _ P']) (simp add: po_get_post_def)
qed

theorem GetSync_delivers_witness:
  "\<exists>m' B' P'. po_GetSync False (stopped_mem, demo_pool, stopped_post) = Inr (Some 6, 0, m', B', P') \<and>
    po_ok (m', B', P') [[], [4]] [[0, 1], [3, 5]] \<and> signalled P' [[], [4]]"
proof -
  have "signalled stopped_post [[1, 6], [4]]" "unat (MailBoxesNum stopped_post) \<le> MAXIMUM_WAIT_OBJECTS"
    by (auto simp: stopped_post_def signalled_def less_Suc_eq MAXIMUM_WAIT_OBJECTS_def)
  from GetSync_delivers [OF stopped_po_ok this, of 0 "[1]" "[6]" False] show ?thesis
    by (simp add: stopped_discarded stopped_sel demo_free_def give_back_def demo_mem_def)
qed

text \<open>A post office with more than 64 mailboxes never delivers: the wait fails, its result 255 is
  taken for a mailbox, and \<open>GetSync\<close> throws, whatever the mailboxes hold.\<close>

theorem GetSync_too_many_mailboxes:
  assumes "MAXIMUM_WAIT_OBJECTS < unat (MailBoxesNum P)"
  shows "po_GetSync nd (m, B, P) = Inl (Throw 0x01010200)"
proof -
  have "MailBoxesNum P \<le> (0xFF :: u8)"
    using unsigned_less [of "MailBoxesNum P", where ?'a = nat] by (simp add: word_le_nat_alt)
  moreover have "(0xFFFFFFFF :: u8) = 0xFF" by simp
  ultimately have "MailBoxesNum P \<le> (0xFFFFFFFF :: u8)" by (simp only:)
  with assms show ?thesis by (simp add: po_GetSync_def WaitForMultipleObjects_def)
qed

theorem GetSync_too_many_mailboxes_witness:
  "po_GetSync False (demo_mem, demo_pool,
     \<lparr>MailBoxes = replicate 65 (demo_mbox 1), MailBoxesNum = 65, semHandle = replicate 65 1\<rparr>) =
   Inl (Throw 0x01010200)"
  by (rule GetSync_too_many_mailboxes) (simp add: MAXIMUM_WAIT_OBJECTS_def)

text \<open>\<open>PurgeMailBox\<close> gives every message of the mailbox back to the pool and leaves the other
  mailboxes alone, but it does not take the signals back: the next \<open>GetSync\<close> that is served by
  this mailbox returns without a message.\<close>

theorem Purge_leaves_signals:
  assumes "po_ok (m, B, P) mss fss" "mailBoxID < MailBoxesNum P" "i = unat mailBoxID"
    and "unat (MailBoxesNum P) \<le> MAXIMUM_WAIT_OBJECTS" "0 < semHandle P ! i" "\<forall>j < i. semHandle P ! j = 0"
  shows "\<exists>m' B' P'. PurgeMailBox nd mailBoxID (m, B, P) = Inr (m', B', P') \<and>
    po_ok (m', B', P') (mss[i := []]) (give_all (m_code m) (mss ! i) fss) \<and>
    (\<exists>s. po_GetSync nd (m', B', P') = Inr (None, mailBoxID, s))"
proof -
  note D = po_okD [OF assms(1)]
  have i: "i < length mss" using assms(2,3) D(2) by (simp add: word_less_nat_alt)
  from PurgeMailBox_correct [OF assms(1-3), of nd] obtain m' B' P' where
    r: "PurgeMailBox nd mailBoxID (m, B, P) = Inr (m', B', P')"
      "po_ok (m', B', P') (mss[i := []]) (give_all (m_code m) (mss ! i) fss)"
      "semHandle P' = semHandle P" "MailBoxesNum P' = MailBoxesNum P" by blast
  have n: "unat (MailBoxesNum P') \<le> MAXIMUM_WAIT_OBJECTS" "0 < semHandle P' ! i" "\<forall>j < i. semHandle P' ! j = 0"
    "i < length (mss[i := []])" using r(3,4) assms(4-6) i by simp_all
  from po_GetSync_correct [OF r(2) n(1,4,2,3), of nd] have
    "\<exists>s. po_GetSync nd (m', B', P') = Inr (None, of_nat i, s)" using i by auto
  with r assms(3) show ?thesis by (intro exI [of _ m'] exI [of _ B'] exI [of _ P']) simp
qed

theorem Purge_leaves_signals_witness:
  "\<exists>m' B' P'. PurgeMailBox False 0 (demo_mem, demo_pool, demo_post) = Inr (m', B', P') \<and>
    po_ok (m', B', P') [[], [4]] [[0, 1], [3, 5]] \<and>
    (\<exists>s. po_GetSync False (m', B', P') = Inr (None, 0, s))"
proof -
  have "(0 :: u8) < MailBoxesNum demo_post" "unat (MailBoxesNum demo_post) \<le> MAXIMUM_WAIT_OBJECTS"
    "0 < semHandle demo_post ! 0" by (simp_all add: demo_post_def MAXIMUM_WAIT_OBJECTS_def)
  from Purge_leaves_signals [OF demo_po_ok this(1) _ this(2), of 0 False] this(3) show ?thesis
    by (simp add: demo_free_def give_back_def demo_mem_def)
qed

subsection \<open>The timer\<close>

text \<open>C10: \<open>Add\<close> is a stable insertion: read on absolute times, the new timer stands behind all that
  expire no later than it and before all that expire later, and no other expiry time changes.\<close>

theorem timer_Add_stable_insertion:
  assumes "timer_content (m, T) L" "t \<notin> set (map fst L)"
    and "\<forall>a \<in> insert t (set (map fst L)). has_count m a" "\<forall>a \<in> set (map fst L). a < m_top m"
    and "c = unat (timer_count m t)"
  shows "\<exists>m' T' L'. timer_Add t (m, T) = Inr (m', T') \<and> timer_content (m', T') L' \<and>
    absol 0 L' = takeWhile (\<lambda>(b, x). x \<le> c) (absol 0 L) @ (t, c) # dropWhile (\<lambda>(b, x). x \<le> c) (absol 0 L)"
proof -
  note A = timer_Add_correct [OF assms(1-4), folded assms(5)]
  then obtain m' T' where
    "timer_Add t (m, T) = Inr (m', T')" "timer_content (m', T') (dins t c L)" by (elim exE conjE)
  moreover have "absol 0 (dins t c L) =
      takeWhile (\<lambda>(b, x). x \<le> c) (absol 0 L) @ (t, c) # dropWhile (\<lambda>(b, x). x \<le> c) (absol 0 L)"
    by (simp add: absol_dins)
  ultimately show ?thesis by blast
qed

theorem timer_Add_stable_insertion_witness:
  "\<exists>m' T' L'. timer_Add 1 (demo_mem, demo_timers) = Inr (m', T') \<and> timer_content (m', T') L' \<and>
    absol 0 L' = [(2, 3), (1, 3)]"
proof -
  have c: "timer_content (demo_mem, demo_timers) [(2, 3)]"
    using demo_kernel_ok by (simp add: kernel_ok_def)
  have t: "3 = unat (timer_count demo_mem 1)" by (simp add: timer_count_def demo_mem_def demo_bytes_read)
  have "1 \<notin> set (map fst [(2 :: nat, 3 :: nat)])" "\<forall>a \<in> set (map fst [(2 :: nat, 3 :: nat)]). a < m_top demo_mem"
    "\<forall>a \<in> insert 1 (set (map fst [(2 :: nat, 3 :: nat)])). has_count demo_mem a"
    by (simp_all add: has_count_def demo_mem_def offset_defs)
  from timer_Add_stable_insertion [OF c this(1,3,2) t] show ?thesis by simp
qed

text \<open>C11: A tick takes one off every expiry time and puts exactly the timers whose time is now, in the
  order of the list, into the mailboxes they name; every buffer of the kernel stays where it is
  otherwise.\<close>

theorem tick_delivers_due_timers:
  assumes "kernel_ok (m, B, P, T) mss L fss" "d_ok L"
  shows "\<exists>m' P' T' L' now. TimerIntHandler (m, B, P, T) = Inr (m', B, P', T') \<and>
    kernel_ok (m', B, P', T') (deliver m now mss) L' fss \<and> d_ok L' \<and>
    now = map fst (takeWhile (\<lambda>(a, x). x = 1) (absol 0 L)) \<and>
    absol 0 L' = map (\<lambda>(a, x). (a, x - 1)) (dropWhile (\<lambda>(a, x). x = 1) (absol 0 L))"
proof -
  from TimerIntHandler_correct [OF assms] obtain m' P' T' where
    "TimerIntHandler (m, B, P, T) = Inr (m', B, P', T')"
    "kernel_ok (m', B, P', T') (deliver m (fst (dtick L)) mss) (snd (dtick L)) fss" by blast
  with absol_dtick [OF assms(2)] d_ok_dtick show ?thesis by metis
qed

theorem tick_delivers_due_timers_witness:
  "\<exists>m' P' T' L'. TimerIntHandler (demo_mem, demo_pool, demo_post, demo_timers) = Inr (m', demo_pool, P', T') \<and>
    kernel_ok (m', demo_pool, P', T') [[1], [4]] L' demo_free \<and> absol 0 L' = [(2, 2)]"
  using tick_delivers_due_timers [OF demo_kernel_ok] by simp blast

text \<open>C6: A timer started with a count expires exactly when it should: before that number of ticks it is
  in the timer list and not delivered, from that tick on its message has been put into its
  mailbox; and no run of ticks fails.\<close>

theorem StartTimer_expires_on_time:
  assumes "kernel_ok (m, B, P, T) mss L fss" "d_ok L"
    and "used_buffers (m, B) fss (t # map fst L @ concat mss)" "mbx < MailBoxesNum P"
    and "cnt \<noteq> 0" "c = cnt * of_nat (res_ms r div res_ms (TimerResolution T))" "c \<noteq> 0"
  shows "\<exists>m1 T1. kt_StartTimer (Some t) mbx cnt r (m, T) = Inr (m1, T1) \<and>
    (\<forall>n. \<exists>m' P' T' mss' L'. ticks n (m1, B, P, T1) = Inr (m', B, P', T') \<and>
       kernel_ok (m', B, P', T') mss' L' fss \<and>
       (t \<in> set (map fst L') \<longleftrightarrow> n < unat c) \<and> (unat c \<le> n \<longrightarrow> t \<in> set (mss' ! unat mbx)))"
proof -
  from StartTimer_ok [OF assms(1,3-6)] obtain m1 T1 where
    s: "kt_StartTimer (Some t) mbx cnt r (m, T) = Inr (m1, T1)"
      "kernel_ok (m1, B, P, T1) mss (dins t (unat c) L) fss" "mbox_of m1 t = unat mbx" by blast
  let ?L = "dins t (unat c) L"
  have pos: "d_ok ?L" using assms(2,7) by (intro d_ok_dins) (simp_all add: unat_gt_0)
  have dist: "distinct (map fst ?L)" using kernel_okD(2) [OF s(2)] by (simp add: timer_content_def)
  note F = fires_before [OF pos absol_dins_mem dist]
  have len: "mbox_of m1 t < length mss"
    using s(3) assms(4) po_okD(2) [OF kernel_okD(1) [OF assms(1)]] by (simp add: word_less_nat_alt)
  have "\<exists>m' P' T' mss' L'. ticks n (m1, B, P, T1) = Inr (m', B, P', T') \<and>
      kernel_ok (m', B, P', T') mss' L' fss \<and>
      (t \<in> set (map fst L') \<longleftrightarrow> n < unat c) \<and> (unat c \<le> n \<longrightarrow> t \<in> set (mss' ! unat mbx))" for n
  proof -
    from ticks_correct [OF s(2) pos, of n] obtain m' P' T' where
      r: "ticks n (m1, B, P, T1) = Inr (m', B, P', T')"
        "kernel_ok (m', B, P', T') (deliver m1 (concat (fires n ?L)) mss) (dticks n ?L) fss" by blast
    have "t \<in> set (deliver m1 (concat (fires n ?L)) mss ! unat mbx)" if "unat c \<le> n"
      using deliver_mem [of t "concat (fires n ?L)" m1 mss] F(1) that len s(3) by simp
    with r F(2) show ?thesis by blast
  qed
  with s(1) show ?thesis by blast
qed

theorem StartTimer_expires_on_time_witness:
  "\<exists>m1 T1. kt_StartTimer (Some 6) 0 2 Timer10ms (demo_mem, demo_timers) = Inr (m1, T1) \<and>
    (\<exists>m' P' T' mss' L'. ticks 2 (m1, demo_pool, demo_post, T1) = Inr (m', demo_pool, P', T') \<and>
       kernel_ok (m', demo_pool, P', T') mss' L' demo_free \<and> 6 \<notin> set (map fst L') \<and> 6 \<in> set (mss' ! 0))"
proof -
  have "used_buffers (demo_mem, demo_pool) demo_free (6 # map fst [(2, 3 :: nat)] @ concat [[1], [4]])"
    "0 < MailBoxesNum demo_post" "d_ok [(2, 3)]"
    using demo_used by (simp_all add: demo_post_def)
  from StartTimer_expires_on_time [OF demo_kernel_ok this(3,1,2), of 2 2 Timer10ms]
  show ?thesis by (simp add: demo_timers_def) blast
qed

text \<open>C9: A timer that has been stopped is never received: \<open>StopTimer\<close> marks its message as discarded,
  and however many ticks pass, no mailbox hands it out.\<close>

theorem StopTimer_never_received:
  assumes "kernel_ok (m, B, P, T) mss L fss" "d_ok L" "t \<in> set (map fst L) \<union> set (concat mss)"
  shows "\<exists>m1. kt_StopTimer (Some t) m = Inr m1 \<and>
    (\<forall>n. \<exists>m' P' T'. ticks n (m1, B, P, T) = Inr (m', B, P', T') \<and>
       (\<forall>mbx < MailBoxesNum P'. \<exists>res s'. po_Get nd mbx (m', B, P') = Inr (res, s') \<and> res \<noteq> Some t))"
proof -
  from StopTimer_ok [OF assms(1) kernel_ok_used [OF assms(1,3)]] obtain m1 where
    s: "kt_StopTimer (Some t) m = Inr m1" "kernel_ok (m1, B, P, T) mss L fss" "is_discarded m1 t" by blast
  have "\<exists>m' P' T'. ticks n (m1, B, P, T) = Inr (m', B, P', T') \<and>
      (\<forall>mbx < MailBoxesNum P'. \<exists>res s'. po_Get nd mbx (m', B, P') = Inr (res, s') \<and> res \<noteq> Some t)" for n
  proof -
    from ticks_correct [OF s(2) assms(2), of n] obtain m' P' T' where
      r: "ticks n (m1, B, P, T) = Inr (m', B, P', T')"
        "kernel_ok (m', B, P', T') (deliver m1 (concat (fires n L)) mss) (dticks n L) fss"
        "recounted (set (map fst L)) m1 m'" by blast
    have "is_discarded m' t" using s(3) is_discarded_recounted [OF r(3)] by simp
    with r(1) po_Get_correct [OF kernel_okD(1) [OF r(2)] _ refl, of _ nd] live_head [of m' _ t]
    show ?thesis by blast
  qed
  with s(1) show ?thesis by blast
qed

theorem StopTimer_never_received_witness:
  "\<exists>m1. kt_StopTimer (Some 2) demo_mem = Inr m1 \<and>
    (\<exists>m' P' T'. ticks 3 (m1, demo_pool, demo_post, demo_timers) = Inr (m', demo_pool, P', T') \<and>
       (\<forall>mbx < MailBoxesNum P'. \<exists>res s'. po_Get False mbx (m', demo_pool, P') = Inr (res, s') \<and> res \<noteq> Some 2))"
  using StopTimer_never_received [OF demo_kernel_ok, of 2 False] by auto

lemma dticks_head:
  assumes "n < c"
  shows "concat (fires n ((t, c) # L)) = []" "dticks n ((t, c) # L) = (t, c - n) # L"
proof -
  have "concat (fires n ((t, c) # L)) = [] \<and> dticks n ((t, c) # L) = (t, c - n) # L"
    using assms by (induction n arbitrary: c) (auto simp del: concat_eq_Nil_conv)
  then show "concat (fires n ((t, c) # L)) = []" "dticks n ((t, c) # L) = (t, c - n) # L" by blast+
qed

text \<open>C19: A timer with a resolution finer than that of the kernel timer is started with a count of zero
  ticks and becomes the first of the list.  The tick handler takes one off that zero: during the next
  2^32 - 1 ticks neither this timer nor any behind it is delivered.\<close>

theorem StartTimer_fine_resolution_wraps:
  assumes "kernel_ok (m, B, P, T) mss L fss" "d_ok L" "used_buffers (m, B) fss (t # map fst L @ concat mss)"
    and "mbx < MailBoxesNum P" "cnt \<noteq> 0" "res_ms r < res_ms (TimerResolution T)" "n < 2 ^ 32 - 1"
  shows "\<exists>m1 T1 m' P' T'. kt_StartTimer (Some t) mbx cnt r (m, T) = Inr (m1, T1) \<and>
    ticks (Suc n) (m1, B, P, T1) = Inr (m', B, P', T') \<and> kernel_ok (m', B, P', T') mss ((t, 2 ^ 32 - 1 - n) # L) fss"
proof -
  have "cnt * of_nat (res_ms r div res_ms (TimerResolution T)) = 0" using assms(6) by simp
  moreover have "dins t 0 L = (t, 0) # L" using assms(2) by (cases L) auto
  ultimately obtain m1 T1 where
    s: "kt_StartTimer (Some t) mbx cnt r (m, T) = Inr (m1, T1)" "kernel_ok (m1, B, P, T1) mss ((t, 0) # L) fss"
    using StartTimer_ok [OF assms(1,3-5) refl, of r] by auto
  note K = kernel_okD [OF s(2)]
  let ?m = "SetCount t (- 1) m1"
  have t: "t_First T1 = Some t" "timer_count m1 t = 0" "has_count m1 t"
    using K(2,5) by (simp_all add: timer_content_def unat_eq_0)
  then have "timer_count ?m t = - 1" by simp
  then have tick: "TimerIntHandler (m1, B, P, T1) = Inr (?m, B, P, T1)"
    using t by (simp add: TimerIntHandler_def DisableTimer_def EnableTimer_def)
  have "kernel_ok (?m, B, P, T1) mss ((t, 2 ^ 32 - 1) # L) fss"
  proof (rule kernel_ok_SetCount [OF s(2)])
    have "(of_nat (2 ^ 32 - 1) :: u32) = - 1" by simp
    then show "?m = SetCount t (of_nat (2 ^ 32 - 1)) m1" by (simp only:)
  qed simp
  from ticks_correct [OF this, of n] assms(7) obtain m' P' T' where
    "ticks n (?m, B, P, T1) = Inr (m', B, P', T')" "kernel_ok (m', B, P', T') mss ((t, 2 ^ 32 - 1 - n) # L) fss"
    by (auto simp: dticks_head)
  then show ?thesis using s(1) tick by auto
qed

theorem StartTimer_fine_resolution_wraps_witness:
  "\<exists>m1 T1 m' P' T'. kt_StartTimer (Some 6) 0 7 Timer1ms (demo_mem, demo_timers) = Inr (m1, T1) \<and>
    ticks 1000 (m1, demo_pool, demo_post, T1) = Inr (m', demo_pool, P', T') \<and>
    kernel_ok (m', demo_pool, P', T') [[1], [4]] [(6, 2 ^ 32 - 1000), (2, 3)] demo_free"
proof -
  have "used_buffers (demo_mem, demo_pool) demo_free (6 # map fst [(2, 3 :: nat)] @ concat [[1], [4]])" "0 < MailBoxesNum demo_post"
    using demo_used by (simp_all add: demo_post_def)
  from StartTimer_fine_resolution_wraps [OF demo_kernel_ok _ this, of 7 Timer1ms 999] show ?thesis
    by (simp add: demo_timers_def)
qed

end
