(* ===== verification/MsgInterface.thy ===== *)
theory MsgInterface
  imports Buffers
begin

text \<open>
  \<open>MessageInterface\<close> (\<open>src/Kernel/msgInterface.h\<close>, \<open>msgInterface.cpp\<close>): the part that all codecs
  of messages share, the current and the new message, and the access to bit fields.
  \<open>CurrentOffset\<close> is the only state the codecs add.
\<close>

record msg_if =
  CurrentMessage :: ptr
  NewMessage :: ptr
  CurrentOffset :: u32

type_synonym msg_state = "mem \<times> msg_if"

definition MessageInterface :: msg_if where
  "MessageInterface = \<lparr>CurrentMessage = None, NewMessage = None, CurrentOffset = 0\<rparr>"

definition info_length :: "u8 list \<Rightarrow> u16" where
  "info_length bs = GetUint16 bs MSG_LENGTH"

definition GetMsgInfoLength :: "msg_state \<Rightarrow> u16 result" where
  "GetMsgInfoLength = (\<lambda>(m, I). deref (CurrentMessage I) (\<lambda>a.
     in_buff m a MSG_HEADER_LENGTH (Inr (info_length (m_data m a)))))"

definition GetNewMsgInfoLength :: "msg_state \<Rightarrow> u16 result" where
  "GetNewMsgInfoLength = (\<lambda>(m, I). deref (NewMessage I) (\<lambda>a.
     in_buff m a MSG_HEADER_LENGTH (Inr (info_length (m_data m a)))))"

definition SetMsgInfoLength :: "u16 \<Rightarrow> msg_state \<Rightarrow> msg_state result" where
  "SetMsgInfoLength len = (\<lambda>(m, I). deref (NewMessage I) (\<lambda>a.
     in_buff m a MSG_HEADER_LENGTH (Inr (SetData a (SetUint16 (m_data m a) MSG_LENGTH len) m, I))))"

definition if_ParseMessage :: "ptr \<Rightarrow> msg_if \<Rightarrow> bool \<times> msg_if" where
  "if_ParseMessage mess I = (True, I\<lparr>CurrentMessage := mess\<rparr>)"

definition if_PrepareNewMessage :: "ptr \<Rightarrow> msg_if \<Rightarrow> msg_if" where
  "if_PrepareNewMessage buff I = I\<lparr>NewMessage := buff\<rparr>"

definition SetNewMessage :: "ptr \<Rightarrow> msg_if \<Rightarrow> msg_if" where
  "SetNewMessage buff I = I\<lparr>NewMessage := buff\<rparr>"

definition if_ClearMessage :: "msg_if \<Rightarrow> msg_if" where
  "if_ClearMessage I = I\<lparr>CurrentMessage := None, NewMessage := None\<rparr>"

subsection \<open>Copying\<close>

text \<open>\<open>memcpy\<close> of \<open>n\<close> bytes from \<open>src + off\<close> to \<open>dst + off\<close>, as every copy here does.\<close>

definition copy_bytes :: "nat \<Rightarrow> nat \<Rightarrow> u8 list \<Rightarrow> u8 list \<Rightarrow> u8 list" where
  "copy_bytes off n src dst = take off dst @ take n (drop off src) @ drop (off + n) dst"

definition copy_msg :: "nat \<Rightarrow> nat \<Rightarrow> addr \<Rightarrow> addr \<Rightarrow> mem \<Rightarrow> mem result" where
  "copy_msg off n src dst m =
     in_buff m src (off + n) (in_buff m dst (off + n)
     (Inr (SetData dst (copy_bytes off n (m_data m src) (m_data m dst)) m)))"

definition if_CopyMessage_from :: "bool \<Rightarrow> ptr \<Rightarrow> ptr \<Rightarrow> msg_state \<Rightarrow> msg_state result" where
  "if_CopyMessage_from nd newMessage mess = (\<lambda>(m, I).
     let I = I\<lparr>NewMessage := newMessage\<rparr> in
     assertC nd (NewMessage I \<noteq> None)
     (assertC nd (mess \<noteq> None)
     (deref mess (\<lambda>src. deref newMessage (\<lambda>dst.
      in_buff m src MSG_HEADER_LENGTH
      (bindR (copy_msg 0 (unat (info_length (m_data m src)) + MSG_HEADER_LENGTH) src dst m) (\<lambda>m.
       Inr (m, I))))))))"

definition if_CopyMessage :: "bool \<Rightarrow> ptr \<Rightarrow> msg_state \<Rightarrow> msg_state result" where
  "if_CopyMessage nd newMessage = (\<lambda>(m, I).
     let I = I\<lparr>NewMessage := newMessage\<rparr> in
     assertC nd (NewMessage I \<noteq> None)
     (assertC nd (CurrentMessage I \<noteq> None)
     (deref (CurrentMessage I) (\<lambda>src. deref newMessage (\<lambda>dst.
      in_buff m src MSG_HEADER_LENGTH
      (bindR (copy_msg 0 (unat (info_length (m_data m src)) + MSG_HEADER_LENGTH) src dst m) (\<lambda>m.
       Inr (m, I))))))))"

definition if_CopyMessageInfo :: "bool \<Rightarrow> u8 \<Rightarrow> ptr \<Rightarrow> msg_state \<Rightarrow> msg_state result" where
  "if_CopyMessageInfo nd infoCoding newMessage = (\<lambda>(m, I).
     let I = I\<lparr>NewMessage := newMessage\<rparr> in
     assertC nd (NewMessage I \<noteq> None)
     (assertC nd (CurrentMessage I \<noteq> None)
     (deref (CurrentMessage I) (\<lambda>src. deref newMessage (\<lambda>dst.
      in_buff m src MSG_HEADER_LENGTH
      (bindR (copy_msg MSG_HEADER_LENGTH (unat (info_length (m_data m src))) src dst m) (\<lambda>m.
       SetMsgInfoLength (info_length (m_data m src)) (m, I))))))))"

subsection \<open>Bit fields\<close>

definition MASK_28_BIT :: u32 where "MASK_28_BIT = 0x0fff1fff"
definition MASK_32_BIT :: u32 where "MASK_32_BIT = 0xffffffff"

definition bits8 :: "u8 \<Rightarrow> u32 \<Rightarrow> u8 \<Rightarrow> u8" where
  "bits8 old msk param = ucast (ucast old AND NOT msk) OR param"

definition bits16 :: "u16 \<Rightarrow> u32 \<Rightarrow> u16 \<Rightarrow> u16" where
  "bits16 old msk param = ucast (ucast old AND NOT msk) OR param"

definition bits32 :: "u32 \<Rightarrow> u32 \<Rightarrow> u32 \<Rightarrow> u32" where
  "bits32 old msk param = (old AND NOT msk) OR param"

definition SetBitParamByteBasic :: "u8 \<Rightarrow> nat \<Rightarrow> u32 \<Rightarrow> msg_state \<Rightarrow> msg_state result" where
  "SetBitParamByteBasic param off msk = (\<lambda>(m, I). deref (NewMessage I) (\<lambda>a.
     in_buff m a (off + 1)
     (Inr (SetData a (SetByte (m_data m a) off (bits8 (m_data m a ! off) msk param)) m, I))))"

definition SetBitParamWordBasic :: "u16 \<Rightarrow> nat \<Rightarrow> u32 \<Rightarrow> msg_state \<Rightarrow> msg_state result" where
  "SetBitParamWordBasic param off msk = (\<lambda>(m, I). deref (NewMessage I) (\<lambda>a.
     in_buff m a (off + 2)
     (let newValue = GetUint16 (m_data m a) off;
          newValue = bits16 newValue msk param
      in Inr (SetData a (SetUint16 (m_data m a) off newValue) m, I))))"

definition SetBitParamDWordBasic :: "u32 \<Rightarrow> nat \<Rightarrow> u32 \<Rightarrow> msg_state \<Rightarrow> msg_state result" where
  "SetBitParamDWordBasic param off msk = (\<lambda>(m, I). deref (NewMessage I) (\<lambda>a.
     in_buff m a (off + 4)
     (let newValue = GetUint32 (m_data m a) off;
          newValue = bits32 newValue msk param
      in Inr (SetData a (SetUint32 (m_data m a) off newValue) m, I))))"

definition GetBitParamByteBasic :: "nat \<Rightarrow> u32 \<Rightarrow> msg_state \<Rightarrow> u8 result" where
  "GetBitParamByteBasic off msk = (\<lambda>(m, I). deref (CurrentMessage I) (\<lambda>a.
     in_buff m a (off + 1) (Inr (ucast (ucast (m_data m a ! off) AND msk)))))"

definition GetBitParamWordBasic :: "nat \<Rightarrow> u32 \<Rightarrow> msg_state \<Rightarrow> u16 result" where
  "GetBitParamWordBasic off msk = (\<lambda>(m, I). deref (CurrentMessage I) (\<lambda>a.
     in_buff m a (off + 2)
     (let newValue = GetUint16 (m_data m a) off in Inr (ucast (ucast newValue AND msk)))))"

definition GetBitParamDWordBasic :: "nat \<Rightarrow> u32 \<Rightarrow> msg_state \<Rightarrow> u32 result" where
  "GetBitParamDWordBasic off msk = (\<lambda>(m, I). deref (CurrentMessage I) (\<lambda>a.
     in_buff m a (off + 4)
     (let newValue = GetUint32 (m_data m a) off in Inr (newValue AND msk))))"

subsection \<open>Laws\<close>

lemma copy_bytes_length [simp]:
  "off + n \<le> length src \<Longrightarrow> off + n \<le> length dst \<Longrightarrow> length (copy_bytes off n src dst) = length dst"
  by (simp add: copy_bytes_def)

lemma copy_bytes_prefix:
  "n \<le> length src \<Longrightarrow> take n (copy_bytes 0 n src dst) = take n src"
  by (simp add: copy_bytes_def)

lemma copy_bytes_nth:
  assumes "off + n \<le> length src" "off + n \<le> length dst" "i < length dst"
  shows "copy_bytes off n src dst ! i = (if off \<le> i \<and> i < off + n then src ! i else dst ! i)"
proof -
  have "length (take n (drop off src)) = n" "length (take off dst) = off" using assms by simp_all
  with assms show ?thesis
    by (auto simp: copy_bytes_def nth_append simp del: length_take)
qed

text \<open>A bit field that fits its mask is read back, and the other bits are kept.\<close>

lemma bits32_field:
  assumes "param AND NOT msk = 0"
  shows "bits32 old msk param AND msk = param"
    and "bits32 old msk param AND NOT msk = old AND NOT msk"
proof -
  have p: "bit param n \<Longrightarrow> bit msk n" for n
  proof (rule ccontr)
    assume b: "bit param n" "\<not> bit msk n"
    then have "n < 32" using bit_imp_le_length [of param n] by simp
    with b have "bit (param AND NOT msk) n" by (simp add: bit_simps)
    with assms show False by simp
  qed
  show "bits32 old msk param AND msk = param"
    by (rule bit_word_eqI) (auto simp: bits32_def bit_simps dest: p)
  show "bits32 old msk param AND NOT msk = old AND NOT msk"
    by (rule bit_word_eqI) (auto simp: bits32_def bit_simps dest: p)
qed

lemma SetBit_GetBit_DWord:
  assumes a: "NewMessage I = Some a" "CurrentMessage I = Some a" "off + 4 \<le> length (m_data m a)"
    and p: "param AND NOT msk = 0"
  shows "bindR (SetBitParamDWordBasic param off msk (m, I)) (GetBitParamDWordBasic off msk) = Inr param"
    and "bindR (SetBitParamDWordBasic param off msk (m, I)) (GetBitParamDWordBasic off (NOT msk)) =
      GetBitParamDWordBasic off (NOT msk) (m, I)"
  using a bits32_field [OF p]
  by (simp_all add: SetBitParamDWordBasic_def GetBitParamDWordBasic_def Let_def mem_simps)

text \<open>
  The header spells the mask of 28 bits with a digit 1 in place of an f: a 28-bit value written
  through it keeps its bits 13 to 15 out of the mask, and leaves the old ones there.
\<close>

lemma MASK_28_BIT_wrong: "MASK_28_BIT \<noteq> (mask 28 :: u32)" "MASK_28_BIT OR 0xe000 = (mask 28 :: u32)"
  by (simp_all add: MASK_28_BIT_def mask_eq_exp_minus_1)

end
