(* ===== verification/StdMsg.thy ===== *)
theory StdMsg
  imports MsgInterface
begin

text \<open>
  The two codecs of message parameters: \<open>stdMsg_pc8_pl8\<close> (\<open>src/Kernel/standardMsg.cpp\<close>, one byte for
  the code and one for the length of a parameter) and \<open>stdMsg_pc16_pl16\<close>
  (\<open>src/Kernel/stdMsgpc16pl16.cpp\<close>, two bytes each).  The two classes have the same code over
  the access to a field of a parameter and the two offsets, so every operation takes the
  class \<open>f\<close>; \<open>pc8\<close> and \<open>pc16\<close> stand for the two files.  A position in a message is an offset
  from its first byte.
\<close>

datatype codec = pc8 | pc16

fun PARAM_LENGTH_OFFSET :: "codec \<Rightarrow> nat" where
  "PARAM_LENGTH_OFFSET pc8 = 1"
| "PARAM_LENGTH_OFFSET pc16 = 2"

fun PARAM_HEADER_LENGTH :: "codec \<Rightarrow> nat" where
  "PARAM_HEADER_LENGTH pc8 = 2"
| "PARAM_HEADER_LENGTH pc16 = 4"

text \<open>\<open>*(tmp)\<close> and \<open>*(tmp) = v\<close> of the one, \<open>GetUint16(tmp)\<close> and \<open>SetUint16(tmp, v)\<close> of the other.\<close>

fun rd :: "codec \<Rightarrow> u8 list \<Rightarrow> nat \<Rightarrow> u32" where
  "rd pc8 bs i = ucast (bs ! i)"
| "rd pc16 bs i = ucast (GetUint16 bs i)"

fun wr :: "codec \<Rightarrow> u8 list \<Rightarrow> nat \<Rightarrow> u32 \<Rightarrow> u8 list" where
  "wr pc8 bs i v = SetByte bs i (ucast v)"
| "wr pc16 bs i v = SetUint16 bs i (ucast v)"

definition rd_field :: "codec \<Rightarrow> u8 list \<Rightarrow> nat \<Rightarrow> u32 result" where
  "rd_field f bs i = (if i + PARAM_LENGTH_OFFSET f \<le> length bs then Inr (rd f bs i) else Inl OutOfBounds)"

lemma header_pos [simp]: "0 < PARAM_HEADER_LENGTH f" "0 < PARAM_LENGTH_OFFSET f"
  by (cases f; simp)+

lemma rd_field_Inr: "rd_field f bs i = Inr v \<longleftrightarrow> i + PARAM_LENGTH_OFFSET f \<le> length bs \<and> v = rd f bs i"
  by (auto simp: rd_field_def)

subsection \<open>Searching\<close>

text \<open>The loop of \<open>FindParam\<close>: the position of the parameter and the new \<open>CurrentOffset\<close>.\<close>

function find_loop ::
  "codec \<Rightarrow> bool \<Rightarrow> u8 list \<Rightarrow> u32 \<Rightarrow> u32 \<Rightarrow> nat \<Rightarrow> u32 \<Rightarrow> (nat option \<times> u32) result" where
  "find_loop f nd bs paramCode len tmp off =
     bindR (rd_field f bs tmp) (\<lambda>code.
     if code = 0 then Inr (None, 0)
     else bindR (rd_field f bs (tmp + PARAM_LENGTH_OFFSET f)) (\<lambda>plen.
       let off = off + plen + of_nat (PARAM_HEADER_LENGTH f) in
       if code = paramCode then Inr (Some tmp, off)
       else assertC nd (off < len)
         (find_loop f nd bs paramCode len (tmp + unat plen + PARAM_HEADER_LENGTH f) off)))"
  by pat_completeness auto
termination
  by (relation "measure (\<lambda>(f, nd, bs, c, l, tmp, off). Suc (length bs) - tmp)")
    (auto simp: rd_field_Inr intro!: diff_less_mono2 trans_le_add2 split: codec.split
      dest: le_trans [of _ "_ + PARAM_LENGTH_OFFSET _"])

declare find_loop.simps [simp del]

definition FindParam_at :: "codec \<Rightarrow> bool \<Rightarrow> u8 list \<Rightarrow> u32 \<Rightarrow> u32 \<Rightarrow> (nat option \<times> u32) result" where
  "FindParam_at f nd bs paramCode startOffset =
     (let len = ucast (info_length bs) + of_nat MSG_HEADER_LENGTH in
      if len = of_nat MSG_HEADER_LENGTH then Inr (None, startOffset)
      else find_loop f nd bs paramCode len (MSG_INFO + unat startOffset) startOffset)"

definition FindParam ::
  "codec \<Rightarrow> bool \<Rightarrow> u32 \<Rightarrow> u32 \<Rightarrow> msg_state \<Rightarrow> ((addr \<times> nat) option \<times> msg_state) result" where
  "FindParam f nd paramCode startOffset = (\<lambda>(m, I).
     assertC nd (CurrentMessage I \<noteq> None)
     (deref (CurrentMessage I) (\<lambda>a. in_buff m a MSG_HEADER_LENGTH
     (bindR (FindParam_at f nd (m_data m a) paramCode startOffset) (\<lambda>(tmp, off).
      Inr (map_option (\<lambda>i. (a, i)) tmp, m, I\<lparr>CurrentOffset := off\<rparr>))))))"

definition SetENDOfParams_at :: "codec \<Rightarrow> u8 list \<Rightarrow> u8 list result" where
  "SetENDOfParams_at f bs =
     (let i = unat (info_length bs) + MSG_HEADER_LENGTH in
      if i + PARAM_LENGTH_OFFSET f \<le> length bs
      then Inr (SetUint16 (wr f bs i 0) MSG_LENGTH (info_length (wr f bs i 0) + 2))
      else Inl OutOfBounds)"

function place_loop ::
  "codec \<Rightarrow> bool \<Rightarrow> u8 list \<Rightarrow> u32 \<Rightarrow> u32 \<Rightarrow> nat \<Rightarrow> u32 \<Rightarrow> (nat \<times> u32) result" where
  "place_loop f nd bs paramCode len tmp off =
     bindR (rd_field f bs tmp) (\<lambda>code.
     if code = 0 then Inr (tmp, off)
     else if code > paramCode then Inr (tmp, off)
     else bindR (rd_field f bs (tmp + PARAM_LENGTH_OFFSET f)) (\<lambda>plen.
       let off = off + plen + of_nat (PARAM_HEADER_LENGTH f) in
       assertC nd (off < len)
         (place_loop f nd bs paramCode len (tmp + unat plen + PARAM_HEADER_LENGTH f) off)))"
  by pat_completeness auto
termination
  by (relation "measure (\<lambda>(f, nd, bs, c, l, tmp, off). Suc (length bs) - tmp)")
    (auto simp: rd_field_Inr intro!: diff_less_mono2)

declare place_loop.simps [simp del]

text \<open>The length is read before \<open>SetENDOfParams\<close>.  The result has the bytes of the message too.\<close>

definition FindParamPlace_at ::
  "codec \<Rightarrow> bool \<Rightarrow> u8 list \<Rightarrow> u32 \<Rightarrow> u32 \<Rightarrow> (nat \<times> u32 \<times> u8 list) result" where
  "FindParamPlace_at f nd bs paramCode startOffset =
     (let len = ucast (info_length bs) in
      bindR (if len = 0 then SetENDOfParams_at f bs else Inr bs) (\<lambda>bs.
      bindR (place_loop f nd bs paramCode len MSG_INFO startOffset) (\<lambda>(tmp, off).
      Inr (tmp, off, bs))))"

subsection \<open>Adding and removing\<close>

text \<open>\<open>memmove(bs + dst, src, n)\<close> of the bytes \<open>src\<close>.\<close>

definition memmove :: "u8 list \<Rightarrow> nat \<Rightarrow> u8 list \<Rightarrow> u8 list result" where
  "memmove bs dst src =
     (if dst + length src \<le> length bs then Inr (take dst bs @ src @ drop (dst + length src) bs)
      else Inl OutOfBounds)"

definition mem_range :: "u8 list \<Rightarrow> nat \<Rightarrow> u32 \<Rightarrow> u8 list result" where
  "mem_range bs i n = (if i + unat n \<le> length bs then Inr (take (unat n) (drop i bs)) else Inl OutOfBounds)"

definition AddParam_at ::
  "codec \<Rightarrow> bool \<Rightarrow> u8 list \<Rightarrow> u32 \<Rightarrow> u32 \<Rightarrow> u8 list \<Rightarrow> (u32 \<times> u8 list) result" where
  "AddParam_at f nd bs paramCode paramLength param =
     bindR (FindParamPlace_at f nd bs paramCode 0) (\<lambda>(tmp, off, bs).
     bindR (mem_range bs tmp (ucast (info_length bs) - off)) (\<lambda>rest.
     bindR (memmove bs (tmp + unat paramLength + PARAM_HEADER_LENGTH f) rest) (\<lambda>bs.
     if tmp + PARAM_HEADER_LENGTH f \<le> length bs then
       let bs = wr f bs tmp paramCode;
           bs = wr f bs (tmp + PARAM_LENGTH_OFFSET f) paramLength in
       bindR (mem_range param 0 paramLength) (\<lambda>val.
       bindR (memmove bs (tmp + PARAM_HEADER_LENGTH f) val) (\<lambda>bs.
       Inr (off, SetUint16 bs MSG_LENGTH
         (info_length bs + ucast paramLength + of_nat (PARAM_HEADER_LENGTH f)))))
     else Inl OutOfBounds)))"

definition on_new :: "bool \<Rightarrow> msg_state \<Rightarrow> (u8 list \<Rightarrow> ('a \<times> u32 \<times> u8 list) result) \<Rightarrow>
    ('a \<times> msg_state) result" where
  "on_new nd = (\<lambda>(m, I) op.
     assertC nd (NewMessage I \<noteq> None) (deref (NewMessage I) (\<lambda>a. in_buff m a MSG_HEADER_LENGTH
     (bindR (op (m_data m a)) (\<lambda>(x, off, bs).
      Inr (x, SetData a bs m, I\<lparr>CurrentOffset := off\<rparr>))))))"

definition AddParam :: "codec \<Rightarrow> bool \<Rightarrow> u32 \<Rightarrow> u32 \<Rightarrow> u8 list \<Rightarrow> msg_state \<Rightarrow> (ptr \<times> msg_state) result" where
  "AddParam f nd paramCode paramLength param s =
     bindR (on_new nd s (\<lambda>bs. bindR (AddParam_at f nd bs paramCode paramLength param) (\<lambda>(off, bs).
       Inr ((), off, bs)))) (\<lambda>(_, m, I). Inr (NewMessage I, m, I))"

text \<open>The parameter is coded as in a message.\<close>

definition AddParam_coded :: "codec \<Rightarrow> bool \<Rightarrow> u8 list \<Rightarrow> msg_state \<Rightarrow> (ptr \<times> msg_state) result" where
  "AddParam_coded f nd param s =
     bindR (rd_field f param 0) (\<lambda>code.
     bindR (rd_field f param (PARAM_LENGTH_OFFSET f)) (\<lambda>len.
     AddParam f nd code len (drop (PARAM_HEADER_LENGTH f) param) s))"

definition AddParamByte :: "codec \<Rightarrow> bool \<Rightarrow> u32 \<Rightarrow> u8 \<Rightarrow> msg_state \<Rightarrow> (ptr \<times> msg_state) result" where
  "AddParamByte f nd paramCode param s = AddParam f nd paramCode 1 [param] s"

text \<open>The address of a word or double word in memory: the bytes in little-endian order.\<close>

definition AddParamWord :: "codec \<Rightarrow> bool \<Rightarrow> u32 \<Rightarrow> u16 \<Rightarrow> msg_state \<Rightarrow> (ptr \<times> msg_state) result" where
  "AddParamWord f nd paramCode param s = AddParam f nd paramCode 2 (SetUint16 [0, 0] 0 param) s"

definition AddParamDWord :: "codec \<Rightarrow> bool \<Rightarrow> u32 \<Rightarrow> u32 \<Rightarrow> msg_state \<Rightarrow> (ptr \<times> msg_state) result" where
  "AddParamDWord f nd paramCode param s = AddParam f nd paramCode 4 (SetUint32 [0, 0, 0, 0] 0 param) s"

definition RemoveParam_at :: "codec \<Rightarrow> bool \<Rightarrow> u8 list \<Rightarrow> u32 \<Rightarrow> (bool \<times> u32 \<times> u8 list) result" where
  "RemoveParam_at f nd bs paramCode =
     assertC nd (paramCode \<noteq> 0)
     (bindR (FindParamPlace_at f nd bs paramCode 0) (\<lambda>(tmp, off, bs).
      bindR (rd_field f bs tmp) (\<lambda>code.
      if code \<noteq> paramCode then Inr (False, off, bs)
      else bindR (rd_field f bs (tmp + PARAM_LENGTH_OFFSET f)) (\<lambda>len.
        let bs = SetUint16 bs MSG_LENGTH (info_length bs - 2 - ucast len) in
        bindR (mem_range bs (tmp + unat len + PARAM_HEADER_LENGTH f)
            (ucast (info_length bs) - off - of_nat (PARAM_HEADER_LENGTH f) - len)) (\<lambda>rest.
        bindR (memmove bs tmp rest) (\<lambda>bs. Inr (True, off, bs)))))))"

definition RemoveParam :: "codec \<Rightarrow> bool \<Rightarrow> u32 \<Rightarrow> msg_state \<Rightarrow> (bool \<times> msg_state) result" where
  "RemoveParam f nd paramCode s = on_new nd s (\<lambda>bs. RemoveParam_at f nd bs paramCode)"

definition SetENDOfParams :: "codec \<Rightarrow> msg_state \<Rightarrow> msg_state result" where
  "SetENDOfParams f = (\<lambda>(m, I). deref (NewMessage I) (\<lambda>a. in_buff m a MSG_HEADER_LENGTH
     (bindR (SetENDOfParams_at f (m_data m a)) (\<lambda>bs. Inr (SetData a bs m, I)))))"

subsection \<open>Reading\<close>

text \<open>
  \<open>read_param\<close> is what the getters do with the result of \<open>FindParam\<close>: \<open>None\<close> stands for the
  result \<open>false\<close>, where the variable of the caller is left as it was.
\<close>

definition read_param :: "nat \<Rightarrow> (u8 list \<Rightarrow> nat \<Rightarrow> 'a) \<Rightarrow> codec \<Rightarrow>
    (addr \<times> nat) option \<times> msg_state \<Rightarrow> ('a option \<times> msg_state) result" where
  "read_param n get f = (\<lambda>(tmp, m, I). case tmp of
       None \<Rightarrow> Inr (None, m, I)
     | Some (a, i) \<Rightarrow> in_buff m a (i + PARAM_HEADER_LENGTH f + n)
         (Inr (Some (get (m_data m a) (i + PARAM_HEADER_LENGTH f)), m, I)))"

definition GetParam :: "codec \<Rightarrow> bool \<Rightarrow> u32 \<Rightarrow> msg_state \<Rightarrow> ((addr \<times> nat) option \<times> msg_state) result" where
  "GetParam f nd paramCode s = FindParam f nd paramCode 0 s"

definition GetParam_len ::
  "codec \<Rightarrow> bool \<Rightarrow> u32 \<Rightarrow> msg_state \<Rightarrow> ((addr \<times> nat) option \<times> u32 \<times> msg_state) result" where
  "GetParam_len f nd paramCode s =
     bindR (FindParam f nd paramCode 0 s) (\<lambda>(tmp, m, I). case tmp of
       None \<Rightarrow> Inr (None, 0, m, I)
     | Some (a, i) \<Rightarrow> bindR (rd_field f (m_data m a) (i + PARAM_LENGTH_OFFSET f)) (\<lambda>paramLen.
         Inr (Some (a, i + PARAM_HEADER_LENGTH f), paramLen, m, I)))"

definition GetParamByte :: "codec \<Rightarrow> bool \<Rightarrow> u32 \<Rightarrow> msg_state \<Rightarrow> (u8 option \<times> msg_state) result" where
  "GetParamByte f nd paramCode s = bindR (FindParam f nd paramCode 0 s) (read_param 1 (!) f)"

definition GetParamWord :: "codec \<Rightarrow> bool \<Rightarrow> u32 \<Rightarrow> msg_state \<Rightarrow> (u16 option \<times> msg_state) result" where
  "GetParamWord f nd paramCode s = bindR (FindParam f nd paramCode 0 s) (read_param 2 GetUint16 f)"

definition GetParamDWord :: "codec \<Rightarrow> bool \<Rightarrow> u32 \<Rightarrow> msg_state \<Rightarrow> (u32 option \<times> msg_state) result" where
  "GetParamDWord f nd paramCode s = bindR (FindParam f nd paramCode 0 s) (read_param 4 GetUint32 f)"

definition GetNextParam :: "codec \<Rightarrow> bool \<Rightarrow> u32 \<Rightarrow> msg_state \<Rightarrow> ((addr \<times> nat) option \<times> msg_state) result" where
  "GetNextParam f nd paramCode = (\<lambda>(m, I). FindParam f nd paramCode (CurrentOffset I) (m, I))"

text \<open>Unlike \<open>GetParam\<close>, it reads one byte of the length in both classes.\<close>

definition GetNextParam_len ::
  "codec \<Rightarrow> bool \<Rightarrow> u32 \<Rightarrow> msg_state \<Rightarrow> ((addr \<times> nat) option \<times> u32 \<times> msg_state) result" where
  "GetNextParam_len f nd paramCode s =
     bindR (GetNextParam f nd paramCode s) (\<lambda>(tmp, m, I). case tmp of
       None \<Rightarrow> Inr (None, 0, m, I)
     | Some (a, i) \<Rightarrow> in_buff m a (i + PARAM_LENGTH_OFFSET f + 1)
         (let paramLen = ucast (m_data m a ! (i + PARAM_LENGTH_OFFSET f))
          in Inr (Some (a, i + PARAM_HEADER_LENGTH f), paramLen, m, I)))"

definition GetNextParamByte :: "codec \<Rightarrow> bool \<Rightarrow> u32 \<Rightarrow> msg_state \<Rightarrow> (u8 option \<times> msg_state) result" where
  "GetNextParamByte f nd paramCode s = bindR (GetNextParam f nd paramCode s) (read_param 1 (!) f)"

definition GetNextParamWord :: "codec \<Rightarrow> bool \<Rightarrow> u32 \<Rightarrow> msg_state \<Rightarrow> (u16 option \<times> msg_state) result" where
  "GetNextParamWord f nd paramCode s = bindR (GetNextParam f nd paramCode s) (read_param 2 GetUint16 f)"

definition GetNextParamDWord :: "codec \<Rightarrow> bool \<Rightarrow> u32 \<Rightarrow> msg_state \<Rightarrow> (u32 option \<times> msg_state) result" where
  "GetNextParamDWord f nd paramCode s = bindR (GetNextParam f nd paramCode s) (read_param 4 GetUint32 f)"

subsection \<open>The layout of a message\<close>

text \<open>
  \<open>has_params f bs ps\<close>: behind its header the message \<open>bs\<close> holds the parameters \<open>ps\<close>, pairs of a
  code and a value, and the end marker; the length field counts both, with two bytes for the
  marker in either class.
\<close>

type_synonym param = "u32 \<times> u8 list"

fun field_bytes :: "codec \<Rightarrow> u32 \<Rightarrow> u8 list" where
  "field_bytes pc8 x = [ucast x]"
| "field_bytes pc16 x = le16 (ucast x)"

definition in_field :: "codec \<Rightarrow> nat \<Rightarrow> bool" where
  "in_field f n \<longleftrightarrow> n < 2 ^ (8 * PARAM_LENGTH_OFFSET f)"

fun enc_param :: "codec \<Rightarrow> param \<Rightarrow> u8 list" where
  "enc_param f (c, v) = field_bytes f c @ field_bytes f (of_nat (length v)) @ v"

declare enc_param.simps [simp del]

definition enc :: "codec \<Rightarrow> param list \<Rightarrow> u8 list" where
  "enc f ps = concat (map (enc_param f) ps)"

fun param_ok :: "codec \<Rightarrow> param \<Rightarrow> bool" where
  "param_ok f (c, v) \<longleftrightarrow> c \<noteq> 0 \<and> in_field f (unat c) \<and> in_field f (length v)"

definition has_params :: "codec \<Rightarrow> u8 list \<Rightarrow> param list \<Rightarrow> bool" where
  "has_params f bs ps \<longleftrightarrow> (\<forall>p \<in> set ps. param_ok f p) \<and>
     unat (info_length bs) = length (enc f ps) + 2 \<and>
     (\<exists>h r. length h = MSG_HEADER_LENGTH \<and> bs = h @ enc f ps @ field_bytes f 0 @ r \<and>
        2 \<le> PARAM_LENGTH_OFFSET f + length r)"

lemma enc_simps [simp]:
  "enc f [] = []" "enc f (p # ps) = enc_param f p @ enc f ps" "enc f (ps @ qs) = enc f ps @ enc f qs"
  by (simp_all add: enc_def)

lemma length_field_bytes [simp]: "length (field_bytes f x) = PARAM_LENGTH_OFFSET f"
  by (cases f) simp_all

lemma header_twice: "PARAM_HEADER_LENGTH f = PARAM_LENGTH_OFFSET f + PARAM_LENGTH_OFFSET f"
  by (cases f) simp_all

lemma length_enc_param [simp]: "length (enc_param f (c, v)) = PARAM_HEADER_LENGTH f + length v"
  by (simp add: header_twice enc_param.simps)

lemma ucast_small:
  "unat x < 256 \<Longrightarrow> ucast (ucast x :: u8) = (x :: u32)"
  "unat x < 65536 \<Longrightarrow> ucast (ucast x :: u16) = (x :: u32)"
  by (simp_all add: unat_arith_simps take_bit_nat_eq_self unsigned_ucast_eq unsigned_take_bit_eq)

lemma rd_at:
  assumes "in_field f (unat x)" "i = length xs"
  shows "rd f (xs @ field_bytes f x @ ys) i = x"
  using assms Get16_at [of i xs "ucast x" ys] by (cases f) (simp_all add: in_field_def ucast_small)

lemma in_field_len: "in_field f n \<Longrightarrow> unat (of_nat n :: u32) = n"
  by (cases f) (simp_all add: in_field_def unat_of_nat take_bit_nat_eq_self)

text \<open>The fields of the first parameter and the end marker, seen by the loops.\<close>

lemma rd_code:
  assumes "param_ok f (c, v)" "i = length xs"
  shows "rd_field f (xs @ enc_param f (c, v) @ ys) i = Inr c"
  using rd_at [of f c i xs] assms by (simp add: rd_field_def enc_param.simps)

lemma rd_len:
  assumes "param_ok f (c, v)" "i = length xs + PARAM_LENGTH_OFFSET f"
  shows "rd_field f (xs @ enc_param f (c, v) @ ys) i = Inr (of_nat (length v))"
  using rd_at [of f "of_nat (length v)" i "xs @ field_bytes f c" "v @ ys"] in_field_len [of f "length v"] assms
  by (simp add: rd_field_def enc_param.simps)

lemma rd_end: "i = length xs \<Longrightarrow> rd_field f (xs @ field_bytes f 0 @ ys) i = Inr 0"
  using rd_at [of f 0 i xs] by (simp add: rd_field_def in_field_def)

subsection \<open>\<open>FindParam\<close> finds the first parameter of a code\<close>

definition before :: "u32 \<Rightarrow> param list \<Rightarrow> param list" where
  "before c ps = takeWhile (\<lambda>p. fst p \<noteq> c) ps"

definition found :: "codec \<Rightarrow> u32 \<Rightarrow> param list \<Rightarrow> nat \<Rightarrow> u32 \<Rightarrow> nat option \<times> u32" where
  "found f c ps tmp off = (case dropWhile (\<lambda>p. fst p \<noteq> c) ps of
       [] \<Rightarrow> (None, 0)
     | p # _ \<Rightarrow> (Some (tmp + length (enc f (before c ps))),
               off + of_nat (length (enc f (before c ps @ [p])))))"

lemma found_simps:
  "found f c [] tmp off = (None, 0)"
  "found f c ((d, v) # ps) tmp off =
     (if d = c then (Some tmp, off + of_nat (length (enc_param f (d, v))))
      else found f c ps (tmp + length (enc_param f (d, v))) (off + of_nat (length (enc_param f (d, v)))))"
  by (auto simp: found_def before_def ac_simps split: list.split simp del: dropWhile_eq_Nil_conv)

lemma off_step:
  "unat (of_nat n :: u32) = n \<Longrightarrow> off + of_nat n + of_nat h = off + of_nat (h + n)"
  by (simp add: ac_simps)

lemma off_bound:
  assumes "unat (off :: u32) + (k + n) < unat (len :: u32)" "k + n' \<le> k + n"
  shows "unat (off + of_nat k) + n < unat len" "off + of_nat k < len"
proof -
  have "unat len < 2 ^ LENGTH(32)" by (rule unsigned_less)
  with assms(1) have lt: "unat off + k < 2 ^ LENGTH(32)" by simp
  then have "unat (of_nat k :: u32) = k" by (intro unat_of_nat_less) simp
  with lt have u: "unat (off + of_nat k) = unat off + k" by (simp add: unat_word_ariths)
  with assms(1) show "unat (off + of_nat k) + n < unat len" "off + of_nat k < len"
    by (simp_all add: word_less_nat_alt)
qed

lemma find_loop_found:
  assumes "\<forall>p \<in> set ps. param_ok f p" "bs = xs @ enc f ps @ field_bytes f 0 @ r" "tmp = length xs"
    and "nd \<or> unat off + length (enc f ps) < unat len"
  shows "find_loop f nd bs c len tmp off = Inr (if c = 0 then (None, 0) else found f c ps tmp off)"
  using assms
proof (induction ps arbitrary: xs tmp off)
  case Nil
  then have "rd_field f bs tmp = Inr 0" using rd_end [of tmp xs f r] by simp
  then show ?case by (subst find_loop.simps) (simp add: found_simps)
next
  case (Cons p ps)
  obtain d v where p: "p = (d, v)" by fastforce
  let ?n = "length (enc_param f (d, v))"
  have ok: "param_ok f (d, v)" and bs: "bs = xs @ enc_param f (d, v) @ enc f ps @ field_bytes f 0 @ r"
    using Cons.prems by (simp_all add: p)
  have code: "rd_field f bs tmp = Inr d"
    unfolding bs by (rule rd_code [OF ok Cons.prems(3)])
  have plen: "rd_field f bs (tmp + PARAM_LENGTH_OFFSET f) = Inr (of_nat (length v))"
    unfolding bs by (rule rd_len [OF ok]) (simp add: Cons.prems(3))
  have v: "unat (of_nat (length v) :: u32) = length v" using ok in_field_len [of f "length v"] by simp
  have o: "off + of_nat (length v) + of_nat (PARAM_HEADER_LENGTH f) = off + of_nat ?n"
    using v by (simp add: ac_simps)
  have d: "d \<noteq> 0" using ok by simp
  have step: "find_loop f nd bs c len tmp off =
      (if d = c then Inr (Some tmp, off + of_nat ?n)
       else assertC nd (off + of_nat ?n < len)
         (find_loop f nd bs c len (tmp + ?n) (off + of_nat ?n)))"
    by (subst find_loop.simps) (simp add: code plen d v o Let_def header_twice ac_simps)
  show ?case
  proof (cases "d = c")
    case True
    with step d show ?thesis by (simp add: p found_simps)
  next
    case False
    have bd: "nd \<or> unat (off + of_nat ?n) + length (enc f ps) < unat len" "nd \<or> off + of_nat ?n < len"
      using Cons.prems(4) off_bound [of off ?n "length (enc f ps)" len 0] by (auto simp: p)
    have "find_loop f nd bs c len (tmp + ?n) (off + of_nat ?n) =
        Inr (if c = 0 then (None, 0) else found f c ps (tmp + ?n) (off + of_nat ?n))"
      by (rule Cons.IH [of "xs @ enc_param f (d, v)"])
        (use Cons.prems bd bs in \<open>auto simp: p\<close>)
    with step False bd(2) show ?thesis by (auto simp: p found_simps assertC_def)
  qed
qed

subsection \<open>\<open>FindParamPlace\<close> finds the place in front of the greater codes\<close>

definition upto_code :: "u32 \<Rightarrow> param list \<Rightarrow> param list" where
  "upto_code c ps = takeWhile (\<lambda>p. fst p \<le> c) ps"

definition after_code :: "u32 \<Rightarrow> param list \<Rightarrow> param list" where
  "after_code c ps = dropWhile (\<lambda>p. fst p \<le> c) ps"

lemma upto_after: "upto_code c ps @ after_code c ps = ps"
  by (simp add: upto_code_def after_code_def)

lemma upto_simps [simp]:
  "upto_code c [] = []"
  "upto_code c ((d, v) # ps) = (if d \<le> c then (d, v) # upto_code c ps else [])"
  by (simp_all add: upto_code_def)

lemma place_loop_at:
  assumes "\<forall>p \<in> set ps. param_ok f p" "bs = xs @ enc f ps @ field_bytes f 0 @ r" "tmp = length xs"
    and "nd \<or> ps = [] \<or> unat off + length (enc f ps) < unat len"
  shows "place_loop f nd bs c len tmp off =
    Inr (tmp + length (enc f (upto_code c ps)), off + of_nat (length (enc f (upto_code c ps))))"
  using assms
proof (induction ps arbitrary: xs tmp off)
  case Nil
  then have "rd_field f bs tmp = Inr 0" using rd_end [of tmp xs f r] by simp
  then show ?case by (subst place_loop.simps) simp
next
  case (Cons p ps)
  obtain d v where p: "p = (d, v)" by fastforce
  let ?n = "length (enc_param f (d, v))"
  have ok: "param_ok f (d, v)" and bs: "bs = xs @ enc_param f (d, v) @ enc f ps @ field_bytes f 0 @ r"
    using Cons.prems by (simp_all add: p)
  have code: "rd_field f bs tmp = Inr d"
    unfolding bs by (rule rd_code [OF ok Cons.prems(3)])
  have plen: "rd_field f bs (tmp + PARAM_LENGTH_OFFSET f) = Inr (of_nat (length v))"
    unfolding bs by (rule rd_len [OF ok]) (simp add: Cons.prems(3))
  have v: "unat (of_nat (length v) :: u32) = length v" using ok in_field_len [of f "length v"] by simp
  have o: "off + of_nat (length v) + of_nat (PARAM_HEADER_LENGTH f) = off + of_nat ?n"
    using v by (simp add: ac_simps)
  have d: "d \<noteq> 0" using ok by simp
  have step: "place_loop f nd bs c len tmp off =
      (if d > c then Inr (tmp, off)
       else assertC nd (off + of_nat ?n < len)
         (place_loop f nd bs c len (tmp + ?n) (off + of_nat ?n)))"
    by (subst place_loop.simps) (simp add: code plen d v o Let_def header_twice ac_simps)
  show ?case
  proof (cases "d > c")
    case True
    with step iffD2 [OF not_le True] show ?thesis by (simp add: p)
  next
    case False
    have bd: "nd \<or> unat (off + of_nat ?n) + length (enc f ps) < unat len" "nd \<or> off + of_nat ?n < len"
      using Cons.prems(4) off_bound [of off ?n "length (enc f ps)" len 0] by (auto simp: p)
    have "place_loop f nd bs c len (tmp + ?n) (off + of_nat ?n) =
        Inr (tmp + ?n + length (enc f (upto_code c ps)),
          off + of_nat ?n + of_nat (length (enc f (upto_code c ps))))"
      by (rule Cons.IH [of "xs @ enc_param f (d, v)"])
        (use Cons.prems bd bs in \<open>auto simp: p\<close>)
    with step False bd(2) show ?thesis
      by (auto simp: p assertC_def not_less ac_simps)
  qed
qed

lemma has_paramsE:
  assumes "has_params f bs ps"
  obtains h r where "length h = MSG_HEADER_LENGTH" "bs = h @ enc f ps @ field_bytes f 0 @ r"
    "2 \<le> PARAM_LENGTH_OFFSET f + length r" "\<forall>p \<in> set ps. param_ok f p"
    "unat (info_length bs) = length (enc f ps) + 2"
  using assms by (auto simp: has_params_def)

lemma info_length_bound: "has_params f bs ps \<Longrightarrow> length (enc f ps) + 2 < 2 ^ 16"
  using unat_u16_less [of "info_length bs"] by (auto simp: has_params_def)

lemma place_at:
  assumes "has_params f bs ps"
  shows "FindParamPlace_at f nd bs c 0 =
    Inr (MSG_INFO + length (enc f (upto_code c ps)), of_nat (length (enc f (upto_code c ps))), bs)"
proof -
  from assms obtain h r where *: "length h = MSG_HEADER_LENGTH" "bs = h @ enc f ps @ field_bytes f 0 @ r"
    "\<forall>p \<in> set ps. param_ok f p" "unat (info_length bs) = length (enc f ps) + 2"
    by (rule has_paramsE)
  have len: "unat (ucast (info_length bs) :: u32) = length (enc f ps) + 2"
    using *(4) by simp
  then have "(ucast (info_length bs) :: u32) \<noteq> 0" by (metis add_is_0 unat_0 zero_neq_numeral)
  moreover have "place_loop f nd bs c (ucast (info_length bs)) MSG_INFO 0 =
      Inr (MSG_INFO + length (enc f (upto_code c ps)), 0 + of_nat (length (enc f (upto_code c ps))))"
    by (rule place_loop_at [OF *(3,2)]) (use *(1) len in \<open>simp_all add: offset_defs\<close>)
  ultimately show ?thesis by (simp add: FindParamPlace_at_def Let_def)
qed

text \<open>
  \<open>RemoveParam\<close> looks at the place behind the parameters of its code: it finds a greater code or
  the end marker there, so that it never removes a parameter.
\<close>

lemma code_behind:
  assumes "has_params f bs ps"
  shows "\<exists>d. rd_field f bs (MSG_INFO + length (enc f (upto_code c ps))) = Inr d \<and> (d = 0 \<or> c < d)"
proof -
  from assms obtain h r where *: "length h = MSG_HEADER_LENGTH" "bs = h @ enc f ps @ field_bytes f 0 @ r"
    "\<forall>p \<in> set ps. param_ok f p" by (rule has_paramsE)
  let ?u = "upto_code c ps"
  have enc: "enc f ps = enc f ?u @ enc f (after_code c ps)"
    using upto_after [of c ps] enc_simps(3) by metis
  have pos: "MSG_INFO + length (enc f ?u) = length (h @ enc f ?u)" using *(1) by (simp add: offset_defs)
  show ?thesis
  proof (cases "after_code c ps")
    case Nil
    with rd_end [OF pos, of f r] * enc show ?thesis by simp
  next
    case (Cons p qs)
    obtain d v where p: "p = (d, v)" by fastforce
    have "\<not> fst p \<le> c"
      using hd_dropWhile [of "\<lambda>p. fst p \<le> c" ps] Cons
      by (simp add: after_code_def del: dropWhile_eq_Nil_conv)
    moreover have "p \<in> set ps" using Cons upto_after [of c ps] by (metis in_set_conv_decomp)
    ultimately have "param_ok f (d, v)" "c < d" using *(3) by (auto simp: p)
    with rd_code [OF _ pos, of f d v "enc f qs @ field_bytes f 0 @ r"] *(2) enc Cons show ?thesis
      by (simp add: p)
  qed
qed

lemma RemoveParam_never:
  assumes "has_params f bs ps" "c \<noteq> 0"
  shows "\<exists>off. RemoveParam_at f nd bs c = Inr (False, off, bs)"
  using place_at [OF assms(1), of nd c] code_behind [OF assms(1), of c] assms(2)
  by (auto simp: RemoveParam_at_def)

subsection \<open>\<open>AddParam\<close> inserts in the order of the codes\<close>

definition ins_param :: "param \<Rightarrow> param list \<Rightarrow> param list" where
  "ins_param p ps = upto_code (fst p) ps @ p # after_code (fst p) ps"

lemma wr_at:
  assumes "length ys = PARAM_LENGTH_OFFSET f" "i = length xs"
  shows "wr f (xs @ ys @ zs) i x = xs @ field_bytes f x @ zs"
proof (cases f)
  case pc8
  with assms obtain y where "ys = [y]" by (auto simp: length_Suc_conv)
  with assms pc8 show ?thesis by (simp add: SetByte_def list_update_append)
next
  case pc16
  with assms Set16_split [of ys i xs zs "ucast x"] show ?thesis by simp
qed

lemma memmove_at:
  "length ys = length src \<Longrightarrow> i = length xs \<Longrightarrow> memmove (xs @ ys @ zs) i src = Inr (xs @ src @ zs)"
  by (simp add: memmove_def)

lemma mem_range_at:
  "i = length xs \<Longrightarrow> unat n = length ys \<Longrightarrow> mem_range (xs @ ys @ zs) i n = Inr ys"
  by (simp add: mem_range_def)

lemma split_at: "n + k \<le> length zs \<Longrightarrow> \<exists>xs ys rs. zs = xs @ ys @ rs \<and> length xs = n \<and> length ys = k"
  by (intro exI [of _ "take n zs"] exI [of _ "take k (drop n zs)"] exI [of _ "drop (n + k) zs"])
    (simp add: append_assoc [symmetric] take_add [symmetric] del: append_assoc)

text \<open>Opening a gap of \<open>g\<close> bytes in front of \<open>ts\<close> and filling it with a parameter.\<close>

lemma open_gap:
  assumes "length R = g + k" "i = length X + g"
  shows "\<exists>G R'. length G = g \<and> length R' = k \<and> memmove (X @ ts @ R) i ts = Inr (X @ G @ ts @ R')"
proof -
  let ?Z = "ts @ R"
  have len: "g + length ts \<le> length ?Z" using assms(1) by simp
  from split_at [OF len] obtain G Y R' where z: "?Z = G @ Y @ R'" "length G = g" "length Y = length ts"
    by blast
  have "memmove ((X @ G) @ Y @ R') i ts = Inr ((X @ G) @ ts @ R')"
    using z assms(2) by (intro memmove_at) simp_all
  moreover have "length R' = k" using arg_cong [OF z(1), of length] z(2,3) assms(1) by simp
  ultimately show ?thesis using z(1,2) by (intro exI [of _ G] exI [of _ R']) simp
qed

lemma fill_gap:
  assumes g: "length G = length (enc_param f (c, v))" and i: "i = length X"
  shows "i + PARAM_HEADER_LENGTH f \<le> length (X @ G @ Y)"
    and "memmove (wr f (wr f (X @ G @ Y) i c) (i + PARAM_LENGTH_OFFSET f) (of_nat (length v)))
      (i + PARAM_HEADER_LENGTH f) v = Inr (X @ enc_param f (c, v) @ Y)"
proof -
  show "i + PARAM_HEADER_LENGTH f \<le> length (X @ G @ Y)" using g i by simp
  have "PARAM_LENGTH_OFFSET f + PARAM_LENGTH_OFFSET f \<le> length G" using g by (simp add: header_twice)
  from split_at [OF this] obtain A C V where s: "G = A @ C @ V"
    "length A = PARAM_LENGTH_OFFSET f" "length C = PARAM_LENGTH_OFFSET f" by blast
  have v: "length V = length v" using arg_cong [OF s(1), of length] s(2,3) g by (simp add: header_twice)
  have 1: "wr f (X @ G @ Y) i c = X @ field_bytes f c @ C @ V @ Y"
    using wr_at [OF s(2) i, of "C @ V @ Y" c] by (simp add: s(1))
  have 2: "wr f (X @ field_bytes f c @ C @ V @ Y) (i + PARAM_LENGTH_OFFSET f) (of_nat (length v)) =
      X @ field_bytes f c @ field_bytes f (of_nat (length v)) @ V @ Y"
    using wr_at [OF s(3), of "i + PARAM_LENGTH_OFFSET f" "X @ field_bytes f c" "V @ Y" "of_nat (length v)"] i
    by simp
  have 3: "memmove (X @ field_bytes f c @ field_bytes f (of_nat (length v)) @ V @ Y)
      (i + PARAM_HEADER_LENGTH f) v = Inr (X @ enc_param f (c, v) @ Y)"
    using memmove_at [of V v "i + PARAM_HEADER_LENGTH f"
        "X @ field_bytes f c @ field_bytes f (of_nat (length v))" Y] v i
    by (simp add: enc_param.simps header_twice)
  show "memmove (wr f (wr f (X @ G @ Y) i c) (i + PARAM_LENGTH_OFFSET f) (of_nat (length v)))
      (i + PARAM_HEADER_LENGTH f) v = Inr (X @ enc_param f (c, v) @ Y)"
    by (simp only: 1 2 3)
qed

lemma info_length_header:
  "length h = MSG_HEADER_LENGTH \<Longrightarrow> info_length (SetUint16 (h @ ys) MSG_LENGTH n) = n"
  "length h = MSG_HEADER_LENGTH \<Longrightarrow> info_length (h @ ys) = info_length h"
  "length h = MSG_HEADER_LENGTH \<Longrightarrow> SetUint16 (h @ ys) MSG_LENGTH n = SetUint16 h MSG_LENGTH n @ ys"
  by (simp_all add: info_length_def mem_simps offset_defs)
    (simp_all add: GetUint16_def SetUint16_def nth_append list_update_append)

lemma AddParam_inserts:
  assumes ps: "has_params f bs ps" and p: "param_ok f (c, v)"
    and room: "MSG_HEADER_LENGTH + length (enc f ps) + 2 + length (enc_param f (c, v)) \<le> length bs"
    and len16: "length (enc f ps) + 2 + length (enc_param f (c, v)) < 2 ^ 16"
  shows "\<exists>off bs'. AddParam_at f nd bs c (of_nat (length v)) v = Inr (off, bs') \<and>
    has_params f bs' (ins_param (c, v) ps) \<and> length bs' = length bs \<and>
    take MSG_LENGTH bs' = take MSG_LENGTH bs"
proof -
  from ps obtain h r where B: "length h = MSG_HEADER_LENGTH" "bs = h @ enc f ps @ field_bytes f 0 @ r"
    "2 \<le> PARAM_LENGTH_OFFSET f + length r" "\<forall>p \<in> set ps. param_ok f p"
    "unat (info_length bs) = length (enc f ps) + 2" by (rule has_paramsE)
  let ?u = "upto_code c ps" and ?a = "after_code c ps"
  let ?k = "2 - PARAM_LENGTH_OFFSET f"
  define T where "T = enc f ?a @ field_bytes f 0 @ take ?k r"
  define R where "R = drop ?k r"
  let ?X = "h @ enc f ?u" and ?tmp = "MSG_INFO + length (enc f ?u)" and ?n = "length (enc_param f (c, v))"
  have enc: "enc f ps = enc f ?u @ enc f ?a" using upto_after [of c ps] enc_simps(3) by metis
  have bs: "bs = ?X @ T @ R" by (simp add: B(2) enc T_def R_def)
  have lo: "PARAM_LENGTH_OFFSET f \<le> 2" by (cases f) simp_all
  have T: "length T = length (enc f ?a) + 2" using B(3) lo by (simp add: T_def)
  have tmp: "?tmp = length ?X" using B(1) by (simp add: offset_defs)
  have v: "unat (of_nat (length v) :: u32) = length v" using p in_field_len [of f "length v"] by simp
  have il: "unat (ucast (info_length bs) - of_nat (length (enc f ?u)) :: u32) = length T"
  proof -
    have le: "length (enc f ?u) < 2 ^ 32" using len16 enc by simp
    then have u: "unat (of_nat (length (enc f ?u)) :: u32) = length (enc f ?u)"
      by (intro unat_of_nat_less) simp
    then have "(of_nat (length (enc f ?u)) :: u32) \<le> ucast (info_length bs)"
      using B(5) enc by (simp add: word_le_nat_alt)
    with u B(5) enc T show ?thesis by (simp add: unat_sub)
  qed
  have rest: "mem_range bs ?tmp (ucast (info_length bs) - of_nat (length (enc f ?u))) = Inr T"
    unfolding bs using tmp il by (intro mem_range_at) (simp_all add: bs)
  have R: "length R = ?n + (length R - ?n)" using room T tmp enc by (simp add: bs offset_defs B(1))
  have i: "?tmp + unat (of_nat (length v) :: u32) + PARAM_HEADER_LENGTH f = length ?X + ?n"
    using tmp v by simp
  from open_gap [OF R i, of T] obtain G R' where
    G: "length G = ?n" "length R' = length R - ?n"
      "memmove bs (?tmp + unat (of_nat (length v) :: u32) + PARAM_HEADER_LENGTH f) T =
        Inr (?X @ G @ T @ R')" unfolding bs by blast
  note F = fill_gap [OF G(1) tmp, of "T @ R'"]
  let ?m = "info_length bs + ucast (of_nat (length v) :: u32) + of_nat (PARAM_HEADER_LENGTH f)"
  let ?Y = "enc f ?u @ enc_param f (c, v) @ T @ R'"
  have val: "mem_range v 0 (of_nat (length v)) = Inr v" using v by (simp add: mem_range_def)
  have ilen: "info_length (?X @ enc_param f (c, v) @ T @ R') = info_length bs"
    using info_length_header(2) [OF B(1)] by (simp add: bs)
  have run: "AddParam_at f nd bs c (of_nat (length v)) v =
      Inr (of_nat (length (enc f ?u)), SetUint16 (h @ ?Y) MSG_LENGTH ?m)"
    using place_at [OF ps, of nd c] rest G(3) F val ilen by (simp add: AddParam_at_def)
  have m: "unat ?m = length (enc f (ins_param (c, v) ps)) + 2"
  proof -
    have "take_bit 32 (length v) = length v" using v by (simp only: unsigned_of_nat) simp
    then have 1: "?m = of_nat (unat (info_length bs) + length v + PARAM_HEADER_LENGTH f)"
      by (simp add: unsigned_of_nat)
    have 2: "unat (info_length bs) + length v + PARAM_HEADER_LENGTH f =
        length (enc f (ins_param (c, v) ps)) + 2"
      using B(5) enc by (simp add: ins_param_def)
    have "length (enc f (ins_param (c, v) ps)) + 2 < 2 ^ LENGTH(16)"
      using len16 enc by (simp add: ins_param_def)
    from unat_of_nat_less [OF this] show ?thesis unfolding 1 2 .
  qed
  have ok: "\<forall>q \<in> set (ins_param (c, v) ps). param_ok f q"
    using B(4) p upto_after [of c ps] by (metis (no_types, lifting) Un_iff fst_conv in_set_conv_decomp
        ins_param_def set_ConsD set_append)
  let ?h = "SetUint16 h MSG_LENGTH ?m"
  have out: "SetUint16 (h @ ?Y) MSG_LENGTH ?m =
      ?h @ enc f (ins_param (c, v) ps) @ field_bytes f 0 @ take ?k r @ R'"
    using info_length_header(3) [OF B(1)] by (simp add: ins_param_def T_def)
  have "has_params f (SetUint16 (h @ ?Y) MSG_LENGTH ?m) (ins_param (c, v) ps)"
    unfolding has_params_def
    using ok m B(1,3) lo info_length_header(1) [OF B(1), of ?Y ?m]
    by (intro conjI exI [of _ ?h] exI [of _ "take ?k r @ R'"]) (simp_all add: out)
  moreover have "length (SetUint16 (h @ ?Y) MSG_LENGTH ?m) = length bs"
    using G(2) R by (simp add: bs)
  moreover have "take MSG_LENGTH (SetUint16 (h @ ?Y) MSG_LENGTH ?m) = take MSG_LENGTH bs"
    using B(1) by (simp add: SetUint16_def bs offset_defs)
  ultimately show ?thesis using run by blast
qed

subsection \<open>What is added is found\<close>

lemma FindParam_found:
  assumes "has_params f bs ps" "c \<noteq> 0"
  shows "FindParam_at f nd bs c 0 = Inr (found f c ps MSG_INFO 0)"
proof -
  from assms(1) obtain h r where B: "length h = MSG_HEADER_LENGTH" "bs = h @ enc f ps @ field_bytes f 0 @ r"
    "\<forall>p \<in> set ps. param_ok f p" "unat (info_length bs) = length (enc f ps) + 2" by (rule has_paramsE)
  let ?len = "ucast (info_length bs) + of_nat MSG_HEADER_LENGTH :: u32"
  have len: "unat ?len = length (enc f ps) + 2 + MSG_HEADER_LENGTH"
    using B(4) info_length_bound [OF assms(1)] by (simp add: unat_word_ariths offset_defs)
  then have "?len \<noteq> of_nat MSG_HEADER_LENGTH" by (auto simp: offset_defs)
  moreover have "find_loop f nd bs c ?len MSG_INFO 0 = Inr (if c = 0 then (None, 0) else found f c ps MSG_INFO 0)"
    by (rule find_loop_found [OF B(3,2)]) (use B(1) len in \<open>simp_all add: offset_defs\<close>)
  ultimately show ?thesis using assms(2) by (simp add: FindParam_at_def Let_def)
qed

text \<open>The value of a parameter as \<open>GetParam\<close> with a length gives it to the caller.\<close>

definition param_value :: "codec \<Rightarrow> bool \<Rightarrow> u8 list \<Rightarrow> u32 \<Rightarrow> u8 list option" where
  "param_value f nd bs c = (case FindParam_at f nd bs c 0 of
       Inr (Some i, off) \<Rightarrow>
         Some (take (unat (rd f bs (i + PARAM_LENGTH_OFFSET f))) (drop (i + PARAM_HEADER_LENGTH f) bs))
     | _ \<Rightarrow> None)"

lemma map_of_before:
  "map_of ps c = None \<longleftrightarrow> dropWhile (\<lambda>p. fst p \<noteq> c) ps = []"
  "map_of ps c = Some v \<longleftrightarrow> (\<exists>qs. dropWhile (\<lambda>p. fst p \<noteq> c) ps = (c, v) # qs)"
  by (induction ps) auto

lemma found_value:
  assumes "has_params f bs ps" "map_of ps c = Some v"
  shows "\<exists>i off. found f c ps MSG_INFO 0 = (Some i, off) \<and>
    rd_field f bs (i + PARAM_LENGTH_OFFSET f) = Inr (of_nat (length v)) \<and>
    i + PARAM_HEADER_LENGTH f + length v \<le> length bs \<and>
    take (length v) (drop (i + PARAM_HEADER_LENGTH f) bs) = v \<and> in_field f (length v) \<and> c \<noteq> 0 \<and>
    bs ! (i + PARAM_LENGTH_OFFSET f) = of_nat (length v)"
proof -
  from assms(2) obtain qs where d: "dropWhile (\<lambda>p. fst p \<noteq> c) ps = (c, v) # qs"
    unfolding map_of_before by blast
  from assms(1) obtain h r where B: "length h = MSG_HEADER_LENGTH" "bs = h @ enc f ps @ field_bytes f 0 @ r"
    "\<forall>p \<in> set ps. param_ok f p" by (rule has_paramsE)
  let ?b = "before c ps"
  have ps: "ps = ?b @ (c, v) # qs"
    unfolding before_def using takeWhile_dropWhile_id [of "\<lambda>p. fst p \<noteq> c" ps] d by simp
  then have ok: "param_ok f (c, v)" using B(3) by (metis in_set_conv_decomp)
  let ?i = "MSG_INFO + length (enc f ?b)"
  have bs: "bs = (h @ enc f ?b) @ enc_param f (c, v) @ (enc f qs @ field_bytes f 0 @ r)"
    using B(2) arg_cong [OF ps, of "enc f"] by simp
  have i: "?i = length (h @ enc f ?b)" using B(1) by (simp add: offset_defs)
  have len: "rd_field f bs (?i + PARAM_LENGTH_OFFSET f) = Inr (of_nat (length v))"
    unfolding bs by (rule rd_len [OF ok]) (simp add: i)
  have "drop (?i + PARAM_HEADER_LENGTH f) bs = v @ enc f qs @ field_bytes f 0 @ r"
    unfolding bs i by (simp add: enc_param.simps header_twice)
  moreover have "bs ! (?i + PARAM_LENGTH_OFFSET f) = of_nat (length v)"
  proof -
    have "bs = (h @ enc f ?b @ field_bytes f c) @ field_bytes f (of_nat (length v)) @ v @ enc f qs @ field_bytes f 0 @ r"
      using bs by (simp add: enc_param.simps)
    moreover have "?i + PARAM_LENGTH_OFFSET f = length (h @ enc f ?b @ field_bytes f c)" using i by simp
    ultimately have "bs ! (?i + PARAM_LENGTH_OFFSET f) = hd (field_bytes f (of_nat (length v)))"
      by (cases f) (simp_all add: nth_append le16_def)
    then show ?thesis
      by (cases f) (simp_all add: le16_def unsigned_of_nat word_of_nat_eq_iff take_bit_take_bit)
  qed
  moreover have "found f c ps MSG_INFO 0 = (Some ?i, of_nat (length (enc f (?b @ [(c, v)]))))"
    using d by (simp add: found_def)
  moreover have "?i + PARAM_HEADER_LENGTH f + length v \<le> length bs" unfolding bs i by simp
  ultimately show ?thesis using len ok by simp
qed

lemma param_value_map_of:
  assumes "has_params f bs ps" "c \<noteq> 0"
  shows "param_value f nd bs c = map_of ps c"
proof (cases "map_of ps c")
  case None
  then have "found f c ps MSG_INFO 0 = (None, 0)"
    unfolding map_of_before found_def by (simp del: dropWhile_eq_Nil_conv)
  with FindParam_found [OF assms, of nd] None show ?thesis by (simp add: param_value_def)
next
  case (Some v)
  from found_value [OF assms(1) this] obtain i off where
    i: "found f c ps MSG_INFO 0 = (Some i, off)"
      "rd_field f bs (i + PARAM_LENGTH_OFFSET f) = Inr (of_nat (length v))"
      "take (length v) (drop (i + PARAM_HEADER_LENGTH f) bs) = v" "in_field f (length v)" by blast
  then have "unat (rd f bs (i + PARAM_LENGTH_OFFSET f)) = length v"
    using in_field_len [of f "length v"] by (simp add: rd_field_def split: if_splits)
  with FindParam_found [OF assms, of nd] i Some show ?thesis by (simp add: param_value_def)
qed

subsection \<open>The contract of a message codec\<close>

text \<open>
  What \<open>MessageHandler\<close> and the automata rely on, whatever class codes the message: an added
  parameter is found again, and a message holds any parameters that fit.
\<close>

locale param_message =
  fixes has :: "u8 list \<Rightarrow> param list \<Rightarrow> bool"
    and valid :: "param \<Rightarrow> bool"
    and bytes :: "param \<Rightarrow> nat"
    and capacity :: "u8 list \<Rightarrow> nat"
    and add :: "u8 list \<Rightarrow> param \<Rightarrow> u8 list option"
    and get :: "u8 list \<Rightarrow> u32 \<Rightarrow> u8 list option"
  assumes add: "has bs ps \<Longrightarrow> valid p \<Longrightarrow> sum_list (map bytes ps) + bytes p \<le> capacity bs \<Longrightarrow>
      \<exists>bs'. add bs p = Some bs' \<and> has bs' (ins_param p ps) \<and> capacity bs' = capacity bs"
    and get: "has bs ps \<Longrightarrow> c \<noteq> 0 \<Longrightarrow> get bs c = map_of ps c"
    and code: "valid p \<Longrightarrow> fst p \<noteq> 0"

fun add_all :: "(u8 list \<Rightarrow> param \<Rightarrow> u8 list option) \<Rightarrow> u8 list \<Rightarrow> param list \<Rightarrow> u8 list option" where
  "add_all add bs [] = Some bs"
| "add_all add bs (p # ps) = (case add bs p of None \<Rightarrow> None | Some bs \<Rightarrow> add_all add bs ps)"

lemma mset_ins_param: "mset (ins_param p ps) = add_mset p (mset ps)"
  using arg_cong [OF upto_after [of "fst p" ps], of mset] by (simp add: ins_param_def)

lemma mset_ins_all: "mset (fold ins_param qs ps) = mset ps + mset qs"
  by (induction qs arbitrary: ps) (simp_all add: mset_ins_param)

lemma sorted_ins_param:
  assumes "sorted (map fst ps)"
  shows "sorted (map fst (ins_param p ps))"
proof -
  have "ins_param p ps = takeWhile (\<lambda>q. fst q \<le> fst p) ps @ p # dropWhile (\<lambda>q. fst q \<le> fst p) ps"
    by (simp add: ins_param_def upto_code_def after_code_def)
  moreover have "sorted (map fst (takeWhile (\<lambda>q. fst q \<le> c) ps @ p # dropWhile (\<lambda>q. fst q \<le> c) ps))"
    if "fst p = c" for c
    using assms that
  proof (induction ps)
    case (Cons q ps)
    then show ?case
      by (cases "fst q \<le> c") (auto dest!: set_takeWhileD set_dropWhileD)
  qed simp
  ultimately show ?thesis by simp
qed

context param_message
begin

lemma add_all_has:
  assumes "has bs ps" "\<forall>q \<in> set qs. valid q"
    and "sum_list (map bytes ps) + sum_list (map bytes qs) \<le> capacity bs"
  shows "\<exists>bs'. add_all add bs qs = Some bs' \<and> has bs' (fold ins_param qs ps)"
  using assms
proof (induction qs arbitrary: bs ps)
  case Nil
  then show ?case by simp
next
  case (Cons q qs)
  then obtain bs1 where b: "add bs q = Some bs1" "has bs1 (ins_param q ps)" "capacity bs1 = capacity bs"
    using add [of bs ps q] by auto
  have "sum_list (map bytes (ins_param q ps)) = sum_mset (image_mset bytes (mset (ins_param q ps)))"
    by (metis mset_map sum_mset_sum_list)
  then have "sum_list (map bytes (ins_param q ps)) = bytes q + sum_list (map bytes ps)"
    by (simp add: mset_ins_param) (metis mset_map sum_mset_sum_list)
  with Cons.IH [OF b(2)] Cons.prems b show ?case by simp
qed

lemma added_found:
  assumes "has bs ps" "\<forall>q \<in> set qs. valid q" "distinct (map fst (ps @ qs))"
    and "sum_list (map bytes ps) + sum_list (map bytes qs) \<le> capacity bs" "(c, v) \<in> set (ps @ qs)" "c \<noteq> 0"
  shows "\<exists>bs'. add_all add bs qs = Some bs' \<and> get bs' c = Some v"
proof -
  from add_all_has [OF assms(1,2,4)] obtain bs' where
    b: "add_all add bs qs = Some bs'" "has bs' (fold ins_param qs ps)" by blast
  have m: "mset (fold ins_param qs ps) = mset (ps @ qs)" by (simp add: mset_ins_all)
  then have "mset (map fst (fold ins_param qs ps)) = mset (map fst (ps @ qs))" by (metis mset_map)
  then have "distinct (map fst (fold ins_param qs ps))"
    using assms(3) mset_eq_imp_distinct_iff by blast
  moreover have "(c, v) \<in> set (fold ins_param qs ps)" using assms(5) mset_eq_setD [OF m] by blast
  ultimately have "map_of (fold ins_param qs ps) c = Some v" by (intro map_of_is_SomeI)
  with b get [OF b(2) assms(6)] show ?thesis by simp
qed

end

definition codec_capacity :: "u8 list \<Rightarrow> nat" where
  "codec_capacity bs = min (length bs - (MSG_HEADER_LENGTH + 2)) (2 ^ 16 - 3)"

definition codec_add :: "codec \<Rightarrow> bool \<Rightarrow> u8 list \<Rightarrow> param \<Rightarrow> u8 list option" where
  "codec_add f nd bs p = (case AddParam_at f nd bs (fst p) (of_nat (length (snd p))) (snd p) of
     Inr (off, bs') \<Rightarrow> Some bs' | _ \<Rightarrow> None)"

lemma length_enc: "length (enc f ps) = sum_list (map (length \<circ> enc_param f) ps)"
  by (induction ps) simp_all

lemma codec_laws:
  "param_message (has_params f) (param_ok f) (length \<circ> enc_param f) codec_capacity (codec_add f nd)
     (param_value f nd)"
proof
  fix bs ps p
  assume has: "has_params f bs ps" and ok: "param_ok f p"
    and cap: "sum_list (map (length \<circ> enc_param f) ps) + (length \<circ> enc_param f) p \<le> codec_capacity bs"
  obtain c v where p: "p = (c, v)" by fastforce
  have len: "MSG_HEADER_LENGTH + 2 \<le> length bs"
    using has by (auto simp: has_params_def)
  have c: "length (enc f ps) + length (enc_param f (c, v)) \<le> length bs - (MSG_HEADER_LENGTH + 2)"
    "length (enc f ps) + length (enc_param f (c, v)) \<le> 65533"
    using cap by (simp_all add: codec_capacity_def length_enc p)
  from len c(1) have "MSG_HEADER_LENGTH + length (enc f ps) + 2 + length (enc_param f (c, v)) \<le> length bs"
    by linarith
  moreover from c(2) have "length (enc f ps) + 2 + length (enc_param f (c, v)) < 2 ^ 16" by simp
  ultimately obtain off bs' where
    "AddParam_at f nd bs c (of_nat (length v)) v = Inr (off, bs')"
    "has_params f bs' (ins_param (c, v) ps)" "length bs' = length bs"
    using AddParam_inserts [OF has ok [unfolded p], of nd] by blast
  then show "\<exists>bs'. codec_add f nd bs p = Some bs' \<and> has_params f bs' (ins_param p ps) \<and>
      codec_capacity bs' = codec_capacity bs"
    by (simp add: codec_add_def codec_capacity_def p)
next
  show "has_params f bs ps \<Longrightarrow> c \<noteq> 0 \<Longrightarrow> param_value f nd bs c = map_of ps c" for bs ps c
    by (rule param_value_map_of)
next
  show "param_ok f p \<Longrightarrow> fst p \<noteq> 0" for p by (cases p) simp
qed

interpretation std8: param_message "has_params pc8" "param_ok pc8" "length \<circ> enc_param pc8"
  codec_capacity "codec_add pc8 nd" "param_value pc8 nd" for nd
  by (rule codec_laws)

interpretation std16: param_message "has_params pc16" "param_ok pc16" "length \<circ> enc_param pc16"
  codec_capacity "codec_add pc16 nd" "param_value pc16 nd" for nd
  by (rule codec_laws)

subsection \<open>Properties\<close>

lemma fold_ins_sorted: "sorted (map fst ps) \<Longrightarrow> sorted (map fst (fold ins_param qs ps))"
  by (induction qs arbitrary: ps) (simp_all add: sorted_ins_param)

text \<open>C8: Parameters added to a message are all found again by their codes, in whatever order they
  were added, next to the ones the message had; the codec keeps them in the order of their codes.
  This holds for both classes of codecs, in debug and in release builds, as long as the codes
  differ and the message has room.\<close>

theorem codec_round_trip:
  assumes "has_params f bs ps" "sorted (map fst ps)" "\<forall>q \<in> set qs. param_ok f q"
    and "distinct (map fst (ps @ qs))"
    and "length (enc f ps) + length (enc f qs) \<le> codec_capacity bs"
  shows "\<exists>bs' rs. add_all (codec_add f nd) bs qs = Some bs' \<and> has_params f bs' rs \<and>
    mset rs = mset (ps @ qs) \<and> sorted (map fst rs) \<and>
    (\<forall>(c, v) \<in> set (ps @ qs). param_value f nd bs' c = Some v)"
proof -
  have room: "sum_list (map (length \<circ> enc_param f) ps) + sum_list (map (length \<circ> enc_param f) qs)
      \<le> codec_capacity bs"
    using assms(5) by (simp add: length_enc)
  from param_message.add_all_has [OF codec_laws assms(1,3) room, of nd] obtain bs' where
    b: "add_all (codec_add f nd) bs qs = Some bs'" "has_params f bs' (fold ins_param qs ps)" by blast
  have "param_value f nd bs' c = Some v" if "(c, v) \<in> set (ps @ qs)" for c v
  proof -
    have "c \<noteq> 0" using that assms(1,3) by (auto simp: has_params_def)
    with param_message.added_found [OF codec_laws assms(1,3,4) room that, of nd] b(1) show ?thesis
      by simp
  qed
  with b fold_ins_sorted [OF assms(2), of qs] mset_ins_all [of qs ps] show ?thesis
    by (intro exI [of _ bs'] exI [of _ "fold ins_param qs ps"]) auto
qed

definition sample_msg :: "u8 list" where
  "sample_msg = replicate 19 0 @ [2, 0] @ replicate 20 0"

lemma sample_msg_length: "unat (info_length sample_msg) = 2"
  by code_simp

lemma sample_msg_empty: "has_params pc16 sample_msg []" "has_params pc8 sample_msg []"
proof -
  let ?h = "replicate 19 0 @ [2, 0]"
  have 16: "sample_msg = ?h @ enc pc16 [] @ field_bytes pc16 0 @ replicate 18 0"
    by (simp add: sample_msg_def le16_def numeral_eq_Suc)
  have 8: "sample_msg = ?h @ enc pc8 [] @ field_bytes pc8 0 @ replicate 19 0"
    by (simp add: sample_msg_def numeral_eq_Suc)
  show "has_params pc16 sample_msg []"
    unfolding has_params_def using sample_msg_length 16
    by (intro conjI exI [of _ ?h] exI [of _ "replicate 18 0"]) (simp_all add: offset_defs)
  show "has_params pc8 sample_msg []"
    unfolding has_params_def using sample_msg_length 8
    by (intro conjI exI [of _ ?h] exI [of _ "replicate 19 0"]) (simp_all add: offset_defs)
qed

theorem codec_round_trip_witness:
  "\<exists>bs' rs. add_all (codec_add pc16 True) sample_msg [(3, [7]), (1, [5, 6])] = Some bs' \<and>
    has_params pc16 bs' rs \<and> mset rs = mset ([] @ [(3, [7]), (1, [5, 6])]) \<and>
    sorted (map fst rs) \<and>
    (\<forall>(c, v) \<in> set ([] @ [(3, [7]), (1, [5, 6])]). param_value pc16 True bs' c = Some v)"
  by (rule codec_round_trip [OF sample_msg_empty(1)])
    (simp_all add: in_field_def enc_param.simps codec_capacity_def sample_msg_def offset_defs)

text \<open>\<open>RemoveParam\<close> never removes anything: on every well-formed message, also one that holds the
  parameter, it returns false and leaves the message as it was.  It searches with
  \<open>FindParamPlace\<close>, which stops behind the parameters of the given code.\<close>

theorem RemoveParam_removes_nothing:
  assumes "has_params f bs ps" "c \<noteq> 0"
  shows "\<exists>off. RemoveParam_at f nd bs c = Inr (False, off, bs)"
  by (rule RemoveParam_never [OF assms])

definition sample_with :: "u8 list" where
  "sample_with = (replicate 19 0 @ [7, 0]) @ enc pc16 [(3, [9])] @ field_bytes pc16 0 @ replicate 9 0"

lemma sample_with_has: "has_params pc16 sample_with [(3, [9])]"
proof -
  have "unat (info_length sample_with) = 7" by code_simp
  then show ?thesis
    unfolding has_params_def
    by (intro conjI exI [of _ "replicate 19 0 @ [7, 0]"] exI [of _ "replicate 9 0"])
      (simp_all add: offset_defs in_field_def sample_with_def)
qed

theorem RemoveParam_removes_nothing_witness:
  "has_params pc16 sample_with [(3, [9])] \<and>
   (\<exists>off. RemoveParam_at pc16 False sample_with 3 = Inr (False, off, sample_with))"
  using sample_with_has RemoveParam_removes_nothing [OF sample_with_has, of 3 False] by simp

text \<open>\<open>GetNextParam\<close> with a length finds the same parameter as \<open>GetParam\<close> when the search starts
  at the front, but reports the length modulo 256: the 16-bit codec reads one byte of it.\<close>

theorem GetNextParam_length_truncated:
  assumes "CurrentMessage I = Some a" "has_params f (m_data m a) ps" "map_of ps c = Some v"
    and "CurrentOffset I = 0"
  shows "\<exists>i s. GetParam_len f nd c (m, I) = Inr (Some (a, i), of_nat (length v), s) \<and>
    GetNextParam_len f nd c (m, I) = Inr (Some (a, i), of_nat (length v mod 256), s)"
proof -
  from found_value [OF assms(2,3)] obtain i off where
    i: "found f c ps MSG_INFO 0 = (Some i, off)"
      "rd_field f (m_data m a) (i + PARAM_LENGTH_OFFSET f) = Inr (of_nat (length v))"
      "i + PARAM_HEADER_LENGTH f + length v \<le> length (m_data m a)" "c \<noteq> 0"
      "m_data m a ! (i + PARAM_LENGTH_OFFSET f) = of_nat (length v)" by blast
  have "MSG_HEADER_LENGTH \<le> length (m_data m a)" using assms(2) by (auto simp: has_params_def)
  with FindParam_found [OF assms(2) i(4), of nd] i(1) assms(1,4)
  have find: "FindParam f nd c 0 (m, I) = Inr (Some (a, i), m, I\<lparr>CurrentOffset := off\<rparr>)"
    by (simp add: FindParam_def)
  have "i + PARAM_LENGTH_OFFSET f + 1 \<le> length (m_data m a)"
    using i(3) by (cases f) simp_all
  moreover have "(ucast (of_nat (length v) :: u8) :: u32) = of_nat (length v mod 256)"
    by (simp add: unsigned_of_nat take_bit_eq_mod)
  ultimately have "GetNextParam_len f nd c (m, I) =
      Inr (Some (a, i + PARAM_HEADER_LENGTH f), of_nat (length v mod 256), m, I\<lparr>CurrentOffset := off\<rparr>)"
    using find i(5) assms(4) by (simp add: GetNextParam_len_def GetNextParam_def)
  moreover have "GetParam_len f nd c (m, I) =
      Inr (Some (a, i + PARAM_HEADER_LENGTH f), of_nat (length v), m, I\<lparr>CurrentOffset := off\<rparr>)"
    using find i(2) by (simp add: GetParam_len_def)
  ultimately show ?thesis by blast
qed

definition sample_long :: "u8 list" where
  "sample_long = (replicate 19 0 @ [0x32, 1]) @ enc pc16 [(3, replicate 300 1)] @ field_bytes pc16 0"

lemma sample_long_has: "has_params pc16 sample_long [(3, replicate 300 1)]"
proof -
  have "info_length sample_long = info_length (replicate 19 0 @ [0x32, 1])"
    unfolding sample_long_def by (rule info_length_header(2)) (simp add: offset_defs)
  moreover have "unat (info_length (replicate 19 0 @ [0x32, 1])) = 306" by code_simp
  ultimately have "unat (info_length sample_long) = 306" by simp
  then show ?thesis
    unfolding has_params_def
    by (intro conjI exI [of _ "replicate 19 0 @ [0x32, 1]"] exI [of _ "[]"])
      (simp_all add: offset_defs in_field_def sample_long_def)
qed

theorem GetNextParam_length_truncated_witness:
  "\<exists>i s. GetParam_len pc16 True 3
        (\<lparr>m_next = \<lambda>_. None, m_prev = \<lambda>_. None, m_code = \<lambda>_. 0, m_data = \<lambda>_. sample_long, m_top = 1\<rparr>,
         \<lparr>CurrentMessage = Some 0, NewMessage = None, CurrentOffset = 0\<rparr>) = Inr (Some (0, i), of_nat (length (replicate 300 (1 :: u8))), s) \<and>
    GetNextParam_len pc16 True 3
        (\<lparr>m_next = \<lambda>_. None, m_prev = \<lambda>_. None, m_code = \<lambda>_. 0, m_data = \<lambda>_. sample_long, m_top = 1\<rparr>,
         \<lparr>CurrentMessage = Some 0, NewMessage = None, CurrentOffset = 0\<rparr>) = Inr (Some (0, i), of_nat (length (replicate 300 (1 :: u8)) mod 256), s)"
  by (rule GetNextParam_length_truncated [where ps = "[(3, replicate 300 1)]"])
    (simp_all add: sample_long_has)

end
