(* ===== verification/StandardMsg.thy ===== *)
theory StandardMsg
  imports StdMsg
begin

text \<open>
  \<open>stdMsg_pc8_pl8\<close> (\<open>src/Kernel/standardMsg.cpp\<close>): the class is \<open>stdMsg_pc16_pl16\<close> statement for
  statement, with codes and lengths of one byte in place of two.  \<open>StdMsg\<close> models both by the
  parameter \<open>codec\<close>; the member functions of the 8-bit class are its instances at \<open>pc8\<close>.
\<close>

definition pc8_FindParam :: "bool \<Rightarrow> u32 \<Rightarrow> u32 \<Rightarrow> msg_state \<Rightarrow> ((addr \<times> nat) option \<times> msg_state) result" where
  "pc8_FindParam = FindParam pc8"

definition pc8_FindParamPlace_at :: "bool \<Rightarrow> u8 list \<Rightarrow> u32 \<Rightarrow> u32 \<Rightarrow> (nat \<times> u32 \<times> u8 list) result" where
  "pc8_FindParamPlace_at = FindParamPlace_at pc8"

definition pc8_GetParam :: "bool \<Rightarrow> u32 \<Rightarrow> msg_state \<Rightarrow> ((addr \<times> nat) option \<times> msg_state) result" where
  "pc8_GetParam = GetParam pc8"

definition pc8_GetParam_len :: "bool \<Rightarrow> u32 \<Rightarrow> msg_state \<Rightarrow> ((addr \<times> nat) option \<times> u32 \<times> msg_state) result" where
  "pc8_GetParam_len = GetParam_len pc8"

definition pc8_GetParamByte :: "bool \<Rightarrow> u32 \<Rightarrow> msg_state \<Rightarrow> (u8 option \<times> msg_state) result" where
  "pc8_GetParamByte = GetParamByte pc8"

definition pc8_GetParamWord :: "bool \<Rightarrow> u32 \<Rightarrow> msg_state \<Rightarrow> (u16 option \<times> msg_state) result" where
  "pc8_GetParamWord = GetParamWord pc8"

definition pc8_GetParamDWord :: "bool \<Rightarrow> u32 \<Rightarrow> msg_state \<Rightarrow> (u32 option \<times> msg_state) result" where
  "pc8_GetParamDWord = GetParamDWord pc8"

definition pc8_GetNextParam :: "bool \<Rightarrow> u32 \<Rightarrow> msg_state \<Rightarrow> ((addr \<times> nat) option \<times> msg_state) result" where
  "pc8_GetNextParam = GetNextParam pc8"

definition pc8_GetNextParam_len :: "bool \<Rightarrow> u32 \<Rightarrow> msg_state \<Rightarrow> ((addr \<times> nat) option \<times> u32 \<times> msg_state) result" where
  "pc8_GetNextParam_len = GetNextParam_len pc8"

definition pc8_GetNextParamByte :: "bool \<Rightarrow> u32 \<Rightarrow> msg_state \<Rightarrow> (u8 option \<times> msg_state) result" where
  "pc8_GetNextParamByte = GetNextParamByte pc8"

definition pc8_GetNextParamWord :: "bool \<Rightarrow> u32 \<Rightarrow> msg_state \<Rightarrow> (u16 option \<times> msg_state) result" where
  "pc8_GetNextParamWord = GetNextParamWord pc8"

definition pc8_GetNextParamDWord :: "bool \<Rightarrow> u32 \<Rightarrow> msg_state \<Rightarrow> (u32 option \<times> msg_state) result" where
  "pc8_GetNextParamDWord = GetNextParamDWord pc8"

definition pc8_AddParam_coded :: "bool \<Rightarrow> u8 list \<Rightarrow> msg_state \<Rightarrow> (ptr \<times> msg_state) result" where
  "pc8_AddParam_coded = AddParam_coded pc8"

definition pc8_AddParam :: "bool \<Rightarrow> u32 \<Rightarrow> u32 \<Rightarrow> u8 list \<Rightarrow> msg_state \<Rightarrow> (ptr \<times> msg_state) result" where
  "pc8_AddParam = AddParam pc8"

definition pc8_AddParamByte :: "bool \<Rightarrow> u32 \<Rightarrow> u8 \<Rightarrow> msg_state \<Rightarrow> (ptr \<times> msg_state) result" where
  "pc8_AddParamByte = AddParamByte pc8"

definition pc8_AddParamWord :: "bool \<Rightarrow> u32 \<Rightarrow> u16 \<Rightarrow> msg_state \<Rightarrow> (ptr \<times> msg_state) result" where
  "pc8_AddParamWord = AddParamWord pc8"

definition pc8_AddParamDWord :: "bool \<Rightarrow> u32 \<Rightarrow> u32 \<Rightarrow> msg_state \<Rightarrow> (ptr \<times> msg_state) result" where
  "pc8_AddParamDWord = AddParamDWord pc8"

definition pc8_RemoveParam :: "bool \<Rightarrow> u32 \<Rightarrow> msg_state \<Rightarrow> (bool \<times> msg_state) result" where
  "pc8_RemoveParam = RemoveParam pc8"

definition pc8_SetENDOfParams :: "msg_state \<Rightarrow> msg_state result" where
  "pc8_SetENDOfParams = SetENDOfParams pc8"

lemmas pc8_defs = pc8_FindParam_def pc8_FindParamPlace_at_def pc8_GetParam_def
  pc8_GetParam_len_def pc8_GetParamByte_def pc8_GetParamWord_def pc8_GetParamDWord_def
  pc8_GetNextParam_def pc8_GetNextParam_len_def pc8_GetNextParamByte_def
  pc8_GetNextParamWord_def pc8_GetNextParamDWord_def pc8_AddParam_coded_def
  pc8_AddParam_def pc8_AddParamByte_def pc8_AddParamWord_def pc8_AddParamDWord_def
  pc8_RemoveParam_def pc8_SetENDOfParams_def

end
