(* ===== verification/Log.thy ===== *)
theory Log
  imports KHeap
begin

text \<open>
  \<open>LogInterface\<close> (\<open>src/Kernel/logAutomate.h\<close>, \<open>logAutomate.cpp\<close>): the buffer in which a record of
  the log is built.  \<open>Write\<close> of the interface and of \<open>LogFile\<close> (which returns at once) send
  nothing, so that a record is only ever built.
\<close>

record log_if =
  ComputerId :: u8
  LogBuffer :: "u8 list"
  ParamOffset :: u16

definition LOG_BUFFER_SIZE :: nat where "LOG_BUFFER_SIZE = 8192"

definition LOG_START :: u16 where "LOG_START = 0x01"
definition LOG_END :: u16 where "LOG_END = 0x02"
definition LOG_EVENT_START :: u16 where "LOG_EVENT_START = 0x03"
definition LOG_EVENT_END :: u16 where "LOG_EVENT_END = 0x04"
definition LOG_EVENT_MESSAGE :: u16 where "LOG_EVENT_MESSAGE = 0x05"
definition LOG_MESSAGE_SENT :: u16 where "LOG_MESSAGE_SENT = 0x06"
definition LOG_MESSAGE_RECV :: u16 where "LOG_MESSAGE_RECV = 0x07"
definition LOG_START_TIMER :: u16 where "LOG_START_TIMER = 0x08"
definition LOG_STOP_TIMER :: u16 where "LOG_STOP_TIMER = 0x09"
definition LOG_USER_DATA :: u16 where "LOG_USER_DATA = 0x0a"
definition LOG_STRING :: u16 where "LOG_STRING = 0x0b"
definition LOG_BUFFER :: u16 where "LOG_BUFFER = 0x0c"

definition LOG_PARAM_STATE :: u8 where "LOG_PARAM_STATE = 0x01"
definition LOG_PARAM_CALL_ID :: u8 where "LOG_PARAM_CALL_ID = 0x02"
definition LOG_PARAM_MESSAGE :: u8 where "LOG_PARAM_MESSAGE = 0x04"
definition LOG_PARAM_TIMER_ID :: u8 where "LOG_PARAM_TIMER_ID = 0x05"
definition LOG_PARAM_STRING :: u8 where "LOG_PARAM_STRING = 0x06"
definition LOG_PARAM_USER_DATA :: u8 where "LOG_PARAM_USER_DATA = 0x07"
definition LOG_PARAM_TIME :: u8 where "LOG_PARAM_TIME = 0x08"
definition LOG_PARAM_COMPUTER_ID :: u8 where "LOG_PARAM_COMPUTER_ID = 0x09"
definition LOG_PARAM_AUTOMATE :: u8 where "LOG_PARAM_AUTOMATE = 0x0a"
definition LOG_PARAM_OBJECT_ID :: u8 where "LOG_PARAM_OBJECT_ID = 0x0b"

definition LogInterface :: "u8 list \<Rightarrow> log_if" where
  "LogInterface junk = \<lparr>ComputerId = INVALID_08,
     LogBuffer = take LOG_BUFFER_SIZE (junk @ replicate LOG_BUFFER_SIZE 0), ParamOffset = 0\<rparr>"

definition li_Write :: "(log_if, unit) op" where
  "li_Write L = Inr ((), L)"

text \<open>\<open>LogBuffer[ParamOffset++] = b\<close> for every byte \<open>b\<close>.\<close>

fun put_bytes :: "u8 list \<Rightarrow> (log_if, unit) op" where
  "put_bytes [] L = Inr ((), L)"
| "put_bytes (b # bs) L =
     (if unat (ParamOffset L) < length (LogBuffer L)
      then put_bytes bs (L\<lparr>LogBuffer := (LogBuffer L)[unat (ParamOffset L) := b],
                           ParamOffset := ParamOffset L + 1\<rparr>)
      else Inl OutOfBounds)"

definition li_GetNewMsgInfoLength :: "log_if \<Rightarrow> u16" where
  "li_GetNewMsgInfoLength L = GetUint16 (LogBuffer L) 2"

definition li_SetMsgInfoLength :: "u16 \<Rightarrow> (log_if, unit) op" where
  "li_SetMsgInfoLength len L = Inr ((), L\<lparr>LogBuffer := SetUint16 (LogBuffer L) 2 len\<rparr>)"

definition li_SetMsgLogCode :: "u16 \<Rightarrow> (log_if, unit) op" where
  "li_SetMsgLogCode code L = Inr ((), L\<lparr>LogBuffer := SetUint16 (LogBuffer L) 0 code\<rparr>)"

definition add_length :: "u16 \<Rightarrow> (log_if, unit) op" where
  "add_length n L = li_SetMsgInfoLength (li_GetNewMsgInfoLength L + n) L"

text \<open>\<open>data\<close> is the memory behind the pointer; reading more of it than there is is out of bounds.\<close>

definition src_bytes :: "nat \<Rightarrow> u8 list \<Rightarrow> (u8 list \<Rightarrow> ('s, 'a) op) \<Rightarrow> ('s, 'a) op" where
  "src_bytes n data f s = (if n \<le> length data then f (take n data) s else Inl OutOfBounds)"

definition li_AddParam :: "bool \<Rightarrow> u8 \<Rightarrow> u8 \<Rightarrow> u8 list \<Rightarrow> (log_if, unit) op" where
  "li_AddParam nd code len data =
     run [asserts nd (\<lambda>_. len \<noteq> 0),
          put_bytes [code, len],
          src_bytes (unat len) data put_bytes,
          add_length (ucast len + 2)]"

definition li_AddParam_raw :: "bool \<Rightarrow> u16 \<Rightarrow> u8 list \<Rightarrow> (log_if, unit) op" where
  "li_AddParam_raw nd len data =
     run [asserts nd (\<lambda>_. len > 3),
          src_bytes (unat len) data put_bytes,
          add_length (len + 2)]"

definition li_AddParamByte :: "u8 \<Rightarrow> u8 \<Rightarrow> (log_if, unit) op" where
  "li_AddParamByte code param = run [put_bytes [code, 1, param], add_length 3]"

definition li_AddParamWord :: "u8 \<Rightarrow> u16 \<Rightarrow> (log_if, unit) op" where
  "li_AddParamWord code param =
     run [put_bytes [code, 2], put_bytes (SetUint16 [0, 0] 0 param), add_length 4]"

definition li_AddParamDWord :: "u8 \<Rightarrow> u32 \<Rightarrow> (log_if, unit) op" where
  "li_AddParamDWord code param =
     run [put_bytes [code, 4], put_bytes (SetUint32 [0, 0, 0, 0] 0 param), add_length 6]"

text \<open>\<open>ltime\<close> is what \<open>time\<close> returns.\<close>

definition li_PrepareNewRecord :: "u32 \<Rightarrow> u16 \<Rightarrow> u8 \<Rightarrow> u32 \<Rightarrow> (log_if, unit) op" where
  "li_PrepareNewRecord ltime code automate objectId =
     run [li_SetMsgLogCode code,
          (\<lambda>L. Inr ((), L\<lparr>ParamOffset := 4\<rparr>)),
          li_SetMsgInfoLength 4,
          li_AddParamDWord LOG_PARAM_TIME ltime,
          (\<lambda>L. li_AddParamByte LOG_PARAM_COMPUTER_ID (ComputerId L) L),
          li_AddParamByte LOG_PARAM_AUTOMATE automate,
          li_AddParamDWord LOG_PARAM_OBJECT_ID objectId]"

subsection \<open>A record fits the buffer\<close>

text \<open>\<open>log_ok n L\<close>: \<open>n\<close> bytes of the record have been written.\<close>

definition log_ok :: "nat \<Rightarrow> log_if \<Rightarrow> bool" where
  "log_ok n L \<longleftrightarrow> length (LogBuffer L) = LOG_BUFFER_SIZE \<and> unat (ParamOffset L) = n"

lemma put_bytes_ok:
  "log_ok n L \<Longrightarrow> n + length bs \<le> LOG_BUFFER_SIZE \<Longrightarrow>
   \<exists>L'. put_bytes bs L = Inr ((), L') \<and> log_ok (n + length bs) L'"
proof (induction bs arbitrary: n L)
  case Nil
  then show ?case by simp
next
  case (Cons b bs)
  let ?L = "L\<lparr>LogBuffer := (LogBuffer L)[unat (ParamOffset L) := b], ParamOffset := ParamOffset L + 1\<rparr>"
  have "n + 1 < 65536" using Cons.prems by (simp add: LOG_BUFFER_SIZE_def)
  then have "unat (ParamOffset L + 1) = n + 1"
    using Cons.prems(1) by (simp add: log_ok_def unat_word_ariths)
  then have "log_ok (n + 1) ?L" using Cons.prems(1) by (simp add: log_ok_def)
  from Cons.IH [OF this] Cons.prems show ?case by (simp add: log_ok_def)
qed

text \<open>\<open>writes f n k\<close>: \<open>f\<close> succeeds on a record of \<open>n\<close> bytes and leaves one of \<open>k\<close> bytes.\<close>

definition writes :: "(log_if, unit) op \<Rightarrow> nat \<Rightarrow> nat \<Rightarrow> bool" where
  "writes f n k \<longleftrightarrow> (\<forall>L. log_ok n L \<longrightarrow> (\<exists>L'. f L = Inr ((), L') \<and> log_ok k L'))"

lemma writesD: "writes f n k \<Longrightarrow> log_ok n L \<Longrightarrow> \<exists>L'. f L = Inr ((), L') \<and> log_ok k L'"
  by (simp add: writes_def)

lemma writes_run:
  "writes (run []) n n"
  "writes f n k \<Longrightarrow> writes (run fs) k j \<Longrightarrow> writes (run (f # fs)) n j"
  by (auto simp: writes_def)

lemmas writes_seq = writes_run(2)

lemma writes_put: "n + length bs \<le> LOG_BUFFER_SIZE \<Longrightarrow> writes (put_bytes bs) n (n + length bs)"
  using put_bytes_ok by (simp add: writes_def)

lemma writes_src:
  "n + k \<le> LOG_BUFFER_SIZE \<Longrightarrow> k \<le> length data \<Longrightarrow> writes (src_bytes k data put_bytes) n (n + k)"
  using writes_put [of n "take k data"] by (simp add: writes_def src_bytes_def)

lemma writes_length: "writes (add_length j) n n" "writes (li_SetMsgInfoLength j) n n" "writes (li_SetMsgLogCode j) n n"
  by (simp_all add: writes_def add_length_def li_SetMsgInfoLength_def li_SetMsgLogCode_def log_ok_def)

lemma writes_assert: "nd \<or> (\<forall>s. b s) \<Longrightarrow> writes (asserts nd b) n n"
  by (auto simp: writes_def asserts_def assertC_def)

lemma writes_params:
  assumes "n + 6 \<le> LOG_BUFFER_SIZE"
  shows "writes (li_AddParamByte code b) n (n + 3)"
    and "writes (li_AddParamWord code w) n (n + 4)"
    and "writes (li_AddParamDWord code d) n (n + 6)"
proof -
  have 3: "writes (put_bytes [code, x, b]) n (n + 3)" "writes (put_bytes [code, x]) n (n + 2)" for x
    using writes_put [of n "[code, x, b]"] writes_put [of n "[code, x]"] assms
    by (simp_all add: eval_nat_numeral)
  have 2: "writes (put_bytes (SetUint16 [0, 0] 0 w)) (n + 2) (n + 4)"
    "writes (put_bytes (SetUint32 [0, 0, 0, 0] 0 d)) (n + 2) (n + 6)"
    using writes_put [of "n + 2" "SetUint16 [0, 0] 0 w"]
      writes_put [of "n + 2" "SetUint32 [0, 0, 0, 0] 0 d"] assms by (simp_all add: eval_nat_numeral)
  show "writes (li_AddParamByte code b) n (n + 3)"
    unfolding li_AddParamByte_def
    by (rule writes_seq [OF 3(1) writes_seq [OF writes_length(1) writes_run(1)]])
  show "writes (li_AddParamWord code w) n (n + 4)"
    unfolding li_AddParamWord_def
    by (rule writes_seq [OF 3(2) writes_seq [OF 2(1) writes_seq [OF writes_length(1) writes_run(1)]]])
  show "writes (li_AddParamDWord code d) n (n + 6)"
    unfolding li_AddParamDWord_def
    by (rule writes_seq [OF 3(2) writes_seq [OF 2(2) writes_seq [OF writes_length(1) writes_run(1)]]])
qed

lemma writes_AddParam:
  assumes "nd \<or> len \<noteq> 0" "unat len \<le> length data" "n + 2 + unat len \<le> LOG_BUFFER_SIZE"
  shows "writes (li_AddParam nd code len data) n (n + 2 + unat len)"
proof -
  have 2: "writes (put_bytes [code, len]) n (n + 2)"
    using writes_put [of n "[code, len]"] assms(3) by simp
  have 3: "writes (src_bytes (unat len) data put_bytes) (n + 2) (n + 2 + unat len)"
    using assms(2,3) by (intro writes_src)
  have 1: "writes (asserts nd (\<lambda>_. len \<noteq> 0)) n n" using assms(1) by (intro writes_assert) auto
  show ?thesis
    unfolding li_AddParam_def
    by (rule writes_seq [OF 1 writes_seq [OF 2 writes_seq [OF 3 writes_seq [OF writes_length(1) writes_run(1)]]]])
qed

text \<open>A new record can be prepared whatever the buffer held, and takes 22 bytes.\<close>

lemma PrepareNewRecord_ok:
  assumes "length (LogBuffer L) = LOG_BUFFER_SIZE"
  shows "\<exists>L'. li_PrepareNewRecord ltime code automate objectId L = Inr ((), L') \<and> log_ok 22 L'"
proof -
  let ?n = "unat (ParamOffset L)"
  have start: "writes (\<lambda>L. Inr ((), L\<lparr>ParamOffset := 4\<rparr>)) ?n 4" by (simp add: writes_def log_ok_def)
  have cid: "writes (\<lambda>L. li_AddParamByte LOG_PARAM_COMPUTER_ID (ComputerId L) L) 10 13"
    using writes_params(1) [of 10] by (simp add: writes_def LOG_BUFFER_SIZE_def)
  have d: "writes (li_AddParamDWord LOG_PARAM_TIME ltime) 4 10"
    "writes (li_AddParamDWord LOG_PARAM_OBJECT_ID objectId) 16 22"
    "writes (li_AddParamByte LOG_PARAM_AUTOMATE automate) 13 16"
    using writes_params(3) [of 4] writes_params(3) [of 16] writes_params(1) [of 13]
    by (simp_all add: LOG_BUFFER_SIZE_def)
  have "writes (li_PrepareNewRecord ltime code automate objectId) ?n 22"
    unfolding li_PrepareNewRecord_def
    by (rule writes_seq [OF writes_length(3) writes_seq [OF start writes_seq [OF writes_length(2)
          writes_seq [OF d(1) writes_seq [OF cid writes_seq [OF d(3) writes_seq [OF d(2) writes_run(1)]]]]]]])
  then show ?thesis using assms by (simp add: writes_def log_ok_def)
qed

end
