(* ===== verification/Messages.thy ===== *)
theory Messages
  imports Timer StdMsg Log
begin

text \<open>
  \<open>MessageHandler\<close> (\<open>src/Kernel/messages.h\<close>, \<open>messages.cpp\<close>): the received and the new message of an
  automaton and the access to their headers and parameters.  Its virtual functions for buffers
  are those of \<open>KernelAPI\<close>, the only class that has any; \<open>GetMessageInterface\<close> gives one object for
  every coding, as in all automata of the program: the class of that object is \<open>H_codec\<close> and its
  state \<open>H_If\<close>.  The record \<open>kernel\<close> holds the kernel objects and the static members of the
  classes; \<open>K_Api\<close> tells whether the three static pointers of \<open>KernelAPI\<close> are set.
\<close>

record kernel =
  K_mem :: mem
  K_Buffers :: tbuffers
  K_PostOffice :: post_office
  K_Timer :: timers
  K_Api :: bool
  K_LogingObject :: "log_if option"
  K_SysLogFlag :: u16
  K_Time :: u32
  K_CallCounter :: u32

record handler =
  H_CurrentMessage :: ptr
  H_NewMessage :: ptr
  H_codec :: codec
  H_If :: msg_if

type_synonym ('z, 'a) hop = "(kernel \<times> 'z handler_scheme, 'a) op"

definition MessageHandler :: "codec \<Rightarrow> handler" where
  "MessageHandler f = \<lparr>H_CurrentMessage = None, H_NewMessage = None, H_codec = f,
     H_If = MessageInterface\<rparr>"

subsection \<open>Buffers\<close>

definition GetBuffer_op :: "bool \<Rightarrow> u32 \<Rightarrow> (kernel \<times> 'z, addr) op" where
  "GetBuffer_op nd len = (\<lambda>(K, A). if \<not> K_Api K then Inl NullDeref
     else bindR (GetBuffer nd len (K_mem K, K_Buffers K)) (\<lambda>(a, m, B).
       Inr (a, K\<lparr>K_mem := m, K_Buffers := B\<rparr>, A)))"

definition RetBuffer_op :: "bool \<Rightarrow> ptr \<Rightarrow> (kernel \<times> 'z, unit) op" where
  "RetBuffer_op nd buff = (\<lambda>(K, A). if \<not> K_Api K then Inl NullDeref
     else bindR (RetBuffer nd buff (K_mem K, K_Buffers K)) (\<lambda>(m, B).
       Inr ((), K\<lparr>K_mem := m, K_Buffers := B\<rparr>, A)))"

definition GetBufferLength :: "ptr \<Rightarrow> (kernel \<times> 'z, u32) op" where
  "GetBufferLength buff = (\<lambda>(K, A). if \<not> K_Api K then Inl NullDeref
     else bindR (GetLength_buff buff (K_mem K, K_Buffers K)) (\<lambda>n. Inr (n, K, A)))"

definition IsBufferSmall :: "ptr \<Rightarrow> u32 \<Rightarrow> (kernel \<times> 'z, bool) op" where
  "IsBufferSmall buff len = bnd (GetBufferLength buff) (\<lambda>n. ret (n \<le> len))"

subsection \<open>Headers\<close>

definition SetNew :: "ptr \<Rightarrow> ('z, unit) hop" where
  "SetNew msg = (\<lambda>(K, A). Inr ((), K, A\<lparr>H_NewMessage := msg\<rparr>))"

definition get_current :: "(u8 list \<Rightarrow> 'a) \<Rightarrow> ('z, 'a) hop" where
  "get_current f = (\<lambda>(K, A). deref (H_CurrentMessage A) (\<lambda>a.
     in_buff (K_mem K) a MSG_HEADER_LENGTH (Inr (f (m_data (K_mem K) a), K, A))))"

definition get_new :: "(u8 list \<Rightarrow> 'a) \<Rightarrow> ('z, 'a) hop" where
  "get_new f = (\<lambda>(K, A). deref (H_NewMessage A) (\<lambda>a.
     in_buff (K_mem K) a MSG_HEADER_LENGTH (Inr (f (m_data (K_mem K) a), K, A))))"

definition set_msg :: "ptr \<Rightarrow> (u8 list \<Rightarrow> u8 list) \<Rightarrow> (kernel \<times> 'z, unit) op" where
  "set_msg msg f = (\<lambda>(K, A). deref msg (\<lambda>a. in_buff (K_mem K) a MSG_HEADER_LENGTH
     (Inr ((), K\<lparr>K_mem := SetData a (f (m_data (K_mem K) a)) (K_mem K)\<rparr>, A))))"

definition set_new :: "(u8 list \<Rightarrow> u8 list) \<Rightarrow> ('z, unit) hop" where
  "set_new f = (\<lambda>(K, A). set_msg (H_NewMessage A) f (K, A))"

definition GetMsgFromAutomate :: "('z, u8) hop" where
  "GetMsgFromAutomate = get_current (\<lambda>bs. bs ! MSG_FROM_AUTOMATE)"

definition GetMsgFromGroup :: "('z, u8) hop" where
  "GetMsgFromGroup = get_current (\<lambda>bs. bs ! MSG_FROM_GROUP)"

definition GetMsgToAutomate :: "('z, u8) hop" where
  "GetMsgToAutomate = get_current (\<lambda>bs. bs ! MSG_TO_AUTOMATE)"

definition GetMsgToGroup :: "('z, u8) hop" where
  "GetMsgToGroup = get_current (\<lambda>bs. bs ! MSG_TO_GROUP)"

definition GetMsgCode :: "('z, u16) hop" where
  "GetMsgCode = get_current (\<lambda>bs. GetUint16 bs MSG_CODE)"

definition GetMsgObjectNumberFrom :: "('z, u32) hop" where
  "GetMsgObjectNumberFrom = get_current (\<lambda>bs. GetUint32 bs MSG_OBJECT_ID_FROM)"

definition GetMsgObjectNumberTo :: "('z, u32) hop" where
  "GetMsgObjectNumberTo = get_current (\<lambda>bs. GetUint32 bs MSG_OBJECT_ID_TO)"

definition GetMsgCallId :: "('z, u32) hop" where
  "GetMsgCallId = get_current (\<lambda>bs. GetUint32 bs CALL_ID)"

definition GetMsgInfoCoding :: "('z, u8) hop" where
  "GetMsgInfoCoding = get_current (\<lambda>bs. bs ! MSG_INFO_CODING)"

definition mh_GetMsgInfoLength :: "('z, u16) hop" where
  "mh_GetMsgInfoLength = get_current (\<lambda>bs. GetUint16 bs MSG_LENGTH)"

definition mh_GetNewMsgInfoLength :: "('z, u16) hop" where
  "mh_GetNewMsgInfoLength = get_new (\<lambda>bs. GetUint16 bs MSG_LENGTH)"

definition GetNewMsgInfoCoding :: "('z, u8) hop" where
  "GetNewMsgInfoCoding = get_new (\<lambda>bs. bs ! MSG_INFO_CODING)"

definition SetMsgFromAutomate :: "u8 \<Rightarrow> ('z, unit) hop" where
  "SetMsgFromAutomate from = set_new (\<lambda>bs. SetByte bs MSG_FROM_AUTOMATE from)"

definition SetMsgFromGroup :: "u8 \<Rightarrow> ('z, unit) hop" where
  "SetMsgFromGroup from = set_new (\<lambda>bs. SetByte bs MSG_FROM_GROUP from)"

definition SetMsgToAutomate :: "u8 \<Rightarrow> ('z, unit) hop" where
  "SetMsgToAutomate to = set_new (\<lambda>bs. SetByte bs MSG_TO_AUTOMATE to)"

definition SetMsgToGroup :: "u8 \<Rightarrow> ('z, unit) hop" where
  "SetMsgToGroup to = set_new (\<lambda>bs. SetByte bs MSG_TO_GROUP to)"

definition SetMsgCode :: "u16 \<Rightarrow> ('z, unit) hop" where
  "SetMsgCode code = set_new (\<lambda>bs. SetUint16 bs MSG_CODE code)"

definition SetMsgObjectNumberFrom :: "u32 \<Rightarrow> ('z, unit) hop" where
  "SetMsgObjectNumberFrom from = set_new (\<lambda>bs. SetUint32 bs MSG_OBJECT_ID_FROM from)"

definition SetMsgObjectNumberTo :: "u32 \<Rightarrow> ('z, unit) hop" where
  "SetMsgObjectNumberTo to = set_new (\<lambda>bs. SetUint32 bs MSG_OBJECT_ID_TO to)"

definition SetMsgCallId :: "u32 \<Rightarrow> ('z, unit) hop" where
  "SetMsgCallId callId = set_new (\<lambda>bs. SetUint32 bs CALL_ID callId)"

definition SetMsgInfoCoding :: "u8 \<Rightarrow> ('z, unit) hop" where
  "SetMsgInfoCoding codingType = set_new (\<lambda>bs. SetByte bs MSG_INFO_CODING codingType)"

definition mh_SetMsgInfoLength :: "u16 \<Rightarrow> ('z, unit) hop" where
  "mh_SetMsgInfoLength len = set_new (\<lambda>bs. SetUint16 bs MSG_LENGTH len)"

subsection \<open>The two messages\<close>

text \<open>An operation of the codec object on the memory.\<close>

definition msg_op :: "(msg_state \<Rightarrow> ('a \<times> msg_state) result) \<Rightarrow> ('z, 'a) hop" where
  "msg_op f = (\<lambda>(K, A). bindR (f (K_mem K, H_If A)) (\<lambda>(x, m, I).
     Inr (x, K\<lparr>K_mem := m\<rparr>, A\<lparr>H_If := I\<rparr>)))"

definition msg_op_u :: "(msg_state \<Rightarrow> msg_state result) \<Rightarrow> ('z, unit) hop" where
  "msg_op_u f = msg_op (\<lambda>s. bindR (f s) (\<lambda>s. Inr ((), s)))"

definition ParseMessage :: "bool \<Rightarrow> ptr \<Rightarrow> ('z, bool) hop" where
  "ParseMessage nd msg =
     bnd (asserts nd (\<lambda>_. msg \<noteq> None)) (\<lambda>_.
     bnd (\<lambda>(K, A). Inr ((), K, A\<lparr>H_CurrentMessage := msg\<rparr>)) (\<lambda>_.
     bnd GetMsgInfoCoding (\<lambda>_.
     bnd (msg_op (\<lambda>(m, I). Inr (fst (if_ParseMessage msg I), m, snd (if_ParseMessage msg I)))) (\<lambda>_.
     ret True))))"

definition PrepareNewMessage_buf :: "bool \<Rightarrow> ptr \<Rightarrow> ('z, unit) hop" where
  "PrepareNewMessage_buf nd msg =
     run [asserts nd (\<lambda>(K, A). H_NewMessage A = None),
          SetNew msg,
          bnd GetNewMsgInfoCoding (\<lambda>_. msg_op_u (\<lambda>(m, I). Inr (m, if_PrepareNewMessage msg I)))]"

definition PrepareNewMessage :: "bool \<Rightarrow> u32 \<Rightarrow> u16 \<Rightarrow> u8 \<Rightarrow> ('z, unit) hop" where
  "PrepareNewMessage nd len code infoCoding =
     run [asserts nd (\<lambda>(K, A). H_NewMessage A = None),
          bnd (GetBuffer_op nd (len + of_nat MSG_HEADER_LENGTH)) (\<lambda>a. SetNew (Some a)),
          SetMsgInfoCoding infoCoding,
          SetMsgCode code,
          mh_SetMsgInfoLength 0,
          bnd GetNewMsgInfoCoding (\<lambda>_.
            \<lambda>(K, A). msg_op_u (\<lambda>(m, I). Inr (m, if_PrepareNewMessage (H_NewMessage A) I)) (K, A))]"

definition ret_new :: "bool \<Rightarrow> ('z, unit) hop" where
  "ret_new nd = (\<lambda>(K, A). if H_NewMessage A \<noteq> None
     then RetBuffer_op nd (H_NewMessage A) (K, A) else Inr ((), K, A))"

definition mh_CopyMessage :: "bool \<Rightarrow> ('z, unit) hop" where
  "mh_CopyMessage nd =
     run [asserts nd (\<lambda>(K, A). H_CurrentMessage A \<noteq> None),
          ret_new nd,
          bnd mh_GetMsgInfoLength (\<lambda>len.
          bnd (GetBuffer_op nd (ucast len + of_nat MSG_HEADER_LENGTH)) (\<lambda>a. SetNew (Some a))),
          bnd GetMsgInfoCoding (\<lambda>_. \<lambda>(K, A). msg_op_u (if_CopyMessage nd (H_NewMessage A)) (K, A))]"

definition mh_CopyMessage_from :: "bool \<Rightarrow> ptr \<Rightarrow> ('z, unit) hop" where
  "mh_CopyMessage_from nd msg =
     run [asserts nd (\<lambda>_. msg \<noteq> None),
          ret_new nd,
          (\<lambda>(K, A). deref msg (\<lambda>src. in_buff (K_mem K) src MSG_HEADER_LENGTH
             (bnd (GetBuffer_op nd (ucast (GetUint16 (m_data (K_mem K) src) MSG_LENGTH) + of_nat MSG_HEADER_LENGTH))
                (\<lambda>a. SetNew (Some a)) (K, A)))),
          bnd GetMsgInfoCoding (\<lambda>_. \<lambda>(K, A). msg_op_u (if_CopyMessage_from nd (H_NewMessage A) msg) (K, A))]"

definition mh_CopyMessageInfo :: "bool \<Rightarrow> u8 \<Rightarrow> u16 \<Rightarrow> ('z, unit) hop" where
  "mh_CopyMessageInfo nd infoCoding lengthCorrection =
     run [asserts nd (\<lambda>(K, A). H_CurrentMessage A \<noteq> None),
          (\<lambda>(K, A). if H_NewMessage A = None
             then bnd mh_GetMsgInfoLength (\<lambda>len.
                  bnd (GetBuffer_op nd (ucast len + of_nat MSG_HEADER_LENGTH + ucast lengthCorrection))
                    (\<lambda>a. SetNew (Some a))) (K, A)
             else Inr ((), K, A)),
          bnd GetMsgInfoCoding (\<lambda>_. \<lambda>(K, A).
            msg_op_u (if_CopyMessageInfo nd infoCoding (H_NewMessage A)) (K, A)),
          SetMsgInfoCoding infoCoding]"

definition ClearMessage :: "bool \<Rightarrow> ('z, unit) hop" where
  "ClearMessage nd =
     run [(\<lambda>(K, A). RetBuffer_op nd (H_CurrentMessage A) (K, A)),
          (\<lambda>(K, A). Inr ((), K, A\<lparr>H_CurrentMessage := None\<rparr>))]"

subsection \<open>Parameters\<close>

text \<open>
  \<open>CheckBufferSize\<close>: before a parameter is added, the new message is moved to a longer buffer when
  its own would be too short.
\<close>

definition grow :: "bool \<Rightarrow> u32 \<Rightarrow> ('z, unit) hop" where
  "grow nd paramLength =
     bnd mh_GetNewMsgInfoLength (\<lambda>len.
     bnd (GetBuffer_op nd (ucast len + of_nat MSG_HEADER_LENGTH + paramLength + 10)) (\<lambda>tmp1.
     \<lambda>(K, A). deref (H_NewMessage A) (\<lambda>old.
       bindR (copy_msg 0 (unat len + MSG_HEADER_LENGTH) old tmp1 (K_mem K)) (\<lambda>m.
       run [RetBuffer_op nd (H_NewMessage A),
            SetNew (Some tmp1),
            bnd GetNewMsgInfoCoding (\<lambda>_. msg_op_u (\<lambda>(m, I). Inr (m, SetNewMessage (Some tmp1) I)))]
         (K\<lparr>K_mem := m\<rparr>, A)))))"

definition CheckBufferSize :: "bool \<Rightarrow> u32 \<Rightarrow> ('z, unit) hop" where
  "CheckBufferSize nd paramLength =
     bnd mh_GetNewMsgInfoLength (\<lambda>len. \<lambda>(K, A).
     bnd (IsBufferSmall (H_NewMessage A) (ucast len + of_nat MSG_HEADER_LENGTH + paramLength + 8))
       (\<lambda>small. if small then grow nd paramLength else ret ()) (K, A))"

definition codec_op :: "(codec \<Rightarrow> msg_state \<Rightarrow> ('a \<times> msg_state) result) \<Rightarrow> ('z, 'a) hop" where
  "codec_op f = (\<lambda>(K, A). msg_op (f (H_codec A)) (K, A))"

definition mh_AddParam :: "bool \<Rightarrow> u32 \<Rightarrow> u32 \<Rightarrow> u8 list \<Rightarrow> ('z, ptr) hop" where
  "mh_AddParam nd paramCode paramLength param =
     bnd (CheckBufferSize nd paramLength) (\<lambda>_.
     bnd GetNewMsgInfoCoding (\<lambda>_. codec_op (\<lambda>f. AddParam f nd paramCode paramLength param)))"

definition mh_AddParamByte :: "bool \<Rightarrow> u32 \<Rightarrow> u8 \<Rightarrow> ('z, ptr) hop" where
  "mh_AddParamByte nd paramCode param =
     bnd (CheckBufferSize nd 1) (\<lambda>_.
     bnd GetNewMsgInfoCoding (\<lambda>_. codec_op (\<lambda>f. AddParamByte f nd paramCode param)))"

definition mh_AddParamWord :: "bool \<Rightarrow> u32 \<Rightarrow> u16 \<Rightarrow> ('z, ptr) hop" where
  "mh_AddParamWord nd paramCode param =
     bnd (CheckBufferSize nd 2) (\<lambda>_.
     bnd GetNewMsgInfoCoding (\<lambda>_. codec_op (\<lambda>f. AddParamWord f nd paramCode param)))"

definition mh_AddParamDWord :: "bool \<Rightarrow> u32 \<Rightarrow> u32 \<Rightarrow> ('z, ptr) hop" where
  "mh_AddParamDWord nd paramCode param =
     bnd (CheckBufferSize nd 4) (\<lambda>_.
     bnd GetNewMsgInfoCoding (\<lambda>_. codec_op (\<lambda>f. AddParamDWord f nd paramCode param)))"

definition mh_RemoveParam :: "bool \<Rightarrow> u32 \<Rightarrow> ('z, bool) hop" where
  "mh_RemoveParam nd paramCode =
     bnd GetNewMsgInfoCoding (\<lambda>_. codec_op (\<lambda>f. RemoveParam f nd paramCode))"

definition mh_GetParam :: "bool \<Rightarrow> u32 \<Rightarrow> ('z, (addr \<times> nat) option) hop" where
  "mh_GetParam nd paramCode =
     bnd GetMsgInfoCoding (\<lambda>_. codec_op (\<lambda>f. GetParam f nd paramCode))"

definition mh_GetParam_len :: "bool \<Rightarrow> u32 \<Rightarrow> ('z, (addr \<times> nat) option \<times> u32) hop" where
  "mh_GetParam_len nd paramCode =
     bnd GetMsgInfoCoding (\<lambda>_. codec_op (\<lambda>f s.
       bindR (GetParam_len f nd paramCode s) (\<lambda>(p, n, s). Inr ((p, n), s))))"

definition mh_GetParamByte :: "bool \<Rightarrow> u32 \<Rightarrow> ('z, u8 option) hop" where
  "mh_GetParamByte nd paramCode =
     bnd GetMsgInfoCoding (\<lambda>_. codec_op (\<lambda>f. GetParamByte f nd paramCode))"

definition mh_GetParamWord :: "bool \<Rightarrow> u32 \<Rightarrow> ('z, u16 option) hop" where
  "mh_GetParamWord nd paramCode =
     bnd GetMsgInfoCoding (\<lambda>_. codec_op (\<lambda>f. GetParamWord f nd paramCode))"

definition mh_GetParamDWord :: "bool \<Rightarrow> u32 \<Rightarrow> ('z, u32 option) hop" where
  "mh_GetParamDWord nd paramCode =
     bnd GetMsgInfoCoding (\<lambda>_. codec_op (\<lambda>f. GetParamDWord f nd paramCode))"

text \<open>In the destructor of the base class \<open>RetBuffer\<close> is the function of \<open>MessageHandler\<close> itself, which throws.\<close>

definition mh_destructor :: "bool \<Rightarrow> ('z, unit) hop" where
  "mh_destructor nd =
     run [asserts nd (\<lambda>(K, A). H_CurrentMessage A = None),
          asserts nd (\<lambda>(K, A). H_NewMessage A = None),
          (\<lambda>(K, A). if H_NewMessage A \<noteq> None then Inl (Throw 0x01010500) else Inr ((), K, A))]"

end
