(* ===== verification/KernelApi.thy ===== *)
theory KernelApi
  imports Messages
begin

text \<open>
  \<open>KernelAPI\<close> (\<open>src/Kernel/kernelAPI.h\<close>, \<open>kernelAPI.cpp\<close>) and \<open>LogAutomateNew\<close> (\<open>logAutomate.h\<close>,
  \<open>logAutomate.cpp\<close>): what an automaton uses of the kernel.  The record \<open>api\<close> has the members of
  the two classes and those of \<open>FiniteStateMachine\<close> that they read through abstract functions
  (\<open>GetCallId\<close>, \<open>GetGroup\<close>, \<open>GetObjectId\<close>, \<open>GetState\<close>, the left and the right partner).  A call
  through one of the three static pointers while they are null is a \<open>NullDeref\<close>.
\<close>

record api = handler +
  A_mbxId :: u8
  A_automateId :: u8
  A_TimerResolution :: TimerResolutionEnum
  A_LogFlag :: u16
  A_ConnectionId :: u32
  A_GroupId :: u8
  A_CallId :: u32
  A_LeftMbx :: u8
  A_LeftAutomate :: u8
  A_LeftGroup :: u8
  A_LeftObjectId :: u32
  A_RightMbx :: u8
  A_RightAutomate :: u8
  A_RightGroup :: u8
  A_RightObjectId :: u32
  A_State :: u8

type_synonym ('z, 'a) aop = "(kernel \<times> 'z api_scheme, 'a) op"

definition LOCAL_PARAM_CODING :: u8 where "LOCAL_PARAM_CODING = 0"

subsection \<open>Construction\<close>

text \<open>The constructors run on the raw memory of the object.\<close>

definition MessageHandler_ctor :: "('z, unit) hop" where
  "MessageHandler_ctor = (\<lambda>(K, A). Inr ((), K, A\<lparr>H_CurrentMessage := None, H_NewMessage := None\<rparr>))"

definition KernelAPI :: "u8 \<Rightarrow> u8 \<Rightarrow> ('z, unit) aop" where
  "KernelAPI automateId1 mbxId1 =
     run [MessageHandler_ctor,
          (\<lambda>(K, A). Inr ((), K\<lparr>K_Api := False\<rparr>,
             A\<lparr>A_automateId := automateId1, A_mbxId := mbxId1, A_TimerResolution := Timer1s\<rparr>))]"

definition SetKernelObjects ::
  "post_office option \<Rightarrow> tbuffers option \<Rightarrow> timers option \<Rightarrow> kernel \<Rightarrow> kernel result" where
  "SetKernelObjects postOffice buffers timer K =
     checkC (postOffice = None \<or> buffers = None \<or> timer = None) 0x01010200
     (Inr (K\<lparr>K_PostOffice := the postOffice, K_Buffers := the buffers, K_Timer := the timer,
             K_Api := True\<rparr>))"

subsection \<open>Messages\<close>

definition post_op :: "(po_state \<Rightarrow> ('a \<times> po_state) result) \<Rightarrow> (kernel \<times> 'z, 'a) op" where
  "post_op f = (\<lambda>(K, A). if \<not> K_Api K then Inl NullDeref
     else bindR (f (K_mem K, K_Buffers K, K_PostOffice K)) (\<lambda>(x, m, B, P).
       Inr (x, K\<lparr>K_mem := m, K_Buffers := B, K_PostOffice := P\<rparr>, A)))"

definition SendMessage_msg :: "u8 \<Rightarrow> ptr \<Rightarrow> (kernel \<times> 'z, unit) op" where
  "SendMessage_msg mbx msg = post_op (\<lambda>s. bindR (po_Add mbx msg s) (\<lambda>s. Inr ((), s)))"

definition SetMessageFromData :: "('z, unit) aop" where
  "SetMessageFromData = (\<lambda>(K, A). run [SetMsgFromAutomate (A_automateId A),
     SetMsgFromGroup (A_GroupId A), SetMsgObjectNumberFrom (A_ConnectionId A)] (K, A))"

text \<open>\<open>PostOffice->Add(mbx, GetNewMessage()); SetNewMessage(NULL);\<close>\<close>

definition post_new :: "u8 \<Rightarrow> ('z, unit) aop" where
  "post_new mbx = (\<lambda>(K, A). run [SendMessage_msg mbx (H_NewMessage A), SetNew None] (K, A))"

definition SendMessage :: "u8 \<Rightarrow> ('z, unit) aop" where
  "SendMessage mbx = run [SetMessageFromData, post_new mbx]"

definition SendMessageLeft :: "('z, unit) aop" where
  "SendMessageLeft = (\<lambda>(K, A). run [SetMessageFromData, SetMsgToAutomate (A_LeftAutomate A),
     SetMsgToGroup (A_LeftGroup A), SetMsgObjectNumberTo (A_LeftObjectId A),
     SetMsgCallId (A_CallId A), post_new (A_LeftMbx A)] (K, A))"

definition SendMessageRight :: "('z, unit) aop" where
  "SendMessageRight = (\<lambda>(K, A). run [SetMessageFromData, SetMsgToAutomate (A_RightAutomate A),
     SetMsgToGroup (A_RightGroup A), SetMsgObjectNumberTo (A_RightObjectId A),
     SetMsgCallId (A_CallId A), post_new (A_RightMbx A)] (K, A))"

definition ReturnMsg :: "u8 \<Rightarrow> ('z, unit) aop" where
  "ReturnMsg mbx = run [SetMessageFromData,
     bnd GetMsgFromAutomate SetMsgToAutomate, bnd GetMsgFromGroup SetMsgToGroup,
     bnd GetMsgObjectNumberFrom SetMsgObjectNumberTo, bnd GetMsgCallId SetMsgCallId,
     post_new mbx]"

definition api_GetCount :: "u8 \<Rightarrow> (kernel \<times> 'z, u32) op" where
  "api_GetCount mbx = post_op (\<lambda>(m, B, P). bindR (po_GetCount mbx P) (\<lambda>(n, P). Inr (n, m, B, P)))"

definition api_GetMsg_from :: "bool \<Rightarrow> u8 \<Rightarrow> (kernel \<times> 'z, ptr) op" where
  "api_GetMsg_from nd mbx = post_op (po_Get nd mbx)"

definition api_GetMsg :: "bool \<Rightarrow> ('z, ptr) aop" where
  "api_GetMsg nd = (\<lambda>(K, A). api_GetMsg_from nd (A_mbxId A) (K, A))"

definition api_PurgeMailBox :: "bool \<Rightarrow> ('z, unit) aop" where
  "api_PurgeMailBox nd = (\<lambda>(K, A).
     post_op (\<lambda>s. bindR (PurgeMailBox nd (A_mbxId A) s) (\<lambda>s. Inr ((), s))) (K, A))"

definition Discard :: "bool \<Rightarrow> ptr \<Rightarrow> (kernel \<times> 'z, unit) op" where
  "Discard nd buff = RetBuffer_op nd buff"

subsection \<open>Timers\<close>

definition timer_start :: "ptr \<Rightarrow> u32 \<Rightarrow> ('z, unit) aop" where
  "timer_start timer cnt = (\<lambda>(K, A). if \<not> K_Api K then Inl NullDeref
     else bindR (kt_StartTimer timer (A_mbxId A) cnt (A_TimerResolution A) (K_mem K, K_Timer K)) (\<lambda>(m, T).
       Inr ((), K\<lparr>K_mem := m, K_Timer := T\<rparr>, A)))"

text \<open>The header of a timer message, written field by field.\<close>

definition timer_header :: "u16 \<Rightarrow> 'z api_scheme \<Rightarrow> u16 \<Rightarrow> u8 list \<Rightarrow> u8 list" where
  "timer_header code A len bs =
     (let bs = SetByte bs MSG_TO_AUTOMATE (A_automateId A);
          bs = SetByte bs MSG_TO_GROUP (A_GroupId A);
          bs = SetUint16 bs MSG_CODE code;
          bs = SetUint32 bs CALL_ID (A_CallId A);
          bs = SetUint32 bs MSG_OBJECT_ID_TO (A_ConnectionId A);
          bs = SetByte bs MSG_INFO_CODING LOCAL_PARAM_CODING
      in SetUint16 bs MSG_LENGTH len)"

definition api_StartTimer :: "bool \<Rightarrow> u16 \<Rightarrow> u32 \<Rightarrow> ('z, ptr) aop" where
  "api_StartTimer nd code cnt = (\<lambda>(K, A).
     let bufferLength = (of_nat MSG_HEADER_LENGTH :: u16) in
     bnd (GetBuffer_op nd (ucast bufferLength)) (\<lambda>timer.
     bnd (set_msg (Some timer) (timer_header code A (bufferLength - of_nat MSG_HEADER_LENGTH))) (\<lambda>_.
     bnd (timer_start (Some timer) cnt) (\<lambda>_.
     ret (Some timer)))) (K, A))"

definition api_StopTimer :: "ptr \<Rightarrow> (kernel \<times> 'z, unit) op" where
  "api_StopTimer timer = (\<lambda>(K, A). if \<not> K_Api K then Inl NullDeref
     else bindR (kt_StopTimer timer (K_mem K)) (\<lambda>m. Inr ((), K\<lparr>K_mem := m\<rparr>, A)))"

definition api_IsTimerRunning :: "ptr \<Rightarrow> (kernel \<times> 'z, bool) op" where
  "api_IsTimerRunning timer = (\<lambda>(K, A). if \<not> K_Api K then Inl NullDeref
     else bindR (TimerRunning timer (K_mem K)) (\<lambda>b. Inr (b, K, A)))"

definition SetTimerResolution :: "TimerResolutionEnum \<Rightarrow> ('z, unit) aop" where
  "SetTimerResolution timerRes = (\<lambda>(K, A). Inr ((), K, A\<lparr>A_TimerResolution := timerRes\<rparr>))"

end
