(* ===== verification/HandlerApi.thy ===== *)
theory HandlerApi
  imports KernelApi
begin

text \<open>
  The rest of \<open>MessageHandler\<close> and \<open>KernelAPI\<close> (\<open>src/Kernel/messages.h\<close>, \<open>kernelAPI.h\<close>,
  \<open>kernelAPI.cpp\<close>) that no automaton of the program calls: the search for further parameters with
  the same code, the bit fields of parameters, the headers of a message that is neither the current
  nor the new one, and the two other constructors of \<open>KernelAPI\<close>.  The lemmas are the laws of the
  header: a field that is written is read back and the others keep their values.
\<close>

subsection \<open>Further parameters\<close>

definition GetNewMessage :: "('z, ptr) hop" where
  "GetNewMessage = (\<lambda>(K, A). Inr (H_NewMessage A, K, A))"

definition GetCurrentMessage :: "('z, ptr) hop" where
  "GetCurrentMessage = (\<lambda>(K, A). Inr (H_CurrentMessage A, K, A))"

definition mh_GetNextParam :: "bool \<Rightarrow> u32 \<Rightarrow> ('z, (addr \<times> nat) option) hop" where
  "mh_GetNextParam nd paramCode =
     bnd GetMsgInfoCoding (\<lambda>_. codec_op (\<lambda>f. GetNextParam f nd paramCode))"

definition mh_GetNextParam_len :: "bool \<Rightarrow> u32 \<Rightarrow> ('z, (addr \<times> nat) option \<times> u32) hop" where
  "mh_GetNextParam_len nd paramCode =
     bnd GetMsgInfoCoding (\<lambda>_. codec_op (\<lambda>f s.
       bindR (GetNextParam_len f nd paramCode s) (\<lambda>(p, n, s). Inr ((p, n), s))))"

definition mh_GetNextParamByte :: "bool \<Rightarrow> u32 \<Rightarrow> ('z, u8 option) hop" where
  "mh_GetNextParamByte nd paramCode =
     bnd GetMsgInfoCoding (\<lambda>_. codec_op (\<lambda>f. GetNextParamByte f nd paramCode))"

definition mh_GetNextParamWord :: "bool \<Rightarrow> u32 \<Rightarrow> ('z, u16 option) hop" where
  "mh_GetNextParamWord nd paramCode =
     bnd GetMsgInfoCoding (\<lambda>_. codec_op (\<lambda>f. GetNextParamWord f nd paramCode))"

definition mh_GetNextParamDWord :: "bool \<Rightarrow> u32 \<Rightarrow> ('z, u32 option) hop" where
  "mh_GetNextParamDWord nd paramCode =
     bnd GetMsgInfoCoding (\<lambda>_. codec_op (\<lambda>f. GetNextParamDWord f nd paramCode))"

subsection \<open>Bit fields\<close>

text \<open>
  Neither codec overrides the bit functions of \<open>MessageInterface\<close>, which do nothing: a read
  returns false and does not touch the variable it is to fill, a write returns a null pointer.
\<close>

definition if_GetBitParam :: "u32 \<Rightarrow> 'a \<Rightarrow> u32 \<Rightarrow> u8 \<Rightarrow> msg_state \<Rightarrow> ((bool \<times> 'a) \<times> msg_state) result" where
  "if_GetBitParam paramCode param msk shiftBits s = Inr ((False, param), s)"

definition if_SetBitParam :: "u32 \<Rightarrow> 'a \<Rightarrow> u32 \<Rightarrow> u8 \<Rightarrow> msg_state \<Rightarrow> (ptr \<times> msg_state) result" where
  "if_SetBitParam paramCode param msk shiftBits s = Inr (None, s)"

definition mh_GetBitParamByte :: "u32 \<Rightarrow> u8 \<Rightarrow> u32 \<Rightarrow> u8 \<Rightarrow> ('z, bool \<times> u8) hop" where
  "mh_GetBitParamByte paramCode param msk shiftBits =
     bnd GetMsgInfoCoding (\<lambda>_. msg_op (if_GetBitParam paramCode param msk shiftBits))"

definition mh_GetBitParamWord :: "u32 \<Rightarrow> u16 \<Rightarrow> u32 \<Rightarrow> u8 \<Rightarrow> ('z, bool \<times> u16) hop" where
  "mh_GetBitParamWord paramCode param msk shiftBits =
     bnd GetMsgInfoCoding (\<lambda>_. msg_op (if_GetBitParam paramCode param msk shiftBits))"

definition mh_GetBitParamDWord :: "u32 \<Rightarrow> u32 \<Rightarrow> u32 \<Rightarrow> u8 \<Rightarrow> ('z, bool \<times> u32) hop" where
  "mh_GetBitParamDWord paramCode param msk shiftBits =
     bnd GetMsgInfoCoding (\<lambda>_. msg_op (if_GetBitParam paramCode param msk shiftBits))"

definition mh_SetBitParamByte :: "u32 \<Rightarrow> u8 \<Rightarrow> u32 \<Rightarrow> u8 \<Rightarrow> ('z, ptr) hop" where
  "mh_SetBitParamByte paramCode param msk shiftBits =
     bnd GetMsgInfoCoding (\<lambda>_. msg_op (if_SetBitParam paramCode param msk shiftBits))"

definition mh_SetBitParamWord :: "u32 \<Rightarrow> u16 \<Rightarrow> u32 \<Rightarrow> u8 \<Rightarrow> ('z, ptr) hop" where
  "mh_SetBitParamWord paramCode param msk shiftBits =
     bnd GetMsgInfoCoding (\<lambda>_. msg_op (if_SetBitParam paramCode param msk shiftBits))"

definition mh_SetBitParamDWord :: "u32 \<Rightarrow> u32 \<Rightarrow> u32 \<Rightarrow> u8 \<Rightarrow> ('z, ptr) hop" where
  "mh_SetBitParamDWord paramCode param msk shiftBits =
     bnd GetMsgInfoCoding (\<lambda>_. msg_op (if_SetBitParam paramCode param msk shiftBits))"

subsection \<open>Headers of a given buffer\<close>

definition GetMsgInfoLength_of :: "ptr \<Rightarrow> (kernel \<times> 'z, u16) op" where
  "GetMsgInfoLength_of msg = (\<lambda>(K, A). deref msg (\<lambda>a. in_buff (K_mem K) a MSG_HEADER_LENGTH
     (Inr (GetUint16 (m_data (K_mem K) a) MSG_LENGTH, K, A))))"

definition SetMsgFromAutomate_of :: "u8 \<Rightarrow> ptr \<Rightarrow> (kernel \<times> 'z, unit) op" where
  "SetMsgFromAutomate_of from msg = set_msg msg (\<lambda>bs. SetByte bs MSG_FROM_AUTOMATE from)"

definition SetMsgFromGroup_of :: "u8 \<Rightarrow> ptr \<Rightarrow> (kernel \<times> 'z, unit) op" where
  "SetMsgFromGroup_of from msg = set_msg msg (\<lambda>bs. SetByte bs MSG_FROM_GROUP from)"

definition SetMsgToAutomate_of :: "u8 \<Rightarrow> ptr \<Rightarrow> (kernel \<times> 'z, unit) op" where
  "SetMsgToAutomate_of to msg = set_msg msg (\<lambda>bs. SetByte bs MSG_TO_AUTOMATE to)"

definition SetMsgToGroup_of :: "u8 \<Rightarrow> ptr \<Rightarrow> (kernel \<times> 'z, unit) op" where
  "SetMsgToGroup_of to msg = set_msg msg (\<lambda>bs. SetByte bs MSG_TO_GROUP to)"

definition SetMsgCode_of :: "u16 \<Rightarrow> ptr \<Rightarrow> (kernel \<times> 'z, unit) op" where
  "SetMsgCode_of code msg = set_msg msg (\<lambda>bs. SetUint16 bs MSG_CODE code)"

definition SetMsgObjectNumberFrom_of :: "u32 \<Rightarrow> ptr \<Rightarrow> (kernel \<times> 'z, unit) op" where
  "SetMsgObjectNumberFrom_of from msg = set_msg msg (\<lambda>bs. SetUint32 bs MSG_OBJECT_ID_FROM from)"

definition SetMsgObjectNumberTo_of :: "u32 \<Rightarrow> ptr \<Rightarrow> (kernel \<times> 'z, unit) op" where
  "SetMsgObjectNumberTo_of to msg = set_msg msg (\<lambda>bs. SetUint32 bs MSG_OBJECT_ID_TO to)"

definition SetMsgCallId_of :: "u32 \<Rightarrow> ptr \<Rightarrow> (kernel \<times> 'z, unit) op" where
  "SetMsgCallId_of callId msg = set_msg msg (\<lambda>bs. SetUint32 bs CALL_ID callId)"

definition SetMsgInfoCoding_of :: "u8 \<Rightarrow> ptr \<Rightarrow> (kernel \<times> 'z, unit) op" where
  "SetMsgInfoCoding_of codingType msg = set_msg msg (\<lambda>bs. SetByte bs MSG_INFO_CODING codingType)"

definition SetMsgInfoLength_of :: "u16 \<Rightarrow> ptr \<Rightarrow> (kernel \<times> 'z, unit) op" where
  "SetMsgInfoLength_of len msg = set_msg msg (\<lambda>bs. SetUint16 bs MSG_LENGTH len)"

subsection \<open>KernelAPI\<close>

definition KernelAPI_file :: "('z, unit) aop" where
  "KernelAPI_file = run [MessageHandler_ctor,
     (\<lambda>(K, A). Inr ((), K, A\<lparr>A_TimerResolution := Timer1s\<rparr>))]"

definition KernelAPI_objects :: "post_office option \<Rightarrow> tbuffers option \<Rightarrow> timers option \<Rightarrow> ('z, unit) aop" where
  "KernelAPI_objects postOffice buffers timer = run [MessageHandler_ctor,
     (\<lambda>(K, A). checkC (postOffice = None \<or> buffers = None \<or> timer = None) 0x01010200
       (Inr ((), K\<lparr>K_PostOffice := the postOffice, K_Buffers := the buffers, K_Timer := the timer,
               K_Api := True\<rparr>, A\<lparr>A_TimerResolution := Timer1s\<rparr>)))]"

definition GetTimerResolution :: "('z, TimerResolutionEnum) aop" where
  "GetTimerResolution = (\<lambda>(K, A). Inr (A_TimerResolution A, K, A))"

subsection \<open>The fields of a header\<close>

record header =
  h_FromAutomate :: u8
  h_FromGroup :: u8
  h_ToAutomate :: u8
  h_ToGroup :: u8
  h_Code :: u16
  h_ObjectFrom :: u32
  h_ObjectTo :: u32
  h_CallId :: u32
  h_Coding :: u8
  h_Length :: u16

text \<open>What the ten functions that read the header of the current message find in it.\<close>

definition header_of :: "u8 list \<Rightarrow> header" where
  "header_of bs = \<lparr>h_FromAutomate = bs ! MSG_FROM_AUTOMATE, h_FromGroup = bs ! MSG_FROM_GROUP,
     h_ToAutomate = bs ! MSG_TO_AUTOMATE, h_ToGroup = bs ! MSG_TO_GROUP, h_Code = GetUint16 bs MSG_CODE,
     h_ObjectFrom = GetUint32 bs MSG_OBJECT_ID_FROM, h_ObjectTo = GetUint32 bs MSG_OBJECT_ID_TO,
     h_CallId = GetUint32 bs CALL_ID, h_Coding = bs ! MSG_INFO_CODING, h_Length = GetUint16 bs MSG_LENGTH\<rparr>"

datatype hfield = FromAutomate | FromGroup | ToAutomate | ToGroup | Code | ObjectFrom | ObjectTo
  | CallId | Coding | InfoLength

fun set_field_of :: "header \<Rightarrow> ptr \<Rightarrow> hfield \<Rightarrow> (kernel \<times> 'z, unit) op" where
  "set_field_of h msg FromAutomate = SetMsgFromAutomate_of (h_FromAutomate h) msg"
| "set_field_of h msg FromGroup = SetMsgFromGroup_of (h_FromGroup h) msg"
| "set_field_of h msg ToAutomate = SetMsgToAutomate_of (h_ToAutomate h) msg"
| "set_field_of h msg ToGroup = SetMsgToGroup_of (h_ToGroup h) msg"
| "set_field_of h msg Code = SetMsgCode_of (h_Code h) msg"
| "set_field_of h msg ObjectFrom = SetMsgObjectNumberFrom_of (h_ObjectFrom h) msg"
| "set_field_of h msg ObjectTo = SetMsgObjectNumberTo_of (h_ObjectTo h) msg"
| "set_field_of h msg CallId = SetMsgCallId_of (h_CallId h) msg"
| "set_field_of h msg Coding = SetMsgInfoCoding_of (h_Coding h) msg"
| "set_field_of h msg InfoLength = SetMsgInfoLength_of (h_Length h) msg"

text \<open>A field of a header agrees with the same field of another one.\<close>

fun agree_on :: "hfield \<Rightarrow> header \<Rightarrow> header \<Rightarrow> bool" where
  "agree_on FromAutomate g h = (h_FromAutomate g = h_FromAutomate h)"
| "agree_on FromGroup g h = (h_FromGroup g = h_FromGroup h)"
| "agree_on ToAutomate g h = (h_ToAutomate g = h_ToAutomate h)"
| "agree_on ToGroup g h = (h_ToGroup g = h_ToGroup h)"
| "agree_on Code g h = (h_Code g = h_Code h)"
| "agree_on ObjectFrom g h = (h_ObjectFrom g = h_ObjectFrom h)"
| "agree_on ObjectTo g h = (h_ObjectTo g = h_ObjectTo h)"
| "agree_on CallId g h = (h_CallId g = h_CallId h)"
| "agree_on Coding g h = (h_Coding g = h_Coding h)"
| "agree_on InfoLength g h = (h_Length g = h_Length h)"

lemma agree_all: "(\<forall>x. agree_on x g h) \<longleftrightarrow> g = (h :: header)"
proof
  assume a: "\<forall>x. agree_on x g h"
  have "agree_on FromAutomate g h" "agree_on FromGroup g h" "agree_on ToAutomate g h" "agree_on ToGroup g h"
    "agree_on Code g h" "agree_on ObjectFrom g h" "agree_on ObjectTo g h" "agree_on CallId g h"
    "agree_on Coding g h" "agree_on InfoLength g h" using a by blast+
  then show "g = h" by (intro header.equality) simp_all
next
  show "\<forall>x. agree_on x g h" if "g = h" using that by (auto intro: agree_on.elims(3))
qed

lemmas setter_defs = SetMsgFromAutomate_of_def SetMsgFromGroup_of_def SetMsgToAutomate_of_def
  SetMsgToGroup_of_def SetMsgCode_of_def SetMsgObjectNumberFrom_of_def SetMsgObjectNumberTo_of_def
  SetMsgCallId_of_def SetMsgInfoCoding_of_def SetMsgInfoLength_of_def

fun write_field :: "header \<Rightarrow> hfield \<Rightarrow> u8 list \<Rightarrow> u8 list" where
  "write_field h FromAutomate bs = SetByte bs MSG_FROM_AUTOMATE (h_FromAutomate h)"
| "write_field h FromGroup bs = SetByte bs MSG_FROM_GROUP (h_FromGroup h)"
| "write_field h ToAutomate bs = SetByte bs MSG_TO_AUTOMATE (h_ToAutomate h)"
| "write_field h ToGroup bs = SetByte bs MSG_TO_GROUP (h_ToGroup h)"
| "write_field h Code bs = SetUint16 bs MSG_CODE (h_Code h)"
| "write_field h ObjectFrom bs = SetUint32 bs MSG_OBJECT_ID_FROM (h_ObjectFrom h)"
| "write_field h ObjectTo bs = SetUint32 bs MSG_OBJECT_ID_TO (h_ObjectTo h)"
| "write_field h CallId bs = SetUint32 bs CALL_ID (h_CallId h)"
| "write_field h Coding bs = SetByte bs MSG_INFO_CODING (h_Coding h)"
| "write_field h InfoLength bs = SetUint16 bs MSG_LENGTH (h_Length h)"

lemma set_field_write:
  assumes "MSG_HEADER_LENGTH \<le> length (m_data (K_mem K) a)"
  shows "set_field_of h (Some a) x (K, A) =
    Inr ((), K\<lparr>K_mem := SetData a (write_field h x (m_data (K_mem K) a)) (K_mem K)\<rparr>, A)"
  using assms by (cases x) (simp_all add: setter_defs set_msg_def)

lemma length_write_field [simp]: "length (write_field h x bs) = length bs"
  by (cases x) simp_all

lemma write_field_other:
  assumes "MSG_HEADER_LENGTH \<le> length bs" "x \<noteq> y"
  shows "agree_on y (header_of (write_field h x bs)) g \<longleftrightarrow> agree_on y (header_of bs) g"
  using assms by (cases x; cases y) (simp_all add: header_of_def mem_simps offset_defs)

lemma write_field_same:
  assumes "MSG_HEADER_LENGTH \<le> length bs"
  shows "agree_on x (header_of (write_field h x bs)) h"
  using assms by (cases x) (simp_all add: header_of_def mem_simps offset_defs del: length_greater_0_conv)

lemma write_field_info: "drop MSG_HEADER_LENGTH (write_field h x bs) = drop MSG_HEADER_LENGTH bs"
  by (cases x) (simp_all add: SetByte_def SetUint16_def SetUint32_def offset_defs Let_def)

lemma set_fields:
  assumes "MSG_HEADER_LENGTH \<le> length (m_data (K_mem K) a)"
  shows "\<exists>bs. run (map (set_field_of h (Some a)) xs) (K, A) = Inr ((), K\<lparr>K_mem := SetData a bs (K_mem K)\<rparr>, A) \<and>
    length bs = length (m_data (K_mem K) a) \<and> (\<forall>y \<in> set xs. agree_on y (header_of bs) h) \<and>
    (\<forall>y g. y \<notin> set xs \<longrightarrow> agree_on y (header_of bs) g = agree_on y (header_of (m_data (K_mem K) a)) g) \<and>
    drop MSG_HEADER_LENGTH bs = drop MSG_HEADER_LENGTH (m_data (K_mem K) a)"
  using assms
proof (induction xs arbitrary: K)
  case Nil
  then show ?case by (intro exI [of _ "m_data (K_mem K) a"]) (simp add: SetData_def)
next
  case (Cons x xs)
  let ?b = "write_field h x (m_data (K_mem K) a)" and ?K = "\<lambda>bs. K\<lparr>K_mem := SetData a bs (K_mem K)\<rparr>"
  have d: "m_data (K_mem (?K ?b)) a = ?b" by (simp add: SetData_def)
  from Cons.IH [of "?K ?b"] Cons.prems obtain bs where
    b: "run (map (set_field_of h (Some a)) xs) (?K ?b, A) =
        Inr ((), (?K ?b)\<lparr>K_mem := SetData a bs (K_mem (?K ?b))\<rparr>, A)"
      "length bs = length ?b" "\<forall>y \<in> set xs. agree_on y (header_of bs) h"
      "\<forall>y g. y \<notin> set xs \<longrightarrow> agree_on y (header_of bs) g = agree_on y (header_of ?b) g"
      "drop MSG_HEADER_LENGTH bs = drop MSG_HEADER_LENGTH ?b"
    unfolding d by auto
  have k: "(?K ?b)\<lparr>K_mem := SetData a bs (K_mem (?K ?b))\<rparr> = ?K bs" by (simp add: SetData_def)
  have "agree_on x (header_of bs) h"
    using b(3,4) write_field_same [OF Cons.prems, of x h] by (cases "x \<in> set xs") simp_all
  moreover have "agree_on y (header_of bs) g = agree_on y (header_of (m_data (K_mem K) a)) g"
    if "y \<notin> set (x # xs)" for y g
    using b(4) that write_field_other [OF Cons.prems, of x y h g] by auto
  ultimately show ?case
    using b k write_field_info [of h x] set_field_write [OF Cons.prems, of h x A]
    by (intro exI [of _ bs]) auto
qed

end
