(* ===== verification/LogAutomate.thy ===== *)
theory LogAutomate
  imports KernelApi
begin

text \<open>
  \<open>LogAutomateNew\<close> (\<open>src/Kernel/logAutomate.h\<close>, \<open>logAutomate.cpp\<close>): the records an automaton
  writes.  What is logged is chosen by the flags of the object and of the system; the default is
  everything.  The functions for messages cast the length, header included, to one byte.
\<close>

definition BIT_LOG_STARTED :: u16 where "BIT_LOG_STARTED = 0x0001"
definition BIT_LOG_ENDED :: u16 where "BIT_LOG_ENDED = 0x0002"
definition BIT_EVENT_START :: u16 where "BIT_EVENT_START = 0x0004"
definition BIT_EVENT_END :: u16 where "BIT_EVENT_END = 0x0008"
definition BIT_LOG_MESSAGE :: u16 where "BIT_LOG_MESSAGE = 0x0010"
definition BIT_START_TIMER :: u16 where "BIT_START_TIMER = 0x0020"
definition BIT_STOP_TIMER :: u16 where "BIT_STOP_TIMER = 0x0040"
definition BIT_SEND_MESSAGE :: u16 where "BIT_SEND_MESSAGE = 0x0080"
definition BIT_RECV_MESSAGE :: u16 where "BIT_RECV_MESSAGE = 0x0100"
definition BIT_STRING :: u16 where "BIT_STRING = 0x0200"
definition BIT_USER_PARAM :: u16 where "BIT_USER_PARAM = 0x0400"
definition BIT_ALL_STARTED :: u16 where "BIT_ALL_STARTED = 0xffff"
definition BIT_ALL_STOPPED :: u16 where "BIT_ALL_STOPPED = 0x0000"

lemmas log_bits = BIT_LOG_STARTED_def BIT_LOG_ENDED_def BIT_EVENT_START_def BIT_EVENT_END_def
  BIT_LOG_MESSAGE_def BIT_START_TIMER_def BIT_STOP_TIMER_def BIT_SEND_MESSAGE_def
  BIT_RECV_MESSAGE_def BIT_STRING_def BIT_USER_PARAM_def BIT_ALL_STARTED_def BIT_ALL_STOPPED_def

text \<open>The constructor also clears the static pointer to the log object.\<close>

definition LogAutomateNew :: "u8 \<Rightarrow> u8 \<Rightarrow> ('z, unit) aop" where
  "LogAutomateNew automateId1 mbxId1 =
     run [KernelAPI automateId1 mbxId1,
          (\<lambda>(K, A). Inr ((), K\<lparr>K_LogingObject := None\<rparr>, A\<lparr>A_LogFlag := BIT_ALL_STARTED\<rparr>))]"

definition SetLogInterface :: "log_if \<Rightarrow> kernel \<Rightarrow> kernel" where
  "SetLogInterface logingObject K = K\<lparr>K_LogingObject := Some logingObject\<rparr>"

definition SetLogFlag :: "u16 \<Rightarrow> 'z api_scheme \<Rightarrow> 'z api_scheme" where
  "SetLogFlag newFlag A = A\<lparr>A_LogFlag := newFlag\<rparr>"

definition StartLogFunc :: "u16 \<Rightarrow> 'z api_scheme \<Rightarrow> 'z api_scheme" where
  "StartLogFunc flag A = A\<lparr>A_LogFlag := A_LogFlag A OR flag\<rparr>"

definition StopLogFunc :: "u16 \<Rightarrow> 'z api_scheme \<Rightarrow> 'z api_scheme" where
  "StopLogFunc flag A = A\<lparr>A_LogFlag := A_LogFlag A AND NOT flag\<rparr>"

definition SysSetLogFlag :: "u16 \<Rightarrow> kernel \<Rightarrow> kernel" where
  "SysSetLogFlag newFlag K = K\<lparr>K_SysLogFlag := newFlag\<rparr>"

subsection \<open>The records\<close>

definition log_op :: "(log_if, unit) op \<Rightarrow> (kernel \<times> 'z, unit) op" where
  "log_op f = (\<lambda>(K, A). case K_LogingObject K of None \<Rightarrow> Inl NullDeref
     | Some L \<Rightarrow> bindR (f L) (\<lambda>(_, L). Inr ((), K\<lparr>K_LogingObject := Some L\<rparr>, A)))"

definition log_record :: "u16 \<Rightarrow> u8 \<Rightarrow> u32 \<Rightarrow> (log_if, unit) op list \<Rightarrow> (kernel \<times> 'z, unit) op" where
  "log_record code automate objectId params = (\<lambda>(K, A).
     log_op (run (li_PrepareNewRecord (K_Time K) code automate objectId # params @ [li_Write])) (K, A))"

definition log_if_flag :: "u16 \<Rightarrow> ('z, unit) aop \<Rightarrow> ('z, unit) aop" where
  "log_if_flag bits f = (\<lambda>(K, A).
     if A_LogFlag A AND bits AND K_SysLogFlag K \<noteq> 0 then f (K, A) else Inr ((), K, A))"

definition log_own :: "u16 \<Rightarrow> ('z api_scheme \<Rightarrow> (log_if, unit) op list) \<Rightarrow> ('z, unit) aop" where
  "log_own code params = (\<lambda>(K, A).
     log_record code (A_automateId A) (A_ConnectionId A) (params A) (K, A))"

definition LogStarted :: "('z, unit) aop" where
  "LogStarted = log_if_flag BIT_LOG_STARTED (log_own LOG_START (\<lambda>A. []))"

definition LogEnded :: "('z, unit) aop" where
  "LogEnded = log_if_flag BIT_LOG_ENDED (log_own LOG_END (\<lambda>A. []))"

definition LogAutomateEventStart :: "u16 \<Rightarrow> ('z, unit) aop" where
  "LogAutomateEventStart msgCode = log_if_flag BIT_EVENT_START (log_own LOG_EVENT_START (\<lambda>A.
     [li_AddParamByte LOG_PARAM_STATE (A_State A), li_AddParamDWord LOG_PARAM_CALL_ID (A_CallId A)]))"

definition LogAutomateEventEnd :: "('z, unit) aop" where
  "LogAutomateEventEnd = log_if_flag BIT_EVENT_END (log_own LOG_EVENT_END (\<lambda>A.
     [li_AddParamByte LOG_PARAM_STATE (A_State A), li_AddParamDWord LOG_PARAM_CALL_ID (A_CallId A)]))"

text \<open>A message is handed over as the bytes of its buffer.\<close>

definition log_message :: "bool \<Rightarrow> u16 \<Rightarrow> u16 \<Rightarrow> ptr \<Rightarrow> ('z, unit) aop" where
  "log_message nd code len msg = (\<lambda>(K, A). deref msg (\<lambda>a.
     log_own code (\<lambda>A. [li_AddParam nd LOG_PARAM_MESSAGE (ucast len) (m_data (K_mem K) a)]) (K, A)))"

definition LogMessage :: "bool \<Rightarrow> u16 \<Rightarrow> ptr \<Rightarrow> ('z, unit) aop" where
  "LogMessage nd len msg = log_if_flag BIT_LOG_MESSAGE (log_message nd LOG_EVENT_MESSAGE len msg)"

definition LogStartTimer :: "u16 \<Rightarrow> ('z, unit) aop" where
  "LogStartTimer tmrId = log_if_flag BIT_START_TIMER (log_own LOG_START_TIMER (\<lambda>A.
     [li_AddParamWord LOG_PARAM_TIMER_ID tmrId]))"

definition LogStopTimer :: "u16 \<Rightarrow> ('z, unit) aop" where
  "LogStopTimer tmrId = log_if_flag BIT_STOP_TIMER (log_own LOG_STOP_TIMER (\<lambda>A.
     [li_AddParamWord LOG_PARAM_TIMER_ID tmrId]))"

definition LogSendMessage :: "bool \<Rightarrow> u16 \<Rightarrow> ptr \<Rightarrow> ('z, unit) aop" where
  "LogSendMessage nd len msg = log_if_flag BIT_SEND_MESSAGE (log_message nd LOG_MESSAGE_SENT len msg)"

definition LogRecvMessage :: "bool \<Rightarrow> u16 \<Rightarrow> ptr \<Rightarrow> ('z, unit) aop" where
  "LogRecvMessage nd len msg = log_if_flag BIT_RECV_MESSAGE (log_message nd LOG_MESSAGE_RECV len msg)"

definition LogBuffer_msg :: "bool \<Rightarrow> u16 \<Rightarrow> ptr \<Rightarrow> ('z, unit) aop" where
  "LogBuffer_msg nd len msg = log_if_flag BIT_SEND_MESSAGE (\<lambda>(K, A). deref msg (\<lambda>a.
     log_record LOG_BUFFER 0xff 0xffff
       [li_AddParam nd LOG_PARAM_MESSAGE (ucast len) (m_data (K_mem K) a)] (K, A)))"

text \<open>
  \<open>_vsnprintf\<close> writes the formatted string, of at most 127 bytes, into a buffer of 128; for a
  longer one it returns a negative length.  These two functions do not ask the system flag.
\<close>

definition LogString :: "bool \<Rightarrow> u8 list \<Rightarrow> ('z, unit) aop" where
  "LogString nd formatted = (\<lambda>(K, A).
     if A_LogFlag A AND BIT_STRING \<noteq> 0
     then if length formatted > 127 then Inr ((), K, A)
          else log_own LOG_STRING
            (\<lambda>A. [li_AddParam nd LOG_PARAM_STRING (of_nat (length formatted)) formatted]) (K, A)
     else Inr ((), K, A))"

definition LogUserParam :: "bool \<Rightarrow> u8 \<Rightarrow> u8 list \<Rightarrow> ('z, unit) aop" where
  "LogUserParam nd len param = (\<lambda>(K, A).
     if A_LogFlag A AND BIT_USER_PARAM \<noteq> 0
     then log_own LOG_USER_DATA (\<lambda>A. [li_AddParam nd LOG_PARAM_USER_DATA len param]) (K, A)
     else Inr ((), K, A))"

subsection \<open>When a record is written\<close>

text \<open>
  \<open>log_ready K\<close>: there is a log object, with a buffer of its full size.  Then the records without
  data always succeed, and so does the record of a message whose length, modulo 256, is not zero
  and does not exceed its buffer.  Nothing but the log object changes.
\<close>

definition log_ready :: "kernel \<Rightarrow> bool" where
  "log_ready K \<longleftrightarrow> (\<exists>L. K_LogingObject K = Some L \<and> length (LogBuffer L) = LOG_BUFFER_SIZE)"

definition logs :: "(kernel \<times> 'z, unit) op \<Rightarrow> kernel \<Rightarrow> 'z \<Rightarrow> bool" where
  "logs f K A \<longleftrightarrow> (\<exists>L. f (K, A) = Inr ((), K\<lparr>K_LogingObject := L\<rparr>, A) \<and>
     log_ready (K\<lparr>K_LogingObject := L\<rparr>))"

lemma log_own_ok:
  assumes "log_ready K" "writes (run (params A)) 22 k"
  shows "logs (log_own code params) K A"
proof -
  obtain L where L: "K_LogingObject K = Some L" "length (LogBuffer L) = LOG_BUFFER_SIZE"
    using assms(1) by (auto simp: log_ready_def)
  from PrepareNewRecord_ok [OF L(2)] obtain L1 where
    "li_PrepareNewRecord (K_Time K) code (A_automateId A) (A_ConnectionId A) L = Inr ((), L1)"
    "log_ok 22 L1" by blast
  moreover from assms(2) this(2) obtain L2 where "run (params A) L1 = Inr ((), L2)" "log_ok k L2"
    by (auto simp: writes_def)
  ultimately show ?thesis
    using L by (auto simp: logs_def log_ready_def log_ok_def log_own_def log_record_def log_op_def
        run_append li_Write_def)
qed

lemma logs_flag: "log_ready K \<Longrightarrow> logs f K A \<Longrightarrow> logs (log_if_flag b f) K A"
proof -
  assume r: "log_ready K" and f: "logs f K A"
  have "K\<lparr>K_LogingObject := K_LogingObject K\<rparr> = K" by simp
  with r have "\<exists>L. Inr ((), K, A) = Inr ((), K\<lparr>K_LogingObject := L\<rparr>, A) \<and> log_ready (K\<lparr>K_LogingObject := L\<rparr>)"
    by metis
  with f show ?thesis by (auto simp: logs_def log_if_flag_def)
qed

lemma log_events_ok:
  assumes "log_ready K"
  shows "logs LogStarted K A" "logs LogEnded K A" "logs (LogAutomateEventStart c) K A"
    "logs LogAutomateEventEnd K A" "logs (LogStartTimer i) K A" "logs (LogStopTimer i) K A"
proof -
  have p: "writes (li_AddParamByte LOG_PARAM_STATE (A_State A)) 22 25"
    "writes (li_AddParamDWord LOG_PARAM_CALL_ID (A_CallId A)) 25 31"
    "writes (li_AddParamWord LOG_PARAM_TIMER_ID i) 22 26"
    using writes_params(1) [of 22] writes_params(3) [of 25] writes_params(2) [of 22]
    by (simp_all add: LOG_BUFFER_SIZE_def)
  have "writes (run [li_AddParamByte LOG_PARAM_STATE (A_State A),
      li_AddParamDWord LOG_PARAM_CALL_ID (A_CallId A)]) 22 31"
    by (rule writes_seq [OF p(1) writes_seq [OF p(2) writes_run(1)]])
  then show "logs (LogAutomateEventStart c) K A" "logs LogAutomateEventEnd K A"
    unfolding LogAutomateEventStart_def LogAutomateEventEnd_def
    by (auto intro!: logs_flag assms log_own_ok)
  have "writes (run [li_AddParamWord LOG_PARAM_TIMER_ID i]) 22 26"
    by (rule writes_seq [OF p(3) writes_run(1)])
  then show "logs (LogStartTimer i) K A" "logs (LogStopTimer i) K A"
    unfolding LogStartTimer_def LogStopTimer_def by (auto intro!: logs_flag assms log_own_ok)
  show "logs LogStarted K A" "logs LogEnded K A"
    unfolding LogStarted_def LogEnded_def
    by (auto intro!: logs_flag assms log_own_ok writes_run(1))
qed

lemma LogMessage_ok:
  assumes "log_ready K" "nd \<or> (ucast len :: u8) \<noteq> 0"
    and "unat (ucast len :: u8) \<le> length (m_data (K_mem K) a)"
  shows "logs (LogMessage nd len (Some a)) K A"
proof -
  let ?p = "li_AddParam nd LOG_PARAM_MESSAGE (ucast len) (m_data (K_mem K) a)"
  have "unat (ucast len :: u8) < 2 ^ LENGTH(8)" by (rule unsigned_less)
  then have "writes ?p 22 (22 + 2 + unat (ucast len :: u8))"
    using assms(2,3) by (intro writes_AddParam) (simp_all add: LOG_BUFFER_SIZE_def)
  then have w: "writes (run [?p]) 22 (22 + 2 + unat (ucast len :: u8))"
    by (rule writes_seq [OF _ writes_run(1)])
  have "logs (log_own LOG_EVENT_MESSAGE (\<lambda>A. [?p])) K A"
    by (rule log_own_ok [OF assms(1)]) (rule w)
  then have "logs (log_message nd LOG_EVENT_MESSAGE len (Some a)) K A"
    by (simp add: logs_def log_message_def)
  then show ?thesis unfolding LogMessage_def by (rule logs_flag [OF assms(1)])
qed

text \<open>A debug build cannot log a message whose length is a multiple of 256.\<close>

lemma LogMessage_fails:
  assumes "log_ready K" "(ucast len :: u8) = 0" "A_LogFlag A AND BIT_LOG_MESSAGE AND K_SysLogFlag K \<noteq> 0"
  shows "LogMessage False len (Some a) (K, A) = Inl AssertFail"
proof -
  obtain L where L: "K_LogingObject K = Some L" "length (LogBuffer L) = LOG_BUFFER_SIZE"
    using assms(1) by (auto simp: log_ready_def)
  from PrepareNewRecord_ok [OF L(2)] obtain L1 where
    "li_PrepareNewRecord (K_Time K) LOG_EVENT_MESSAGE (A_automateId A) (A_ConnectionId A) L = Inr ((), L1)"
    by blast
  with assms(2,3) L(1) show ?thesis
    by (simp add: LogMessage_def log_if_flag_def log_message_def log_own_def log_record_def log_op_def
        li_AddParam_def)
qed

end
