(* ===== verification/Fsm.thy ===== *)
theory Fsm
  imports LogAutomate
begin

text \<open>
  \<open>FiniteStateMachine\<close> (\<open>src/Kernel/fsm.h\<close>, \<open>fsm.cpp\<close>): the base class of all automata.  An
  automaton has a table of states, each with its branches (event code and procedure), and a
  table of timers.  \<open>Process\<close> looks the code of a message up in the branches of the current state
  and runs the procedure found.  A pointer to a member function is a value of \<open>'p proc\<close>: the empty
  procedure of the base class or one of the derived class, whose meaning is given by the
  parameter \<open>exec\<close>; the null pointer is \<open>None\<close>.
\<close>

datatype 'p proc = DoNothing | Proc 'p

record timer_block =
  tb_Count :: u32
  tb_SignalId :: u16
  tb_Valid :: bool
  tb_TimerBuffer :: ptr

record 'p sbranch =
  EventCode :: u16
  ProcPtr :: "'p proc option"

text \<open>An entry of \<open>PBranch\<close> that has not been written yet is \<open>None\<close>.\<close>

record 'p sstate =
  StateValid :: bool
  NumOfBranches :: u16
  UnexpectedEventProcPtr :: "'p proc option"
  PBranch :: "'p sbranch option list"

record 'p fsm = api +
  F_ReturnMemory :: bool
  F_TimerStore :: "timer_block list"
  F_NumOfStates :: u16
  F_NumOfTimers :: u16
  F_MaxNumOfProcPerState :: u16
  F_States :: "'p sstate list option"

type_synonym ('p, 'z, 'a) fop = "(kernel \<times> ('p, 'z) fsm_scheme, 'a) op"

subsection \<open>Construction and destruction\<close>

definition TimerBlock :: timer_block where
  "TimerBlock = \<lparr>tb_Count = INVALID_32, tb_SignalId = INVALID_16, tb_Valid = False, tb_TimerBuffer = None\<rparr>"

definition SState :: "u16 \<Rightarrow> 'p sstate result" where
  "SState maxNumOfProceduresPerState =
     checkC (maxNumOfProceduresPerState = 0) 0x01010200
     (Inr \<lparr>StateValid = False, NumOfBranches = 0, UnexpectedEventProcPtr = None,
           PBranch = replicate (unat maxNumOfProceduresPerState) None\<rparr>)"

fun make_states :: "nat \<Rightarrow> u16 \<Rightarrow> 'p sstate list result" where
  "make_states 0 k = Inr []"
| "make_states (Suc n) k = bindR (SState k) (\<lambda>s. bindR (make_states n k) (\<lambda>ss. Inr (s # ss)))"

definition upd :: "(('p, 'z) fsm_scheme \<Rightarrow> ('p, 'z) fsm_scheme) \<Rightarrow> ('p, 'z, unit) fop" where
  "upd f = (\<lambda>(K, A). Inr ((), K, f A))"

definition SetState :: "u8 \<Rightarrow> ('p, 'z, unit) fop" where
  "SetState state = upd (\<lambda>A. A\<lparr>A_State := state\<rparr>)"

definition SetCallId_to :: "u32 \<Rightarrow> ('p, 'z, unit) fop" where
  "SetCallId_to callId = upd (\<lambda>A. A\<lparr>A_CallId := callId\<rparr>)"

text \<open>\<open>GetPointId\<close> is virtual, 0 by default.\<close>

definition SetCallId :: "u32 \<Rightarrow> ('p, 'z, unit) fop" where
  "SetCallId pointId = (\<lambda>(K, A). Inr ((), K\<lparr>K_CallCounter := (K_CallCounter K + 1) mod 0x0fffffff\<rparr>,
     A\<lparr>A_CallId := K_CallCounter K OR pointId\<rparr>))"

definition SetCallIdFromMsg :: "('p, 'z, unit) fop" where
  "SetCallIdFromMsg = bnd GetMsgCallId SetCallId_to"

text \<open>The constructor calls its own \<open>SetInitialState\<close>, which sets the state 0.\<close>

definition FiniteStateMachine ::
  "u8 \<Rightarrow> u8 \<Rightarrow> u16 \<Rightarrow> u16 \<Rightarrow> u16 \<Rightarrow> bool \<Rightarrow> ('p, 'z, unit) fop" where
  "FiniteStateMachine automateId1 mbxId1 numOfTimers numOfStates maxProcs getMemory =
     run [LogAutomateNew automateId1 mbxId1,
       (\<lambda>(K, A). checkC (numOfStates = 0) 0x01010200
         (let timers = (if numOfTimers = 0 then 1 else numOfTimers) in
          checkC (maxProcs = 0) 0x01010200
          (bindR (if getMemory then bindR (make_states (unat numOfStates) maxProcs) (\<lambda>ss. Inr (Some ss))
                  else Inr None) (\<lambda>states.
           Inr ((), K, A\<lparr>F_NumOfStates := numOfStates, F_NumOfTimers := timers,
             F_MaxNumOfProcPerState := maxProcs, F_ReturnMemory := getMemory, F_States := states,
             F_TimerStore := replicate (unat timers) TimerBlock\<rparr>))))),
       SetCallId_to 0xffffffff,
       SetState 0]"

definition SetFSMStructures :: "'p sstate list option \<Rightarrow> ('p, 'z, unit) fop" where
  "SetFSMStructures states = upd (\<lambda>A. A\<lparr>F_States := states, F_ReturnMemory := False\<rparr>)"

subsection \<open>Timers\<close>

definition timer_at :: "u16 \<Rightarrow> (timer_block \<Rightarrow> ('p, 'z, 'a) fop) \<Rightarrow> ('p, 'z, 'a) fop" where
  "timer_at tmrId f = (\<lambda>(K, A). if unat tmrId < length (F_TimerStore A)
     then f (F_TimerStore A ! unat tmrId) (K, A) else Inl OutOfBounds)"

definition set_timer :: "u16 \<Rightarrow> (timer_block \<Rightarrow> timer_block) \<Rightarrow> ('p, 'z, unit) fop" where
  "set_timer tmrId f = timer_at tmrId (\<lambda>t. upd (\<lambda>A. A\<lparr>F_TimerStore := (F_TimerStore A)[unat tmrId := f t]\<rparr>))"

definition assert_id :: "bool \<Rightarrow> u16 \<Rightarrow> ('p, 'z, unit) fop" where
  "assert_id nd tmrId = asserts nd (\<lambda>(K, A). \<not> tmrId > F_NumOfTimers A)"

text \<open>An assertion that reads the table; a release build does not read it.\<close>

definition assert_timer :: "bool \<Rightarrow> u16 \<Rightarrow> (timer_block \<Rightarrow> bool) \<Rightarrow> ('p, 'z, unit) fop" where
  "assert_timer nd tmrId P =
     (if nd then ret () else timer_at tmrId (\<lambda>t. asserts nd (\<lambda>_. P t)))"

definition InitTimerBlock :: "u16 \<Rightarrow> u32 \<Rightarrow> u16 \<Rightarrow> ('p, 'z, unit) fop" where
  "InitTimerBlock tmrId cnt signalId = (\<lambda>(K, A).
     checkC (tmrId > F_NumOfTimers A) 0x01010200
     (set_timer tmrId (\<lambda>t. \<lparr>tb_Count = cnt, tb_SignalId = signalId, tb_Valid = True,
        tb_TimerBuffer = None\<rparr>) (K, A)))"

definition StartTimer :: "bool \<Rightarrow> u16 \<Rightarrow> ('p, 'z, unit) fop" where
  "StartTimer nd tmrId =
     run [assert_id nd tmrId,
          assert_timer nd tmrId tb_Valid,
          assert_timer nd tmrId (\<lambda>t. tb_TimerBuffer t = None),
          timer_at tmrId (\<lambda>t. bnd (api_StartTimer nd (tb_SignalId t) (tb_Count t)) (\<lambda>p.
            set_timer tmrId (\<lambda>t. t\<lparr>tb_TimerBuffer := p\<rparr>))),
          LogStartTimer tmrId]"

definition stop_entry :: "u16 \<Rightarrow> timer_block \<Rightarrow> ('p, 'z, unit) fop" where
  "stop_entry tmrId t =
     run [api_StopTimer (tb_TimerBuffer t),
          set_timer tmrId (\<lambda>t. t\<lparr>tb_TimerBuffer := None\<rparr>),
          LogStopTimer tmrId]"

definition StopTimer :: "bool \<Rightarrow> u16 \<Rightarrow> ('p, 'z, unit) fop" where
  "StopTimer nd tmrId =
     run [assert_id nd tmrId,
          assert_timer nd tmrId tb_Valid,
          timer_at tmrId (\<lambda>t. if tb_TimerBuffer t = None then ret () else stop_entry tmrId t)]"

definition RestartTimer :: "bool \<Rightarrow> u16 \<Rightarrow> ('p, 'z, unit) fop" where
  "RestartTimer nd tmrId = run [StopTimer nd tmrId, StartTimer nd tmrId]"

definition ResetTimer :: "u16 \<Rightarrow> ('p, 'z, unit) fop" where
  "ResetTimer tmrId = set_timer tmrId (\<lambda>t. t\<lparr>tb_TimerBuffer := None\<rparr>)"

definition IsTimerRunning :: "bool \<Rightarrow> u16 \<Rightarrow> ('p, 'z, bool) fop" where
  "IsTimerRunning nd tmrId =
     bnd (assert_id nd tmrId) (\<lambda>_.
     bnd (assert_timer nd tmrId tb_Valid) (\<lambda>_.
     timer_at tmrId (\<lambda>t. if tb_TimerBuffer t = None then ret False
       else api_IsTimerRunning (tb_TimerBuffer t))))"

definition setTimerCount :: "bool \<Rightarrow> u16 \<Rightarrow> u32 \<Rightarrow> ('p, 'z, unit) fop" where
  "setTimerCount nd tmrId cnt =
     run [assert_id nd tmrId,
          assert_timer nd tmrId tb_Valid,
          set_timer tmrId (\<lambda>t. t\<lparr>tb_Count := cnt\<rparr>)]"

text \<open>\<open>for(i=0; i<NumOfTimers; i++)\<close>\<close>

definition for_timers :: "(u16 \<Rightarrow> ('p, 'z, unit) fop) \<Rightarrow> ('p, 'z, unit) fop" where
  "for_timers f = (\<lambda>(K, A). run (map (\<lambda>i. f (of_nat i)) [0 ..< unat (F_NumOfTimers A)]) (K, A))"

definition Reset :: "bool \<Rightarrow> ('p, 'z, unit) fop" where
  "Reset nd =
     run [SetState 0,
          for_timers (\<lambda>i. bnd (IsTimerRunning nd i) (\<lambda>b. if b then StopTimer nd i else ret ()))]"

definition fsm_destructor :: "bool \<Rightarrow> ('p, 'z, unit) fop" where
  "fsm_destructor nd =
     run [for_timers (\<lambda>i. run [assert_id nd i, timer_at i (\<lambda>t.
            if \<not> tb_Valid t then ret () else if tb_TimerBuffer t = None then ret () else stop_entry i t)]),
          mh_destructor nd]"

subsection \<open>Branches\<close>

definition state_at :: "u8 \<Rightarrow> ('p sstate \<Rightarrow> ('p, 'z, 'a) fop) \<Rightarrow> ('p, 'z, 'a) fop" where
  "state_at st f = (\<lambda>(K, A). case F_States A of None \<Rightarrow> Inl NullDeref
     | Some ss \<Rightarrow> if unat st < length ss then f (ss ! unat st) (K, A) else Inl OutOfBounds)"

definition set_state :: "u8 \<Rightarrow> 'p sstate \<Rightarrow> ('p, 'z, unit) fop" where
  "set_state st s = upd (\<lambda>A. A\<lparr>F_States := map_option (\<lambda>ss. ss[unat st := s]) (F_States A)\<rparr>)"

text \<open>The first of \<open>n\<close> branches with the event code.\<close>

fun find_branch :: "u16 \<Rightarrow> nat \<Rightarrow> 'p sbranch option list \<Rightarrow> 'p sbranch option result" where
  "find_branch event 0 bs = Inr None"
| "find_branch event (Suc n) bs = (case bs of
      [] \<Rightarrow> Inl OutOfBounds
    | None # bs \<Rightarrow> Inl OutOfBounds
    | Some b # bs \<Rightarrow> if EventCode b = event then Inr (Some b) else find_branch event n bs)"

definition lookup_proc :: "u16 \<Rightarrow> 'p sstate \<Rightarrow> 'p proc option result" where
  "lookup_proc event s =
     bindR (find_branch event (unat (NumOfBranches s)) (PBranch s)) (\<lambda>b.
     Inr (case b of Some b \<Rightarrow> ProcPtr b | None \<Rightarrow> UnexpectedEventProcPtr s))"

definition GetProcedure :: "bool \<Rightarrow> u16 \<Rightarrow> ('p, 'z, 'p proc option) fop" where
  "GetProcedure nd event = (\<lambda>(K, A).
     state_at (A_State A) (\<lambda>s. bnd (asserts nd (\<lambda>_. StateValid s)) (\<lambda>_ S.
       bindR (lookup_proc event s) (\<lambda>p. Inr (p, S)))) (K, A))"

definition add_branch :: "u16 \<Rightarrow> u16 \<Rightarrow> 'p proc option \<Rightarrow> 'p sstate \<Rightarrow> 'p sstate result" where
  "add_branch maxProcs event p s =
     (let s = (if \<not> StateValid s
               then s\<lparr>StateValid := True, UnexpectedEventProcPtr := Some DoNothing\<rparr> else s);
          n = NumOfBranches s in
      bindR (find_branch event (unat n) (PBranch s)) (\<lambda>b.
      checkC (b \<noteq> None) 0x01010200
      (if unat n < length (PBranch s)
       then let s = s\<lparr>PBranch := (PBranch s)[unat n := Some \<lparr>EventCode = event, ProcPtr = p\<rparr>],
                      NumOfBranches := n + 1\<rparr>
            in checkC (NumOfBranches s > maxProcs) 0x01010200 (Inr s)
       else Inl OutOfBounds)))"

definition InitEventProc :: "u8 \<Rightarrow> u16 \<Rightarrow> 'p proc option \<Rightarrow> ('p, 'z, unit) fop" where
  "InitEventProc st event p = state_at st (\<lambda>s (K, A).
     bindR (add_branch (F_MaxNumOfProcPerState A) event p s) (\<lambda>s. set_state st s (K, A)))"

definition InitUnexpectedEventProc :: "u8 \<Rightarrow> 'p proc option \<Rightarrow> ('p, 'z, unit) fop" where
  "InitUnexpectedEventProc st p = state_at st (\<lambda>s (K, A).
     checkC (\<not> StateValid s) 0x01010200 (set_state st (s\<lparr>UnexpectedEventProcPtr := p\<rparr>) (K, A)))"

subsection \<open>Processing a message\<close>

definition call_proc :: "('p \<Rightarrow> ('p, 'z, unit) fop) \<Rightarrow> 'p proc option \<Rightarrow> ('p, 'z, unit) fop" where
  "call_proc exec p = (case p of None \<Rightarrow> fails NullDeref | Some DoNothing \<Rightarrow> ret ()
     | Some (Proc q) \<Rightarrow> exec q)"

definition Process :: "bool \<Rightarrow> ('p \<Rightarrow> ('p, 'z, unit) fop) \<Rightarrow> ptr \<Rightarrow> ('p, 'z, unit) fop" where
  "Process nd exec msg =
     bnd (ParseMessage nd msg) (\<lambda>ok. if \<not> ok then ret () else
     run [bnd GetMsgCode LogAutomateEventStart,
          bnd mh_GetMsgInfoLength (\<lambda>n. LogMessage nd (n + of_nat MSG_HEADER_LENGTH) msg),
          bnd GetMsgCode (\<lambda>code. bnd (GetProcedure nd code) (call_proc exec)),
          ClearMessage nd,
          LogAutomateEventEnd])"

definition NoFreeObjectProcedure :: "bool \<Rightarrow> ('p, 'z, unit) fop \<Rightarrow> ptr \<Rightarrow> ('p, 'z, unit) fop" where
  "NoFreeObjectProcedure nd noFreeInstances msg =
     bnd (ParseMessage nd msg) (\<lambda>ok. if \<not> ok then ret () else
     run [bnd mh_GetMsgInfoLength (\<lambda>n. LogMessage nd (n + of_nat MSG_HEADER_LENGTH) msg),
          noFreeInstances,
          ClearMessage nd])"

end
