(* ===== verification/FsmSystem.thy ===== *)
theory FsmSystem
  imports Fsm
begin

text \<open>
  \<open>FSMList\<close> and \<open>FSMSystem\<close> (\<open>src/Kernel/fsmSystem.h\<close>, \<open>fsmSystem.cpp\<close>): the automata of the
  program, the lists of the free ones, and the monitor loop that takes messages from the post
  office and hands them to the automata.  An automaton is a number, its object is
  \<open>S_Objects\<close> of it and its \<open>Next\<close> pointer \<open>S_Next\<close>; the virtual functions the system calls are
  the fields of a \<open>vtable\<close>.  \<open>S_Kernel\<close> tells whether the static pointers of \<open>FSMSystem\<close> are set:
  they are not those of \<open>KernelAPI\<close>, which constructors of automata clear.
\<close>

type_synonym oid = nat

subsection \<open>\<open>FSMList\<close>\<close>

record fsm_list =
  fl_Head :: "oid option"
  fl_Tail :: "oid option"
  FreeFSMCount :: u32

type_synonym fl_state = "(oid \<Rightarrow> oid option) \<times> fsm_list"

definition FSMList :: fsm_list where
  "FSMList = \<lparr>fl_Head = None, fl_Tail = None, FreeFSMCount = 0\<rparr>"

definition fl_GetFromHead :: "fl_state \<Rightarrow> oid option \<times> fl_state" where
  "fl_GetFromHead = (\<lambda>(nx, L). case fl_Head L of None \<Rightarrow> (None, nx, L)
     | Some info \<Rightarrow>
         let L = L\<lparr>fl_Head := nx info\<rparr>;
             nx = nx(info := None);
             L = (if fl_Head L = None then L\<lparr>fl_Tail := None\<rparr> else L)
         in (Some info, nx, L))"

definition fl_PutOnTail :: "fl_state \<Rightarrow> oid \<Rightarrow> fl_state" where
  "fl_PutOnTail = (\<lambda>(nx, L) info.
     let nx = nx(info := None);
         (nx, L) = (case fl_Tail L of None \<Rightarrow> (nx, L\<lparr>fl_Head := Some info\<rparr>)
           | Some t \<Rightarrow> (nx(t := Some info), L))
     in (nx, L\<lparr>fl_Tail := Some info\<rparr>))"

definition fl_Add :: "oid option \<Rightarrow> fl_state \<Rightarrow> fl_state result" where
  "fl_Add info = (\<lambda>s. checkC (info = None) 0x21010503
     (let (nx, L) = fl_PutOnTail s (the info) in Inr (nx, L\<lparr>FreeFSMCount := FreeFSMCount L + 1\<rparr>)))"

definition fl_Get :: "fl_state \<Rightarrow> (oid option \<times> fl_state) result" where
  "fl_Get s = (let (info, nx, L) = fl_GetFromHead s in
     checkC (info = None \<or> FreeFSMCount L = 0) 0x21030504
     (Inr (info, nx, L\<lparr>FreeFSMCount := FreeFSMCount L - 1\<rparr>)))"

definition fl_IsEmpty :: "fsm_list \<Rightarrow> bool" where
  "fl_IsEmpty L = (if FreeFSMCount L = 0 then True else False)"

subsection \<open>\<open>FSMSystem\<close>\<close>

definition MAX_NUM_OF_AUTOMATES_TYPES :: nat where "MAX_NUM_OF_AUTOMATES_TYPES = 40"

text \<open>An array of pointers to automata: not allocated, allocated, or deleted.\<close>

datatype obj_array = NoArray | Array "oid option list" | Deleted

record 'o fsm_system =
  S_Automates :: "obj_array list"
  S_NumberOfMbx :: u8
  S_NumberOfAutomates :: u8
  S_NumberOfObjects :: "u32 list"
  S_FreeKernelMemory :: bool
  S_SystemWorking :: bool
  S_serverId :: u8
  S_UseFreeAutomateList :: "bool list"
  S_FreeAutomates :: "fsm_list list"
  S_Next :: "oid \<Rightarrow> oid option"
  S_Objects :: "oid \<Rightarrow> 'o"
  S_Kernel :: bool

record 'o vtable =
  v_Process :: "ptr \<Rightarrow> (kernel \<times> 'o, unit) op"
  v_NoFreeObjectProcedure :: "ptr \<Rightarrow> (kernel \<times> 'o, unit) op"
  v_Initialize :: "(kernel \<times> 'o, unit) op"
  v_SetObjectId :: "u32 \<Rightarrow> 'o \<Rightarrow> 'o"
  v_SetGroup :: "u8 \<Rightarrow> 'o \<Rightarrow> 'o"

type_synonym ('o, 'a) sop = "(kernel \<times> 'o fsm_system, 'a) op"

definition at_index :: "'x list \<Rightarrow> nat \<Rightarrow> ('x \<Rightarrow> 'a result) \<Rightarrow> 'a result" where
  "at_index xs i f = (if i < length xs then f (xs ! i) else Inl OutOfBounds)"

lemma at_index_simps [simp]:
  "i < length xs \<Longrightarrow> at_index xs i f = f (xs ! i)"
  "\<not> i < length xs \<Longrightarrow> at_index xs i f = Inl OutOfBounds"
  by (simp_all add: at_index_def)

text \<open>\<open>Automates[automateType][i]\<close>; a deleted array is out of bounds at every index.\<close>

definition object_at :: "obj_array \<Rightarrow> nat \<Rightarrow> (oid option \<Rightarrow> 'a result) \<Rightarrow> 'a result" where
  "object_at arr i f = (case arr of NoArray \<Rightarrow> Inl NullDeref | Deleted \<Rightarrow> Inl OutOfBounds
     | Array os \<Rightarrow> at_index os i f)"

text \<open>The first entries of the tables are initialized, the rest is what the memory held.\<close>

definition FSMSystem :: "u8 \<Rightarrow> u8 \<Rightarrow> 'o fsm_system \<Rightarrow> 'o fsm_system result" where
  "FSMSystem numOfAutomates numberOfMbx S =
     checkC (numOfAutomates = 0) 0x01010200
     (checkC (unat numOfAutomates > MAX_NUM_OF_AUTOMATES_TYPES) 0x01010200
     (checkC (numberOfMbx = 0) 0x01010200
     (let n = unat numOfAutomates in
      Inr (S\<lparr>S_NumberOfAutomates := numOfAutomates, S_NumberOfMbx := numberOfMbx,
        S_Automates := replicate n NoArray @ drop n (S_Automates S),
        S_NumberOfObjects := replicate n 0 @ drop n (S_NumberOfObjects S),
        S_UseFreeAutomateList := replicate n False @ drop n (S_UseFreeAutomateList S),
        S_FreeKernelMemory := False, S_SystemWorking := False\<rparr>))))"

text \<open>\<open>junk\<close> is the memory the buffers are cut from, \<open>TimerIdent\<close> what \<open>timeSetEvent\<close> returns.\<close>

definition InitKernel :: "u8 \<Rightarrow> u32 list option \<Rightarrow> u32 list option \<Rightarrow> u8 \<Rightarrow> TimerResolutionEnum \<Rightarrow>
    (addr \<Rightarrow> u8 list) \<Rightarrow> u32 \<Rightarrow> ('o, unit) sop" where
  "InitKernel buffClassNo buffersCount buffersLength numOfMbxs timerRes junk TimerIdent = (\<lambda>(K, S).
     bindR (TBuffers buffClassNo buffersCount buffersLength junk (K_mem K)) (\<lambda>(m, B).
     bindR (TPostOffice (S_NumberOfMbx S + numOfMbxs) (Some B)) (\<lambda>P.
     bindR (CTimer (Some B) (Some P) timerRes TimerIdent) (\<lambda>T.
     bindR (SetKernelObjects (Some P) (Some B) (Some T) (K\<lparr>K_mem := m\<rparr>)) (\<lambda>K.
     Inr ((), K, S\<lparr>S_Kernel := True, S_FreeKernelMemory := True\<rparr>))))))"

subsection \<open>The tables of the automata\<close>

definition free_add :: "oid option \<Rightarrow> nat \<Rightarrow> ('o, unit) sop" where
  "free_add object t = (\<lambda>(K, S). at_index (S_FreeAutomates S) t (\<lambda>L.
     bindR (fl_Add object (S_Next S, L)) (\<lambda>(nx, L).
     Inr ((), K, S\<lparr>S_Next := nx, S_FreeAutomates := (S_FreeAutomates S)[t := L]\<rparr>))))"

definition sys_FreeFSM :: "oid option \<Rightarrow> u8 \<Rightarrow> ('o, unit) sop" where
  "sys_FreeFSM object automateType = (\<lambda>(K, S).
     at_index (S_UseFreeAutomateList S) (unat automateType) (\<lambda>use.
     if use then free_add object (unat automateType) (K, S) else Inr ((), K, S)))"

text \<open>A member function of the automaton \<open>a\<close>.\<close>

definition on_object :: "oid \<Rightarrow> (kernel \<times> 'o, unit) op \<Rightarrow> ('o, unit) sop" where
  "on_object a f = (\<lambda>(K, S). bindR (f (K, S_Objects S a)) (\<lambda>(_, K, A).
     Inr ((), K, S\<lparr>S_Objects := (S_Objects S)(a := A)\<rparr>)))"

definition set_array :: "nat \<Rightarrow> obj_array \<Rightarrow> ('o, unit) sop" where
  "set_array t arr = (\<lambda>(K, S). Inr ((), K, S\<lparr>S_Automates := (S_Automates S)[t := arr]\<rparr>))"

text \<open>\<open>SetObjectId(i)\<close>, \<open>SetGroup(serverId)\<close>, \<open>Initialize()\<close>; \<open>serverId\<close> is never set.\<close>

definition init_object :: "'o vtable \<Rightarrow> oid option \<Rightarrow> u32 \<Rightarrow> ('o, unit) sop" where
  "init_object vt object i = (\<lambda>(K, S). deref object (\<lambda>a.
     on_object a (\<lambda>(K, A).
       v_Initialize vt (K, v_SetGroup vt (S_serverId S) (v_SetObjectId vt i A))) (K, S)))"

text \<open>The loop of \<open>Add\<close>: the first empty place of the \<open>n\<close> places from \<open>i\<close> on.\<close>

fun first_free :: "obj_array \<Rightarrow> nat \<Rightarrow> nat \<Rightarrow> nat option result" where
  "first_free arr i 0 = Inr None"
| "first_free arr i (Suc n) =
     object_at arr i (\<lambda>p. if p = None then Inr (Some i) else first_free arr (i + 1) n)"

definition sys_Add :: "bool \<Rightarrow> 'o vtable \<Rightarrow> oid option \<Rightarrow> u8 \<Rightarrow> ('o, unit) sop" where
  "sys_Add nd vt object automateType = (let t = unat automateType in (\<lambda>(K, S).
     assertC nd (\<not> S_NumberOfAutomates S \<le> automateType)
     (at_index (S_Automates S) t (\<lambda>arr.
     assertC nd (arr \<noteq> NoArray)
     (at_index (S_NumberOfObjects S) t (\<lambda>n.
     assertC nd (n \<noteq> 0)
     (bindR (first_free arr 0 (unat n)) (\<lambda>place. case place of
        None \<Rightarrow> Inl (Throw 0x01010200)
      | Some i \<Rightarrow>
          run [set_array t (case arr of Array os \<Rightarrow> Array (os[i := object]) | _ \<Rightarrow> arr),
               init_object vt object (of_nat i),
               sys_FreeFSM object automateType] (K, S))))))))) "

definition sys_Add_first ::
  "bool \<Rightarrow> 'o vtable \<Rightarrow> oid option \<Rightarrow> u8 \<Rightarrow> u32 \<Rightarrow> bool \<Rightarrow> ('o, unit) sop" where
  "sys_Add_first nd vt object automateType numOfObjects useFreeList = (let t = unat automateType in (\<lambda>(K, S).
     assertC nd (numOfObjects \<noteq> 0)
     (assertC nd (\<not> S_NumberOfAutomates S \<le> automateType)
     (at_index (S_Automates S) t (\<lambda>arr.
     assertC nd (arr = NoArray)
     (at_index (S_NumberOfObjects S) t (\<lambda>n.
     assertC nd (n = 0)
     (if numOfObjects = 0 then Inl OutOfBounds else
      run [(\<lambda>(K, S). Inr ((), K, S\<lparr>S_NumberOfObjects := (S_NumberOfObjects S)[t := numOfObjects]\<rparr>)),
           set_array t (Array (object # replicate (unat numOfObjects - 1) None)),
           init_object vt object 0,
           (\<lambda>(K, S). Inr ((), K, S\<lparr>S_UseFreeAutomateList := (S_UseFreeAutomateList S)[t := useFreeList]\<rparr>)),
           sys_FreeFSM object automateType] (K, S)))))))))"

definition sys_Remove :: "bool \<Rightarrow> u8 \<Rightarrow> ('o, unit) sop" where
  "sys_Remove nd automateType = (let t = unat automateType in (\<lambda>(K, S).
     assertC nd (S_NumberOfAutomates S \<ge> automateType)
     (at_index (S_Automates S) t (\<lambda>arr.
      if arr = NoArray then Inr ((), K, S)
      else at_index (S_NumberOfObjects S) t (\<lambda>n.
        assertC nd (n \<noteq> 0)
        (case arr of Deleted \<Rightarrow> Inl OutOfBounds | _ \<Rightarrow>
         Inr ((), K, S\<lparr>S_NumberOfObjects := (S_NumberOfObjects S)[t := 0],
           S_Automates := (S_Automates S)[t := Deleted]\<rparr>)))))))"

definition sys_Remove_object :: "bool \<Rightarrow> u8 \<Rightarrow> u32 \<Rightarrow> ('o, oid option) sop" where
  "sys_Remove_object nd automateType object = (let t = unat automateType in (\<lambda>(K, S).
     assertC nd (S_NumberOfAutomates S \<le> automateType)
     (at_index (S_Automates S) t (\<lambda>arr.
     assertC nd (arr \<noteq> NoArray)
     (at_index (S_NumberOfObjects S) t (\<lambda>n.
     assertC nd (n \<noteq> 0)
     (object_at arr (unat object) (\<lambda>tmp.
      Inr (tmp, K, S\<lparr>S_Automates := (S_Automates S)[t :=
        (case arr of Array os \<Rightarrow> Array (os[unat object := None]) | _ \<Rightarrow> arr)]\<rparr>)))))))))"

subsection \<open>The monitor loop\<close>

definition GetMsgSync :: "bool \<Rightarrow> ('o, ptr \<times> u8) sop" where
  "GetMsgSync nd = (\<lambda>(K, S). if \<not> S_Kernel S then Inl NullDeref
     else bindR (po_GetSync nd (K_mem K, K_Buffers K, K_PostOffice K)) (\<lambda>(msg, mbx, m, B, P).
       Inr ((msg, mbx), K\<lparr>K_mem := m, K_Buffers := B, K_PostOffice := P\<rparr>, S)))"

definition DiscardMsg :: "bool \<Rightarrow> ptr \<Rightarrow> ('o, unit) sop" where
  "DiscardMsg nd msg = (\<lambda>(K, S). if \<not> S_Kernel S then Inl NullDeref
     else bindR (RetBuffer nd msg (K_mem K, K_Buffers K)) (\<lambda>(m, B).
       Inr ((), K\<lparr>K_mem := m, K_Buffers := B\<rparr>, S)))"

definition free_get :: "nat \<Rightarrow> ('o, oid option) sop" where
  "free_get t = (\<lambda>(K, S). at_index (S_FreeAutomates S) t (\<lambda>L.
     bindR (fl_Get (S_Next S, L)) (\<lambda>(info, nx, L).
     Inr (info, K, S\<lparr>S_Next := nx, S_FreeAutomates := (S_FreeAutomates S)[t := L]\<rparr>))))"

text \<open>\<open>Automates[t][i]->f()\<close>\<close>

definition call_object :: "nat \<Rightarrow> nat \<Rightarrow> (kernel \<times> 'o, unit) op \<Rightarrow> ('o, unit) sop" where
  "call_object t i f = (\<lambda>(K, S). at_index (S_Automates S) t (\<lambda>arr. object_at arr i (\<lambda>p.
     deref p (\<lambda>a. on_object a f (K, S)))))"

definition dispatch :: "bool \<Rightarrow> 'o vtable \<Rightarrow> addr \<Rightarrow> ('o, unit) sop" where
  "dispatch nd vt msg = (\<lambda>(K, S). in_buff (K_mem K) msg MSG_HEADER_LENGTH
     (let bs = m_data (K_mem K) msg;
          automateType = bs ! MSG_TO_AUTOMATE; t = unat automateType in
      if automateType > S_NumberOfAutomates S then DiscardMsg nd (Some msg) (K, S)
      else at_index (S_NumberOfObjects S) t (\<lambda>n.
      if n = 0 then DiscardMsg nd (Some msg) (K, S)
      else let objNum = GetUint32 bs MSG_OBJECT_ID_TO in
        if objNum = 0xffffffff then
          bnd (free_get t) (\<lambda>object. case object of
              Some a \<Rightarrow> on_object a (v_Process vt (Some msg))
            | None \<Rightarrow> call_object t 0 (v_NoFreeObjectProcedure vt (Some msg))) (K, S)
        else if objNum > n then DiscardMsg nd (Some msg) (K, S)
        else call_object t (unat objNum) (v_Process vt (Some msg)) (K, S))))"

text \<open>The body of the loops of \<open>Start\<close>: one call of \<open>GetMsgSync\<close>.\<close>

definition start_body :: "bool \<Rightarrow> 'o vtable \<Rightarrow> ('o, unit) sop" where
  "start_body nd vt = bnd (GetMsgSync nd) (\<lambda>(msg, mailBox).
     case msg of None \<Rightarrow> ret () | Some a \<Rightarrow> dispatch nd vt a)"

text \<open>\<open>fuel\<close> counts the rounds of the outer loop, which only another thread can end.\<close>

fun start_loop :: "nat \<Rightarrow> bool \<Rightarrow> 'o vtable \<Rightarrow> ('o, unit) sop" where
  "start_loop 0 nd vt s = Inl NoFuel"
| "start_loop (Suc fuel) nd vt (K, S) =
     (if S_SystemWorking S
      then bindR (run (replicate (unat (S_NumberOfMbx S)) (start_body nd vt)) (K, S)) (\<lambda>(_, s).
           start_loop fuel nd vt s)
      else Inr ((), K, S))"

definition sys_Start :: "nat \<Rightarrow> bool \<Rightarrow> 'o vtable \<Rightarrow> ('o, unit) sop" where
  "sys_Start fuel nd vt = (\<lambda>(K, S). start_loop fuel nd vt (K, S\<lparr>S_SystemWorking := True\<rparr>))"

definition StopSystem :: "'o fsm_system \<Rightarrow> 'o fsm_system" where
  "StopSystem S = S\<lparr>S_SystemWorking := False\<rparr>"

text \<open>\<open>killed\<close> tells whether \<open>timeKillEvent\<close> succeeds.\<close>

definition sys_destructor :: "bool \<Rightarrow> bool \<Rightarrow> ('o, unit) sop" where
  "sys_destructor nd killed =
     run [(\<lambda>(K, S). run (map (\<lambda>i. sys_Remove nd (of_nat i)) [0 ..< unat (S_NumberOfAutomates S)]) (K, S)),
          (\<lambda>(K, S). if S_FreeKernelMemory S
            then bindR (timer_destructor nd killed (K_mem K, K_Buffers K, K_Timer K)) (\<lambda>(m, B).
                 bindR (po_destructor nd (m, B, K_PostOffice K)) (\<lambda>(m, B).
                 bindR (tb_destructor nd (Queues B)) (\<lambda>_.
                 Inr ((), K\<lparr>K_mem := m, K_Buffers := B\<rparr>, S\<lparr>S_Kernel := False\<rparr>))))
            else Inr ((), K, S))]"

subsection \<open>The lists of free automata\<close>

definition fl_content :: "fl_state \<Rightarrow> oid list \<Rightarrow> bool" where
  "fl_content = (\<lambda>(nx, L) as. lq nx (fl_Head L) (fl_Tail L) as)"

lemma fl_PutOnTail_content:
  assumes "fl_content (nx, L) as" "a \<notin> set as"
  shows "fl_content (fl_PutOnTail (nx, L) a) (as @ [a])"
proof (cases "fl_Tail L")
  case None
  with assms have "as = []" by (auto simp: fl_content_def dest: lq_tail_iff)
  with None show ?thesis by (simp add: fl_content_def fl_PutOnTail_def lq_def)
next
  case (Some b)
  with assms have "lq (nx(a := None, b := Some a)) (fl_Head L) (Some a) (as @ [a])"
    by (auto simp: fl_content_def intro: lq_put)
  with Some show ?thesis by (simp add: fl_content_def fl_PutOnTail_def)
qed

lemma fl_GetFromHead_cons:
  assumes "fl_content (nx, L) (a # as)"
  shows "\<exists>L'. fl_GetFromHead (nx, L) = (Some a, nx(a := None), L') \<and>
    fl_content (nx(a := None), L') as \<and> FreeFSMCount L' = FreeFSMCount L"
proof -
  have "a \<notin> set as" using assms by (simp add: fl_content_def lq_def)
  then have c: "lq (nx(a := None)) h t as = lq nx h t as" for h t by (intro lq_cong) auto
  show ?thesis
    using assms lq_get [of nx "fl_Head L" "fl_Tail L" a as]
    by (auto simp: fl_content_def fl_GetFromHead_def Let_def c)
qed

interpretation fl: fifo_list fl_PutOnTail fl_GetFromHead fl_content
proof unfold_locales
  fix s :: fl_state and as a
  obtain nx L where s: "s = (nx, L)" by (cases s) auto
  show "fl_content s as \<Longrightarrow> a \<notin> set as \<Longrightarrow> fl_content (fl_PutOnTail s a) (as @ [a])"
    using fl_PutOnTail_content s by simp
  show "fl_content s [] \<Longrightarrow> fst (fl_GetFromHead s) = None \<and> fl_content (snd (fl_GetFromHead s)) []"
    using s by (simp add: fl_content_def fl_GetFromHead_def)
  show "fl_content s (a # as) \<Longrightarrow>
      fst (fl_GetFromHead s) = Some a \<and> fl_content (snd (fl_GetFromHead s)) as"
    using fl_GetFromHead_cons [of nx L a as] s by auto
qed

end
