(* ===== verification/AppConst.thy ===== *)
theory AppConst
  imports FsmSystem
begin

text \<open>
  The DNS client of \<open>src/POP3ClientCppUnit\<close>: the constants of \<open>const.h\<close>, and what the handlers of
  its three automata share.  All three use \<open>stdMsg_pc16_pl16\<close> as their codec.  A string travels as
  a parameter of a message and is kept in an array of 256 characters.
\<close>

definition CH_AUTOMATE_TYPE_ID :: u8 where "CH_AUTOMATE_TYPE_ID = 0"
definition CL_AUTOMATE_TYPE_ID :: u8 where "CL_AUTOMATE_TYPE_ID = 1"
definition USER_AUTOMATE_TYPE_ID :: u8 where "USER_AUTOMATE_TYPE_ID = 2"
definition CH_AUTOMATE_MBX_ID :: u8 where "CH_AUTOMATE_MBX_ID = 0"
definition CL_AUTOMATE_MBX_ID :: u8 where "CL_AUTOMATE_MBX_ID = 1"
definition USER_AUTOMATE_MBX_ID :: u8 where "USER_AUTOMATE_MBX_ID = 2"

definition FSM_Client_Idle :: u8 where "FSM_Client_Idle = 0"
definition FSM_Client_Check_Local_Table :: u8 where "FSM_Client_Check_Local_Table = 1"
definition FSM_Client_Input_From_User :: u8 where "FSM_Client_Input_From_User = 2"
definition FSM_Client_DNS_Request :: u8 where "FSM_Client_DNS_Request = 3"
definition FSM_Client_DNS_Recived :: u8 where "FSM_Client_DNS_Recived = 4"

lemmas client_states = FSM_Client_Idle_def FSM_Client_Check_Local_Table_def
  FSM_Client_Input_From_User_def FSM_Client_DNS_Request_def FSM_Client_DNS_Recived_def

definition MSG_User_Idle :: u16 where "MSG_User_Idle = 1"
definition MSG_User_Data_Input :: u16 where "MSG_User_Data_Input = 2"
definition MSG_User_To_Client_Data_Sent :: u16 where "MSG_User_To_Client_Data_Sent = 3"
definition MSG_Client_To_User_Return_Data_Recived :: u16 where
  "MSG_Client_To_User_Return_Data_Recived = 4"
definition MSG_Client_Idle :: u16 where "MSG_Client_Idle = 5"
definition MSG_Client_To_Channel_DNS_Request_Sent :: u16 where
  "MSG_Client_To_Channel_DNS_Request_Sent = 6"
definition MSG_Channel_To_Client_DNS_Request_Recived :: u16 where
  "MSG_Channel_To_Client_DNS_Request_Recived = 7"
definition MSG_Timer_Expired :: u16 where "MSG_Timer_Expired = 8"
definition MSG_Client_Check_Local_Table :: u16 where "MSG_Client_Check_Local_Table = 9"
definition MSG_Channel_Idle :: u16 where "MSG_Channel_Idle = 10"
definition MSG_Channel_Create_Socket :: u16 where "MSG_Channel_Create_Socket = 11"
definition MSG_Channel_Connect :: u16 where "MSG_Channel_Connect = 12"
definition MSG_Channel_DNS_Request_Send :: u16 where "MSG_Channel_DNS_Request_Send = 13"
definition MSG_Channel_DNS_Request_Recive :: u16 where "MSG_Channel_DNS_Request_Recive = 15"
definition MSG_Channel_Disconnect :: u16 where "MSG_Channel_Disconnect = 16"

lemmas msg_codes = MSG_User_Idle_def MSG_User_Data_Input_def MSG_User_To_Client_Data_Sent_def
  MSG_Client_To_User_Return_Data_Recived_def MSG_Client_Idle_def
  MSG_Client_To_Channel_DNS_Request_Sent_def MSG_Channel_To_Client_DNS_Request_Recived_def
  MSG_Timer_Expired_def MSG_Client_Check_Local_Table_def MSG_Channel_Idle_def
  MSG_Channel_Create_Socket_def MSG_Channel_Connect_def MSG_Channel_DNS_Request_Send_def
  MSG_Channel_DNS_Request_Recive_def MSG_Channel_Disconnect_def

definition TIMER1_ID :: u16 where "TIMER1_ID = 0"
definition TIMER1_COUNT :: u32 where "TIMER1_COUNT = 10"
definition PARAM_DATA :: u32 where "PARAM_DATA = 1"
definition PARAM_Name :: u32 where "PARAM_Name = 2"
definition PARAM_DNS_INPUT :: u32 where "PARAM_DNS_INPUT = 3"

subsection \<open>Strings\<close>

text \<open>\<open>strlen\<close> and the bytes it counts; without a zero it runs out of the array.\<close>

definition c_str :: "u8 list \<Rightarrow> u8 list result" where
  "c_str bs = (if 0 \<in> set bs then Inr (takeWhile (\<lambda>b. b \<noteq> 0) bs) else Inl OutOfBounds)"

text \<open>Writing a string with its end mark into an array.\<close>

definition put_str :: "u8 list \<Rightarrow> u8 list \<Rightarrow> u8 list result" where
  "put_str s bs = (if length s < length bs then Inr (s @ 0 # drop (length s + 1) bs) else Inl OutOfBounds)"

lemma c_str_put_str:
  assumes "put_str s bs = Inr cs" "0 \<notin> set s"
  shows "c_str cs = Inr s" and "length cs = length bs"
proof -
  have "takeWhile (\<lambda>b. b \<noteq> 0) (s @ 0 # xs) = s" for xs
    using assms(2) by (subst takeWhile_append2) auto
  with assms(1) show "c_str cs = Inr s" by (auto simp: put_str_def c_str_def split: if_splits)
  show "length cs = length bs" using assms(1) by (auto simp: put_str_def split: if_splits)
qed

subsection \<open>What the handlers share\<close>

text \<open>
  \<open>uint8* buffer = GetParam(code); uint16 size = buffer[2];\<close>: a null pointer is dereferenced when
  the parameter is missing, and of the 16-bit length only the low byte is read.
\<close>

definition param_size :: "bool \<Rightarrow> u32 \<Rightarrow> ('z, addr \<times> nat \<times> nat) hop" where
  "param_size nd code = bnd (mh_GetParam nd code) (\<lambda>p. case p of
     None \<Rightarrow> fails NullDeref
   | Some (a, i) \<Rightarrow> (\<lambda>(K, A). in_buff (K_mem K) a (i + 3)
       (Inr ((a, i, unat (m_data (K_mem K) a ! (i + 2))), K, A))))"

text \<open>\<open>memcpy(dst, buffer + 4, size); dst[size] = 0;\<close>\<close>

definition param_copy :: "addr \<times> nat \<times> nat \<Rightarrow> u8 list \<Rightarrow> ('z, u8 list) hop" where
  "param_copy = (\<lambda>(a, i, size) dst (K, A). in_buff (K_mem K) a (i + 4 + size)
     (bindR (put_str (take size (drop (i + 4) (m_data (K_mem K) a))) dst) (\<lambda>s. Inr (s, K, A))))"

text \<open>The four statements that send a message without parameters.\<close>

definition send_to :: "bool \<Rightarrow> u16 \<Rightarrow> u8 \<Rightarrow> u8 \<Rightarrow> ('z, unit) aop" where
  "send_to nd code automate mbx =
     run [PrepareNewMessage nd 0 code LOCAL_PARAM_CODING,
          SetMsgToAutomate automate,
          SetMsgObjectNumberTo 0,
          SendMessage mbx]"

text \<open>The same with a string as the parameter \<open>param\<close>.\<close>

definition send_str :: "bool \<Rightarrow> u16 \<Rightarrow> u8 \<Rightarrow> u8 \<Rightarrow> u32 \<Rightarrow> u32 \<Rightarrow> u8 list \<Rightarrow> ('z, unit) aop" where
  "send_str nd code automate mbx param len data =
     run [PrepareNewMessage nd 0 code LOCAL_PARAM_CODING,
          SetMsgToAutomate automate,
          SetMsgObjectNumberTo 0,
          bnd (mh_AddParam nd param len data) (\<lambda>_. ret ()),
          SendMessage mbx]"

definition GetMbxId :: "'z api_scheme \<Rightarrow> u8" where
  "GetMbxId A = A_mbxId A"

definition GetAutomate :: "'z api_scheme \<Rightarrow> u8" where
  "GetAutomate A = A_automateId A"

definition SetDefaultHeader :: "u8 \<Rightarrow> ('z, unit) aop" where
  "SetDefaultHeader infoCoding = run [SetMsgInfoCoding infoCoding, SetMessageFromData]"

end
