(* ===== verification/KernelOps.thy ===== *)
theory KernelOps
  imports TimerRuns AppConst
begin

text \<open>
  The operations of an automaton on the kernel, at the level of the lists of buffers.
  \<open>k_ok K own mss L fss\<close>: the kernel objects are set, the free queues hold \<open>fss\<close>, the mailboxes
  \<open>mss\<close>, the timer list \<open>L\<close>, and the buffers \<open>own\<close> belong to the automaton that runs; all of them
  are distinct, every buffer of the pool is in one of these places (\<open>accounted\<close>), and a mailbox has
  a signal for each of its messages up to the maximum of its semaphore and no more (\<open>signals\<close>).  Each operation
  moves one buffer from one of these places to another.
\<close>

definition signals :: "nat list \<Rightarrow> addr list list \<Rightarrow> bool" where
  "signals sems mss \<longleftrightarrow> (\<forall>i < length mss. min (length (mss ! i)) SEM_MAX \<le> sems ! i \<and> sems ! i \<le> length (mss ! i))"

definition accounted :: "nat \<Rightarrow> addr list \<Rightarrow> addr list list \<Rightarrow> bool" where
  "accounted n as fss \<longleftrightarrow> set as \<union> pooled fss = {..< n}"

definition k_ok :: "kernel \<Rightarrow> addr list \<Rightarrow> addr list list \<Rightarrow> addr dlist \<Rightarrow> addr list list \<Rightarrow> bool" where
  "k_ok K own mss L fss \<longleftrightarrow> K_Api K \<and>
     kernel_ok (K_mem K, K_Buffers K, K_PostOffice K, K_Timer K) mss L fss \<and>
     used_buffers (K_mem K, K_Buffers K) fss (own @ map fst L @ concat mss) \<and>
     signals (semHandle (K_PostOffice K)) mss \<and>
     accounted (m_top (K_mem K)) (own @ map fst L @ concat mss) fss"

abbreviation bytes :: "kernel \<Rightarrow> addr \<Rightarrow> u8 list" where
  "bytes K \<equiv> m_data (K_mem K)"

lemma k_okD:
  assumes "k_ok K own mss L fss"
  shows "K_Api K" "kernel_ok (K_mem K, K_Buffers K, K_PostOffice K, K_Timer K) mss L fss"
    "used_buffers (K_mem K, K_Buffers K) fss (own @ map fst L @ concat mss)"
    "po_ok (K_mem K, K_Buffers K, K_PostOffice K) mss fss"
    "tb_content (K_mem K, K_Buffers K) fss"
    "length mss = unat (MailBoxesNum (K_PostOffice K))"
    "a \<in> set own \<Longrightarrow> MSG_HEADER_LENGTH \<le> length (bytes K a)"
    "signals (semHandle (K_PostOffice K)) mss"
    "accounted (m_top (K_mem K)) (own @ map fst L @ concat mss) fss"
proof -
  show "signals (semHandle (K_PostOffice K)) mss"
    "accounted (m_top (K_mem K)) (own @ map fst L @ concat mss) fss"
    using assms by (simp_all add: k_ok_def)
  show 1: "K_Api K" "kernel_ok (K_mem K, K_Buffers K, K_PostOffice K, K_Timer K) mss L fss"
    "used_buffers (K_mem K, K_Buffers K) fss (own @ map fst L @ concat mss)"
    using assms by (simp_all add: k_ok_def)
  show 2: "po_ok (K_mem K, K_Buffers K, K_PostOffice K) mss fss" using kernel_okD(1) [OF 1(2)] .
  show "tb_content (K_mem K, K_Buffers K) fss" "length mss = unat (MailBoxesNum (K_PostOffice K))"
    using po_okD(1,2) [OF 2] .
  show "a \<in> set own \<Longrightarrow> MSG_HEADER_LENGTH \<le> length (bytes K a)"
    using 1(3) by (simp add: used_buffers_def)
qed

text \<open>The three lists have changed, the timers have not.\<close>

lemma kernel_ok_frame:
  assumes "kernel_ok (m, B, P, T) mss L fss" "po_ok (m', B', P') mss' fss'"
    and "same_bytes m m'" "MailBoxesNum P' = MailBoxesNum P"
    and "\<And>b. b \<in> set (map fst L) \<Longrightarrow> m_next m' b = m_next m b"
    and "used_buffers (m', B') fss' (map fst L @ concat mss')"
  shows "kernel_ok (m', B', P', T) mss' L fss'"
proof -
  note K = kernel_okD [OF assms(1)]
  have "timer_content (m', T) L"
    by (rule timer_content_cong [OF K(2) assms(3)]) (simp_all add: assms(5) del: list.set_map)
  moreover have "\<forall>a \<in> set (map fst L). m_data m' a ! TIMER_MBX_ID < MailBoxesNum P'"
    using K(4) assms(3,4) by (simp add: same_bytes_def)
  ultimately show ?thesis using assms(2,6) by (simp add: kernel_ok_def)
qed

lemma used_buffers_subset:
  assumes "used_buffers s fss (own @ xs)"
  shows "used_buffers s fss xs"
  using used_buffers_append2 [OF assms] .

lemma used_buffers_frames:
  assumes "used_buffers s fss (own @ xs @ ys)"
  shows "used_buffers s fss (xs @ ys)" "used_buffers s fss ys"
  using used_buffers_subset [OF assms] used_buffers_subset [OF used_buffers_subset [OF assms]] by simp_all

subsection \<open>Taking and giving back a buffer\<close>

lemma used_buffers_take:
  assumes "used_buffers (m, B) fss xs" "i < length fss" "fss ! i = a # as" "distinct (concat fss)"
    and "in_pool (m, B) a" "MSG_HEADER_LENGTH \<le> length (m_data m a)" "same_pool B B'"
  shows "used_buffers (m, B') (fss[i := as]) (a # xs)"
proof -
  have "a \<in> pooled fss" using pooledI [OF assms(2), of a] assms(3) by simp
  then have "a \<notin> set xs" using assms(1) by (auto simp: used_buffers_def)
  moreover have "a \<notin> pooled (fss[i := as])" "pooled (fss[i := as]) = pooled fss - {a}"
    using distinct_concat_tl [OF assms(4,2,3)] by simp_all
  moreover have "in_pool (m, B') b = in_pool (m, B) b" for b
    using assms(7) by (simp add: in_pool_def same_pool_def)
  ultimately show ?thesis using assms(1,5,6) by (auto simp: used_buffers_def)
qed

lemma GetBuffer_op_ok:
  assumes K: "k_ok K own mss L fss" and fit: "fits_class (K_Buffers K) len i" "fss ! i = a # as"
    and hdr: "MSG_HEADER_LENGTH \<le> unat len"
  shows "\<exists>B'. GetBuffer_op nd len (K, A) = Inr (a, K\<lparr>K_Buffers := B'\<rparr>, A) \<and>
    k_ok (K\<lparr>K_Buffers := B'\<rparr>) (a # own) mss L (fss[i := as]) \<and> same_pool (K_Buffers K) B' \<and>
    unat len \<le> length (bytes K a)"
proof -
  note D = k_okD [OF K]
  let ?m = "K_mem K" and ?B = "K_Buffers K"
  from GetBuffer_hit [OF D(5) fit, of nd] obtain q where
    q: "GetBuffer nd len (?m, ?B) = Inr (a, ?m, ?B\<lparr>Queues := (Queues ?B)[i := q]\<rparr>)"
      "tb_content (?m, ?B\<lparr>Queues := (Queues ?B)[i := q]\<rparr>) (fss[i := as])" by blast
  let ?B' = "?B\<lparr>Queues := (Queues ?B)[i := q]\<rparr>"
  have i: "i < length fss" using GetBuffer_start(2) [OF D(5) fit(1)] .
  have a: "unat (m_code ?m a) = i" "in_pool (?m, ?B) a"
    using tb_contentD(6) [OF D(5) i, of a] fit(2) by auto
  have "unat len \<le> unat (BuffersLength ?B ! i)"
    using fit(1) by (simp add: fits_class_def word_le_nat_alt)
  with a have len: "unat len \<le> length (bytes K a)" by (simp add: in_pool_def)
  have same: "same_pool ?B ?B'" by (simp add: same_pool_def)
  have used: "used_buffers (?m, ?B') (fss[i := as]) ((a # own) @ map fst L @ concat mss)"
    unfolding append_Cons by (rule used_buffers_take [OF D(3) i fit(2) tb_contentD(4) [OF D(5)] a(2) _ same])
      (use len hdr in simp)
  note used' = used_buffers_frames [OF used]
  have "po_ok (?m, ?B', K_PostOffice K) mss (fss[i := as])"
    using po_okD [OF D(4)] q(2) used'(2) by (simp add: po_ok_def del: set_concat)
  then have "kernel_ok (?m, ?B', K_PostOffice K, K_Timer K) mss L (fss[i := as])"
    by (rule kernel_ok_frame [OF D(2)]) (use used'(1) in simp_all)
  moreover have "accounted (m_top ?m) ((a # own) @ map fst L @ concat mss) (fss[i := as])"
    using D(9) distinct_concat_tl(3) [OF tb_contentD(4) [OF D(5)] i fit(2)] pooledI [OF i, of a] fit(2)
    unfolding accounted_def by auto
  ultimately show ?thesis
    using q(1) D(1,8) used same len
    by (intro exI [of _ ?B']) (simp add: k_ok_def GetBuffer_op_def)
qed

lemma RetBuffer_op_ok:
  assumes K: "k_ok K (a # own) mss L fss"
  shows "\<exists>m' B'. RetBuffer_op nd (Some a) (K, A) = Inr ((), K\<lparr>K_mem := m', K_Buffers := B'\<rparr>, A) \<and>
    k_ok (K\<lparr>K_mem := m', K_Buffers := B'\<rparr>) own mss L (give_back (m_code (K_mem K)) a fss) \<and>
    same_bytes (K_mem K) m' \<and> same_pool (K_Buffers K) B'"
proof -
  note D = k_okD [OF K]
  let ?m = "K_mem K" and ?B = "K_Buffers K" and ?fss = "give_back (m_code (K_mem K)) a fss"
  have a: "a \<notin> pooled fss" "in_pool (?m, ?B) a" using D(3) by (auto simp: used_buffers_def)
  from RetBuffer_gives_back [OF D(5) a, of nd] obtain m' B' where
    r: "RetBuffer nd (Some a) (?m, ?B) = Inr (m', B')" "tb_content (m', B') ?fss"
      "same_pool ?B B'" "same_bytes ?m m'"
      "\<forall>b. b \<noteq> a \<longrightarrow> b \<notin> pooled fss \<longrightarrow> m_next m' b = m_next ?m b" by blast
  have "used_buffers (?m, ?B) ?fss (own @ map fst L @ concat mss)"
    using used_buffers_give_back [OF _ D(5)] D(3) by simp
  then have used: "used_buffers (m', B') ?fss (own @ map fst L @ concat mss)"
    using used_buffers_same [OF r(4,3)] by blast
  note used' = used_buffers_frames [OF used]
  have nx: "m_next m' b = m_next ?m b" if "b \<in> set (map fst L) \<or> b \<in> set (concat mss)" for b
  proof -
    have "b \<noteq> a" using that D(3) by (auto simp: used_buffers_def)
    moreover have "b \<notin> pooled fss" using that D(3) unfolding used_buffers_def by auto
    ultimately show ?thesis using r(5) by blast
  qed
  have "mb_content (m', MailBoxes (K_PostOffice K) ! i) (mss ! i)" if i: "i < length mss" for i
  proof (rule mb_content_cong [THEN iffD2, OF _ po_okD(5) [OF D(4) i]])
    fix b assume "b \<in> set (mss ! i)"
    then have "b \<in> set (concat mss)" using pooledI [OF i] by (simp only: pooled_def)
    with nx show "m_next m' b = m_next ?m b" by blast
  qed
  then have "po_ok (m', B', K_PostOffice K) mss ?fss"
    using po_okD [OF D(4)] r(2) used'(2) by (simp add: po_ok_def del: set_concat)
  then have "kernel_ok (m', B', K_PostOffice K, K_Timer K) mss L ?fss"
    by (rule kernel_ok_frame [OF D(2) _ r(4)]) (use nx used'(1) in simp_all)
  moreover have "accounted (m_top m') (own @ map fst L @ concat mss) ?fss"
    using D(9) r(4) set_give_back [of "m_code ?m" a fss] in_pool_code [OF a(2) D(5)]
    unfolding accounted_def same_bytes_def by auto
  ultimately show ?thesis
    using r(1,3,4) D(1,8) used
    by (intro exI [of _ m'] exI [of _ B']) (simp add: k_ok_def RetBuffer_op_def)
qed

subsection \<open>Writing to an own buffer\<close>

lemma k_ok_write:
  assumes K: "k_ok K own mss L fss" and a: "a \<in> set own" and len: "length bs = length (bytes K a)"
  shows "k_ok (K\<lparr>K_mem := SetData a bs (K_mem K)\<rparr>) own mss L fss"
proof -
  note D = k_okD [OF K]
  let ?m = "SetData a bs (K_mem K)"
  have aL: "a \<notin> set (map fst L)" using D(3) a unfolding used_buffers_def by auto
  have "kernel_ok (?m, K_Buffers K, K_PostOffice K, K_Timer K) mss L fss"
  proof (rule kernel_ok_data [OF D(2)])
    fix b assume "b \<in> set (map fst L)"
    then have "b \<noteq> a" using aL by blast
    then show "timer_count ?m b = timer_count (K_mem K) b \<and>
        m_data ?m b ! TIMER_MBX_ID = bytes K b ! TIMER_MBX_ID"
      by (simp add: timer_count_def)
  qed (simp_all add: len)
  moreover have lens: "length (m_data ?m b) = length (bytes K b)" for b by (simp add: len)
  have rest: "m_top ?m = m_top (K_mem K)" "m_code ?m = m_code (K_mem K)" by simp_all
  have "used_buffers (?m, K_Buffers K) fss xs = used_buffers (K_mem K, K_Buffers K) fss xs" for xs
    unfolding used_buffers_def in_pool_def prod.case lens rest ..
  ultimately show ?thesis using D(1,3,8,9) by (simp add: k_ok_def)
qed

lemma SetData_twice [simp]: "SetData a x (SetData a y m) = SetData a x m"
  by (simp add: SetData_def)

lemma set_new_ok [simp]:
  "H_NewMessage A = Some a \<Longrightarrow> MSG_HEADER_LENGTH \<le> length (bytes K a) \<Longrightarrow>
   set_new f (K, A) = Inr ((), K\<lparr>K_mem := SetData a (f (bytes K a)) (K_mem K)\<rparr>, A)"
  by (simp add: set_new_def set_msg_def)

lemma get_new_ok [simp]:
  "H_NewMessage A = Some a \<Longrightarrow> MSG_HEADER_LENGTH \<le> length (bytes K a) \<Longrightarrow>
   get_new f (K, A) = Inr (f (bytes K a), K, A)"
  by (simp add: get_new_def)

lemma get_current_ok [simp]:
  "H_CurrentMessage A = Some a \<Longrightarrow> MSG_HEADER_LENGTH \<le> length (bytes K a) \<Longrightarrow>
   get_current f (K, A) = Inr (f (bytes K a), K, A)"
  by (simp add: get_current_def)

subsection \<open>Sending a message\<close>

lemma signals_add:
  assumes "signals sems mss" "i < length mss" "length sems = length mss"
  shows "signals (ReleaseSemaphore i sems) (mss[i := mss ! i @ [a]])"
  using assms by (auto simp: signals_def ReleaseSemaphore_def nth_list_update min_def split: if_splits)

lemma SendMessage_msg_ok:
  assumes K: "k_ok K (a # own) mss L fss" and mbx: "mbx < MailBoxesNum (K_PostOffice K)"
    and i: "i = unat mbx"
  shows "\<exists>m' P'. SendMessage_msg mbx (Some a) (K, A) = Inr ((), K\<lparr>K_mem := m', K_PostOffice := P'\<rparr>, A) \<and>
    k_ok (K\<lparr>K_mem := m', K_PostOffice := P'\<rparr>) own (mss[i := mss ! i @ [a]]) L fss \<and>
    same_bytes (K_mem K) m' \<and> MailBoxesNum P' = MailBoxesNum (K_PostOffice K) \<and>
    semHandle P' = ReleaseSemaphore i (semHandle (K_PostOffice K))"
proof -
  note D = k_okD [OF K]
  let ?m = "K_mem K" and ?B = "K_Buffers K" and ?mss = "mss[i := mss ! i @ [a]]"
  have il: "i < length mss" using mbx i D(6) by (simp add: word_less_nat_alt)
  have a: "used_buffers (?m, ?B) fss [a]" "a \<notin> set (concat mss)"
    using D(3) by (auto simp: used_buffers_def)
  from po_Add_correct [OF D(4) mbx a i] obtain m' P' where
    r: "po_Add mbx (Some a) (?m, ?B, K_PostOffice K) = Inr (m', ?B, P')" "po_ok (m', ?B, P') ?mss fss"
      "same_bytes ?m m'" "semHandle P' = ReleaseSemaphore i (semHandle (K_PostOffice K))"
      "MailBoxesNum P' = MailBoxesNum (K_PostOffice K)"
      "\<forall>b. b \<noteq> a \<longrightarrow> b \<notin> set (mss ! i) \<longrightarrow> m_next m' b = m_next ?m b" by blast
  have nx: "m_next m' b = m_next ?m b" if "b \<in> set (map fst L)" for b
  proof -
    have "b \<noteq> a" using that D(3) by (auto simp: used_buffers_def)
    moreover have "b \<notin> set (concat mss)" using that D(3) unfolding used_buffers_def by auto
    then have "b \<notin> set (mss ! i)" using pooledI [OF il] by (auto simp: pooled_def)
    ultimately show ?thesis using r(6) by blast
  qed
  have "mset (own @ map fst L @ concat ?mss) = mset ((a # own) @ map fst L @ concat mss)"
    using mset_concat_update [OF il, of "mss ! i @ [a]"] by (simp add: ac_simps)
  then have "used_buffers (?m, ?B) fss (own @ map fst L @ concat ?mss)"
    using D(3) used_buffers_mset by blast
  then have used: "used_buffers (m', ?B) fss (own @ map fst L @ concat ?mss)"
    using used_buffers_same [OF r(3) same_pool_refl] by blast
  then have "used_buffers (m', ?B) fss (map fst L @ concat ?mss)"
    by (rule used_buffers_subset)
  from kernel_ok_frame [OF D(2) r(2,3,5) nx this]
  have "kernel_ok (m', ?B, P', K_Timer K) ?mss L fss" by simp
  moreover have "signals (semHandle P') ?mss"
    using signals_add [OF D(8) il po_okD(4) [OF D(4)]] r(4) by simp
  moreover have "set (own @ map fst L @ concat ?mss) = set ((a # own) @ map fst L @ concat mss)"
    using \<open>mset (own @ map fst L @ concat ?mss) = mset ((a # own) @ map fst L @ concat mss)\<close>
    by (rule mset_eq_setD)
  then have "accounted (m_top m') (own @ map fst L @ concat ?mss) fss"
    using D(9) r(3) by (simp only: accounted_def same_bytes_def)
  ultimately show ?thesis
    using r(1,3-5) D(1) used
    by (intro exI [of _ m'] exI [of _ P']) (simp add: k_ok_def SendMessage_msg_def post_op_def)
qed

end
