(* ===== verification/SendOps.thy ===== *)
theory SendOps
  imports KernelOps
begin

text \<open>
  What an automaton sends.  \<open>kframe S K K'\<close>: the kernel has changed from \<open>K\<close> to \<open>K'\<close> in the bytes of
  the buffers \<open>S\<close>, the links and the contents of the queues only.  \<open>PrepareNewMessage\<close> takes a buffer
  and fills its header, \<open>send_to\<close> puts it into a mailbox.
\<close>

definition kframe :: "addr set \<Rightarrow> kernel \<Rightarrow> kernel \<Rightarrow> bool" where
  "kframe S K K' \<longleftrightarrow> (\<forall>c. c \<notin> S \<longrightarrow> bytes K' c = bytes K c) \<and>
     (\<forall>c. length (bytes K' c) = length (bytes K c)) \<and>
     m_code (K_mem K') = m_code (K_mem K) \<and> m_top (K_mem K') = m_top (K_mem K) \<and> same_pool (K_Buffers K) (K_Buffers K') \<and>
     MailBoxesNum (K_PostOffice K') = MailBoxesNum (K_PostOffice K) \<and>
     TimerResolution (K_Timer K') = TimerResolution (K_Timer K) \<and>
     K_LogingObject K' = K_LogingObject K \<and> K_SysLogFlag K' = K_SysLogFlag K \<and> K_Time K' = K_Time K"

lemma kframe_refl [simp]: "kframe S K K"
  by (simp add: kframe_def)

lemma kframe_trans: "kframe S K1 K2 \<Longrightarrow> kframe S' K2 K3 \<Longrightarrow> kframe (S \<union> S') K1 K3"
  by (simp add: kframe_def same_pool_def)

lemma kframe_mono: "kframe S K K' \<Longrightarrow> S \<subseteq> S' \<Longrightarrow> kframe S' K K'"
  by (auto simp: kframe_def)

lemma kframeD:
  assumes "kframe S K K'"
  shows "c \<notin> S \<Longrightarrow> bytes K' c = bytes K c" "length (bytes K' c) = length (bytes K c)"
    "m_code (K_mem K') = m_code (K_mem K)" "same_pool (K_Buffers K) (K_Buffers K')"
    "MailBoxesNum (K_PostOffice K') = MailBoxesNum (K_PostOffice K)"
    "log_ready K' = log_ready K" "fits_class (K_Buffers K') n i = fits_class (K_Buffers K) n i"
    "m_top (K_mem K') = m_top (K_mem K)" "TimerResolution (K_Timer K') = TimerResolution (K_Timer K)"
  using assms by (simp_all add: kframe_def log_ready_def same_pool_def fits_class_def)

lemma kframe_write: "length bs = length (bytes K a) \<Longrightarrow> kframe {a} K (K\<lparr>K_mem := SetData a bs (K_mem K)\<rparr>)"
  by (simp add: kframe_def)

text \<open>The header of a new message, and with the fields of its receiver and its sender.\<close>

definition new_header :: "u16 \<Rightarrow> u8 \<Rightarrow> u8 list \<Rightarrow> u8 list" where
  "new_header code ic bs = SetUint16 (SetUint16 (SetByte bs MSG_INFO_CODING ic) MSG_CODE code) MSG_LENGTH 0"

definition addressed :: "u8 \<Rightarrow> u32 \<Rightarrow> u8 list \<Rightarrow> u8 list" where
  "addressed automate obj bs = SetUint32 (SetByte bs MSG_TO_AUTOMATE automate) MSG_OBJECT_ID_TO obj"

definition from_self :: "'z api_scheme \<Rightarrow> u8 list \<Rightarrow> u8 list" where
  "from_self A bs = SetUint32 (SetByte (SetByte bs MSG_FROM_AUTOMATE (A_automateId A))
     MSG_FROM_GROUP (A_GroupId A)) MSG_OBJECT_ID_FROM (A_ConnectionId A)"

lemma length_headers [simp]:
  "length (new_header code ic bs) = length bs" "length (addressed au ob bs) = length bs"
  "length (from_self A bs) = length bs"
  by (simp_all add: new_header_def addressed_def from_self_def)

text \<open>\<open>is_message A code au ob bs\<close>: what the receiver reads of the header.\<close>

definition is_message :: "'z api_scheme \<Rightarrow> u16 \<Rightarrow> u8 \<Rightarrow> u32 \<Rightarrow> u8 list \<Rightarrow> bool" where
  "is_message A code au ob bs \<longleftrightarrow> GetUint16 bs MSG_CODE = code \<and> bs ! MSG_TO_AUTOMATE = au \<and>
     GetUint32 bs MSG_OBJECT_ID_TO = ob \<and> bs ! MSG_FROM_AUTOMATE = A_automateId A \<and>
     bs ! MSG_FROM_GROUP = A_GroupId A \<and> GetUint32 bs MSG_OBJECT_ID_FROM = A_ConnectionId A \<and>
     bs ! MSG_INFO_CODING = LOCAL_PARAM_CODING"

lemma sent_is_message:
  assumes "MSG_HEADER_LENGTH \<le> length bs"
  shows "is_message A code au ob (from_self A (addressed au ob (new_header code LOCAL_PARAM_CODING bs)))"
    "GetUint16 (from_self A (addressed au ob (new_header code LOCAL_PARAM_CODING bs))) MSG_LENGTH = 0"
proof -
  have "bs \<noteq> []" using assms by (auto simp: offset_defs)
  then show "is_message A code au ob (from_self A (addressed au ob (new_header code LOCAL_PARAM_CODING bs)))"
    "GetUint16 (from_self A (addressed au ob (new_header code LOCAL_PARAM_CODING bs))) MSG_LENGTH = 0"
    using assms unfolding is_message_def from_self_def addressed_def new_header_def
    by (simp_all add: mem_simps offset_defs)
qed

subsection \<open>\<open>PrepareNewMessage\<close>\<close>

lemma PrepareNewMessage_ok:
  assumes K: "k_ok K own mss L fss"
    and fit: "fits_class (K_Buffers K) (len + of_nat MSG_HEADER_LENGTH) i" "fss ! i = a # as"
    and len: "MSG_HEADER_LENGTH \<le> unat (len + of_nat MSG_HEADER_LENGTH :: u32)"
    and new: "nd \<or> H_NewMessage A = None"
  shows "\<exists>K'. PrepareNewMessage nd len code ic (K, A) =
      Inr ((), K', A\<lparr>H_NewMessage := Some a, H_If := (H_If A)\<lparr>NewMessage := Some a\<rparr>\<rparr>) \<and>
    k_ok K' (a # own) mss L (fss[i := as]) \<and> kframe {a} K K' \<and>
    bytes K' a = new_header code ic (bytes K a) \<and>
    unat (len + of_nat MSG_HEADER_LENGTH) \<le> length (bytes K' a)"
proof -
  from GetBuffer_op_ok [OF K fit len, of nd A] obtain B' where
    g: "GetBuffer_op nd (len + of_nat MSG_HEADER_LENGTH) (K, A) = Inr (a, K\<lparr>K_Buffers := B'\<rparr>, A)"
      "k_ok (K\<lparr>K_Buffers := B'\<rparr>) (a # own) mss L (fss[i := as])" "same_pool (K_Buffers K) B'"
      "unat (len + of_nat MSG_HEADER_LENGTH) \<le> length (bytes K a)" by blast
  let ?K = "K\<lparr>K_Buffers := B'\<rparr>" and ?bs = "new_header code ic (bytes K a)"
  let ?K' = "?K\<lparr>K_mem := SetData a ?bs (K_mem K)\<rparr>"
  have h: "MSG_HEADER_LENGTH \<le> length (bytes K a)" using g(4) len by simp
  have ok: "k_ok ?K' (a # own) mss L (fss[i := as])"
    using k_ok_write [OF g(2), of a ?bs] by simp
  have run: "PrepareNewMessage nd len code ic (K, A) =
      Inr ((), ?K', A\<lparr>H_NewMessage := Some a, H_If := (H_If A)\<lparr>NewMessage := Some a\<rparr>\<rparr>)"
  proof -
    have "asserts nd (\<lambda>(K, A). H_NewMessage A = None) (K, A) = Inr ((), K, A)"
      using new by (auto simp: asserts_def assertC_def)
    moreover have "bnd (GetBuffer_op nd (len + of_nat MSG_HEADER_LENGTH)) (\<lambda>a. SetNew (Some a)) (K, A) =
        Inr ((), ?K, A\<lparr>H_NewMessage := Some a\<rparr>)"
      using g(1) by (simp add: SetNew_def)
    ultimately show ?thesis
      using h by (simp add: PrepareNewMessage_def SetMsgInfoCoding_def SetMsgCode_def
          mh_SetMsgInfoLength_def GetNewMsgInfoCoding_def new_header_def msg_op_u_def msg_op_def
          if_PrepareNewMessage_def)
  qed
  have fr: "kframe {a} K ?K'" using g(3) by (simp add: kframe_def)
  have ln: "unat (len + of_nat MSG_HEADER_LENGTH) \<le> length (bytes ?K' a)" using g(4) by simp
  have bt: "bytes ?K' a = ?bs" by simp
  from run ok fr bt ln show ?thesis by blast
qed

text \<open>\<open>SetMsgToAutomate\<close> and \<open>SetMsgObjectNumberTo\<close> on a message that is being built.\<close>

lemma address_ok:
  assumes "H_NewMessage A = Some a" "MSG_HEADER_LENGTH \<le> length (bytes K a)"
  shows "run (SetMsgToAutomate au # SetMsgObjectNumberTo ob # fs) (K, A) =
    run fs (K\<lparr>K_mem := SetData a (addressed au ob (bytes K a)) (K_mem K)\<rparr>, A)"
  using assms by (simp add: SetMsgToAutomate_def SetMsgObjectNumberTo_def addressed_def)

lemma SendMessage_ok:
  assumes K: "k_ok K (a # own) mss L fss" and mbx: "mbx < MailBoxesNum (K_PostOffice K)"
    and A: "H_NewMessage A = Some a"
  shows "\<exists>K'. SendMessage mbx (K, A) = Inr ((), K', A\<lparr>H_NewMessage := None\<rparr>) \<and>
    k_ok K' own (mss[unat mbx := mss ! unat mbx @ [a]]) L fss \<and> kframe {a} K K' \<and>
    bytes K' a = from_self A (bytes K a)"
proof -
  let ?bs = "from_self A (bytes K a)"
  let ?K = "K\<lparr>K_mem := SetData a ?bs (K_mem K)\<rparr>"
  have h: "MSG_HEADER_LENGTH \<le> length (bytes K a)" using k_okD(7) [OF K, of a] by simp
  have ok: "k_ok ?K (a # own) mss L fss" using k_ok_write [OF K, of a ?bs] by simp
  from SendMessage_msg_ok [OF ok _ refl, of mbx A] mbx obtain m' P' where
    s: "SendMessage_msg mbx (Some a) (?K, A) = Inr ((), ?K\<lparr>K_mem := m', K_PostOffice := P'\<rparr>, A)"
      "k_ok (?K\<lparr>K_mem := m', K_PostOffice := P'\<rparr>) own (mss[unat mbx := mss ! unat mbx @ [a]]) L fss"
      "same_bytes (K_mem ?K) m'" "MailBoxesNum P' = MailBoxesNum (K_PostOffice K)" by auto
  let ?K' = "?K\<lparr>K_mem := m', K_PostOffice := P'\<rparr>"
  have d: "SetMessageFromData (K, A) = Inr ((), ?K, A)"
    using A h by (simp add: SetMessageFromData_def SetMsgFromAutomate_def SetMsgFromGroup_def
        SetMsgObjectNumberFrom_def from_self_def)
  have "post_new mbx (?K, A) = Inr ((), ?K', A\<lparr>H_NewMessage := None\<rparr>)"
    using s(1) A by (simp add: post_new_def SetNew_def)
  with d have run: "SendMessage mbx (K, A) = Inr ((), ?K', A\<lparr>H_NewMessage := None\<rparr>)"
    by (simp add: SendMessage_def)
  have fr: "kframe {a} K ?K'" using s(3,4) by (simp add: kframe_def same_bytes_def)
  have bt: "bytes ?K' a = ?bs" using s(3) by (simp add: same_bytes_def)
  from run s(2) fr bt show ?thesis by blast
qed

text \<open>A message without parameters: all four statements.\<close>

lemma send_to_ok:
  assumes K: "k_ok K own mss L fss"
    and fit: "fits_class (K_Buffers K) (of_nat MSG_HEADER_LENGTH) i" "fss ! i = a # as"
    and new: "nd \<or> H_NewMessage A = None" and mbx: "mbx < MailBoxesNum (K_PostOffice K)"
  shows "\<exists>K'. send_to nd code au mbx (K, A) =
      Inr ((), K', A\<lparr>H_NewMessage := None, H_If := (H_If A)\<lparr>NewMessage := Some a\<rparr>\<rparr>) \<and>
    k_ok K' own (mss[unat mbx := mss ! unat mbx @ [a]]) L (fss[i := as]) \<and> kframe {a} K K' \<and>
    is_message A code au 0 (bytes K' a) \<and> GetUint16 (bytes K' a) MSG_LENGTH = 0"
proof -
  have "MSG_HEADER_LENGTH \<le> unat (0 + of_nat MSG_HEADER_LENGTH :: u32)" by (simp add: offset_defs)
  from PrepareNewMessage_ok [OF K _ fit(2) this new, where code = code and ic = LOCAL_PARAM_CODING] fit(1)
  obtain K1 where 1: "PrepareNewMessage nd 0 code LOCAL_PARAM_CODING (K, A) =
      Inr ((), K1, A\<lparr>H_NewMessage := Some a, H_If := (H_If A)\<lparr>NewMessage := Some a\<rparr>\<rparr>)"
    "k_ok K1 (a # own) mss L (fss[i := as])" "kframe {a} K K1"
    "bytes K1 a = new_header code LOCAL_PARAM_CODING (bytes K a)" by auto
  let ?A1 = "A\<lparr>H_NewMessage := Some a, H_If := (H_If A)\<lparr>NewMessage := Some a\<rparr>\<rparr>"
  let ?bs = "addressed au 0 (bytes K1 a)"
  let ?K2 = "K1\<lparr>K_mem := SetData a ?bs (K_mem K1)\<rparr>"
  have h: "MSG_HEADER_LENGTH \<le> length (bytes K1 a)" using k_okD(7) [OF 1(2), of a] by simp
  have 2: "k_ok ?K2 (a # own) mss L (fss[i := as])" using k_ok_write [OF 1(2), of a ?bs] by simp
  have m2: "mbx < MailBoxesNum (K_PostOffice ?K2)" using mbx kframeD(5) [OF 1(3)] by simp
  from SendMessage_ok [OF 2 m2, of ?A1] obtain K3 where
    3: "SendMessage mbx (?K2, ?A1) = Inr ((), K3, ?A1\<lparr>H_NewMessage := None\<rparr>)"
      "k_ok K3 own (mss[unat mbx := mss ! unat mbx @ [a]]) L (fss[i := as])" "kframe {a} ?K2 K3"
      "bytes K3 a = from_self ?A1 (bytes ?K2 a)" by auto
  have fr: "kframe {a} K K3"
    using kframe_trans [OF kframe_trans [OF 1(3) kframe_write [of ?bs K1 a]] 3(3)] by simp
  have b: "bytes K3 a = from_self A (addressed au 0 (new_header code LOCAL_PARAM_CODING (bytes K a)))"
    using 3(4) 1(4) by (simp add: from_self_def)
  have "MSG_HEADER_LENGTH \<le> length (bytes K a)" using h 1(4) by simp
  note msg = sent_is_message [OF this, where A = A and code = code and au = au and ob = 0]
  have "send_to nd code au mbx (K, A) = Inr ((), K3, A\<lparr>H_NewMessage := None, H_If := (H_If A)\<lparr>NewMessage := Some a\<rparr>\<rparr>)"
    using 1(1) 3(1) address_ok [of ?A1 a K1 au 0 "[SendMessage mbx]"] h by (simp add: send_to_def)
  with 3(2) fr b msg show ?thesis by auto
qed

end
