(* ===== verification/ParamOps.thy ===== *)
theory ParamOps
  imports SendOps
begin

text \<open>
  Parameters through \<open>MessageHandler\<close>: the first parameter of a new message, which starts with
  the length 0 and no end marker, the buffer \<open>CheckBufferSize\<close> chooses for it, and what the receiver
  of the message copies out of it.
\<close>

subsection \<open>The first parameter\<close>

lemma SetEND_has_params:
  assumes "info_length bs = 0" "MSG_HEADER_LENGTH + 2 \<le> length bs"
  shows "\<exists>bs'. SetENDOfParams_at f bs = Inr bs' \<and> has_params f bs' [] \<and> length bs' = length bs \<and>
    take MSG_LENGTH bs' = take MSG_LENGTH bs"
proof -
  define h where "h = take MSG_HEADER_LENGTH bs"
  define r where "r = drop MSG_HEADER_LENGTH bs"
  have bs: "bs = h @ r" and h: "length h = MSG_HEADER_LENGTH" and r: "2 \<le> length r"
    using assms(2) by (simp_all add: h_def r_def)
  let ?w = "wr f bs MSG_HEADER_LENGTH 0"
  define k where "k = PARAM_LENGTH_OFFSET f"
  have k: "k \<le> 2" by (cases f) (simp_all add: k_def)
  have w: "?w = h @ field_bytes f 0 @ drop k r"
  proof -
    obtain x y zs where "r = x # y # zs" using r by (metis One_nat_def Suc_1 Suc_le_length_iff)
    then show ?thesis
      using h by (cases f) (simp_all add: bs k_def SetByte_def SetUint16_def le16_def list_update_append)
  qed
  have il: "info_length ?w = 0"
    unfolding w using assms(1) info_length_header(2) [OF h] by (simp add: bs)
  let ?bs = "SetUint16 ?w MSG_LENGTH 2"
  have out: "?bs = SetUint16 h MSG_LENGTH 2 @ field_bytes f 0 @ drop k r"
    unfolding w by (rule info_length_header(3) [OF h])
  have "\<exists>h r. length h = MSG_HEADER_LENGTH \<and> ?bs = h @ enc f [] @ field_bytes f 0 @ r \<and>
      2 \<le> PARAM_LENGTH_OFFSET f + length r"
    by (rule exI [of _ "SetUint16 h MSG_LENGTH 2"], rule exI [of _ "drop k r"])
      (use h r k in \<open>simp add: out k_def\<close>)
  moreover have "unat (info_length ?bs) = length (enc f []) + 2"
    unfolding w info_length_header(1) [OF h] by simp
  ultimately have "has_params f ?bs []" by (simp add: has_params_def)
  moreover have "length ?bs = length (h @ r)" using r k unfolding out by (simp add: k_def)
  then have "length ?bs = length bs" by (simp only: bs)
  moreover have "take MSG_LENGTH ?bs = take MSG_LENGTH (h @ r)"
    using h unfolding out by (simp add: SetUint16_def offset_defs)
  then have "take MSG_LENGTH ?bs = take MSG_LENGTH bs" by (simp only: bs)
  moreover have "SetENDOfParams_at f bs = Inr ?bs"
    using assms k il by (simp add: SetENDOfParams_at_def k_def Let_def)
  ultimately show ?thesis by blast
qed

lemma AddParam_at_empty:
  assumes "info_length bs = 0" "SetENDOfParams_at f bs = Inr bs'" "has_params f bs' []"
  shows "AddParam_at f nd bs c n v = AddParam_at f nd bs' c n v"
proof -
  from assms(3) obtain h r where B: "length h = MSG_HEADER_LENGTH" "bs' = h @ enc f [] @ field_bytes f 0 @ r"
    "unat (info_length bs') = length (enc f []) + 2" by (rule has_paramsE)
  have "place_loop f nd bs' c 0 MSG_INFO 0 = Inr (MSG_INFO, 0)"
    using place_loop_at [of "[]" f bs' h r MSG_INFO nd 0 0 c] B(1,2) by (simp add: offset_defs)
  then have "FindParamPlace_at f nd bs c 0 = FindParamPlace_at f nd bs' c 0"
    using place_at [OF assms(3), of nd c] assms(1,2) by (simp add: FindParamPlace_at_def)
  then show ?thesis by (simp add: AddParam_at_def)
qed

text \<open>Only the first bytes of the memory at \<open>param\<close> are read.\<close>

lemma AddParam_at_prefix:
  assumes "unat n = length v"
  shows "AddParam_at f nd bs c n (v @ w) = AddParam_at f nd bs c n v"
proof -
  have "mem_range (v @ w) 0 n = mem_range v 0 n" using assms by (simp add: mem_range_def)
  then show ?thesis by (simp only: AddParam_at_def)
qed

lemma AddParam_first:
  assumes "info_length bs = 0" and p: "param_ok f (c, v)"
    and room: "MSG_HEADER_LENGTH + 2 + length (enc_param f (c, v)) \<le> length bs"
    and len: "2 + length (enc_param f (c, v)) < 2 ^ 16"
  shows "\<exists>off bs'. AddParam_at f nd bs c (of_nat (length v)) (v @ w) = Inr (off, bs') \<and>
    has_params f bs' [(c, v)] \<and> length bs' = length bs \<and> take MSG_LENGTH bs' = take MSG_LENGTH bs"
proof -
  from SetEND_has_params [OF assms(1), of f] room obtain b where
    b: "SetENDOfParams_at f bs = Inr b" "has_params f b []" "length b = length bs"
      "take MSG_LENGTH b = take MSG_LENGTH bs" by auto
  have "ins_param (c, v) [] = [(c, v)]" by (simp add: ins_param_def after_code_def)
  with AddParam_inserts [OF b(2) p, of nd] room len b(3,4) obtain off bs' where
    a: "AddParam_at f nd b c (of_nat (length v)) v = Inr (off, bs')" "has_params f bs' [(c, v)]"
      "length bs' = length bs" "take MSG_LENGTH bs' = take MSG_LENGTH bs" by auto
  have "unat (of_nat (length v) :: u32) = length v" using p in_field_len [of f "length v"] by simp
  with a(1) have "AddParam_at f nd bs c (of_nat (length v)) (v @ w) = Inr (off, bs')"
    by (simp add: AddParam_at_prefix AddParam_at_empty [OF assms(1) b(1,2)])
  with a(2-4) show ?thesis by blast
qed

subsection \<open>The sender's header survives\<close>

lemma take_updates:
  "take n (SetByte bs i b) = SetByte (take n bs) i b"
  "take n (SetUint16 bs i v) = SetUint16 (take n bs) i v"
  "take n (SetUint32 bs i w) = SetUint32 (take n bs) i w"
  by (simp_all add: SetByte_def SetUint16_def SetUint32_def take_update_swap)

lemma is_message_take:
  assumes "take MSG_LENGTH bs' = take MSG_LENGTH bs" "is_message A code au ob bs"
  shows "is_message A code au ob bs'"
proof -
  have "bs' ! i = bs ! i" if "i < MSG_LENGTH" for i
    using assms(1) that by (metis nth_take)
  then show ?thesis
    using assms(2) by (simp add: is_message_def GetUint16_def GetUint32_def offset_defs)
qed

lemma from_self_take: "take n (from_self A bs) = from_self A (take n bs)"
  by (simp add: from_self_def take_updates)

lemma from_self_params: "has_params f (from_self A bs) ps = has_params f bs ps"
proof -
  have d: "drop MSG_LENGTH (from_self A bs) = drop MSG_LENGTH bs"
    by (simp add: from_self_def SetByte_def SetUint32_def offset_defs)
  have 1: "drop MSG_HEADER_LENGTH (from_self A bs) = drop MSG_HEADER_LENGTH bs"
    using arg_cong [OF d, of "drop 2"] by (simp add: offset_defs)
  have 2: "info_length (from_self A bs) = info_length bs"
    by (simp add: info_length_def from_self_def mem_simps offset_defs)
  have "has_params f xs ps \<longleftrightarrow> (\<forall>p \<in> set ps. param_ok f p) \<and>
     unat (info_length xs) = length (enc f ps) + 2 \<and> MSG_HEADER_LENGTH \<le> length xs \<and>
     (\<exists>r. drop MSG_HEADER_LENGTH xs = enc f ps @ field_bytes f 0 @ r \<and>
        2 \<le> PARAM_LENGTH_OFFSET f + length r)" for xs
  proof -
    have "(\<exists>h r. length h = n \<and> xs = h @ ys @ r \<and> P r) \<longleftrightarrow> n \<le> length xs \<and> (\<exists>r. drop n xs = ys @ r \<and> P r)"
      for n ys and P :: "u8 list \<Rightarrow> bool"
      by (auto simp: append_eq_conv_conj) (metis append_take_drop_id length_take min.absorb2)
    from this [of MSG_HEADER_LENGTH "enc f ps @ field_bytes f 0" "\<lambda>r. 2 \<le> PARAM_LENGTH_OFFSET f + length r"]
    show ?thesis by (simp add: has_params_def)
  qed
  from this [of "from_self A bs"] this [of bs] 1 2 show ?thesis by simp
qed

subsection \<open>The buffer of the parameter\<close>

lemma k_ok_own: "mset own' = mset own \<Longrightarrow> k_ok K own mss L fss \<Longrightarrow> k_ok K own' mss L fss"
  using used_buffers_mset [of "own' @ map fst L @ concat mss" "own @ map fst L @ concat mss"]
    mset_eq_setD [of own' own]
  by (simp add: k_ok_def accounted_def del: set_concat)

lemma buffer_length:
  assumes "k_ok K own mss L fss" "a \<in> set own"
  shows "GetBufferLength (Some a) (K, A) = Inr (of_nat (length (bytes K a)), K, A)"
    and "length (bytes K a) < 2 ^ 32"
proof -
  have p: "m_code (K_mem K) a < ClassBufferNum (K_Buffers K)"
    "length (bytes K a) = unat (BuffersLength (K_Buffers K) ! unat (m_code (K_mem K) a))"
    using k_okD(3) [OF assms(1)] assms(2) by (auto simp: used_buffers_def in_pool_def)
  show "GetBufferLength (Some a) (K, A) = Inr (of_nat (length (bytes K a)), K, A)"
    using p k_okD(1) [OF assms(1)] by (simp add: GetBufferLength_def GetLength_buff_def not_le [symmetric])
  have "unat (BuffersLength (K_Buffers K) ! unat (m_code (K_mem K) a)) < 2 ^ LENGTH(32)"
    by (rule unsigned_less)
  with p(2) show "length (bytes K a) < 2 ^ 32" by simp
qed

lemma IsBufferSmall_ok:
  assumes "k_ok K own mss L fss" "a \<in> set own"
  shows "IsBufferSmall (Some a) n (K, A) = Inr (length (bytes K a) \<le> unat n, K, A)"
proof -
  have "unat (of_nat (length (bytes K a)) :: u32) = length (bytes K a)"
    using buffer_length(2) [OF assms] by (intro unat_of_nat_less) simp
  with buffer_length(1) [OF assms, of A] show ?thesis
    by (simp add: IsBufferSmall_def word_le_nat_alt)
qed

lemma grow_ok:
  assumes K: "k_ok K (a # own) mss L fss" and A: "H_NewMessage A = Some a"
    and il: "info_length (bytes K a) = 0" and n: "unat n < 2 ^ 16"
    and fit: "fits_class (K_Buffers K) (n + 31) j" "fss ! j = b # bs"
  shows "\<exists>K' fss'. grow nd n (K, A) =
      Inr ((), K', A\<lparr>H_NewMessage := Some b, H_If := (H_If A)\<lparr>NewMessage := Some b\<rparr>\<rparr>) \<and>
    k_ok K' (b # own) mss L fss' \<and> kframe {b} K K' \<and>
    take MSG_HEADER_LENGTH (bytes K' b) = take MSG_HEADER_LENGTH (bytes K a) \<and>
    unat n + 31 \<le> length (bytes K' b)"
proof -
  have n31: "unat (n + 31) = unat n + 31" using n by (simp add: unat_word_ariths)
  have len: "ucast (0 :: u16) + of_nat MSG_HEADER_LENGTH + n + 10 = n + 31" by (simp add: offset_defs)
  have a: "MSG_HEADER_LENGTH \<le> length (bytes K a)" using k_okD(7) [OF K, of a] by simp
  have g: "mh_GetNewMsgInfoLength (K, A) = Inr (0, K, A)"
    using A a il by (simp add: mh_GetNewMsgInfoLength_def info_length_def)
  from GetBuffer_op_ok [OF K fit, of nd A] n31 obtain B1 where
    1: "GetBuffer_op nd (n + 31) (K, A) = Inr (b, K\<lparr>K_Buffers := B1\<rparr>, A)"
      "k_ok (K\<lparr>K_Buffers := B1\<rparr>) (b # a # own) mss L (fss[j := bs])" "same_pool (K_Buffers K) B1"
      "unat n + 31 \<le> length (bytes K b)" by (auto simp: offset_defs)
  let ?K1 = "K\<lparr>K_Buffers := B1\<rparr>" and ?c = "copy_bytes 0 MSG_HEADER_LENGTH (bytes K a) (bytes K b)"
  have b: "MSG_HEADER_LENGTH \<le> length (bytes K b)" using 1(4) by (simp add: offset_defs)
  have c: "length ?c = length (bytes K b)" "take MSG_HEADER_LENGTH ?c = take MSG_HEADER_LENGTH (bytes K a)"
    using a b by (simp_all add: copy_bytes_def)
  let ?K2 = "?K1\<lparr>K_mem := SetData b ?c (K_mem K)\<rparr>"
  have 2: "k_ok ?K2 (b # a # own) mss L (fss[j := bs])"
    using k_ok_write [OF 1(2), of b ?c] c(1) by simp
  have "mset (a # b # own) = mset (b # a # own)" by simp
  from RetBuffer_op_ok [OF k_ok_own [OF this 2], of nd A] obtain m' B' where
    3: "RetBuffer_op nd (Some a) (?K2, A) = Inr ((), ?K2\<lparr>K_mem := m', K_Buffers := B'\<rparr>, A)"
      "k_ok (?K2\<lparr>K_mem := m', K_Buffers := B'\<rparr>) (b # own) mss L
        (give_back (m_code (K_mem ?K2)) a (fss[j := bs]))"
      "same_bytes (K_mem ?K2) m'" "same_pool (K_Buffers ?K2) B'" by blast
  let ?K3 = "?K2\<lparr>K_mem := m', K_Buffers := B'\<rparr>"
  have d: "bytes ?K3 = (bytes K)(b := ?c)" "m_code (K_mem ?K3) = m_code (K_mem K)"
    "m_top (K_mem ?K3) = m_top (K_mem K)"
    using 3(3) by (simp_all add: same_bytes_def)
  have "copy_msg 0 (unat (0 :: u16) + MSG_HEADER_LENGTH) a b (K_mem ?K1) = Inr (SetData b ?c (K_mem K))"
    using a b by (simp add: copy_msg_def)
  then have run: "grow nd n (K, A) =
      Inr ((), ?K3, A\<lparr>H_NewMessage := Some b, H_If := (H_If A)\<lparr>NewMessage := Some b\<rparr>\<rparr>)"
    using 1(1) 3(1) A b c(1) d(1) g len
    by (simp add: grow_def SetNew_def GetNewMsgInfoCoding_def msg_op_u_def msg_op_def SetNewMessage_def add.commute [of 31 n])
  have fr: "kframe {b} K ?K3"
    using d c(1) 1(3) 3(4) same_pool_trans [of "K_Buffers K" B1 B'] by (simp add: kframe_def)
  have t: "take MSG_HEADER_LENGTH (bytes ?K3 b) = take MSG_HEADER_LENGTH (bytes K a)"
    "unat n + 31 \<le> length (bytes ?K3 b)" using d c 1(4) by simp_all
  from run 3(2) fr t show ?thesis by blast
qed

lemma CheckBufferSize_ok:
  assumes K: "k_ok K (a # own) mss L fss" and A: "H_NewMessage A = Some a" "NewMessage (H_If A) = Some a"
    and il: "info_length (bytes K a) = 0" and n: "unat n < 2 ^ 16"
    and small: "length (bytes K a) \<le> unat n + 29 \<Longrightarrow>
      \<exists>j b bs. fits_class (K_Buffers K) (n + 31) j \<and> fss ! j = b # bs"
  shows "\<exists>K' b fss'. CheckBufferSize nd n (K, A) =
      Inr ((), K', A\<lparr>H_NewMessage := Some b, H_If := (H_If A)\<lparr>NewMessage := Some b\<rparr>\<rparr>) \<and>
    k_ok K' (b # own) mss L fss' \<and> kframe {b} K K' \<and>
    take MSG_HEADER_LENGTH (bytes K' b) = take MSG_HEADER_LENGTH (bytes K a) \<and>
    unat n + 29 < length (bytes K' b) \<and>
    (unat n + 29 < length (bytes K a) \<longrightarrow> b = a \<and> fss' = fss)"
proof -
  have a: "MSG_HEADER_LENGTH \<le> length (bytes K a)" using k_okD(7) [OF K, of a] by simp
  have "mh_GetNewMsgInfoLength (K, A) = Inr (0, K, A)"
    using A a il by (simp add: mh_GetNewMsgInfoLength_def info_length_def)
  moreover have "ucast (0 :: u16) + of_nat MSG_HEADER_LENGTH + n + 8 = n + 29" by (simp add: offset_defs)
  moreover have "unat (n + 29) = unat n + 29" using n by (simp add: unat_word_ariths)
  ultimately have c: "CheckBufferSize nd n (K, A) =
      (if length (bytes K a) \<le> unat n + 29 then grow nd n (K, A) else Inr ((), K, A))"
    using IsBufferSmall_ok [OF K, of a "n + 29" A] A by (simp add: CheckBufferSize_def add.commute [of 29 n])
  show ?thesis
  proof (cases "length (bytes K a) \<le> unat n + 29")
    case True
    from small [OF this] obtain j b bs where "fits_class (K_Buffers K) (n + 31) j" "fss ! j = b # bs" by blast
    from grow_ok [OF K A(1) il n this, of nd] obtain K' fss' where
      g: "grow nd n (K, A) =
        Inr ((), K', A\<lparr>H_NewMessage := Some b, H_If := (H_If A)\<lparr>NewMessage := Some b\<rparr>\<rparr>)"
      "k_ok K' (b # own) mss L fss'" "kframe {b} K K'"
      "take MSG_HEADER_LENGTH (bytes K' b) = take MSG_HEADER_LENGTH (bytes K a)"
      "unat n + 31 \<le> length (bytes K' b)" by blast
    then have "unat n + 29 < length (bytes K' b)" by simp
    with g(1-4) True c show ?thesis by auto
  next
    case False
    have "A\<lparr>H_NewMessage := Some a, H_If := (H_If A)\<lparr>NewMessage := Some a\<rparr>\<rparr> = A"
      using A by simp
    with False K c show ?thesis by (intro exI [of _ K] exI [of _ a] exI [of _ fss]) simp
  qed
qed

subsection \<open>Sending a message with a parameter\<close>

text \<open>The first three statements of every sender.\<close>

definition prepared :: "bool \<Rightarrow> u16 \<Rightarrow> u8 \<Rightarrow> ('z, unit) aop list" where
  "prepared nd code au = [PrepareNewMessage nd 0 code LOCAL_PARAM_CODING, SetMsgToAutomate au, SetMsgObjectNumberTo 0]"

lemma prepared_ok:
  assumes K: "k_ok K own mss L fss"
    and fit: "fits_class (K_Buffers K) (of_nat MSG_HEADER_LENGTH) i" "fss ! i = a # as"
    and new: "nd \<or> H_NewMessage A = None"
  shows "\<exists>K'. run (prepared nd code au) (K, A) =
      Inr ((), K', A\<lparr>H_NewMessage := Some a, H_If := (H_If A)\<lparr>NewMessage := Some a\<rparr>\<rparr>) \<and>
    k_ok K' (a # own) mss L (fss[i := as]) \<and> kframe {a} K K' \<and> info_length (bytes K' a) = 0 \<and>
    (\<forall>bs. take MSG_LENGTH bs = take MSG_LENGTH (bytes K' a) \<longrightarrow> is_message A code au 0 (from_self A bs))"
proof -
  have h: "MSG_HEADER_LENGTH \<le> unat (0 + of_nat MSG_HEADER_LENGTH :: u32)" by (simp add: offset_defs)
  from PrepareNewMessage_ok [OF K _ fit(2) h new, where code = code and ic = LOCAL_PARAM_CODING] fit(1)
  obtain K1 where 1: "PrepareNewMessage nd 0 code LOCAL_PARAM_CODING (K, A) =
      Inr ((), K1, A\<lparr>H_NewMessage := Some a, H_If := (H_If A)\<lparr>NewMessage := Some a\<rparr>\<rparr>)"
    "k_ok K1 (a # own) mss L (fss[i := as])" "kframe {a} K K1"
    "bytes K1 a = new_header code LOCAL_PARAM_CODING (bytes K a)" by auto
  let ?A1 = "A\<lparr>H_NewMessage := Some a, H_If := (H_If A)\<lparr>NewMessage := Some a\<rparr>\<rparr>"
  let ?bs = "addressed au 0 (bytes K1 a)"
  let ?K2 = "K1\<lparr>K_mem := SetData a ?bs (K_mem K1)\<rparr>"
  have ln: "MSG_HEADER_LENGTH \<le> length (bytes K1 a)" using k_okD(7) [OF 1(2), of a] by simp
  have run: "run (prepared nd code au) (K, A) = Inr ((), ?K2, ?A1)"
    using 1(1) address_ok [of ?A1 a K1 au 0 "[]"] ln by (simp add: prepared_def)
  have 2: "k_ok ?K2 (a # own) mss L (fss[i := as])" using k_ok_write [OF 1(2), of a ?bs] by simp
  have fr: "kframe {a} K ?K2" using kframe_trans [OF 1(3) kframe_write [of ?bs K1 a]] by simp
  have ln0: "MSG_HEADER_LENGTH \<le> length (bytes K a)" using ln 1(4) by simp
  have il: "info_length (bytes ?K2 a) = 0"
    using ln0 by (simp add: 1(4) info_length_def addressed_def new_header_def mem_simps offset_defs)
  have "is_message A code au 0 (from_self A bs)"
    if t: "take MSG_LENGTH bs = take MSG_LENGTH (bytes ?K2 a)" for bs
  proof -
    have "take MSG_LENGTH (from_self A bs) =
        take MSG_LENGTH (from_self A (addressed au 0 (new_header code LOCAL_PARAM_CODING (bytes K a))))"
      using t unfolding from_self_take by (simp add: 1(4))
    then show ?thesis
      using is_message_take sent_is_message(1) [OF ln0, where A = A and code = code and au = au and ob = 0] by blast
  qed
  with run 2 fr il show ?thesis by blast
qed

lemma mh_AddParam_ok:
  assumes K: "k_ok K (a # own) mss L fss" and A: "H_NewMessage A = Some a" "NewMessage (H_If A) = Some a"
    and il: "info_length (bytes K a) = 0" and p: "param_ok (H_codec A) (c, v)" and len: "length v < 65000"
    and n: "n = of_nat (length v)"
    and small: "length (bytes K a) \<le> length v + 29 \<Longrightarrow>
      \<exists>j b bs. fits_class (K_Buffers K) (n + 31) j \<and> fss ! j = b # bs"
  shows "\<exists>K' b fss' off. mh_AddParam nd c n (v @ w) (K, A) =
      Inr (Some b, K', A\<lparr>H_NewMessage := Some b, H_If := (H_If A)\<lparr>NewMessage := Some b, CurrentOffset := off\<rparr>\<rparr>) \<and>
    k_ok K' (b # own) mss L fss' \<and> kframe {b} K K' \<and> has_params (H_codec A) (bytes K' b) [(c, v)] \<and>
    take MSG_LENGTH (bytes K' b) = take MSG_LENGTH (bytes K a) \<and>
    (length v + 29 < length (bytes K a) \<longrightarrow> b = a \<and> fss' = fss)"
proof -
  have un: "unat n = length v" unfolding n using len by (intro unat_of_nat_less) simp
  have n16: "unat n < 2 ^ 16" using un len by simp
  from CheckBufferSize_ok [OF K A il n16, of nd] small un obtain K1 b fss1 where
    1: "CheckBufferSize nd n (K, A) =
        Inr ((), K1, A\<lparr>H_NewMessage := Some b, H_If := (H_If A)\<lparr>NewMessage := Some b\<rparr>\<rparr>)"
      "k_ok K1 (b # own) mss L fss1" "kframe {b} K K1"
      "take MSG_HEADER_LENGTH (bytes K1 b) = take MSG_HEADER_LENGTH (bytes K a)"
      "length v + 29 < length (bytes K1 b)"
      "length v + 29 < length (bytes K a) \<longrightarrow> b = a \<and> fss1 = fss" by metis
  let ?A1 = "A\<lparr>H_NewMessage := Some b, H_If := (H_If A)\<lparr>NewMessage := Some b\<rparr>\<rparr>"
  have h: "PARAM_HEADER_LENGTH f \<le> 4" for f by (cases f) simp_all
  have il1: "info_length (bytes K1 b) = 0"
  proof -
    have nth: "bytes K1 b ! i = bytes K a ! i" if "i < MSG_HEADER_LENGTH" for i
      using 1(4) that by (metis nth_take)
    show ?thesis using il nth [of MSG_LENGTH] nth [of "MSG_LENGTH + 1"]
      by (simp add: info_length_def GetUint16_def offset_defs)
  qed
  have room: "MSG_HEADER_LENGTH + 2 + length (enc_param (H_codec A) (c, v)) \<le> length (bytes K1 b)"
    "2 + length (enc_param (H_codec A) (c, v)) < 2 ^ 16"
    using 1(5) h [of "H_codec A"] len by (simp_all add: offset_defs)
  from AddParam_first [OF il1 p room, of nd w] obtain off bs where
    2: "AddParam_at (H_codec A) nd (bytes K1 b) c n (v @ w) = Inr (off, bs)"
      "has_params (H_codec A) bs [(c, v)]" "length bs = length (bytes K1 b)"
      "take MSG_LENGTH bs = take MSG_LENGTH (bytes K1 b)" unfolding n by blast
  let ?K2 = "K1\<lparr>K_mem := SetData b bs (K_mem K1)\<rparr>"
  have ln: "MSG_HEADER_LENGTH \<le> length (bytes K1 b)" using k_okD(7) [OF 1(2), of b] by simp
  have run: "mh_AddParam nd c n (v @ w) (K, A) =
      Inr (Some b, ?K2, A\<lparr>H_NewMessage := Some b, H_If := (H_If A)\<lparr>NewMessage := Some b, CurrentOffset := off\<rparr>\<rparr>)"
    using 1(1) 2(1) ln by (simp add: mh_AddParam_def GetNewMsgInfoCoding_def codec_op_def msg_op_def
        AddParam_def on_new_def)
  have 3: "k_ok ?K2 (b # own) mss L fss1" using k_ok_write [OF 1(2), of b bs] 2(3) by simp
  have fr: "kframe {b} K ?K2" using kframe_trans [OF 1(3) kframe_write [of bs K1 b]] 2(3) by simp
  have "take MSG_LENGTH (bytes ?K2 b) = take MSG_LENGTH (bytes K a)"
    using 2(4) arg_cong [OF 1(4), of "take MSG_LENGTH"] by (simp add: offset_defs)
  with run 3 fr 2(2) 1(6) show ?thesis by fastforce
qed

text \<open>
  A whole message with one parameter, from \<open>PrepareNewMessage\<close> to the mailbox; the statement that
  adds the parameter is \<open>add\<close>, since the automata compute its length there.
\<close>

lemma send_param_ok:
  assumes K: "k_ok K own mss L fss"
    and fit: "fits_class (K_Buffers K) (of_nat MSG_HEADER_LENGTH) i" "fss ! i = a # as"
    and new: "nd \<or> H_NewMessage A = None" and mbx: "mbx < MailBoxesNum (K_PostOffice K)"
    and p: "param_ok (H_codec A) (c, v)" and len: "length v < 65000"
    and small: "length (bytes K a) \<le> length v + 29 \<Longrightarrow>
      \<exists>j b bs. fits_class (K_Buffers K) (of_nat (length v) + 31) j \<and> fss[i := as] ! j = b # bs"
    and add: "\<And>K1 A1. A1 = A\<lparr>H_NewMessage := Some a, H_If := (H_If A)\<lparr>NewMessage := Some a\<rparr>\<rparr> \<Longrightarrow>
      add (K1, A1) = bnd (mh_AddParam nd c (of_nat (length v)) (v @ w)) (\<lambda>_. ret ()) (K1, A1)"
  shows "\<exists>K' b fss' off. run (prepared nd code au @ [add, SendMessage mbx]) (K, A) =
      Inr ((), K', A\<lparr>H_NewMessage := None, H_If := (H_If A)\<lparr>NewMessage := Some b, CurrentOffset := off\<rparr>\<rparr>) \<and>
    k_ok K' own (mss[unat mbx := mss ! unat mbx @ [b]]) L fss' \<and> kframe {a, b} K K' \<and>
    is_message A code au 0 (bytes K' b) \<and> has_params (H_codec A) (bytes K' b) [(c, v)] \<and>
    (length v + 29 < length (bytes K a) \<longrightarrow> b = a \<and> fss' = fss[i := as])"
proof -
  from prepared_ok [OF K fit new, of code au] obtain K1 where
    1: "run (prepared nd code au) (K, A) =
        Inr ((), K1, A\<lparr>H_NewMessage := Some a, H_If := (H_If A)\<lparr>NewMessage := Some a\<rparr>\<rparr>)"
      "k_ok K1 (a # own) mss L (fss[i := as])" "kframe {a} K K1" "info_length (bytes K1 a) = 0"
      "\<forall>bs. take MSG_LENGTH bs = take MSG_LENGTH (bytes K1 a) \<longrightarrow> is_message A code au 0 (from_self A bs)"
    by blast
  define A1 where "A1 = A\<lparr>H_NewMessage := Some a, H_If := (H_If A)\<lparr>NewMessage := Some a\<rparr>\<rparr>"
  have A1: "H_NewMessage A1 = Some a" "NewMessage (H_If A1) = Some a" "H_codec A1 = H_codec A"
    by (simp_all add: A1_def)
  have p1: "param_ok (H_codec A1) (c, v)" using p A1 by simp
  have sm: "\<exists>j b bs. fits_class (K_Buffers K1) (of_nat (length v) + 31) j \<and> fss[i := as] ! j = b # bs"
    if "length (bytes K1 a) \<le> length v + 29"
    using small that kframeD(2,7) [OF 1(3)] by simp
  from mh_AddParam_ok [OF 1(2) A1(1,2) 1(4) p1 len refl sm, of nd w] obtain K2 b fss2 off where
    2: "mh_AddParam nd c (of_nat (length v)) (v @ w) (K1, A1) = Inr (Some b, K2,
        A1\<lparr>H_NewMessage := Some b, H_If := (H_If A1)\<lparr>NewMessage := Some b, CurrentOffset := off\<rparr>\<rparr>)"
      "k_ok K2 (b # own) mss L fss2" "kframe {b} K1 K2" "has_params (H_codec A) (bytes K2 b) [(c, v)]"
      "take MSG_LENGTH (bytes K2 b) = take MSG_LENGTH (bytes K1 a)"
      "length v + 29 < length (bytes K1 a) \<longrightarrow> b = a \<and> fss2 = fss[i := as]" unfolding A1(3) by metis
  let ?A2 = "A1\<lparr>H_NewMessage := Some b, H_If := (H_If A1)\<lparr>NewMessage := Some b, CurrentOffset := off\<rparr>\<rparr>"
  have m: "mbx < MailBoxesNum (K_PostOffice K2)" using mbx kframeD(5) [OF 1(3)] kframeD(5) [OF 2(3)] by simp
  from SendMessage_ok [OF 2(2) m, of ?A2] obtain K3 where
    3: "SendMessage mbx (K2, ?A2) = Inr ((), K3, ?A2\<lparr>H_NewMessage := None\<rparr>)"
      "k_ok K3 own (mss[unat mbx := mss ! unat mbx @ [b]]) L fss2" "kframe {b} K2 K3"
      "bytes K3 b = from_self ?A2 (bytes K2 b)" by auto
  have "from_self ?A2 = from_self A" by (rule ext) (simp add: from_self_def A1_def)
  with 3(4) have b: "bytes K3 b = from_self A (bytes K2 b)" by simp
  have msg: "is_message A code au 0 (bytes K3 b)" "has_params (H_codec A) (bytes K3 b) [(c, v)]"
    using 1(5) 2(4,5) unfolding b from_self_params by blast+
  have fr: "kframe {a, b} K K3"
    using kframe_trans [OF kframe_trans [OF 1(3) 2(3)] 3(3)] by (rule kframe_mono) auto
  have "add (K1, A1) = Inr ((), K2, ?A2)" using add [OF A1_def, of K1] 2(1) by simp
  then have "run (prepared nd code au @ [add, SendMessage mbx]) (K, A) =
      Inr ((), K3, A\<lparr>H_NewMessage := None, H_If := (H_If A)\<lparr>NewMessage := Some b, CurrentOffset := off\<rparr>\<rparr>)"
    using 1(1) 3(1) by (simp add: run_append A1_def [symmetric]) (simp add: A1_def)
  moreover have "length v + 29 < length (bytes K a) \<longrightarrow> b = a \<and> fss2 = fss[i := as]"
    using 2(6) kframeD(2) [OF 1(3), of a] by simp
  ultimately show ?thesis using 3(2) fr msg by blast
qed

subsection \<open>Receiving a parameter\<close>

text \<open>\<open>param_size\<close> and \<open>param_copy\<close> on a message coded with two-byte fields.\<close>

lemma param_copy_ok:
  assumes A: "H_CurrentMessage A = Some a" "CurrentMessage (H_If A) = Some a" "H_codec A = pc16"
    and ps: "has_params pc16 (bytes K a) ps" "map_of ps c = Some v"
    and len: "length v < 256" "length v < length dst"
  shows "\<exists>off i. param_size nd c (K, A) =
      Inr ((a, i, length v), K, A\<lparr>H_If := (H_If A)\<lparr>CurrentOffset := off\<rparr>\<rparr>) \<and>
    (\<forall>A'. param_copy (a, i, length v) dst (K, A') = Inr (v @ 0 # drop (length v + 1) dst, K, A'))"
proof -
  from found_value [OF ps] obtain i off where
    f: "found pc16 c ps MSG_INFO 0 = (Some i, off)" "i + 4 + length v \<le> length (bytes K a)"
      "take (length v) (drop (i + 4) (bytes K a)) = v" "c \<noteq> 0"
      "bytes K a ! (i + 2) = of_nat (length v)" by auto
  have h: "MSG_HEADER_LENGTH \<le> length (bytes K a)" using ps(1) by (auto simp: has_params_def)
  have "FindParam_at pc16 nd (bytes K a) c 0 = Inr (Some i, off)"
    using FindParam_found [OF ps(1) f(4), of nd] f(1) by simp
  then have "mh_GetParam nd c (K, A) = Inr (Some (a, i), K, A\<lparr>H_If := (H_If A)\<lparr>CurrentOffset := off\<rparr>\<rparr>)"
    using A h by (simp add: mh_GetParam_def GetMsgInfoCoding_def codec_op_def msg_op_def GetParam_def FindParam_def)
  moreover have "unat (of_nat (length v) :: u8) = length v" using len(1) by (intro unat_of_nat_less) simp
  ultimately have s: "param_size nd c (K, A) = Inr ((a, i, length v), K, A\<lparr>H_If := (H_If A)\<lparr>CurrentOffset := off\<rparr>\<rparr>)"
    using f(2,5) by (simp add: param_size_def)
  have cp: "param_copy (a, i, length v) dst (K, A') = Inr (v @ 0 # drop (length v + 1) dst, K, A')" for A'
    using f(2,3) len(2) by (simp add: param_copy_def put_str_def)
  from s cp show ?thesis by blast
qed

end
