(* ===== verification/BranchTable.thy ===== *)
theory BranchTable
  imports AppConst
begin

text \<open>
  The branch tables of an automaton as association lists.  \<open>branches s bs\<close>: the state \<open>s\<close> holds the
  branches \<open>bs\<close>, in the order they were added; \<open>states_ok k tb ss\<close>: the states \<open>ss\<close> hold the rows of
  the table \<open>tb\<close>, each a state, an event and a procedure.  An automaton fills its table in
  \<open>Initialize\<close> with one call of \<open>InitEventProc\<close> per row.
\<close>

definition branch_of :: "u16 \<times> 'p proc option \<Rightarrow> 'p sbranch option" where
  "branch_of = (\<lambda>(e, p). Some \<lparr>EventCode = e, ProcPtr = p\<rparr>)"

definition fresh_state :: "u16 \<Rightarrow> 'p sstate" where
  "fresh_state k = \<lparr>StateValid = False, NumOfBranches = 0, UnexpectedEventProcPtr = None,
     PBranch = replicate (unat k) None\<rparr>"

definition branches :: "u16 \<Rightarrow> 'p sstate \<Rightarrow> (u16 \<times> 'p proc option) list \<Rightarrow> bool" where
  "branches k s bs \<longleftrightarrow> length (PBranch s) = unat k \<and> length bs \<le> unat k \<and>
     NumOfBranches s = of_nat (length bs) \<and> distinct (map fst bs) \<and>
     take (length bs) (PBranch s) = map branch_of bs \<and>
     StateValid s = (bs \<noteq> []) \<and>
     UnexpectedEventProcPtr s = (if bs = [] then None else Some DoNothing)"

lemma branches_fresh [simp]: "branches k (fresh_state k) []"
  by (simp add: branches_def fresh_state_def)

lemma SState_fresh: "k \<noteq> 0 \<Longrightarrow> SState k = Inr (fresh_state k)"
  by (simp add: SState_def fresh_state_def)

lemma make_states_fresh: "k \<noteq> 0 \<Longrightarrow> make_states n k = Inr (replicate n (fresh_state k))"
  by (induction n) (simp_all add: SState_fresh)

lemma branches_count:
  assumes "branches k s bs"
  shows "unat (NumOfBranches s) = length bs"
proof -
  have "length bs < 2 ^ LENGTH(16)"
    using assms unat_u16_less [of k] by (simp add: branches_def)
  then show ?thesis using assms by (simp add: branches_def unat_of_nat_less)
qed

lemma find_branch_map:
  "find_branch e (length bs) (map branch_of bs @ xs) =
     Inr (map_option (\<lambda>p. \<lparr>EventCode = e, ProcPtr = p\<rparr>) (map_of bs e))"
  by (induction bs) (auto simp: branch_of_def)

lemma find_branch_table:
  assumes "branches k s bs"
  shows "find_branch e (unat (NumOfBranches s)) (PBranch s) =
     Inr (map_option (\<lambda>p. \<lparr>EventCode = e, ProcPtr = p\<rparr>) (map_of bs e))"
proof -
  have "PBranch s = map branch_of bs @ drop (length bs) (PBranch s)"
    using assms append_take_drop_id [of "length bs" "PBranch s"] by (simp add: branches_def)
  then show ?thesis using branches_count [OF assms] find_branch_map by metis
qed

lemma lookup_proc_table:
  assumes "branches k s bs"
  shows "lookup_proc e s = Inr (case map_of bs e of Some p \<Rightarrow> p
    | None \<Rightarrow> if bs = [] then None else Some DoNothing)"
proof -
  have "UnexpectedEventProcPtr s = (if bs = [] then None else Some DoNothing)"
    using assms by (simp add: branches_def)
  then show ?thesis
    unfolding lookup_proc_def find_branch_table [OF assms] by (simp split: option.split)
qed

text \<open>A new event, an event that is already there, and a full table.\<close>

lemma add_branch_new:
  assumes "branches k s bs" "e \<notin> fst ` set bs" "length bs < unat k"
  shows "\<exists>s'. add_branch k e p s = Inr s' \<and> branches k s' (bs @ [(e, p)])"
proof -
  let ?n = "length bs"
  have none: "map_of bs e = None" using assms(2) by (simp add: map_of_eq_None_iff)
  have n: "unat (NumOfBranches s) = ?n" by (rule branches_count [OF assms(1)])
  have le: "\<not> of_nat ?n + 1 > k"
  proof -
    have "unat (of_nat (?n + 1) :: u16) = ?n + 1"
      using assms(3) unat_u16_less [of k] by (intro unat_of_nat_less) simp
    with assms(3) show ?thesis by (simp add: word_le_nat_alt add.commute not_less)
  qed
  define s0 where "s0 = (if \<not> StateValid s
               then s\<lparr>StateValid := True, UnexpectedEventProcPtr := Some DoNothing\<rparr> else s)"
  have s0: "PBranch s0 = PBranch s" "NumOfBranches s0 = of_nat ?n" "StateValid s0"
    "UnexpectedEventProcPtr s0 = Some DoNothing"
    using assms(1) by (auto simp: s0_def branches_def split: if_splits)
  let ?s = "s0\<lparr>PBranch := (PBranch s)[?n := Some \<lparr>EventCode = e, ProcPtr = p\<rparr>], NumOfBranches := of_nat ?n + 1\<rparr>"
  have len: "length (PBranch s) = unat k" using assms(1) by (simp add: branches_def)
  have un: "unat (of_nat ?n :: u16) = ?n" using n assms(1) by (simp add: branches_def)
  have "find_branch e ?n (PBranch s) = Inr None"
    using find_branch_table [OF assms(1), of e] none n by simp
  then have "add_branch k e p s = Inr ?s"
    using s0 le len assms(3) un by (simp add: add_branch_def s0_def [symmetric] Let_def)
  moreover have "take (Suc ?n) ((PBranch s)[?n := Some \<lparr>EventCode = e, ProcPtr = p\<rparr>]) =
      map branch_of bs @ [branch_of (e, p)]"
    using assms(1,3) len by (simp add: take_Suc_conv_app_nth branches_def branch_of_def)
  then have "branches k ?s (bs @ [(e, p)])"
    using assms s0 len by (auto simp: branches_def add.commute)
  ultimately show ?thesis by blast
qed

lemma add_branch_known:
  assumes "branches k s bs" "e \<in> fst ` set bs"
  shows "add_branch k e p s = Inl (Throw 0x01010200)"
proof -
  from assms(2) obtain q where q: "map_of bs e = Some q"
    using weak_map_of_SomeI by (fastforce simp: map_of_eq_None_iff [symmetric])
  have "StateValid s" using assms by (auto simp: branches_def)
  with find_branch_table [OF assms(1), of e] q show ?thesis by (simp add: add_branch_def)
qed

lemma add_branch_full:
  assumes "branches k s bs" "e \<notin> fst ` set bs" "length bs = unat k" "k \<noteq> 0"
  shows "add_branch k e p s = Inl OutOfBounds"
proof -
  have none: "map_of bs e = None" using assms(2) by (simp add: map_of_eq_None_iff)
  have "bs \<noteq> []" using assms(3,4) by (auto simp: word_unat_eq_iff)
  with assms have "StateValid s" "length (PBranch s) = length bs" by (simp_all add: branches_def)
  with find_branch_table [OF assms(1), of e] none branches_count [OF assms(1)]
  show ?thesis by (simp add: add_branch_def Let_def)
qed

subsection \<open>The table of an automaton\<close>

type_synonym 'p row = "u8 \<times> u16 \<times> 'p"

definition rows_of :: "'p row list \<Rightarrow> nat \<Rightarrow> (u16 \<times> 'p proc option) list" where
  "rows_of tb st = map (\<lambda>(_, e, p). (e, Some (Proc p))) (filter (\<lambda>(s, _, _). unat s = st) tb)"

lemma rows_of_simps [simp]:
  "rows_of [] st = []"
  "rows_of ((s, e, p) # tb) st = (if unat s = st then (e, Some (Proc p)) # rows_of tb st else rows_of tb st)"
  "rows_of (tb @ tb') st = rows_of tb st @ rows_of tb' st"
  by (simp_all add: rows_of_def)

definition states_ok :: "u16 \<Rightarrow> nat \<Rightarrow> 'p row list \<Rightarrow> 'p sstate list \<Rightarrow> bool" where
  "states_ok k n tb ss \<longleftrightarrow> length ss = n \<and> (\<forall>st < n. branches k (ss ! st) (rows_of tb st))"

text \<open>No row is out of the table, and none is there twice.\<close>

definition table_fits :: "u16 \<Rightarrow> nat \<Rightarrow> 'p row list \<Rightarrow> bool" where
  "table_fits k n tb \<longleftrightarrow> (\<forall>(s, e, p) \<in> set tb. unat s < n) \<and>
     distinct (map (\<lambda>(s, e, p). (s, e)) tb) \<and> (\<forall>st < n. length (rows_of tb st) \<le> unat k)"

lemma states_ok_fresh: "states_ok k n [] (replicate n (fresh_state k))"
  by (simp add: states_ok_def)

lemma rows_of_events: "fst ` set (rows_of tb (unat s)) = {e. (s, e) \<in> set (map (\<lambda>(s, e, p). (s, e)) tb)}"
  unfolding rows_of_def by (force simp: image_iff word_unat_eq_iff [symmetric])

definition init_rows :: "'p row list \<Rightarrow> ('p, 'z, unit) fop" where
  "init_rows tb = run (map (\<lambda>(st, code, p). InitEventProc st code (Some (Proc p))) tb)"

lemma InitEventProc_ok:
  assumes "F_States A = Some ss" "states_ok k n tb ss" "F_MaxNumOfProcPerState A = k"
    and "unat st < n" "(st, e) \<notin> set (map (\<lambda>(s, e, p). (s, e)) tb)"
    and "length (rows_of tb (unat st)) < unat k"
  shows "\<exists>ss'. InitEventProc st e (Some (Proc p)) (K, A) = Inr ((), K, A\<lparr>F_States := Some ss'\<rparr>) \<and>
    states_ok k n (tb @ [(st, e, p)]) ss'"
proof -
  have b: "branches k (ss ! unat st) (rows_of tb (unat st))" and len: "length ss = n"
    using assms(2,4) by (simp_all add: states_ok_def)
  have "e \<notin> fst ` set (rows_of tb (unat st))"
    using assms(5) unfolding rows_of_events by simp
  from add_branch_new [OF b this assms(6), of "Some (Proc p)"] obtain s' where
    s: "add_branch k e (Some (Proc p)) (ss ! unat st) = Inr s'"
    "branches k s' (rows_of tb (unat st) @ [(e, Some (Proc p))])" by blast
  have "states_ok k n (tb @ [(st, e, p)]) (ss[unat st := s'])"
    using assms(2) s(2) len by (auto simp: states_ok_def nth_list_update)
  moreover have "InitEventProc st e (Some (Proc p)) (K, A) =
      Inr ((), K, A\<lparr>F_States := Some (ss[unat st := s'])\<rparr>)"
    using s(1) assms(1,3,4) len by (simp add: InitEventProc_def state_at_def set_state_def upd_def)
  ultimately show ?thesis by blast
qed

lemma init_rows_from:
  assumes "F_States A = Some ss" "states_ok k n done ss" "F_MaxNumOfProcPerState A = k"
    and "table_fits k n (done @ tb)"
  shows "\<exists>ss'. init_rows tb (K, A) = Inr ((), K, A\<lparr>F_States := Some ss'\<rparr>) \<and> states_ok k n (done @ tb) ss'"
  using assms
proof (induction tb arbitrary: "done" ss A)
  case Nil
  then show ?case by (intro exI [of _ ss]) (simp add: init_rows_def)
next
  case (Cons row tb)
  obtain st e p where row: "row = (st, e, p)" by (cases row) auto
  have "length (rows_of (done @ row # tb) (unat st)) \<le> unat k" and st: "unat st < n"
    using Cons.prems(4) row by (auto simp: table_fits_def)
  then have l: "length (rows_of done (unat st)) < unat k" using row by simp
  have e: "(st, e) \<notin> set (map (\<lambda>(s, e, p). (s, e)) done)"
    using Cons.prems(4) row by (auto simp: table_fits_def)
  from InitEventProc_ok [OF Cons.prems(1-3) st e l, of p K] obtain ss1 where
    1: "InitEventProc st e (Some (Proc p)) (K, A) = Inr ((), K, A\<lparr>F_States := Some ss1\<rparr>)"
      "states_ok k n (done @ [row]) ss1" using row by blast
  have "table_fits k n ((done @ [row]) @ tb)" using Cons.prems(4) by simp
  from Cons.IH [OF _ 1(2) _ this, of "A\<lparr>F_States := Some ss1\<rparr>"] Cons.prems(3) 1(1)
  show ?case by (auto simp: init_rows_def row)
qed

text \<open>The procedure for an event, once the table is filled.\<close>

definition proc_for :: "'p row list \<Rightarrow> u8 \<Rightarrow> u16 \<Rightarrow> 'p proc" where
  "proc_for tb st e = (case map_of (map (\<lambda>(s, e, p). ((s, e), p)) tb) (st, e) of
     Some p \<Rightarrow> Proc p | None \<Rightarrow> DoNothing)"

lemma map_of_rows:
  "map_of (rows_of tb (unat st)) e =
     map_option (\<lambda>p. Some (Proc p)) (map_of (map (\<lambda>(s, e, p). ((s, e), p)) tb) (st, e))"
  by (induction tb) (auto simp: word_unat_eq_iff)

lemma GetProcedure_table:
  assumes "F_States A = Some ss" "states_ok k n tb ss" "unat (A_State A) < n"
    and "\<exists>e p. (A_State A, e, p) \<in> set tb"
  shows "GetProcedure nd e (K, A) = Inr (Some (proc_for tb (A_State A) e), K, A)"
proof -
  let ?st = "A_State A" and ?rows = "rows_of tb (unat (A_State A))"
  have b: "branches k (ss ! unat ?st) ?rows" and len: "length ss = n"
    using assms(2,3) by (simp_all add: states_ok_def)
  have ne: "?rows \<noteq> []"
  proof -
    from assms(4) obtain e0 p0 where "(?st, e0, p0) \<in> set tb" by blast
    then have "e0 \<in> fst ` set ?rows" unfolding rows_of_events by force
    then show ?thesis by auto
  qed
  then have v: "StateValid (ss ! unat ?st)" using b by (simp add: branches_def)
  have "lookup_proc e (ss ! unat ?st) = Inr (Some (proc_for tb ?st e))"
    unfolding lookup_proc_table [OF b] map_of_rows proc_for_def using ne by (simp split: option.split)
  with v show ?thesis using assms(1,3) len by (simp add: GetProcedure_def state_at_def)
qed

end
