(* ===== verification/ProcessOps.thy ===== *)
theory ProcessOps
  imports ParamOps BranchTable
begin

text \<open>
  \<open>Process\<close> around the procedure it calls.  \<open>achieves f K A R\<close>: the operation \<open>f\<close> succeeds on the
  kernel \<open>K\<close> and the automaton \<open>A\<close> and its result satisfies \<open>R\<close>.  A procedure that leaves the
  received message with the automaton makes \<open>Process\<close> succeed, and \<open>Process\<close> then gives the buffer
  of the message back to the pool.
\<close>

definition achieves :: "(kernel \<times> 'z, unit) op \<Rightarrow> kernel \<Rightarrow> 'z \<Rightarrow> (kernel \<Rightarrow> 'z \<Rightarrow> bool) \<Rightarrow> bool" where
  "achieves f K A R \<longleftrightarrow> (\<exists>K' A'. f (K, A) = Inr ((), K', A') \<and> R K' A')"

lemma achievesI [intro]: "f (K, A) = Inr ((), K', A') \<Longrightarrow> R K' A' \<Longrightarrow> achieves f K A R"
  by (auto simp: achieves_def)

lemma achieves_mono: "achieves f K A R \<Longrightarrow> (\<And>K' A'. R K' A' \<Longrightarrow> R' K' A') \<Longrightarrow> achieves f K A R'"
  by (auto simp: achieves_def)

lemma achieves_run_Nil [simp]: "achieves (run []) K A R = R K A"
  by (simp add: achieves_def)

lemma achieves_run_Cons: "achieves (run (f # fs)) K A R = achieves f K A (\<lambda>K A. achieves (run fs) K A R)"
  by (auto simp: achieves_def bindR_eq_Inr)

lemma achieves_run_append:
  "achieves (run (fs @ gs)) K A R = achieves (run fs) K A (\<lambda>K A. achieves (run gs) K A R)"
  by (auto simp: achieves_def run_append bindR_eq_Inr)

lemma achieves_ret [simp]: "achieves (ret ()) K A R = R K A"
  by (simp add: achieves_def)

lemma achieves_logs:
  assumes "logs f K A" "\<And>x. log_ready (K\<lparr>K_LogingObject := x\<rparr>) \<Longrightarrow> R (K\<lparr>K_LogingObject := x\<rparr>) A"
  shows "achieves f K A R"
  using assms by (auto simp: logs_def achieves_def)

text \<open>The log object is no part of what \<open>k_ok\<close> says.\<close>

lemma k_ok_log [simp]: "k_ok (K\<lparr>K_LogingObject := x\<rparr>) own mss L fss = k_ok K own mss L fss"
  by (simp add: k_ok_def)

lemma GetProcedure_kernel:
  "GetProcedure nd e (K, A) = Inr (p, K, A) \<Longrightarrow> GetProcedure nd e (K', A) = Inr (p, K', A)"
  by (auto simp: GetProcedure_def state_at_def bindR_eq_Inr bnd_def asserts_def assertC_Inr
      split: option.splits if_splits)

text \<open>The automaton while it processes the message \<open>a\<close>.\<close>

definition parsed :: "addr \<Rightarrow> 'z handler_scheme \<Rightarrow> 'z handler_scheme" where
  "parsed a A = A\<lparr>H_CurrentMessage := Some a, H_If := (H_If A)\<lparr>CurrentMessage := Some a\<rparr>\<rparr>"

lemma parsed_sel [simp]:
  "H_CurrentMessage (parsed a A) = Some a" "H_NewMessage (parsed a A) = H_NewMessage A"
  "H_codec (parsed a A) = H_codec A" "CurrentMessage (H_If (parsed a A)) = Some a"
  by (simp_all add: parsed_def)

lemma parsed_api [simp]:
  fixes A :: "'z api_scheme"
  shows "A_automateId (parsed a A) = A_automateId A" "A_State (parsed a A) = A_State A"
    "A_GroupId (parsed a A) = A_GroupId A" "A_ConnectionId (parsed a A) = A_ConnectionId A"
    "A_LogFlag (parsed a A) = A_LogFlag A" "A_mbxId (parsed a A) = A_mbxId A"
    "A_TimerResolution (parsed a A) = A_TimerResolution A"
  by (simp_all add: parsed_def)

lemma parsed_fsm [simp]:
  fixes A :: "('p, 'z) fsm_scheme"
  shows "F_States (parsed a A) = F_States A" "F_NumOfTimers (parsed a A) = F_NumOfTimers A"
    "F_TimerStore (parsed a A) = F_TimerStore A"
  by (simp_all add: parsed_def)

lemma ParseMessage_ok:
  assumes "MSG_HEADER_LENGTH \<le> length (bytes K a)"
  shows "ParseMessage nd (Some a) (K, A) = Inr (True, K, parsed a A)"
  using assms by (simp add: ParseMessage_def GetMsgInfoCoding_def msg_op_def if_ParseMessage_def parsed_def)

text \<open>The messages that \<open>LogMessage\<close> can write.\<close>

definition loggable :: "bool \<Rightarrow> u8 list \<Rightarrow> bool" where
  "loggable nd bs \<longleftrightarrow> (let n = ucast (info_length bs + of_nat MSG_HEADER_LENGTH) :: u8 in
     (nd \<or> n \<noteq> 0) \<and> unat n \<le> length bs)"

lemma ClearMessage_ok:
  assumes "k_ok K (a # own) mss L fss" "H_CurrentMessage A = Some a"
  shows "\<exists>K'. ClearMessage nd (K, A) = Inr ((), K', A\<lparr>H_CurrentMessage := None\<rparr>) \<and>
    k_ok K' own mss L (give_back (m_code (K_mem K)) a fss) \<and> kframe {} K K'"
proof -
  from RetBuffer_op_ok [OF assms(1), of nd A] obtain m' B' where
    r: "RetBuffer_op nd (Some a) (K, A) = Inr ((), K\<lparr>K_mem := m', K_Buffers := B'\<rparr>, A)"
      "k_ok (K\<lparr>K_mem := m', K_Buffers := B'\<rparr>) own mss L (give_back (m_code (K_mem K)) a fss)"
      "same_bytes (K_mem K) m'" "same_pool (K_Buffers K) B'" by blast
  have "kframe {} K (K\<lparr>K_mem := m', K_Buffers := B'\<rparr>)"
    using r(3,4) by (simp add: kframe_def same_bytes_def)
  moreover have "ClearMessage nd (K, A) = Inr ((), K\<lparr>K_mem := m', K_Buffers := B'\<rparr>, A\<lparr>H_CurrentMessage := None\<rparr>)"
    using r(1) assms(2) by (simp add: ClearMessage_def)
  ultimately show ?thesis using r(2) by (intro exI conjI)
qed

lemma Process_achieves:
  fixes A :: "('p, 'z) fsm_scheme"
  assumes K: "k_ok K (a # own) mss L fss" and lg: "log_ready K" "loggable nd (bytes K a)"
    and p: "GetProcedure nd (GetUint16 (bytes K a) MSG_CODE) (K, parsed a A) = Inr (p, K, parsed a A)"
    and exec: "\<And>x. log_ready (K\<lparr>K_LogingObject := x\<rparr>) \<Longrightarrow>
      achieves (call_proc exec p) (K\<lparr>K_LogingObject := x\<rparr>) (parsed a A) R"
    and R: "\<And>K' A'. R K' A' \<Longrightarrow> H_CurrentMessage A' = Some a \<and> log_ready K' \<and>
      (\<exists>mss' L' fss'. k_ok K' (a # own) mss' L' fss')"
  shows "achieves (Process nd exec (Some a)) K A (\<lambda>K' A'. \<exists>K2 A2. R K2 A2 \<and> A' = A2\<lparr>H_CurrentMessage := None\<rparr> \<and>
      log_ready K' \<and> kframe {} K2 (K'\<lparr>K_LogingObject := K_LogingObject K2\<rparr>) \<and>
      (\<forall>mss' L' fss'. k_ok K2 (a # own) mss' L' fss' \<longrightarrow> (\<exists>fss2. k_ok K' own mss' L' fss2)))"
proof -
  let ?A = "parsed a A" and ?code = "GetUint16 (bytes K a) MSG_CODE"
  let ?n = "info_length (bytes K a) + of_nat MSG_HEADER_LENGTH"
  have h: "MSG_HEADER_LENGTH \<le> length (bytes K a)" using k_okD(7) [OF K, of a] by simp
  have code: "GetMsgCode (K\<lparr>K_LogingObject := x\<rparr>, ?A) = Inr (?code, K\<lparr>K_LogingObject := x\<rparr>, ?A)" for x
    using h by (simp add: GetMsgCode_def)
  have len: "mh_GetMsgInfoLength (K\<lparr>K_LogingObject := x\<rparr>, ?A) =
      Inr (info_length (bytes K a), K\<lparr>K_LogingObject := x\<rparr>, ?A)" for x
    using h by (simp add: mh_GetMsgInfoLength_def info_length_def)
  have "K\<lparr>K_LogingObject := K_LogingObject K\<rparr> = K" by simp
  note code0 = code [of "K_LogingObject K", unfolded this]
  from log_events_ok(3) [OF lg(1), of ?code ?A] obtain x1 where
    1: "LogAutomateEventStart ?code (K, ?A) = Inr ((), K\<lparr>K_LogingObject := x1\<rparr>, ?A)"
      "log_ready (K\<lparr>K_LogingObject := x1\<rparr>)" by (auto simp: logs_def)
  have "logs (LogMessage nd ?n (Some a)) (K\<lparr>K_LogingObject := x1\<rparr>) ?A"
    by (rule LogMessage_ok [OF 1(2)]) (use lg(2) in \<open>simp_all add: loggable_def Let_def\<close>)
  then obtain x2 where
    2: "LogMessage nd ?n (Some a) (K\<lparr>K_LogingObject := x1\<rparr>, ?A) = Inr ((), K\<lparr>K_LogingObject := x2\<rparr>, ?A)"
      "log_ready (K\<lparr>K_LogingObject := x2\<rparr>)" by (auto simp: logs_def)
  from exec [OF 2(2)] obtain K3 A3 where
    3: "call_proc exec p (K\<lparr>K_LogingObject := x2\<rparr>, ?A) = Inr ((), K3, A3)" "R K3 A3"
    by (auto simp: achieves_def)
  from R [OF 3(2)] obtain mss' L' fss' where
    R3: "H_CurrentMessage A3 = Some a" "log_ready K3" "k_ok K3 (a # own) mss' L' fss'" by blast
  from ClearMessage_ok [OF R3(3,1), of nd] obtain K4 where
    4: "ClearMessage nd (K3, A3) = Inr ((), K4, A3\<lparr>H_CurrentMessage := None\<rparr>)" "kframe {} K3 K4" by blast
  have 4: "ClearMessage nd (K3, A3) = Inr ((), K4, A3\<lparr>H_CurrentMessage := None\<rparr>)" "kframe {} K3 K4"
    "\<exists>fss2. k_ok K4 own mss' L' fss2" if "k_ok K3 (a # own) mss' L' fss'" for mss' L' fss'
    using ClearMessage_ok [OF that R3(1), of nd] 4 by auto
  note k4 = 4(3) and 4 = 4(1,2) [OF R3(3)]
  have "log_ready K4" using kframeD(6) [OF 4(2)] R3(2) by simp
  from log_events_ok(4) [OF this, of "A3\<lparr>H_CurrentMessage := None\<rparr>"] obtain x5 where
    5: "LogAutomateEventEnd (K4, A3\<lparr>H_CurrentMessage := None\<rparr>) =
        Inr ((), K4\<lparr>K_LogingObject := x5\<rparr>, A3\<lparr>H_CurrentMessage := None\<rparr>)"
      "log_ready (K4\<lparr>K_LogingObject := x5\<rparr>)" by (auto simp: logs_def)
  have "Process nd exec (Some a) (K, A) = Inr ((), K4\<lparr>K_LogingObject := x5\<rparr>, A3\<lparr>H_CurrentMessage := None\<rparr>)"
    using code0 code [of x1] code [of x2] len [of x1] 1(1) 2(1) 3(1) 4(1) 5(1)
      GetProcedure_kernel [OF p, of "K\<lparr>K_LogingObject := x2\<rparr>"]
    by (simp add: Process_def ParseMessage_ok [OF h])
  moreover have "kframe {} K3 (K4\<lparr>K_LogingObject := x5\<rparr>\<lparr>K_LogingObject := K_LogingObject K3\<rparr>)"
    using 4(2) by (simp add: kframe_def)
  moreover have "\<exists>fss2. k_ok (K4\<lparr>K_LogingObject := x5\<rparr>) own mss' L' fss2" if "k_ok K3 (a # own) mss' L' fss'"
    for mss' L' fss' using k4 [OF that] k_ok_log by blast
  ultimately show ?thesis unfolding achieves_def using 3(2) 5(2) by blast
qed

end
