(* ===== verification/TimerOps.thy ===== *)
theory TimerOps
  imports ProcessOps
begin

text \<open>
  The timers of an automaton: \<open>FiniteStateMachine::StartTimer\<close> takes a buffer, fills its header and
  puts it into the timer list of the kernel; \<open>StopTimer\<close> only marks the buffer as discarded.
\<close>

lemma k_ok_len: "k_ok K own mss L fss \<Longrightarrow> b \<in> set own \<union> set (map fst L) \<union> set (concat mss) \<Longrightarrow>
    MSG_HEADER_LENGTH \<le> length (bytes K b)"
  by (auto simp: k_ok_def used_buffers_def)

text \<open>What no operation of an automaton changes.\<close>

definition kkeep :: "kernel \<Rightarrow> kernel \<Rightarrow> bool" where
  "kkeep K K' \<longleftrightarrow> m_code (K_mem K') = m_code (K_mem K) \<and> m_top (K_mem K') = m_top (K_mem K) \<and>
     same_pool (K_Buffers K) (K_Buffers K') \<and> MailBoxesNum (K_PostOffice K') = MailBoxesNum (K_PostOffice K) \<and>
     TimerResolution (K_Timer K') = TimerResolution (K_Timer K)"

lemma kkeep_refl [simp]: "kkeep K K"
  by (simp add: kkeep_def)

lemma kkeep_trans: "kkeep K1 K2 \<Longrightarrow> kkeep K2 K3 \<Longrightarrow> kkeep K1 K3"
  by (simp add: kkeep_def same_pool_def)

lemma kframe_keep: "kframe S K K' \<Longrightarrow> kkeep K K'"
  by (simp add: kframe_def kkeep_def)

lemma kkeep_log [simp]: "kkeep K (K'\<lparr>K_LogingObject := x\<rparr>) = kkeep K K'" "kkeep (K\<lparr>K_LogingObject := x\<rparr>) K' = kkeep K K'"
  by (simp_all add: kkeep_def)

text \<open>What the receiver of a timer message reads.\<close>

definition is_timer_message :: "'z api_scheme \<Rightarrow> u16 \<Rightarrow> u8 list \<Rightarrow> bool" where
  "is_timer_message A code bs \<longleftrightarrow> GetUint16 bs MSG_CODE = code \<and> bs ! MSG_TO_AUTOMATE = A_automateId A \<and>
     GetUint32 bs MSG_OBJECT_ID_TO = A_ConnectionId A \<and> info_length bs = 0"

lemma timer_header_fields:
  assumes "MSG_HEADER_LENGTH \<le> length bs"
  shows "is_timer_message A code (timer_header code A 0 bs)" "length (timer_header code A 0 bs) = length bs"
  using assms by (simp_all add: is_timer_message_def timer_header_def info_length_def mem_simps offset_defs)

lemma timer_message_frame:
  assumes "\<forall>j. TIMER_MBX_ID < j \<longrightarrow> j < TIMER_COUNT \<or> TIMER_COUNT + 3 < j \<longrightarrow> bs' ! j = bs ! j"
    and "is_timer_message A code bs"
  shows "is_timer_message A code bs'"
  using assms
  by (simp add: is_timer_message_def info_length_def GetUint16_def GetUint32_def offset_defs)

lemma timer_start_ok:
  assumes K: "k_ok K (t # own) mss L fss" and mbx: "A_mbxId A < MailBoxesNum (K_PostOffice K)"
    and c: "cnt \<noteq> 0" "c = cnt * of_nat (res_ms (A_TimerResolution A) div res_ms (TimerResolution (K_Timer K)))"
  shows "\<exists>K'. timer_start (Some t) cnt (K, A) = Inr ((), K', A) \<and>
    k_ok K' own mss (dins t (unat c) L) fss \<and> kframe (insert t (set (map fst L))) K K' \<and>
    mbox_of (K_mem K') t = unat (A_mbxId A) \<and>
    (\<forall>B code. is_timer_message B code (bytes K t) \<longrightarrow> is_timer_message (B :: 'z api_scheme) code (bytes K' t))"
proof -
  note D = k_okD [OF K]
  let ?m = "K_mem K" and ?B = "K_Buffers K"
  let ?L = "dins t (unat c) L"
  have "mset (own @ t # map fst L @ concat mss) = mset ((t # own) @ map fst L @ concat mss)" by simp
  then have "used_buffers (?m, ?B) fss (own @ t # map fst L @ concat mss)"
    using D(3) used_buffers_mset by blast
  then have u: "used_buffers (?m, ?B) fss (t # map fst L @ concat mss)" by (rule used_buffers_subset)
  from StartTimer_ok [OF D(2) u mbx c] obtain m' T' where
    r: "kt_StartTimer (Some t) (A_mbxId A) cnt (A_TimerResolution A) (?m, K_Timer K) = Inr (m', T')"
      "kernel_ok (m', ?B, K_PostOffice K, T') mss ?L fss" "mbox_of m' t = unat (A_mbxId A)"
      "started_frame t (set (map fst L)) ?m m'" "TimerResolution T' = TimerResolution (K_Timer K)" by blast
  let ?K = "K\<lparr>K_mem := m', K_Timer := T'\<rparr>"
  note F = r(4) [unfolded started_frame_def]
  have "mset (map fst (dins t c M)) = mset (t # map fst M)" for c and M :: "addr dlist"
    by (induction t c M rule: dins.induct) auto
  then have "mset (own @ map fst ?L @ concat mss) = mset ((t # own) @ map fst L @ concat mss)"
    by (simp add: ac_simps)
  then have "used_buffers (?m, ?B) fss (own @ map fst ?L @ concat mss)"
    using D(3) used_buffers_mset by blast
  moreover have "used_buffers (m', ?B) fss xs = used_buffers (?m, ?B) fss xs" for xs
    using F unfolding used_buffers_def in_pool_def prod.case by (metis (no_types, lifting))
  moreover have "set (own @ map fst ?L @ concat mss) = set ((t # own) @ map fst L @ concat mss)"
    using \<open>mset (own @ map fst ?L @ concat mss) = mset ((t # own) @ map fst L @ concat mss)\<close>
    by (rule mset_eq_setD)
  then have "accounted (m_top m') (own @ map fst ?L @ concat mss) fss"
    using D(9) F by (simp only: accounted_def)
  ultimately have ok: "k_ok ?K own mss ?L fss" using D(1,8) r(2) by (simp add: k_ok_def)
  have fr: "kframe (insert t (set (map fst L))) K ?K" using F r(5) by (simp add: kframe_def)
  have run: "timer_start (Some t) cnt (K, A) = Inr ((), ?K, A)" using r(1) D(1) by (simp add: timer_start_def)
  have tm: "is_timer_message B code (bytes ?K t)" if "is_timer_message B code (bytes K t)"
    for B :: "'z api_scheme" and code
    by (rule timer_message_frame [OF _ that]) (use F in simp)
  have mb: "mbox_of (K_mem ?K) t = unat (A_mbxId A)" using r(3) by simp
  from run ok fr mb tm show ?thesis by blast
qed

lemma api_StartTimer_ok:
  fixes A :: "'z api_scheme"
  assumes K: "k_ok K own mss L fss" and mbx: "A_mbxId A < MailBoxesNum (K_PostOffice K)"
    and fit: "fits_class (K_Buffers K) (of_nat MSG_HEADER_LENGTH) i" "fss ! i = b # bs"
    and c: "cnt \<noteq> 0" "c = cnt * of_nat (res_ms (A_TimerResolution A) div res_ms (TimerResolution (K_Timer K)))"
  shows "\<exists>K'. api_StartTimer nd code cnt (K, A) = Inr (Some b, K', A) \<and>
    k_ok K' own mss (dins b (unat c) L) (fss[i := bs]) \<and> kframe (insert b (set (map fst L))) K K' \<and>
    mbox_of (K_mem K') b = unat (A_mbxId A) \<and> is_timer_message A code (bytes K' b)"
proof -
  have un: "unat (of_nat MSG_HEADER_LENGTH :: u32) = MSG_HEADER_LENGTH" by (simp add: offset_defs)
  from GetBuffer_op_ok [OF K fit, of nd A] un obtain B' where
    1: "GetBuffer_op nd (of_nat MSG_HEADER_LENGTH) (K, A) = Inr (b, K\<lparr>K_Buffers := B'\<rparr>, A)"
      "k_ok (K\<lparr>K_Buffers := B'\<rparr>) (b # own) mss L (fss[i := bs])" "same_pool (K_Buffers K) B'"
      "MSG_HEADER_LENGTH \<le> length (bytes K b)" by auto
  let ?K1 = "K\<lparr>K_Buffers := B'\<rparr>" and ?bs = "timer_header code A 0 (bytes K b)"
  note H = timer_header_fields [OF 1(4), where A = A and code = code]
  let ?K2 = "?K1\<lparr>K_mem := SetData b ?bs (K_mem K)\<rparr>"
  have 2: "k_ok ?K2 (b # own) mss L (fss[i := bs])" using k_ok_write [OF 1(2), of b ?bs] H(2) by simp
  have "A_mbxId A < MailBoxesNum (K_PostOffice ?K2)" using mbx by simp
  from timer_start_ok [OF 2 this c(1), where c = c] c(2) obtain K3 where
    3: "timer_start (Some b) cnt (?K2, A) = Inr ((), K3, A)" "k_ok K3 own mss (dins b (unat c) L) (fss[i := bs])"
      "kframe (insert b (set (map fst L))) ?K2 K3" "mbox_of (K_mem K3) b = unat (A_mbxId A)"
      "is_timer_message A code (bytes K3 b)" using H(1) by auto
  have "set_msg (Some b) (timer_header code A 0) (?K1, A) = Inr ((), ?K2, A)"
    using 1(4) by (simp add: set_msg_def)
  moreover have "(ucast (of_nat MSG_HEADER_LENGTH :: u16) :: u32) = of_nat MSG_HEADER_LENGTH"
    by (simp add: offset_defs)
  ultimately have run: "api_StartTimer nd code cnt (K, A) = Inr (Some b, K3, A)"
    using 1(1) 3(1) by (simp add: api_StartTimer_def)
  have "kframe {b} K ?K2" using 1(3) H(2) by (simp add: kframe_def)
  from kframe_trans [OF this 3(3)] have fr: "kframe (insert b (set (map fst L))) K K3" by simp
  from run 3(2) fr 3(4,5) show ?thesis by blast
qed

subsection \<open>\<open>StartTimer\<close> and \<open>StopTimer\<close> of the automaton\<close>

definition timer_ready :: "u16 \<Rightarrow> timer_block \<Rightarrow> ('p, 'z) fsm_scheme \<Rightarrow> bool" where
  "timer_ready id0 t A \<longleftrightarrow> unat id0 < length (F_TimerStore A) \<and> id0 \<le> F_NumOfTimers A \<and>
     F_TimerStore A ! unat id0 = t \<and> tb_Valid t"

abbreviation with_buffer :: "u16 \<Rightarrow> timer_block \<Rightarrow> ptr \<Rightarrow> ('p, 'z) fsm_scheme \<Rightarrow> ('p, 'z) fsm_scheme" where
  "with_buffer id0 t p A \<equiv> A\<lparr>F_TimerStore := (F_TimerStore A)[unat id0 := t\<lparr>tb_TimerBuffer := p\<rparr>]\<rparr>"

lemma assert_timer_ok:
  "timer_ready i t A \<Longrightarrow> P t \<Longrightarrow> assert_timer nd i P (K, A) = Inr ((), K, A)"
  by (simp add: assert_timer_def timer_ready_def timer_at_def)

lemma assert_id_ok: "timer_ready i t A \<Longrightarrow> assert_id nd i (K, A) = Inr ((), K, A)"
  by (simp add: assert_id_def timer_ready_def asserts_def not_less)

lemma timer_at_ok: "timer_ready i t A \<Longrightarrow> timer_at i f (K, A) = f t (K, A)"
  by (simp add: timer_at_def timer_ready_def)

lemma set_timer_ok:
  "timer_ready i t A \<Longrightarrow> set_timer i f (K, A) = Inr ((), K, A\<lparr>F_TimerStore := (F_TimerStore A)[unat i := f t]\<rparr>)"
  by (simp add: set_timer_def timer_at_ok upd_def)

lemma StartTimer_achieves:
  fixes A :: "('p, 'z) fsm_scheme"
  assumes K: "k_ok K own mss L fss" and lg: "log_ready K"
    and A: "timer_ready tmrId t A" "tb_TimerBuffer t = None" and mbx: "A_mbxId A < MailBoxesNum (K_PostOffice K)"
    and fit: "fits_class (K_Buffers K) (of_nat MSG_HEADER_LENGTH) i" "fss ! i = b # bs"
    and c: "tb_Count t \<noteq> 0" "c = tb_Count t * of_nat (res_ms (A_TimerResolution A) div res_ms (TimerResolution (K_Timer K)))"
  shows "achieves (StartTimer nd tmrId) K A (\<lambda>K' A'. A' = with_buffer tmrId t (Some b) A \<and> log_ready K' \<and>
    k_ok K' own mss (dins b (unat c) L) (fss[i := bs]) \<and>
    mbox_of (K_mem K') b = unat (A_mbxId A) \<and> is_timer_message A (tb_SignalId t) (bytes K' b) \<and>
    (\<forall>x. x \<notin> insert b (set (map fst L)) \<longrightarrow> bytes K' x = bytes K x) \<and> kkeep K K')"
proof -
  from api_StartTimer_ok [OF K mbx fit c, of nd "tb_SignalId t"] obtain K1 where
    1: "api_StartTimer nd (tb_SignalId t) (tb_Count t) (K, A) = Inr (Some b, K1, A)"
      "k_ok K1 own mss (dins b (unat c) L) (fss[i := bs])" "kframe (insert b (set (map fst L))) K K1"
      "mbox_of (K_mem K1) b = unat (A_mbxId A)" "is_timer_message A (tb_SignalId t) (bytes K1 b)" by blast
  let ?A = "with_buffer tmrId t (Some b) A"
  have "log_ready K1" using lg kframeD(6) [OF 1(3)] by simp
  from log_events_ok(5) [OF this, of tmrId ?A] obtain x where
    2: "LogStartTimer tmrId (K1, ?A) = Inr ((), K1\<lparr>K_LogingObject := x\<rparr>, ?A)"
      "log_ready (K1\<lparr>K_LogingObject := x\<rparr>)" by (auto simp: logs_def)
  have run: "StartTimer nd tmrId (K, A) = Inr ((), K1\<lparr>K_LogingObject := x\<rparr>, ?A)"
    using A(2) 1(1) 2(1) A(1) [unfolded timer_ready_def]
    by (simp add: StartTimer_def assert_timer_ok [OF A(1)] assert_id_ok [OF A(1)] timer_at_ok [OF A(1)]
        set_timer_ok [OF A(1)])
  show ?thesis unfolding achieves_def by (intro exI conjI, rule run) (use 1(2,4,5) 2(2) kframeD(1) [OF 1(3)] kframe_keep [OF 1(3)] in simp_all)
qed

lemma StopTimer_achieves:
  fixes A :: "('p, 'z) fsm_scheme"
  assumes K: "k_ok K own mss L fss" and lg: "log_ready K"
    and A: "timer_ready tmrId t A" "tb_TimerBuffer t = Some b" and b: "MSG_HEADER_LENGTH \<le> length (bytes K b)"
    and disj: "b \<notin> set own"
  shows "achieves (StopTimer nd tmrId) K A (\<lambda>K' A'. A' = with_buffer tmrId t None A \<and> log_ready K' \<and>
    k_ok K' own mss L fss \<and> is_discarded (K_mem K') b \<and> (\<forall>x. x \<noteq> b \<longrightarrow> bytes K' x = bytes K x) \<and>
    K_Buffers K' = K_Buffers K \<and> K_PostOffice K' = K_PostOffice K \<and> K_Timer K' = K_Timer K \<and> kkeep K K')"
proof -
  note D = k_okD [OF K]
  let ?bs = "SetUint16 (bytes K b) MSG_CODE DISCARDED"
  let ?K = "K\<lparr>K_mem := SetData b ?bs (K_mem K)\<rparr>" and ?A = "with_buffer tmrId t None A"
  have stop: "api_StopTimer (Some b) (K, A) = Inr ((), ?K, A)"
    using D(1) b by (simp add: api_StopTimer_def kt_StopTimer_def offset_defs)
  have "kernel_ok (SetData b ?bs (K_mem K), K_Buffers K, K_PostOffice K, K_Timer K) mss L fss"
    by (rule kernel_ok_data [OF D(2)]) (simp_all add: timer_count_def mem_simps offset_defs)
  moreover have len: "length (m_data (SetData b ?bs (K_mem K)) x) = length (bytes K x)" for x by simp
  have rest: "m_top (SetData b ?bs (K_mem K)) = m_top (K_mem K)" "m_code (SetData b ?bs (K_mem K)) = m_code (K_mem K)"
    by simp_all
  have "used_buffers (SetData b ?bs (K_mem K), K_Buffers K) fss xs = used_buffers (K_mem K, K_Buffers K) fss xs" for xs
    unfolding used_buffers_def in_pool_def prod.case len rest ..
  ultimately have ok: "k_ok ?K own mss L fss" using D(1,3,8,9) by (simp add: k_ok_def)
  have "log_ready ?K" using lg by (simp add: log_ready_def)
  from log_events_ok(6) [OF this, of tmrId ?A] obtain x where
    2: "LogStopTimer tmrId (?K, ?A) = Inr ((), ?K\<lparr>K_LogingObject := x\<rparr>, ?A)"
      "log_ready (?K\<lparr>K_LogingObject := x\<rparr>)" by (auto simp: logs_def)
  have dis: "is_discarded (K_mem ?K) b" using b by (simp add: is_discarded_def mem_simps offset_defs)
  have run: "StopTimer nd tmrId (K, A) = Inr ((), ?K\<lparr>K_LogingObject := x\<rparr>, ?A)"
    using A(2) stop 2(1)
    by (simp add: StopTimer_def stop_entry_def assert_timer_ok [OF A(1)] assert_id_ok [OF A(1)]
        timer_at_ok [OF A(1)] set_timer_ok [OF A(1)] A(1) [unfolded timer_ready_def, THEN conjunct2, THEN conjunct2, THEN conjunct2])
  show ?thesis unfolding achieves_def by (intro exI conjI, rule run) (use ok 2(2) dis in \<open>simp_all add: kkeep_def\<close>)
qed

end
