(* ===== verification/AutomatonOps.thy ===== *)
theory AutomatonOps
  imports TimerOps
begin

text \<open>
  What a procedure of an automaton does to the kernel, seen from the messages: \<open>sends\<close> says which
  messages are put into which mailboxes, \<open>stock\<close> how many buffers are free for it, and \<open>progress\<close>
  what holds at every point of a procedure.  The rules of this theory move \<open>progress\<close> along the
  statements of which the procedures of the three automata are made.
\<close>

subsection \<open>Messages\<close>

text \<open>A mailbox, and a message: its code, the automaton it is for, and its parameters.\<close>

type_synonym msg = "u16 \<times> u8 \<times> param list"
type_synonym outgoing = "u8 \<times> msg"

fun says :: "msg \<Rightarrow> u8 list \<Rightarrow> bool" where
  "says (code, au, ps) bs \<longleftrightarrow> GetUint16 bs MSG_CODE = code \<and> bs ! MSG_TO_AUTOMATE = au \<and>
     GetUint32 bs MSG_OBJECT_ID_TO = 0 \<and> (if ps = [] then info_length bs = 0 else has_params pc16 bs ps)"

fun sends :: "'z api_scheme \<Rightarrow> addr list list \<Rightarrow> outgoing list \<Rightarrow> addr list list \<Rightarrow> (addr \<Rightarrow> u8 list) \<Rightarrow> bool" where
  "sends A mss [] mss' bs \<longleftrightarrow> mss' = mss"
| "sends A mss ((mbx, m) # outs) mss' bs \<longleftrightarrow> unat mbx < length mss \<and>
     (\<exists>b. is_message A (fst m) (fst (snd m)) 0 (bs b) \<and> says m (bs b) \<and>
        sends A (mss[unat mbx := mss ! unat mbx @ [b]]) outs mss' bs)"

lemma sends_buffers: "sends A mss outs mss' bs \<Longrightarrow> set (concat mss) \<subseteq> set (concat mss') \<and> length mss' = length mss"
proof (induction A mss outs mss' bs rule: sends.induct)
  case (2 A mss mbx m outs mss' bs)
  then obtain b where b: "unat mbx < length mss" "sends A (mss[unat mbx := mss ! unat mbx @ [b]]) outs mss' bs" by auto
  note c = "2.IH" [OF b(2)]
  have "mset (concat (mss[unat mbx := mss ! unat mbx @ [b]])) = mset (b # concat mss)"
    using mset_concat_update [OF b(1), of "mss ! unat mbx @ [b]"] by simp
  from mset_eq_setD [OF this] have "set (concat mss) \<subseteq> set (concat (mss[unat mbx := mss ! unat mbx @ [b]]))"
    by auto
  with c show ?case unfolding length_list_update by (meson subset_trans)
qed simp

lemma mset_in_concat: "i < length mss \<Longrightarrow> b \<in> set (mss ! i) \<Longrightarrow> b \<in> set (concat mss)"
  using nth_mem by fastforce

lemma sends_cong:
  assumes "sends A mss outs mss' bs" "\<And>x. x \<in> set (concat mss') \<Longrightarrow> bs' x = bs x"
  shows "sends A mss outs mss' bs'"
  using assms
proof (induction A mss outs mss' bs rule: sends.induct)
  case (2 A mss mbx m outs mss' bs)
  then obtain b where b: "unat mbx < length mss" "is_message A (fst m) (fst (snd m)) 0 (bs b)" "says m (bs b)"
    "sends A (mss[unat mbx := mss ! unat mbx @ [b]]) outs mss' bs" by auto
  have "b \<in> set (concat (mss[unat mbx := mss ! unat mbx @ [b]]))"
    by (rule mset_in_concat [of "unat mbx"]) (use b(1) in simp_all)
  then have "bs' b = bs b" using sends_buffers [OF b(4)] 2(3) by blast
  moreover have "sends A (mss[unat mbx := mss ! unat mbx @ [b]]) outs mss' bs'"
    using "2.IH" [OF b(4)] 2(3) by blast
  ultimately show ?case using b by (intro sends.simps(2) [THEN iffD2] conjI exI [of _ b]) simp_all
qed simp

lemma sends_append:
  "sends A mss (outs @ outs') mss' bs \<longleftrightarrow> (\<exists>mss1. sends A mss outs mss1 bs \<and> sends A mss1 outs' mss' bs)"
  by (induction A mss outs mss' bs rule: sends.induct) auto

lemma sends_identity:
  assumes "A_automateId A' = A_automateId A" "A_GroupId A' = A_GroupId A" "A_ConnectionId A' = A_ConnectionId A"
  shows "sends A' mss outs mss' bs = sends A mss outs mss' bs"
proof -
  have "is_message A' = is_message A" using assms by (simp add: is_message_def fun_eq_iff)
  then show ?thesis by (induction A mss outs mss' bs rule: sends.induct) auto
qed

subsection \<open>Free buffers\<close>

text \<open>\<open>n\<close> buffers are free in the smallest class, each longer than a message with a string of \<open>k\<close>
  characters.\<close>

definition stock :: "tbuffers \<Rightarrow> addr list list \<Rightarrow> nat \<Rightarrow> nat \<Rightarrow> bool" where
  "stock B fss k n \<longleftrightarrow> (\<exists>i. fits_class B (of_nat MSG_HEADER_LENGTH) i \<and> n \<le> length (fss ! i) \<and>
     k + 29 < unat (BuffersLength B ! i))"

lemma free_length:
  assumes "k_ok K own mss L fss" "i < length fss" "x \<in> set (fss ! i)"
  shows "length (bytes K x) = unat (BuffersLength (K_Buffers K) ! i)"
  using tb_contentD(6) [OF k_okD(5) [OF assms(1)] assms(2,3)] by (auto simp: in_pool_def)

lemma fits_length: "k_ok K own mss L fss \<Longrightarrow> fits_class (K_Buffers K) n i \<Longrightarrow> i < length fss"
  using GetBuffer_start(2) k_okD(5) by blast

lemma stock_take:
  assumes "stock (K_Buffers K) fss k (Suc n)" "k_ok K own mss L fss"
  shows "\<exists>i a as. fits_class (K_Buffers K) (of_nat MSG_HEADER_LENGTH) i \<and> fss ! i = a # as \<and>
    k + 29 < length (bytes K a) \<and> (\<forall>B. same_pool (K_Buffers K) B \<longrightarrow> stock B (fss[i := as]) k n)"
proof -
  from assms(1) obtain i where i: "fits_class (K_Buffers K) (of_nat MSG_HEADER_LENGTH) i"
    "Suc n \<le> length (fss ! i)" "k + 29 < unat (BuffersLength (K_Buffers K) ! i)" by (auto simp: stock_def)
  then obtain a as where a: "fss ! i = a # as" by (cases "fss ! i") auto
  have il: "i < length fss" by (rule fits_length [OF assms(2) i(1)])
  have "k + 29 < length (bytes K a)" using free_length [OF assms(2) il, of a] a i(3) by simp
  moreover have "stock B (fss[i := as]) k n" if "same_pool (K_Buffers K) B" for B
    unfolding stock_def
    by (rule exI [of _ i]) (use that i a il in \<open>simp add: fits_class_def same_pool_def\<close>)
  ultimately show ?thesis using i(1) a by blast
qed

lemma stock_mono: "stock B fss k n \<Longrightarrow> m \<le> n \<Longrightarrow> stock B fss k m"
  by (auto simp: stock_def intro: le_trans)

lemma stock_pool: "same_pool B B' \<Longrightarrow> stock B' fss k n = stock B fss k n"
  by (simp add: stock_def fits_class_def same_pool_def)

text \<open>The buffers that are in use bound how many are free: no buffer is lost.\<close>

definition class_size :: "kernel \<Rightarrow> nat \<Rightarrow> nat" where
  "class_size K i = card {a. a < m_top (K_mem K) \<and> unat (m_code (K_mem K) a) = i}"

definition roomy :: "kernel \<Rightarrow> nat \<Rightarrow> nat \<Rightarrow> bool" where
  "roomy K k n \<longleftrightarrow> (\<exists>i. fits_class (K_Buffers K) (of_nat MSG_HEADER_LENGTH) i \<and> n \<le> class_size K i \<and>
     k + 29 < unat (BuffersLength (K_Buffers K) ! i))"

lemma roomy_keep: "kkeep K K' \<Longrightarrow> roomy K' k n = roomy K k n"
  by (simp add: roomy_def class_size_def kkeep_def fits_class_def same_pool_def)

lemma class_free:
  assumes K: "k_ok K own mss L fss" and i: "i < length fss"
  shows "class_size K i \<le> length (fss ! i) + length own + length L + length (concat mss)"
proof -
  note D = k_okD [OF K]
  let ?as = "own @ map fst L @ concat mss"
  let ?C = "{a. a < m_top (K_mem K) \<and> unat (m_code (K_mem K) a) = i}"
  have "?C \<subseteq> set ?as \<union> set (fss ! i)"
  proof
    fix a assume a: "a \<in> ?C"
    then have "a \<in> set ?as \<union> pooled fss" using D(9) by (simp add: accounted_def)
    moreover have "a \<in> set (fss ! i)" if "a \<in> pooled fss"
    proof -
      from that obtain fs where "fs \<in> set fss" "a \<in> set fs" unfolding pooled_def by auto
      then obtain j where j: "j < length fss" "a \<in> set (fss ! j)" by (metis in_set_conv_nth)
      then have "unat (m_code (K_mem K) a) = j" using tb_contentD(6) [OF D(5)] by blast
      with a j show ?thesis by simp
    qed
    ultimately show "a \<in> set ?as \<union> set (fss ! i)" by blast
  qed
  then have "class_size K i \<le> card (set ?as \<union> set (fss ! i))"
    unfolding class_size_def by (intro card_mono) simp_all
  also have "\<dots> \<le> card (set ?as) + card (set (fss ! i))" by (rule card_Un_le)
  also have "\<dots> \<le> length ?as + length (fss ! i)" by (intro add_mono card_length)
  finally show ?thesis by simp
qed

lemma roomy_stock:
  assumes "k_ok K own mss L fss" "roomy K k (n + length own + length L + length (concat mss))"
  shows "stock (K_Buffers K) fss k n"
proof -
  from assms(2) obtain i where i: "fits_class (K_Buffers K) (of_nat MSG_HEADER_LENGTH) i"
    "n + length own + length L + length (concat mss) \<le> class_size K i"
    "k + 29 < unat (BuffersLength (K_Buffers K) ! i)" by (auto simp: roomy_def)
  have "n \<le> length (fss ! i)" using class_free [OF assms(1) fits_length [OF assms(1) i(1)]] i(2) by simp
  with i show ?thesis by (auto simp: stock_def)
qed

subsection \<open>The progress of a procedure\<close>

text \<open>The automaton after a message has been sent: only its message handler has changed.\<close>

definition sent :: "'z handler_scheme \<Rightarrow> 'z handler_scheme \<Rightarrow> bool" where
  "sent A A' \<longleftrightarrow> (\<exists>p n. A' = A\<lparr>H_NewMessage := None, H_If := (H_If A)\<lparr>NewMessage := p, CurrentOffset := n\<rparr>\<rparr>)"

lemma sent_sel:
  assumes "sent A A'"
  shows "H_CurrentMessage A' = H_CurrentMessage A" "H_NewMessage A' = None" "H_codec A' = H_codec A"
    "CurrentMessage (H_If A') = CurrentMessage (H_If A)" "handler.more A' = handler.more A"
  using assms by (auto simp: sent_def)

text \<open>
  \<open>sending k n own A0 mss0 K0 outs L K A\<close>: an operation that was called on the automaton \<open>A0\<close>, with
  \<open>mss0\<close> in the mailboxes of the kernel \<open>K0\<close> and the messages \<open>own\<close> in hand, has sent \<open>outs\<close> and is now
  at \<open>K\<close> and \<open>A\<close>; it can still take \<open>n\<close> buffers for strings of up to \<open>k\<close> characters.
\<close>

definition sending :: "nat \<Rightarrow> nat \<Rightarrow> addr list \<Rightarrow> 'z api_scheme \<Rightarrow> addr list list \<Rightarrow> kernel \<Rightarrow>
    outgoing list \<Rightarrow> addr dlist \<Rightarrow> kernel \<Rightarrow> 'z api_scheme \<Rightarrow> bool" where
  "sending k n own A0 mss0 K0 outs L K A \<longleftrightarrow>
     H_NewMessage A = None \<and> H_codec A = pc16 \<and>
     A_automateId A = A_automateId A0 \<and> A_GroupId A = A_GroupId A0 \<and> A_ConnectionId A = A_ConnectionId A0 \<and>
     log_ready K \<and> kkeep K0 K \<and> k < 65000 \<and> USER_AUTOMATE_MBX_ID < MailBoxesNum (K_PostOffice K) \<and>
     TimerResolution (K_Timer K) = Timer1s \<and>
     (\<forall>x \<in> set own \<union> set (concat mss0). bytes K x = bytes K0 x) \<and>
     (\<exists>mss fss. k_ok K own mss L fss \<and> stock (K_Buffers K) fss k n \<and> sends A0 mss0 outs mss (bytes K))"

lemma sendingD:
  assumes "sending k n own A0 mss0 K0 outs L K A"
  shows "H_NewMessage A = None" "H_codec A = pc16"
    "log_ready K" "kkeep K0 K" "k < 65000" "TimerResolution (K_Timer K) = Timer1s"
    "mbx \<le> USER_AUTOMATE_MBX_ID \<Longrightarrow> mbx < MailBoxesNum (K_PostOffice K)"
    "x \<in> set own \<union> set (concat mss0) \<Longrightarrow> bytes K x = bytes K0 x"
    "\<exists>mss fss. k_ok K own mss L fss \<and> stock (K_Buffers K) fss k n \<and> sends A0 mss0 outs mss (bytes K)"
    "A_automateId A = A_automateId A0" "A_GroupId A = A_GroupId A0" "A_ConnectionId A = A_ConnectionId A0"
  using assms by (auto simp: sending_def)

text \<open>A procedure has the message \<open>a\<close> it was called for.\<close>

definition progress :: "nat \<Rightarrow> nat \<Rightarrow> addr \<Rightarrow> addr list \<Rightarrow> 'z api_scheme \<Rightarrow> addr list list \<Rightarrow> kernel \<Rightarrow>
    outgoing list \<Rightarrow> addr dlist \<Rightarrow> kernel \<Rightarrow> 'z api_scheme \<Rightarrow> bool" where
  "progress k n a own A0 mss0 K0 outs L K A \<longleftrightarrow> sending k n (a # own) A0 mss0 K0 outs L K A \<and>
     H_CurrentMessage A = Some a \<and> CurrentMessage (H_If A) = Some a"

lemma progressD:
  assumes "progress k n a own A0 mss0 K0 outs L K A"
  shows "H_CurrentMessage A = Some a" "CurrentMessage (H_If A) = Some a" "H_NewMessage A = None" "H_codec A = pc16"
    "log_ready K" "kkeep K0 K" "k < 65000" "TimerResolution (K_Timer K) = Timer1s"
    "mbx \<le> USER_AUTOMATE_MBX_ID \<Longrightarrow> mbx < MailBoxesNum (K_PostOffice K)"
    "x \<in> insert a (set own) \<union> set (concat mss0) \<Longrightarrow> bytes K x = bytes K0 x"
    "\<exists>mss fss. k_ok K (a # own) mss L fss \<and> stock (K_Buffers K) fss k n \<and> sends A0 mss0 outs mss (bytes K)"
    "A_automateId A = A_automateId A0" "A_GroupId A = A_GroupId A0" "A_ConnectionId A = A_ConnectionId A0"
  using assms by (auto simp: progress_def sending_def)

text \<open>Nothing of the automaton but its message handler and its identity matters.\<close>

lemma progress_cong:
  assumes "progress k n a own A0 mss0 K0 outs L K A"
    and "H_CurrentMessage A' = H_CurrentMessage A" "CurrentMessage (H_If A') = CurrentMessage (H_If A)"
    and "H_NewMessage A' = H_NewMessage A" "H_codec A' = H_codec A"
    and "A_automateId A' = A_automateId A" "A_GroupId A' = A_GroupId A" "A_ConnectionId A' = A_ConnectionId A"
  shows "progress k n a own A0 mss0 K0 outs L K A'"
  using assms by (simp add: progress_def sending_def)

text \<open>Another message goes out: what \<open>send_to_ok\<close> and \<open>send_param_ok\<close> conclude about the kernel.\<close>

lemma sending_sent:
  assumes P: "sending k m own A0 mss0 K0 outs L K A" and s: "sent A A'" and mbx: "mbx \<le> USER_AUTOMATE_MBX_ID"
    and K: "k_ok K own mss L fss" "sends A0 mss0 outs mss (bytes K)"
    and K': "k_ok K' own (mss[unat mbx := mss ! unat mbx @ [b]]) L fss'" "kframe {b} K K'" "b \<in> pooled fss"
      "stock (K_Buffers K') fss' k n"
    and b: "is_message A code au 0 (bytes K' b)" "says (code, au, ps) (bytes K' b)"
  shows "sending k n own A0 mss0 K0 (outs @ [(mbx, code, au, ps)]) L K' A' \<and>
    (\<forall>x \<in> set (map fst L). bytes K' x = bytes K x)"
proof -
  note D = sendingD [OF P]
  have same: "bytes K' x = bytes K x" if "x \<in> set own \<union> set (map fst L) \<union> set (concat mss)" for x
  proof -
    have "x \<notin> pooled fss" using k_okD(3) [OF K(1)] that unfolding used_buffers_def by auto
    then show ?thesis using kframeD(1) [OF K'(2), of x] K'(3) by auto
  qed
  have mbl: "unat mbx < length mss"
    using D(7) [OF mbx] k_okD(6) [OF K(1)] by (simp add: word_less_nat_alt)
  have old: "sends A0 mss0 outs mss (bytes K')" by (rule sends_cong [OF K(2)]) (use same in simp)
  have "is_message A0 = is_message A" using D(10-12) by (simp add: is_message_def fun_eq_iff)
  then have "sends A0 mss [(mbx, code, au, ps)] (mss[unat mbx := mss ! unat mbx @ [b]]) (bytes K')"
    using b mbl by auto
  with old have out: "sends A0 mss0 (outs @ [(mbx, code, au, ps)]) (mss[unat mbx := mss ! unat mbx @ [b]]) (bytes K')"
    unfolding sends_append by blast
  have "set (concat mss0) \<subseteq> set (concat mss)" using sends_buffers [OF K(2)] by blast
  then have fr: "\<forall>x \<in> set own \<union> set (concat mss0). bytes K' x = bytes K0 x"
    using same D(8) by (metis (no_types, lifting) Un_iff subsetD)
  have kp: "kkeep K0 K'" by (rule kkeep_trans [OF D(4) kframe_keep [OF K'(2)]])
  obtain p q where A': "A' = A\<lparr>H_NewMessage := None, H_If := (H_If A)\<lparr>NewMessage := p, CurrentOffset := q\<rparr>\<rparr>"
    using s by (auto simp: sent_def)
  have "sending k n own A0 mss0 K0 (outs @ [(mbx, code, au, ps)]) L K' A'"
    unfolding sending_def
  proof (intro conjI)
    show "\<exists>mss fss. k_ok K' own mss L fss \<and> stock (K_Buffers K') fss k n \<and>
        sends A0 mss0 (outs @ [(mbx, code, au, ps)]) mss (bytes K')" using K'(1,4) out by blast
  qed (use fr kp D A' kframeD [OF K'(2)] in \<open>simp_all del: set_concat\<close>)
  with same show ?thesis by blast
qed

lemma sending_send_to:
  assumes P: "sending k (Suc n) own A0 mss0 K0 outs L K A" and mbx: "mbx \<le> USER_AUTOMATE_MBX_ID"
  shows "achieves (send_to nd code au mbx) K A (\<lambda>K' A'. sent A A' \<and>
    sending k n own A0 mss0 K0 (outs @ [(mbx, code, au, [])]) L K' A' \<and>
    (\<forall>x \<in> set (map fst L). bytes K' x = bytes K x))"
proof -
  note D = sendingD [OF P]
  from D(9) obtain mss fss where
    K: "k_ok K own mss L fss" "stock (K_Buffers K) fss k (Suc n)" "sends A0 mss0 outs mss (bytes K)" by blast
  from stock_take [OF K(2,1)] obtain i b bs where
    i: "fits_class (K_Buffers K) (of_nat MSG_HEADER_LENGTH) i" "fss ! i = b # bs"
      "\<forall>B. same_pool (K_Buffers K) B \<longrightarrow> stock B (fss[i := bs]) k n" by blast
  have b: "b \<in> pooled fss" using pooledI [OF fits_length [OF K(1) i(1)], of b] i(2) by simp
  from send_to_ok [OF K(1) i(1,2) disjI2 [OF D(1)] D(7) [OF mbx], where nd = nd and code = code and au = au] obtain K' where
    r: "send_to nd code au mbx (K, A) = Inr ((), K', A\<lparr>H_NewMessage := None, H_If := (H_If A)\<lparr>NewMessage := Some b\<rparr>\<rparr>)"
      "k_ok K' own (mss[unat mbx := mss ! unat mbx @ [b]]) L (fss[i := bs])" "kframe {b} K K'"
      "is_message A code au 0 (bytes K' b)" "GetUint16 (bytes K' b) MSG_LENGTH = 0" by blast
  let ?A = "A\<lparr>H_NewMessage := None, H_If := (H_If A)\<lparr>NewMessage := Some b\<rparr>\<rparr>"
  have s: "sent A ?A" unfolding sent_def by (rule exI [of _ "Some b"], rule exI [of _ "CurrentOffset (H_If A)"]) simp
  have st: "stock (K_Buffers K') (fss[i := bs]) k n" using i(3) kframeD(4) [OF r(3)] by blast
  have sy: "says (code, au, []) (bytes K' b)" using r(4,5) by (simp add: is_message_def info_length_def)
  show ?thesis unfolding achieves_def
    using r(1) s sending_sent [OF P s mbx K(1,3) r(2,3) b st r(4) sy] by blast
qed

lemma sending_send_param:
  assumes P: "sending k (Suc n) own A0 mss0 K0 outs L K A" and mbx: "mbx \<le> USER_AUTOMATE_MBX_ID"
    and c: "c \<noteq> 0" "unat c < 65536" and v: "length v \<le> k"
    and add: "\<And>K1 A1. handler.more A1 = handler.more A \<Longrightarrow>
      add (K1, A1) = bnd (mh_AddParam nd c (of_nat (length v)) (v @ w)) (\<lambda>_. ret ()) (K1, A1)"
  shows "achieves (run (prepared nd code au @ [add, SendMessage mbx])) K A (\<lambda>K' A'. sent A A' \<and>
    sending k n own A0 mss0 K0 (outs @ [(mbx, code, au, [(c, v)])]) L K' A' \<and>
    (\<forall>x \<in> set (map fst L). bytes K' x = bytes K x))"
proof -
  note D = sendingD [OF P]
  from D(9) obtain mss fss where
    K: "k_ok K own mss L fss" "stock (K_Buffers K) fss k (Suc n)" "sends A0 mss0 outs mss (bytes K)" by blast
  from stock_take [OF K(2,1)] obtain i b bs where
    i: "fits_class (K_Buffers K) (of_nat MSG_HEADER_LENGTH) i" "fss ! i = b # bs" "k + 29 < length (bytes K b)"
      "\<forall>B. same_pool (K_Buffers K) B \<longrightarrow> stock B (fss[i := bs]) k n" by blast
  have b: "b \<in> pooled fss" using pooledI [OF fits_length [OF K(1) i(1)], of b] i(2) by simp
  have p: "param_ok (H_codec A) (c, v)" using c v D(2,5) by (simp add: in_field_def)
  have len: "length v < 65000" "length v + 29 < length (bytes K b)" using v D(5) i(3) by simp_all
  have add': "add (K1, A1) = bnd (mh_AddParam nd c (of_nat (length v)) (v @ w)) (\<lambda>_. ret ()) (K1, A1)"
    if "A1 = A\<lparr>H_NewMessage := Some b, H_If := (H_If A)\<lparr>NewMessage := Some b\<rparr>\<rparr>" for K1 A1
    by (rule add) (simp add: that)
  from send_param_ok [OF K(1) i(1,2) disjI2 [OF D(1)] D(7) [OF mbx] p len(1) _ add', where code = code and au = au] len(2)
  obtain K' off where
    r: "run (prepared nd code au @ [add, SendMessage mbx]) (K, A) =
        Inr ((), K', A\<lparr>H_NewMessage := None, H_If := (H_If A)\<lparr>NewMessage := Some b, CurrentOffset := off\<rparr>\<rparr>)"
      "k_ok K' own (mss[unat mbx := mss ! unat mbx @ [b]]) L (fss[i := bs])" "kframe {b, b} K K'"
      "is_message A code au 0 (bytes K' b)" "has_params (H_codec A) (bytes K' b) [(c, v)]"
    by (metis not_less)
  let ?A = "A\<lparr>H_NewMessage := None, H_If := (H_If A)\<lparr>NewMessage := Some b, CurrentOffset := off\<rparr>\<rparr>"
  have s: "sent A ?A" unfolding sent_def by blast
  have fr: "kframe {b} K K'" using r(3) by simp
  have st: "stock (K_Buffers K') (fss[i := bs]) k n" using i(4) kframeD(4) [OF fr] by blast
  have sy: "says (code, au, [(c, v)]) (bytes K' b)" using r(4,5) D(2) by (simp add: is_message_def)
  show ?thesis unfolding achieves_def
    using r(1) s sending_sent [OF P s mbx K(1,3) r(2) fr b st r(4) sy] by blast
qed

lemma mbx_ids [simp]:
  "CH_AUTOMATE_MBX_ID \<le> USER_AUTOMATE_MBX_ID" "CL_AUTOMATE_MBX_ID \<le> USER_AUTOMATE_MBX_ID"
  by (simp_all add: USER_AUTOMATE_MBX_ID_def CH_AUTOMATE_MBX_ID_def CL_AUTOMATE_MBX_ID_def)

lemma progress3: "progress k 3 = progress k (Suc 2)"
  by (simp add: numeral_3_eq_3)

text \<open>The same for a procedure.\<close>

lemma progress_send_to:
  assumes "progress k (Suc n) a own A0 mss0 K0 outs L K A" "mbx \<le> USER_AUTOMATE_MBX_ID"
  shows "achieves (send_to nd code au mbx) K A (\<lambda>K' A'. sent A A' \<and>
    progress k n a own A0 mss0 K0 (outs @ [(mbx, code, au, [])]) L K' A' \<and>
    (\<forall>x \<in> set (map fst L). bytes K' x = bytes K x))"
  using assms unfolding progress_def
  by (elim conjE) (rule achieves_mono [OF sending_send_to], assumption+, auto simp: sent_sel(1,4))

lemma progress_send_then:
  assumes "progress k (Suc n) a own A0 mss0 K0 outs L K A" "mbx \<le> USER_AUTOMATE_MBX_ID"
    and "\<And>K' A'. sent A A' \<Longrightarrow> progress k n a own A0 mss0 K0 (outs @ [(mbx, code, au, [])]) L K' A' \<Longrightarrow>
      achieves (run fs) K' A' R"
  shows "achieves (run (send_to nd code au mbx # fs)) K A R"
  unfolding achieves_run_Cons by (rule achieves_mono [OF progress_send_to [OF assms(1,2)]]) (use assms(3) in blast)

lemma sent_trans:
  assumes "sent A1 A2" "sent A2 A3"
  shows "sent A1 A3"
proof -
  from assms obtain p n q m where "A2 = A1\<lparr>H_NewMessage := None, H_If := (H_If A1)\<lparr>NewMessage := p, CurrentOffset := n\<rparr>\<rparr>"
    "A3 = A2\<lparr>H_NewMessage := None, H_If := (H_If A2)\<lparr>NewMessage := q, CurrentOffset := m\<rparr>\<rparr>" by (auto simp: sent_def)
  then show ?thesis unfolding sent_def by (intro exI [of _ q] exI [of _ m]) simp
qed

lemma progress_send_param:
  assumes "progress k (Suc n) a own A0 mss0 K0 outs L K A" "mbx \<le> USER_AUTOMATE_MBX_ID"
    and "c \<noteq> 0" "unat c < 65536" "length v \<le> k"
    and "\<And>K1 A1. handler.more A1 = handler.more A \<Longrightarrow>
      add (K1, A1) = bnd (mh_AddParam nd c (of_nat (length v)) (v @ w)) (\<lambda>_. ret ()) (K1, A1)"
  shows "achieves (run (prepared nd code au @ [add, SendMessage mbx])) K A (\<lambda>K' A'. sent A A' \<and>
    progress k n a own A0 mss0 K0 (outs @ [(mbx, code, au, [(c, v)])]) L K' A' \<and>
    (\<forall>x \<in> set (map fst L). bytes K' x = bytes K x))"
proof -
  have "sending k (Suc n) (a # own) A0 mss0 K0 outs L K A" using assms(1) by (simp add: progress_def)
  note S = sending_send_param [where w = w and add = add, OF this assms(2-5)]
  show ?thesis
    by (rule achieves_mono [OF S], rule assms(6), assumption) (use assms(1) in \<open>auto simp: progress_def sent_sel(1,4)\<close>)
qed

subsection \<open>Strings\<close>

text \<open>The string an automaton keeps in an array is the parameter it sends.\<close>

definition add_string :: "bool \<Rightarrow> u32 \<Rightarrow> ('z \<Rightarrow> u8 list) \<Rightarrow> (kernel \<times> 'z handler_scheme, unit) op" where
  "add_string nd c g = (\<lambda>(K, A). bindR (c_str (g (handler.more A))) (\<lambda>s.
     bnd (mh_AddParam nd c (of_nat (length s)) (g (handler.more A))) (\<lambda>_. ret ()) (K, A)))"

text \<open>A field of the automaton as a function of what the automaton has besides its message handler.\<close>

abbreviation more_field :: "('m handler_scheme \<Rightarrow> 'b) \<Rightarrow> 'm \<Rightarrow> 'b" where
  "more_field f m \<equiv> f \<lparr>H_CurrentMessage = None, H_NewMessage = None, H_codec = pc16, H_If = MessageInterface, \<dots> = m\<rparr>"

lemma c_str_prefix: "c_str bs = Inr v \<Longrightarrow> \<exists>w. bs = v @ w"
  by (auto simp: c_str_def split: if_splits) (metis takeWhile_dropWhile_id)

lemma progress_send_string:
  assumes "progress k (Suc n) a own A0 mss0 K0 outs L K A" "mbx \<le> USER_AUTOMATE_MBX_ID"
    and "c \<noteq> 0" "unat c < 65536" and v: "c_str (g (handler.more A)) = Inr v" "length v \<le> k"
  shows "achieves (run (prepared nd code au @ [add_string nd c g, SendMessage mbx])) K A (\<lambda>K' A'. sent A A' \<and>
    progress k n a own A0 mss0 K0 (outs @ [(mbx, code, au, [(c, v)])]) L K' A' \<and>
    (\<forall>x \<in> set (map fst L). bytes K' x = bytes K x))"
proof -
  from c_str_prefix [OF v(1)] obtain w where w: "g (handler.more A) = v @ w" by blast
  show ?thesis
    by (rule progress_send_param [where w = w, OF assms(1-4) v(2)]) (use v w in \<open>simp add: add_string_def\<close>)
qed

text \<open>What a procedure relies on: the parameter it reads is there and fits its array, and the string
  it sends is there and fits a buffer.\<close>

definition string_param :: "param list \<Rightarrow> u32 \<Rightarrow> bool" where
  "string_param ps c \<longleftrightarrow> (case map_of ps c of None \<Rightarrow> False | Some v \<Rightarrow> 0 \<notin> set v \<and> length v < 256)"

definition string_upto :: "nat \<Rightarrow> u8 list result \<Rightarrow> bool" where
  "string_upto k s \<longleftrightarrow> (case s of Inl _ \<Rightarrow> False | Inr v \<Rightarrow> length v \<le> k)"

lemma string_uptoD: "string_upto k s \<Longrightarrow> \<exists>v. s = Inr v \<and> length v \<le> k"
  by (auto simp: string_upto_def split: sum.splits)

lemma string_paramD:
  "string_param ps c \<Longrightarrow> \<exists>v. map_of ps c = Some v \<and> 0 \<notin> set v \<and> length v < 256"
  by (auto simp: string_param_def split: option.splits)

lemma string_param_nonempty: "string_param ps c \<Longrightarrow> ps \<noteq> []"
  by (auto simp: string_param_def)

lemma c_str_copied: "0 \<notin> set v \<Longrightarrow> c_str (v @ 0 # w) = Inr v"
  by (simp add: c_str_def) (subst takeWhile_append2, auto)

text \<open>The two statements that copy a parameter of the received message into an array.\<close>

lemma progress_read:
  fixes A A0 :: "'z api_scheme"
  assumes P: "progress k n a own A0 mss0 K0 outs L K A"
    and ps: "has_params pc16 (bytes K0 a) ps" "map_of ps c = Some v" "length v < 256" and dst: "length dst = 256"
  shows "\<exists>off i. param_size nd c (K, A) =
      Inr ((a, i, length v), K, A\<lparr>H_If := (H_If A)\<lparr>CurrentOffset := off\<rparr>\<rparr>) \<and>
    (\<forall>(A' :: 'z api_scheme) K'. bytes K' a = bytes K a \<longrightarrow>
      param_copy (a, i, length v) dst (K', A') = Inr (v @ 0 # drop (length v + 1) dst, K', A'))"
proof -
  note D = progressD [OF P]
  have "has_params pc16 (bytes K a) ps" using ps(1) D(10) [of a] by simp
  from param_copy_ok [OF D(1,2,4) this ps(2,3), of dst nd] ps(3) dst obtain off i where
    r: "param_size nd c (K, A) = Inr ((a, i, length v), K, A\<lparr>H_If := (H_If A)\<lparr>CurrentOffset := off\<rparr>\<rparr>)"
      "\<And>A' :: 'z api_scheme. param_copy (a, i, length v) dst (K, A') = Inr (v @ 0 # drop (length v + 1) dst, K, A')" by auto
  have "param_copy (a, i, length v) dst (K', A') = Inr (v @ 0 # drop (length v + 1) dst, K', A')"
    if "bytes K' a = bytes K a" for A' :: "'z api_scheme" and K'
    using r(2) [of A'] that by (auto simp: param_copy_def in_buff_def bindR_eq_Inr split: if_splits)
  with r(1) show ?thesis by blast
qed

lemma SetState_achieves [simp]: "achieves (SetState st) K A R = R K (A\<lparr>A_State := st\<rparr>)"
  by (simp add: achieves_def SetState_def upd_def)

lemma achieves_bnd_ret:
  "f (K, A) = Inr (x, K1, A1) \<Longrightarrow> achieves (bnd f g) K A R = achieves (g x) K1 A1 R"
  by (simp add: achieves_def)

subsection \<open>Timers\<close>

text \<open>A timer that is not running is started.\<close>

lemma progress_StartTimer:
  fixes A0 A :: "('p, 'z) fsm_scheme"
  assumes P: "progress k (Suc n) a own A0 mss0 K0 outs L K A"
    and t: "timer_ready i t A" "tb_TimerBuffer t = None" and mbx: "A_mbxId A \<le> USER_AUTOMATE_MBX_ID"
    and c: "tb_Count t \<noteq> 0" "A_TimerResolution A = Timer1s"
  shows "achieves (StartTimer nd i) K A (\<lambda>K' A'. \<exists>b. A' = with_buffer i t (Some b) A \<and>
    progress k n a own A0 mss0 K0 outs (dins b (unat (tb_Count t)) L) K' A' \<and>
    is_timer_message A0 (tb_SignalId t) (bytes K' b))"
proof -
  note D = progressD [OF P]
  from D(11) obtain mss fss where
    K: "k_ok K (a # own) mss L fss" "stock (K_Buffers K) fss k (Suc n)" "sends A0 mss0 outs mss (bytes K)" by blast
  from stock_take [OF K(2,1)] obtain j b bs where
    j: "fits_class (K_Buffers K) (of_nat MSG_HEADER_LENGTH) j" "fss ! j = b # bs"
      "\<forall>B. same_pool (K_Buffers K) B \<longrightarrow> stock B (fss[j := bs]) k n" by blast
  have cc: "tb_Count t = tb_Count t * of_nat (res_ms (A_TimerResolution A) div res_ms (TimerResolution (K_Timer K)))"
    using c(2) D(8) by simp
  note T = StartTimer_achieves [OF K(1) D(5) t D(9) [OF mbx] j(1,2) c(1) cc, of nd]
  show ?thesis
  proof (rule achieves_mono [OF T], elim conjE, intro exI [of _ b] conjI)
    fix K' A'
    let ?A = "with_buffer i t (Some b) A" and ?L = "dins b (unat (tb_Count t)) L"
    assume r: "A' = ?A" "log_ready K'" "k_ok K' (a # own) mss ?L (fss[j := bs])"
      "is_timer_message A (tb_SignalId t) (bytes K' b)"
      "\<forall>x. x \<notin> insert b (set (map fst L)) \<longrightarrow> bytes K' x = bytes K x" "kkeep K K'"
    show "A' = ?A" by (fact r)
    show "is_timer_message A0 (tb_SignalId t) (bytes K' b)"
      using r(4) D(12-14) by (simp add: is_timer_message_def)
    have same: "bytes K' x = bytes K x" if "x \<in> insert a (set own) \<union> set (concat mss)" for x
    proof -
      have "x \<notin> set (map fst ?L)" using k_okD(3) [OF r(3)] that unfolding used_buffers_def by auto
      then have "x \<notin> insert b (set (map fst L))" unfolding set_dins .
      with r(5) show ?thesis by blast
    qed
    have "set (concat mss0) \<subseteq> set (concat mss)" using sends_buffers [OF K(3)] by blast
    then have "\<forall>x \<in> insert a (set own) \<union> set (concat mss0). bytes K' x = bytes K0 x"
      using same D(10) by (metis (no_types, lifting) Un_iff subsetD)
    moreover have "sends A0 mss0 outs mss (bytes K')" by (rule sends_cong [OF K(3)]) (use same in blast)
    moreover have "stock (K_Buffers K') (fss[j := bs]) k n" using j(3) r(6) by (simp add: kkeep_def)
    moreover have "USER_AUTOMATE_MBX_ID < MailBoxesNum (K_PostOffice K')" "TimerResolution (K_Timer K') = Timer1s"
      using D(8,9) r(6) by (simp_all add: kkeep_def)
    ultimately show "progress k n a own A0 mss0 K0 outs ?L K' A'"
      unfolding progress_def sending_def using D(1-7,12-14) r(1-3) kkeep_trans [OF D(6) r(6)]
      by (simp del: set_concat) blast
  qed
qed

text \<open>A timer in the list is marked.\<close>

lemma progress_StopTimer:
  fixes A0 A :: "('p, 'z) fsm_scheme"
  assumes P: "progress k n a own A0 mss0 K0 outs L K A"
    and t: "timer_ready i t A" "tb_TimerBuffer t = Some b" and b: "b \<in> set (map fst L)"
  shows "achieves (StopTimer nd i) K A (\<lambda>K' A'. A' = with_buffer i t None A \<and>
    progress k n a own A0 mss0 K0 outs L K' A' \<and> GetUint16 (bytes K' b) MSG_CODE = DISCARDED)"
proof -
  note D = progressD [OF P]
  from D(11) obtain mss fss where
    K: "k_ok K (a # own) mss L fss" "stock (K_Buffers K) fss k n" "sends A0 mss0 outs mss (bytes K)" by blast
  have dis: "x \<noteq> b" if "x \<in> insert a (set own) \<union> set (concat mss)" for x
    using k_okD(3) [OF K(1)] that b unfolding used_buffers_def by auto
  have h: "MSG_HEADER_LENGTH \<le> length (bytes K b)" using k_ok_len [OF K(1)] b by blast
  have nb: "b \<notin> set (a # own)" using dis by auto
  show ?thesis
  proof (rule achieves_mono [OF StopTimer_achieves [OF K(1) D(5) t h nb, of nd]], elim conjE, intro conjI)
    fix K' A'
    let ?A = "with_buffer i t None A"
    assume r: "A' = ?A" "log_ready K'" "k_ok K' (a # own) mss L fss" "is_discarded (K_mem K') b"
      "\<forall>x. x \<noteq> b \<longrightarrow> bytes K' x = bytes K x" "K_Buffers K' = K_Buffers K" "K_PostOffice K' = K_PostOffice K"
      "K_Timer K' = K_Timer K" "kkeep K K'"
    show "A' = ?A" by (fact r)
    show "GetUint16 (bytes K' b) MSG_CODE = DISCARDED" using r(4) by (simp add: is_discarded_def)
    have same: "bytes K' x = bytes K x" if "x \<in> insert a (set own) \<union> set (concat mss)" for x
      using r(5) dis [OF that] by blast
    have "set (concat mss0) \<subseteq> set (concat mss)" using sends_buffers [OF K(3)] by blast
    then have "\<forall>x \<in> insert a (set own) \<union> set (concat mss0). bytes K' x = bytes K0 x"
      using same D(10) by (metis (no_types, lifting) Un_iff subsetD)
    moreover have "sends A0 mss0 outs mss (bytes K')" by (rule sends_cong [OF K(3)]) (use same in blast)
    ultimately show "progress k n a own A0 mss0 K0 outs L K' A'"
      unfolding progress_def sending_def using D(1-9,12-14) r(1-3,6-8) K(2) kkeep_trans [OF D(6) r(9)]
      by (simp del: set_concat) blast
  qed
qed

lemma StopTimer_idle:
  assumes "timer_ready i t A" "tb_TimerBuffer t = None"
  shows "StopTimer nd i (K, A) = Inr ((), K, A)"
proof -
  have "tb_Valid t" using assms(1) by (simp add: timer_ready_def)
  then show ?thesis using assms(2)
    by (simp add: StopTimer_def assert_timer_ok [OF assms(1)] assert_id_ok [OF assms(1)] timer_at_ok [OF assms(1)])
qed

end
