(* ===== verification/AutomatonContract.thy ===== *)
theory AutomatonContract
  imports AutomatonOps
begin

text \<open>
  The contract between \<open>Process\<close> and the procedures of an automaton.  An automaton has a view, the
  data an abstract description of it speaks of; it promises for each procedure a step from a view
  and the parameters of a message to the next view and the messages that are sent, as long as the
  procedure has what it \<open>needs\<close>.  \<open>Process\<close> then makes the step the branch table selects, gives the
  buffer of the message back, and touches no other message.  The interpretations are in the
  theories of the three automata.
\<close>

definition carries :: "u8 list \<Rightarrow> param list \<Rightarrow> bool" where
  "carries bs ps \<longleftrightarrow> (ps \<noteq> [] \<longrightarrow> has_params pc16 bs ps)"

lemma carries_Nil [simp]: "carries bs []"
  by (simp add: carries_def)

text \<open>The timer list: a new timer is inserted, a stopped one is marked.\<close>

definition timers_follow :: "'z api_scheme \<Rightarrow> ptr \<Rightarrow> ptr \<Rightarrow> addr dlist \<Rightarrow> addr dlist \<Rightarrow> (addr \<Rightarrow> u8 list) \<Rightarrow> bool" where
  "timers_follow A t t' L L' bs \<longleftrightarrow> (case t of
     None \<Rightarrow> (case t' of None \<Rightarrow> L' = L
       | Some b \<Rightarrow> L' = dins b (unat TIMER1_COUNT) L \<and> is_timer_message A MSG_Timer_Expired (bs b))
   | Some b \<Rightarrow> L' = L \<and> (case t' of None \<Rightarrow> GetUint16 (bs b) MSG_CODE = DISCARDED
       | Some b' \<Rightarrow> b' = b))"

lemma timers_follow_same [simp]: "timers_follow A t t L L bs"
  by (simp add: timers_follow_def split: option.split)

text \<open>An automaton that is ready for the message \<open>a\<close>, which it has been given.\<close>

definition ready_for :: "nat \<Rightarrow> nat \<Rightarrow> addr \<Rightarrow> addr list \<Rightarrow> addr list list \<Rightarrow> addr dlist \<Rightarrow> kernel \<Rightarrow> 'z api_scheme \<Rightarrow> bool" where
  "ready_for k n a own mss L K A \<longleftrightarrow> H_NewMessage A = None \<and> H_codec A = pc16 \<and> log_ready K \<and> k < 65000 \<and>
     USER_AUTOMATE_MBX_ID < MailBoxesNum (K_PostOffice K) \<and> TimerResolution (K_Timer K) = Timer1s \<and>
     (\<exists>fss. k_ok K (a # own) mss L fss \<and> stock (K_Buffers K) fss k n)"

lemma ready_progress:
  assumes "ready_for k n a own mss L K A" "log_ready (K\<lparr>K_LogingObject := x\<rparr>)"
  shows "progress k n a own (parsed a A) mss (K\<lparr>K_LogingObject := x\<rparr>) [] L (K\<lparr>K_LogingObject := x\<rparr>) (parsed a A)"
  using assms by (simp add: progress_def sending_def ready_for_def)

text \<open>After \<open>Process\<close>: the automaton has no message, the kernel accounts for every buffer, and the
  mailboxes hold what they held and what was sent.\<close>

definition handled :: "addr list \<Rightarrow> 'z api_scheme \<Rightarrow> addr list list \<Rightarrow> addr dlist \<Rightarrow> kernel \<Rightarrow> outgoing list \<Rightarrow>
    ptr \<Rightarrow> ptr \<Rightarrow> kernel \<Rightarrow> 'z api_scheme \<Rightarrow> bool" where
  "handled own A mss L K outs t t' K' A' \<longleftrightarrow>
     H_CurrentMessage A' = None \<and> H_NewMessage A' = None \<and> H_codec A' = pc16 \<and>
     A_automateId A' = A_automateId A \<and> A_GroupId A' = A_GroupId A \<and> A_ConnectionId A' = A_ConnectionId A \<and>
     log_ready K' \<and> kkeep K K' \<and> (\<forall>x \<in> set own \<union> set (concat mss). bytes K' x = bytes K x) \<and>
     (\<exists>mss' L' fss'. k_ok K' own mss' L' fss' \<and> sends A mss outs mss' (bytes K') \<and>
        timers_follow A t t' L L' (bytes K'))"

text \<open>What a procedure owes: the automaton is well-formed and has the view and the messages of the
  step \<open>r\<close>, and its timer is in the list of the kernel.\<close>

definition step_done :: "('z api_scheme \<Rightarrow> bool) \<Rightarrow> ('z api_scheme \<Rightarrow> 'v) \<Rightarrow> ('z api_scheme \<Rightarrow> ptr) \<Rightarrow> nat \<Rightarrow> addr \<Rightarrow>
    addr list \<Rightarrow> 'z api_scheme \<Rightarrow> addr list list \<Rightarrow> addr dlist \<Rightarrow> kernel \<Rightarrow> 'v \<times> outgoing list \<Rightarrow> kernel \<Rightarrow>
    'z api_scheme \<Rightarrow> bool" where
  "step_done ok view timer k a own A mss L K r K' A' \<longleftrightarrow> ok A' \<and> view A' = fst r \<and>
     (\<exists>n L'. progress k n a own A mss K (snd r) L' K' A' \<and> timers_follow A (timer A) (timer A') L L' (bytes K'))"

lemma step_done_same:
  assumes "progress k n a own A mss K outs L K' A'" "ok A'" "view A' = v" "timer A' = timer A"
  shows "step_done ok view timer k a own A mss L K (v, outs) K' A'"
  unfolding step_done_def using assms timers_follow_same by fastforce

locale automaton =
  fixes exec :: "'p \<Rightarrow> ('p, 'z, unit) fop"
    and tb :: "'p row list"
    and ok :: "('p, 'z) fsm_scheme \<Rightarrow> bool"
    and view :: "('p, 'z) fsm_scheme \<Rightarrow> 'v"
    and state :: "'v \<Rightarrow> u8"
    and timer :: "('p, 'z) fsm_scheme \<Rightarrow> ptr"
    and needs :: "nat \<Rightarrow> 'p \<Rightarrow> 'v \<Rightarrow> param list \<Rightarrow> bool"
    and step :: "'p \<Rightarrow> 'v \<Rightarrow> param list \<Rightarrow> 'v \<times> outgoing list"
  assumes table: "ok A \<Longrightarrow> \<exists>ss k n. F_States A = Some ss \<and> states_ok k n tb ss \<and>
      (\<forall>st \<in> fst ` set tb. unat st < n)"
    and state: "state (view A) = A_State A"
    and data: "handler.more A' = handler.more A \<Longrightarrow> ok A' = ok A \<and> view A' = view A \<and> timer A' = timer A"
    and refines: "progress k 3 a own A mss K [] L K A \<Longrightarrow> ok A \<Longrightarrow> set_option (timer A) \<subseteq> set (map fst L) \<Longrightarrow>
      carries (bytes K a) ps \<Longrightarrow> needs k p (view A) ps \<Longrightarrow>
      achieves (exec p) K A (step_done ok view timer k a own A mss L K (step p (view A) ps))"
begin

definition table_step :: "'v \<Rightarrow> u16 \<Rightarrow> param list \<Rightarrow> 'v \<times> outgoing list" where
  "table_step v code ps = (case proc_for tb (state v) code of DoNothing \<Rightarrow> (v, []) | Proc p \<Rightarrow> step p v ps)"

definition table_needs :: "nat \<Rightarrow> 'v \<Rightarrow> u16 \<Rightarrow> param list \<Rightarrow> bool" where
  "table_needs k v code ps = (case proc_for tb (state v) code of DoNothing \<Rightarrow> True | Proc p \<Rightarrow> needs k p v ps)"

lemma call_step:
  assumes P: "progress k 3 a own A mss K [] L K A" and ok: "ok A" "set_option (timer A) \<subseteq> set (map fst L)"
    and ps: "carries (bytes K a) ps" and n: "table_needs k (view A) code ps"
  shows "achieves (call_proc exec (Some (proc_for tb (A_State A) code))) K A
    (step_done ok view timer k a own A mss L K (table_step (view A) code ps))"
proof (cases "proc_for tb (A_State A) code")
  case DoNothing
  then have t: "table_step (view A) code ps = (view A, [])" by (simp add: table_step_def state)
  have c: "call_proc exec (Some (proc_for tb (A_State A) code)) = ret ()"
    using DoNothing by (simp add: call_proc_def)
  show ?thesis unfolding t c achieves_ret step_done_def using P ok(1) timers_follow_same by fastforce
next
  case (Proc p)
  with refines [OF P ok ps, of p] n show ?thesis
    by (simp add: table_step_def table_needs_def call_proc_def state)
qed

lemma Process_step:
  assumes r: "ready_for k 3 a own mss L K A" and ok: "ok A" "set_option (timer A) \<subseteq> set (map fst L)"
    and lg: "loggable nd (bytes K a)" and code: "GetUint16 (bytes K a) MSG_CODE = code"
    and ps: "carries (bytes K a) ps" and st: "A_State A \<in> fst ` set tb" and n: "table_needs k (view A) code ps"
  shows "achieves (Process nd exec (Some a)) K A (\<lambda>K' A'. ok A' \<and>
    view A' = fst (table_step (view A) code ps) \<and>
    handled own A mss L K (snd (table_step (view A) code ps)) (timer A) (timer A') K' A')"
proof -
  let ?A = "parsed a A" and ?p = "proc_for tb (A_State A) code" and ?r = "table_step (view A) code ps"
  from r obtain fss where K: "k_ok K (a # own) mss L fss" "log_ready K" by (auto simp: ready_for_def)
  have more: "handler.more ?A = handler.more A" by (simp add: parsed_def)
  note d = data [OF more]
  have ok': "ok ?A" "set_option (timer ?A) \<subseteq> set (map fst L)" using ok d by simp_all
  from table [OF ok'(1)] obtain ss k0 m where ss: "F_States ?A = Some ss" "states_ok k0 m tb ss"
    "\<forall>st \<in> fst ` set tb. unat st < m" by blast
  have "unat (A_State ?A) < m" "\<exists>e p. (A_State ?A, e, p) \<in> set tb" using ss(3) st by force+
  from GetProcedure_table [OF ss(1,2) this, of nd code K] code
  have p: "GetProcedure nd (GetUint16 (bytes K a) MSG_CODE) (K, ?A) = Inr (Some ?p, K, ?A)" by simp
  define R where "R K' A' \<longleftrightarrow> ok A' \<and> view A' = fst ?r \<and>
    (\<exists>n L' x. progress k n a own ?A mss (K\<lparr>K_LogingObject := x\<rparr>) (snd ?r) L' K' A' \<and>
       timers_follow ?A (timer ?A) (timer A') L L' (bytes K'))" for K' A'
  have exec: "achieves (call_proc exec (Some ?p)) (K\<lparr>K_LogingObject := x\<rparr>) ?A R"
    if x: "log_ready (K\<lparr>K_LogingObject := x\<rparr>)" for x
  proof (rule achieves_mono)
    show "achieves (call_proc exec (Some ?p)) (K\<lparr>K_LogingObject := x\<rparr>) ?A
        (step_done ok view timer k a own ?A mss L (K\<lparr>K_LogingObject := x\<rparr>) ?r)"
      using call_step [OF ready_progress [OF r x] ok' _ _, of ps code] ps n d by simp
  qed (auto simp: R_def step_done_def)
  have RD: "H_CurrentMessage A' = Some a \<and> log_ready K' \<and> (\<exists>mss' L' fss'. k_ok K' (a # own) mss' L' fss')"
    if "R K' A'" for K' A'
  proof -
    from that obtain n L' x where "progress k n a own ?A mss (K\<lparr>K_LogingObject := x\<rparr>) (snd ?r) L' K' A'"
      by (auto simp: R_def)
    note D = progressD [OF this]
    from D(11) obtain mss' fss' where "k_ok K' (a # own) mss' L' fss'" by blast
    with D(1,5) show ?thesis by blast
  qed
  note P = Process_achieves [where R = R, OF K lg p exec RD]
  show ?thesis
  proof (rule achieves_mono [OF P], assumption, assumption, elim exE conjE)
    fix K' A' K2 A2
    assume R: "R K2 A2" and A': "A' = A2\<lparr>H_CurrentMessage := None\<rparr>" and lg': "log_ready K'"
      and fr: "kframe {} K2 (K'\<lparr>K_LogingObject := K_LogingObject K2\<rparr>)"
      and own: "\<forall>mss' L' fss'. k_ok K2 (a # own) mss' L' fss' \<longrightarrow> (\<exists>fss2. k_ok K' own mss' L' fss2)"
    from R obtain n L' x where R': "ok A2" "view A2 = fst ?r"
      "progress k n a own ?A mss (K\<lparr>K_LogingObject := x\<rparr>) (snd ?r) L' K2 A2"
      "timers_follow ?A (timer ?A) (timer A2) L L' (bytes K2)" by (auto simp: R_def)
    note D = progressD [OF R'(3)]
    from D(11) obtain mss' fss' where M: "k_ok K2 (a # own) mss' L' fss'" "sends ?A mss (snd ?r) mss' (bytes K2)"
      by blast
    from own M(1) obtain fss2 where K': "k_ok K' own mss' L' fss2" by blast
    have b: "bytes K' = bytes K2" using fr by (auto simp: kframe_def)
    have keep: "kkeep K K'"
      using kkeep_trans [OF D(6) kframe_keep [OF fr]] by simp
    have sd: "sends A mss (snd ?r) mss' (bytes K')" using M(2) sends_identity [of ?A A] b by simp
    have tf: "timers_follow A (timer A) (timer A2) L L' (bytes K')"
      using R'(4) d b by (simp add: timers_follow_def is_timer_message_def split: option.splits)
    have more2: "handler.more A' = handler.more A2" by (simp add: A')
    note d2 = data [OF more2]
    have "handled own A mss L K (snd ?r) (timer A) (timer A') K' A'"
      unfolding handled_def
    proof (intro conjI)
      show "\<exists>mss' L' fss'. k_ok K' own mss' L' fss' \<and> sends A mss (snd ?r) mss' (bytes K') \<and>
          timers_follow A (timer A) (timer A') L L' (bytes K')" using K' sd tf d2 by metis
      show "\<forall>x \<in> set own \<union> set (concat mss). bytes K' x = bytes K x"
      proof
        fix x assume "x \<in> set own \<union> set (concat mss)"
        then have "x \<in> insert a (set own) \<union> set (concat mss)" by blast
        from D(10) [OF this] show "bytes K' x = bytes K x" by (simp add: b)
      qed
    qed (use D A' lg' keep in simp_all)
    with R'(1,2) d2 show "ok A' \<and> view A' = fst ?r \<and> handled own A mss L K (snd ?r) (timer A) (timer A') K' A'"
      by simp
  qed
qed

end

subsection \<open>Construction\<close>

text \<open>What \<open>FiniteStateMachine\<close> and the branches of \<open>Initialize\<close> leave behind.\<close>

lemma FiniteStateMachine_ok:
  assumes "n \<noteq> 0" "k \<noteq> 0"
  shows "FiniteStateMachine au mbx t n k True (K, A) =
    Inr ((), K\<lparr>K_Api := False, K_LogingObject := None\<rparr>,
      A\<lparr>H_CurrentMessage := None, H_NewMessage := None, A_automateId := au, A_mbxId := mbx,
        A_TimerResolution := Timer1s, A_LogFlag := BIT_ALL_STARTED, F_NumOfStates := n,
        F_NumOfTimers := (if t = 0 then 1 else t), F_MaxNumOfProcPerState := k, F_ReturnMemory := True,
        F_States := Some (replicate (unat n) (fresh_state k)),
        F_TimerStore := replicate (unat (if t = 0 then 1 else t)) TimerBlock,
        A_CallId := 0xffffffff, A_State := 0\<rparr>)"
  using assms
  by (simp add: FiniteStateMachine_def LogAutomateNew_def KernelAPI_def MessageHandler_ctor_def
      make_states_fresh SetCallId_to_def SetState_def upd_def Let_def)

text \<open>An automaton that handles no message.\<close>

definition idle :: "'z handler_scheme \<Rightarrow> bool" where
  "idle A \<longleftrightarrow> H_CurrentMessage A = None \<and> H_NewMessage A = None \<and> H_codec A = pc16"

text \<open>An automaton after its constructor; \<open>A\<close> is what its memory held.\<close>

definition built :: "u8 \<Rightarrow> u8 \<Rightarrow> u16 \<Rightarrow> u16 \<Rightarrow> ('p, 'z) fsm_scheme \<Rightarrow> ('p, 'z) fsm_scheme \<Rightarrow> bool" where
  "built au mbx n k A B \<longleftrightarrow> idle B \<and> A_automateId B = au \<and> A_mbxId B = mbx \<and> A_TimerResolution B = Timer1s \<and>
     F_States B = Some (replicate (unat n) (fresh_state k)) \<and> F_MaxNumOfProcPerState B = k \<and>
     F_NumOfTimers B = 1 \<and> F_TimerStore B = [TimerBlock] \<and> A_State B = 0 \<and> fsm.more B = fsm.more A"

lemma FiniteStateMachine_built:
  assumes "n \<noteq> 0" "k \<noteq> 0" "t = 0 \<or> t = 1" "H_codec A = pc16"
  shows "\<exists>B. FiniteStateMachine au mbx t n k True (K, A) = Inr ((), K\<lparr>K_Api := False, K_LogingObject := None\<rparr>, B) \<and>
    built au mbx n k A B"
  unfolding FiniteStateMachine_ok [OF assms(1,2)] using assms(3,4) by (auto simp: built_def idle_def)

lemma built_ids [simp]:
  "built au mbx n k A (B\<lparr>A_ConnectionId := i\<rparr>) = built au mbx n k A B"
  "built au mbx n k A (B\<lparr>A_GroupId := g\<rparr>) = built au mbx n k A B"
  by (simp_all add: built_def idle_def)

lemma init_rows_fresh:
  assumes "F_States A = Some (replicate n (fresh_state k))" "F_MaxNumOfProcPerState A = k" "table_fits k n tb"
  shows "\<exists>ss. init_rows tb (K, A) = Inr ((), K, A\<lparr>F_States := Some ss\<rparr>) \<and> states_ok k n tb ss"
  using init_rows_from [OF assms(1) states_ok_fresh assms(2), of tb K] assms(3) by simp

lemma GetProcedure_started:
  assumes "F_States A = Some ss" "states_ok k n tb ss" "table_fits k n tb" "A_State A \<in> fst ` set tb"
  shows "GetProcedure nd e (K, A) = Inr (Some (proc_for tb (A_State A) e), K, A)"
proof -
  have "unat (A_State A) < n" "\<exists>e p. (A_State A, e, p) \<in> set tb"
    using assms(3,4) by (force simp: table_fits_def)+
  from GetProcedure_table [OF assms(1,2) this] show ?thesis .
qed

lemma unat_small: "unat (0 :: u8) = 0" "unat (1 :: u8) = 1" "unat (2 :: u8) = 2" "unat (3 :: u8) = 3"
  "unat (4 :: u8) = 4" "unat (5 :: u8) = 5"
  by simp_all

end
