(* ===== verification/DemoAutomata.thy ===== *)
theory DemoAutomata
  imports DemoKernel AutomatonContract
begin

text \<open>
  A kernel at which the properties of the automata are applied: six buffers of 128 bytes, of which
  0, 1 and 2 are free, 3 is the message \<open>bs\<close> an automaton is to process, and 4 a timer that expires at
  the fifth tick; three empty mailboxes.
\<close>

definition run_mem :: "u8 list \<Rightarrow> mem" where
  "run_mem bs = \<lparr>m_next = \<lambda>a. if a = 0 then Some 1 else if a = 1 then Some 2 else None, m_prev = \<lambda>_. None,
     m_code = \<lambda>_. 0, m_data = \<lambda>a. if a = 3 then bs else demo_bytes 128 1 5, m_top = 5\<rparr>"

definition run_pool :: tbuffers where
  "run_pool = \<lparr>Queues = [demo_queue (Some 0) (Some 2) 3 5], BuffersLength = 128 # replicate 31 0, ClassBufferNum = 1\<rparr>"

definition run_post :: post_office where
  "run_post = \<lparr>MailBoxes = replicate 3 \<lparr>mb_Head = None, mb_Tail = None, mb_Count = 0, CsMailBox = 0\<rparr>,
     MailBoxesNum = 3, semHandle = [0, 0, 0]\<rparr>"

definition run_timers :: timers where
  "run_timers = \<lparr>t_First = Some 4, t_HeadCount = 0, TimerResolution = Timer1s, CsTimer = 0\<rparr>"

definition run_kernel :: "u8 list \<Rightarrow> kernel" where
  "run_kernel bs = \<lparr>K_mem = run_mem bs, K_Buffers = run_pool, K_PostOffice = run_post, K_Timer = run_timers,
     K_Api = True, K_LogingObject = Some (LogInterface (replicate LOG_BUFFER_SIZE 0)), K_SysLogFlag = 0xffff,
     K_Time = 0, K_CallCounter = 0\<rparr>"

lemmas run_defs = run_mem_def run_pool_def run_post_def run_timers_def run_kernel_def demo_queue_def

lemma run_tb_content: "length bs = 128 \<Longrightarrow> tb_content (run_mem bs, run_pool) [[0, 1, 2]]"
  by (auto simp: tb_content_def tb_wf_def run_defs bq_content_def lq_def in_pool_def
      MAX_BUFF_CLASS_NO_def All_less_Suc2 word_less_nat_alt)

lemma run_used: "length bs = 128 \<Longrightarrow> used_buffers (run_mem bs, run_pool) [[0, 1, 2]] [3, 4]"
  by (auto simp: used_buffers_def run_defs in_pool_def pooled_def offset_defs word_less_nat_alt)

lemma less_3: "(\<forall>i < 3. P i) \<longleftrightarrow> P 0 \<and> P 1 \<and> P (2 :: nat)"
  using less_2_cases_iff by (auto simp: numeral_3_eq_3 All_less_Suc2 numeral_2_eq_2 less_Suc_eq)

lemma run_k_ok:
  assumes "length bs = 128"
  shows "k_ok (run_kernel bs) [3] [[], [], []] [(4, 5)] [[0, 1, 2]]"
proof -
  note tb = run_tb_content [OF assms] and u = run_used [OF assms]
  have "used_buffers (run_mem bs, run_pool) [[0, 1, 2]] []" "used_buffers (run_mem bs, run_pool) [[0, 1, 2]] [4]"
    using u by (simp_all add: used_buffers_def)
  moreover have "mb_content (run_mem bs, MailBoxes run_post ! i) ([[], [], []] ! i)" if "i < 3" for i
    using that by (auto simp: less_Suc_eq numeral_3_eq_3 mb_content_def lq_def run_post_def)
  ultimately have po: "po_ok (run_mem bs, run_pool, run_post) [[], [], []] [[0, 1, 2]]"
    using tb by (simp add: po_ok_def run_post_def less_3)
  have "timer_content (run_mem bs, run_timers) [(4, 5)]"
    by (simp add: timer_content_def run_defs timer_count_def demo_bytes_read)
  then have "kernel_ok (run_mem bs, run_pool, run_post, run_timers) [[], [], []] [(4, 5)] [[0, 1, 2]]"
    using po \<open>used_buffers (run_mem bs, run_pool) [[0, 1, 2]] [4]\<close>
    by (simp add: kernel_ok_def run_post_def run_mem_def demo_bytes_read)
  moreover have "signals (semHandle run_post) [[], [], []]" by (auto simp: signals_def run_post_def less_Suc_eq)
  moreover have "accounted (m_top (run_mem bs)) ([3] @ map fst [(4 :: nat, 5 :: nat)] @ concat [[], [], []]) [[0, 1, 2]]"
    by (auto simp: accounted_def run_mem_def pooled_def)
  ultimately show ?thesis using u by (simp add: k_ok_def run_kernel_def)
qed

lemma run_kernel_ready:
  "log_ready (run_kernel bs)" "MailBoxesNum (K_PostOffice (run_kernel bs)) = 3"
  "TimerResolution (K_Timer (run_kernel bs)) = Timer1s" "bytes (run_kernel bs) 3 = bs" "K_Api (run_kernel bs)"
  "stock (K_Buffers (run_kernel bs)) [[0, 1, 2]] 90 3" "fits_class (K_Buffers (run_kernel bs)) 21 0"
  by (auto simp: log_ready_def run_defs LogInterface_def stock_def fits_class_def offset_defs word_le_nat_alt
      intro: exI [of _ 0])

text \<open>A message of 128 bytes with parameters in fields of two bytes.\<close>

definition run_message :: "u16 \<Rightarrow> param list \<Rightarrow> u8 list" where
  "run_message code ps = (let n = length (enc pc16 ps) in
     SetUint16 (SetUint16 (replicate 21 0) MSG_CODE code) MSG_LENGTH (of_nat (n + 2)) @ enc pc16 ps @
       replicate (107 - n) 0)"

lemma run_message_ok:
  assumes "\<forall>p \<in> set ps. param_ok pc16 p" "length (enc pc16 ps) \<le> 105"
  shows "length (run_message code ps) = 128" "has_params pc16 (run_message code ps) ps"
    "GetUint16 (run_message code ps) MSG_CODE = code" "loggable nd (run_message code ps)"
proof -
  let ?n = "length (enc pc16 ps)"
  let ?h = "SetUint16 (SetUint16 (replicate 21 0) MSG_CODE code) MSG_LENGTH (of_nat (?n + 2))"
  have h: "length ?h = MSG_HEADER_LENGTH" by (simp add: offset_defs)
  show len: "length (run_message code ps) = 128" using assms(2) by (simp add: run_message_def Let_def)
  have "info_length ?h = of_nat (?n + 2)" by (simp add: info_length_def mem_simps offset_defs)
  then have il: "info_length (run_message code ps) = of_nat (?n + 2)"
    using info_length_header(2) [OF h] by (simp add: run_message_def Let_def)
  have "unat (of_nat (?n + 2) :: u16) = ?n + 2" using assms(2) by (intro unat_of_nat_less) simp
  then have u: "unat (info_length (run_message code ps)) = ?n + 2" unfolding il .
  have pad: "replicate (107 - ?n) (0 :: u8) = field_bytes pc16 0 @ replicate (105 - ?n) 0"
  proof -
    have "107 - ?n = Suc (Suc (105 - ?n))" using assms(2) by simp
    then show ?thesis by (simp add: le16_def)
  qed
  then have "\<exists>h r. length h = MSG_HEADER_LENGTH \<and> run_message code ps = h @ enc pc16 ps @ field_bytes pc16 0 @ r \<and>
      2 \<le> PARAM_LENGTH_OFFSET pc16 + length r"
    using h by (intro exI [of _ ?h] exI [of _ "replicate (105 - ?n) 0"]) (simp add: run_message_def Let_def)
  then show "has_params pc16 (run_message code ps) ps" using assms(1) u unfolding has_params_def by blast
  have "GetUint16 ?h MSG_CODE = code" by (simp add: mem_simps offset_defs)
  moreover have "length ?h = 21" by simp
  ultimately show "GetUint16 (run_message code ps) MSG_CODE = code"
    by (simp add: run_message_def Let_def GetUint16_def nth_append offset_defs)
  have "unat (ucast (of_nat (?n + 2) + 21 :: u16) :: u8) = ?n + 23"
  proof -
    have e: "of_nat (?n + 2) + 21 = (of_nat (?n + 23) :: u16)" by simp
    have "unat (ucast (of_nat (?n + 23) :: u16) :: u8) = ?n + 23"
    proof -
      have "unat (of_nat (?n + 23) :: u16) = ?n + 23" using assms(2) by (intro unat_of_nat_less) simp
      then show ?thesis using assms(2) by (simp only: unsigned_ucast_eq) (simp add: take_bit_nat_eq_self)
    qed
    then show ?thesis unfolding e .
  qed
  then show "loggable nd (run_message code ps)"
    using assms(2) len unfolding loggable_def il by (auto simp: Let_def offset_defs)
qed

lemma demo_ready:
  assumes "length bs = 128" "H_NewMessage A = None" "H_codec A = pc16"
  shows "ready_for 90 3 3 [] [[], [], []] [(4, 5)] (run_kernel bs) A"
  unfolding ready_for_def
proof (intro conjI exI)
  show "k_ok (run_kernel bs) [3] [[], [], []] [(4, 5)] [[0, 1, 2]]" by (rule run_k_ok [OF assms(1)])
qed (use assms run_kernel_ready in \<open>simp_all add: USER_AUTOMATE_MBX_ID_def\<close>)

end
