(* ===== verification/HandlerProps.thy ===== *)
theory HandlerProps
  imports HandlerApi DemoAutomata
begin

text \<open>
  Properties of the message headers that span the setters and getters of \<open>MessageHandler\<close>.
\<close>

text \<open>C22: The header fields do not overlap: when the ten functions that write the header of a buffer have
  all been called, in any order and any number of times, the ten functions that read a header find
  exactly the values written, and the information behind the header is as it was.\<close>

theorem header_round_trip:
  assumes "MSG_HEADER_LENGTH \<le> length (m_data (K_mem K) a)" "set xs = UNIV"
  shows "\<exists>K'. run (map (set_field_of h (Some a)) xs) (K, A) = Inr ((), K', A) \<and>
    header_of (m_data (K_mem K') a) = h \<and>
    drop MSG_HEADER_LENGTH (m_data (K_mem K') a) = drop MSG_HEADER_LENGTH (m_data (K_mem K) a)"
proof -
  from set_fields [OF assms(1), of h xs A] obtain bs where
    b: "run (map (set_field_of h (Some a)) xs) (K, A) = Inr ((), K\<lparr>K_mem := SetData a bs (K_mem K)\<rparr>, A)"
      "\<forall>y \<in> set xs. agree_on y (header_of bs) h"
      "drop MSG_HEADER_LENGTH bs = drop MSG_HEADER_LENGTH (m_data (K_mem K) a)" by blast
  have "header_of bs = h" using b(2) assms(2) agree_all by blast
  with b show ?thesis by (intro exI [of _ "K\<lparr>K_mem := SetData a bs (K_mem K)\<rparr>"]) (simp add: SetData_def)
qed

theorem header_round_trip_witness:
  "\<exists>K'. run (map (set_field_of (header_of (replicate 21 7)) (Some 3))
      [InfoLength, Coding, CallId, ObjectTo, ObjectFrom, Code, ToGroup, ToAutomate, FromGroup, FromAutomate])
      (run_kernel (replicate 128 0), ()) = Inr ((), K', ()) \<and>
    header_of (m_data (K_mem K') 3) = header_of (replicate 21 7)"
proof -
  let ?xs = "[InfoLength, Coding, CallId, ObjectTo, ObjectFrom, Code, ToGroup, ToAutomate, FromGroup, FromAutomate]"
  have "x \<in> set ?xs" for x :: hfield by (cases x) simp_all
  then have xs: "set ?xs = UNIV" by (rule UNIV_eq_I [symmetric])
  have n: "MSG_HEADER_LENGTH \<le> length (m_data (K_mem (run_kernel (replicate 128 0))) 3)"
    by (simp add: run_kernel_ready offset_defs)
  from header_round_trip [OF n xs, where h = "header_of (replicate 21 7)" and A = "()"]
  obtain K' where "run (map (set_field_of (header_of (replicate 21 7)) (Some 3)) ?xs) (run_kernel (replicate 128 0), ()) = Inr ((), K', ())"
    "header_of (m_data (K_mem K') 3) = header_of (replicate 21 7)" by (elim exE conjE)
  then show ?thesis by (intro exI conjI)
qed

end
