(* ===== verification/Sockets.thy ===== *)
theory Sockets
  imports Prelude
begin

text \<open>
  The sockets of a connected stream.  What arrives is a list of pieces, cut by the network as it
  likes (\<open>None\<close> is an error): a call of \<open>recv(s, buf, n, 0)\<close> returns up to \<open>n\<close> bytes of the first piece,
  and nothing once the connection is closed.  What has been sent is recorded in \<open>so_out\<close>, \<open>so_send\<close>
  tells whether \<open>send\<close> succeeds.
\<close>

record socket =
  so_in :: "u8 list option list"
  so_out :: "u8 list list"
  so_send :: bool
  so_closed :: bool

definition recv :: "nat \<Rightarrow> socket \<Rightarrow> u8 list option \<times> socket" where
  "recv n so = (case so_in so of
     [] \<Rightarrow> (Some [], so)
   | None # ps \<Rightarrow> (None, so\<lparr>so_in := ps\<rparr>)
   | Some bs # ps \<Rightarrow> (Some (take n bs), so\<lparr>so_in := (if length bs \<le> n then ps else Some (drop n bs) # ps)\<rparr>))"

text \<open>The result is what \<open>send\<close> returns.\<close>

definition send :: "u8 list \<Rightarrow> socket \<Rightarrow> int \<times> socket" where
  "send bs so = (if so_send so then (int (length bs), so\<lparr>so_out := so_out so @ [bs]\<rparr>) else (-1, so))"

definition closesocket :: "socket \<Rightarrow> socket" where
  "closesocket so = so\<lparr>so_closed := True\<rparr>"

lemma recv_piece [simp]:
  "so_in so = Some bs # ps \<Longrightarrow> length bs \<le> n \<Longrightarrow> recv n so = (Some bs, so\<lparr>so_in := ps\<rparr>)"
  by (simp add: recv_def)

lemma recv_more [simp]:
  "so_in so = Some bs # ps \<Longrightarrow> n < length bs \<Longrightarrow> recv n so = (Some (take n bs), so\<lparr>so_in := Some (drop n bs) # ps\<rparr>)"
  by (simp add: recv_def)

lemma recv_length: "recv n so = (Some bs, so') \<Longrightarrow> length bs \<le> n"
  by (auto simp: recv_def split: list.splits option.splits)

text \<open>The pieces that hold the bytes \<open>bs\<close> and do not mix them with what follows.\<close>

definition pieces_of :: "u8 list \<Rightarrow> u8 list list \<Rightarrow> bool" where
  "pieces_of bs ps \<longleftrightarrow> concat ps = bs \<and> [] \<notin> set ps"

lemma pieces_of_Nil [simp]: "pieces_of [] ps \<longleftrightarrow> ps = []"
  by (cases ps) (auto simp: pieces_of_def)

text \<open>
  A stream \<open>s\<close> that delivers the pieces \<open>ps\<close> to a reader who asks for as many bytes as they have; the last one may
  be the beginning of a longer piece.  What the reader leaves is \<open>rest\<close>.
\<close>

fun arrives :: "u8 list list \<Rightarrow> u8 list option list \<Rightarrow> u8 list option list \<Rightarrow> bool" where
  "arrives [] rest s \<longleftrightarrow> s = rest"
| "arrives (p # ps) rest s \<longleftrightarrow> (\<exists>s'. s = Some p # s' \<and> arrives ps rest s') \<or>
     (ps = [] \<and> (\<exists>x s'. x \<noteq> [] \<and> s = Some (p @ x) # s' \<and> rest = Some x # s'))"

lemma recv_arrives:
  assumes "arrives (p # ps) rest (so_in so)" "n = length p + length (concat ps)"
  shows "\<exists>s. recv n so = (Some p, so\<lparr>so_in := s\<rparr>) \<and> arrives ps rest s"
proof (cases "\<exists>s'. so_in so = Some p # s' \<and> arrives ps rest s'")
  case True
  with assms(2) show ?thesis by auto
next
  case False
  then obtain x s' where x: "ps = []" "x \<noteq> []" "so_in so = Some (p @ x) # s'" "rest = Some x # s'"
    using assms(1) by auto
  then have "length p < length (p @ x)" by simp
  from recv_more [OF x(3) this] x assms(2) show ?thesis by simp
qed

text \<open>
  The network cuts the bytes \<open>bs @ x\<close> into the pieces \<open>qs\<close> as it likes, but the first piece has the first \<open>h\<close> bytes.
  The last byte of \<open>bs\<close> is in the last piece, \<open>x\<close> is what follows it there.
\<close>

definition carried :: "nat \<Rightarrow> u8 list \<Rightarrow> u8 list \<Rightarrow> u8 list list \<Rightarrow> bool" where
  "carried h bs x qs \<longleftrightarrow> concat qs = bs @ x \<and> [] \<notin> set qs \<and> h \<le> length (hd qs) \<and> length x < length (last qs)"

definition left_over :: "u8 list \<Rightarrow> u8 list option list \<Rightarrow> u8 list option list" where
  "left_over x rest = (if x = [] then rest else Some x # rest)"

lemma arrives_last:
  assumes "y \<noteq> []"
  shows "arrives (us @ [y]) (left_over x rest) (map Some (us @ [y @ x]) @ rest)"
  by (induction us) (auto simp: left_over_def)

lemma carried_arrives:
  assumes "concat qs = bs @ x" "[] \<notin> set qs" "length x < length (last qs)" "qs \<noteq> []"
  shows "\<exists>ps. pieces_of bs ps \<and> arrives ps (left_over x rest) (map Some qs @ rest) \<and>
    (\<forall>p \<in> set ps. \<exists>q \<in> set qs. length p \<le> length q)"
proof -
  let ?us = "butlast qs" and ?l = "last qs"
  let ?y = "take (length ?l - length x) ?l"
  have q: "qs = ?us @ [?l]" using assms(4) by simp
  have "concat ?us @ ?l = bs @ x" using assms(1) q by (metis concat.simps concat_append append_Nil2)
  from arg_cong [OF this, of rev] have "rev ?l @ rev (concat ?us) = rev x @ rev bs" by simp
  from arg_cong [OF this, of "take (length x)"] assms(3) have "take (length x) (rev ?l) = rev x" by simp
  then have "drop (length ?l - length x) ?l = x" by (simp add: take_rev)
  then have l: "?l = ?y @ x" using append_take_drop_id [of "length ?l - length x" ?l] by simp
  then have "concat ?us @ ?y = bs" using \<open>concat ?us @ ?l = bs @ x\<close> by (metis append.assoc append_same_eq)
  moreover have y: "?y \<noteq> []" using assms(3) by auto
  moreover have "[] \<notin> set ?us" using assms(2) in_set_butlastD [of "[]" qs] by blast
  ultimately have "pieces_of bs (?us @ [?y])" by (auto simp: pieces_of_def)
  moreover have "arrives (?us @ [?y]) (left_over x rest) (map Some qs @ rest)"
    using arrives_last [OF y, of ?us x rest] l q by metis
  moreover have "\<exists>q \<in> set qs. length p \<le> length q" if "p \<in> set (?us @ [?y])" for p
  proof (cases "p \<in> set ?us")
    case True
    then show ?thesis using in_set_butlastD [of p qs] by blast
  next
    case False
    then have "p = ?y" using that by simp
    then have "length p \<le> length ?l" by simp
    then show ?thesis using assms(4) last_in_set by blast
  qed
  ultimately show ?thesis by blast
qed

text \<open>The head is read at once, and the rest arrives in pieces.\<close>

lemma carried_head:
  assumes "carried (length hdr) (hdr @ bs) x qs" "bs \<noteq> []" "so_in so = map Some qs @ rest"
  shows "\<exists>ps s. recv (length hdr) so = (Some hdr, so\<lparr>so_in := s\<rparr>) \<and> pieces_of bs ps \<and>
    arrives ps (left_over x rest) s \<and> (\<forall>p \<in> set ps. \<exists>q \<in> set qs. length p \<le> length q)"
proof -
  have c: "concat qs = hdr @ bs @ x" "[] \<notin> set qs" "length hdr \<le> length (hd qs)" "length x < length (last qs)"
    using assms(1) by (simp_all add: carried_def)
  then obtain q qs' where q: "qs = q # qs'" using assms(2) by (cases qs) auto
  have "q @ concat qs' = hdr @ bs @ x" "length hdr \<le> length q" using c(1,3) by (simp_all add: q)
  then obtain q' where q': "q = hdr @ q'" by (auto simp: append_eq_append_conv2)
  let ?qs = "if q' = [] then qs' else q' # qs'"
  have r: "recv (length hdr) so = (Some hdr, so\<lparr>so_in := map Some ?qs @ rest\<rparr>)"
    using assms(3) by (auto simp: q q')
  have cc: "concat ?qs = bs @ x" using c(1) by (auto simp: q q')
  moreover have "[] \<notin> set ?qs" using c(2) by (auto simp: q)
  moreover have ne: "?qs \<noteq> []" using cc assms(2) by auto
  moreover have "length x < length (last ?qs)"
  proof (cases qs')
    case Nil
    then have "?qs = [q']" using ne by auto
    then have "concat ?qs = q'" by simp
    then have "q' = bs @ x" using cc by simp
    then show ?thesis using \<open>?qs = [q']\<close> assms(2) by simp
  qed (use c(4) q in auto)
  ultimately obtain ps where ps: "pieces_of bs ps" "arrives ps (left_over x rest) (map Some ?qs @ rest)"
      "\<forall>p \<in> set ps. \<exists>q \<in> set ?qs. length p \<le> length q"
    using carried_arrives [of ?qs bs x rest] by blast
  moreover have "\<exists>b \<in> set qs. length p \<le> length b" if "p \<in> set ps" for p
    using bspec [OF ps(3) that] by (auto simp: q q' intro: le_trans split: if_splits)
  ultimately show ?thesis using r by blast
qed

end
