(* ===== verification/CStrings.thy ===== *)
theory CStrings
  imports Prelude
begin

text \<open>
  What the sources use of the C library on strings.  A string is the list of its bytes in front of
  the end mark.  \<open>str_cut c s\<close> is \<open>p = strchr(s, c); *p = 0; p++\<close>, the string that is left of \<open>s\<close> and the one
  \<open>p\<close> points to; \<open>decimal\<close> is \<open>sprintf(s, "%d", n)\<close>, \<open>atol\<close> its inverse.
\<close>

definition str_cut :: "u8 \<Rightarrow> u8 list \<Rightarrow> (u8 list \<times> u8 list) option" where
  "str_cut c s = (case dropWhile (\<lambda>b. b \<noteq> c) s of [] \<Rightarrow> None | _ # r \<Rightarrow> Some (takeWhile (\<lambda>b. b \<noteq> c) s, r))"

text \<open>Writing through the null pointer when the character is not there.\<close>

definition cut_at :: "u8 \<Rightarrow> u8 list \<Rightarrow> (u8 list \<times> u8 list) result" where
  "cut_at c s = (case str_cut c s of None \<Rightarrow> Inl NullDeref | Some p \<Rightarrow> Inr p)"

lemma str_cut_Some: "str_cut c s = Some (t, r) \<longleftrightarrow> s = t @ c # r \<and> c \<notin> set t"
proof
  assume a: "str_cut c s = Some (t, r)"
  then obtain x where d: "dropWhile (\<lambda>b. b \<noteq> c) s = x # r" "t = takeWhile (\<lambda>b. b \<noteq> c) s"
    by (auto simp: str_cut_def split: list.splits)
  have "x = c" using hd_dropWhile [of "\<lambda>b. b \<noteq> c" s] d(1) by simp
  with d show "s = t @ c # r \<and> c \<notin> set t"
    using takeWhile_dropWhile_id [of "\<lambda>b. b \<noteq> c" s] set_takeWhileD by fastforce
next
  assume a: "s = t @ c # r \<and> c \<notin> set t"
  then have "\<And>x. x \<in> set t \<Longrightarrow> x \<noteq> c" by auto
  then show "str_cut c s = Some (t, r)" using a by (simp add: str_cut_def takeWhile_append2 dropWhile_append2)
qed

lemma str_cut_None: "str_cut c s = None \<longleftrightarrow> c \<notin> set s"
proof (cases "c \<in> set s")
  case True
  then have "dropWhile (\<lambda>b. b \<noteq> c) s \<noteq> []" by auto
  then show ?thesis using True by (auto simp: str_cut_def split: list.split)
next
  case False
  then have "dropWhile (\<lambda>b. b \<noteq> c) s = []" by auto
  then show ?thesis using False by (simp add: str_cut_def del: dropWhile_eq_Nil_conv)
qed

lemma str_cut_token [simp]: "c \<notin> set t \<Longrightarrow> str_cut c (t @ c # r) = Some (t, r)"
  by (simp add: str_cut_Some)

lemma cut_at_token [simp]: "c \<notin> set t \<Longrightarrow> cut_at c (t @ c # r) = Inr (t, r)"
  by (simp add: cut_at_def)

lemma cut_at_Inr: "cut_at c s = Inr (t, r) \<longleftrightarrow> s = t @ c # r \<and> c \<notin> set t"
proof (cases "str_cut c s")
  case None
  then have "c \<notin> set s" by (simp add: str_cut_None)
  with None show ?thesis by (auto simp: cut_at_def)
next
  case (Some p)
  then show ?thesis by (cases p) (auto simp: cut_at_def str_cut_Some [symmetric])
qed

lemma str_cut_shorter: "str_cut c s = Some (t, r) \<Longrightarrow> length r < length s"
  by (auto simp: str_cut_Some)

text \<open>A string literal.\<close>

definition str :: "string \<Rightarrow> u8 list" where
  "str s = map of_char s"

subsection \<open>Decimal numbers\<close>

fun decimal :: "nat \<Rightarrow> u8 list" where
  "decimal n = (if n < 10 then [48 + of_nat n] else decimal (n div 10) @ [48 + of_nat (n mod 10)])"

declare decimal.simps [simp del]

definition is_digit :: "u8 \<Rightarrow> bool" where
  "is_digit b \<longleftrightarrow> 48 \<le> b \<and> b \<le> 57"

definition is_blank :: "u8 \<Rightarrow> bool" where
  "is_blank b \<longleftrightarrow> b = 32 \<or> 9 \<le> b \<and> b \<le> 13"

fun digits_value :: "int \<Rightarrow> u8 list \<Rightarrow> int" where
  "digits_value v [] = v"
| "digits_value v (b # bs) = (if is_digit b then digits_value (10 * v + uint (b - 48)) bs else v)"

text \<open>A \<open>long\<close> has 32 bits; numbers that do not fit are replaced by the nearest one.\<close>

definition atol :: "u8 list \<Rightarrow> int" where
  "atol s = (let s = dropWhile is_blank s;
       v = (case s of [] \<Rightarrow> 0
          | b # bs \<Rightarrow> if b = 45 then - digits_value 0 bs
              else if b = 43 then digits_value 0 bs else digits_value 0 s)
     in max (- (2 ^ 31)) (min (2 ^ 31 - 1) v))"

lemma digit_facts:
  assumes "d < 10"
  shows "is_digit (48 + of_nat d)" "uint ((48 + of_nat d :: u8) - 48) = int d"
    "(48 + of_nat d :: u8) \<noteq> 45" "(48 + of_nat d :: u8) \<noteq> 43" "(48 + of_nat d :: u8) \<noteq> 44" "(48 + of_nat d :: u8) \<noteq> 35"
    "\<not> is_blank (48 + of_nat d)" "(48 + of_nat d :: u8) \<noteq> 0"
proof -
  have "d \<in> {0, 1, 2, 3, 4, 5, 6, 7, 8, 9}" using assms by auto
  then show "is_digit (48 + of_nat d)" "uint ((48 + of_nat d :: u8) - 48) = int d"
    "(48 + of_nat d :: u8) \<noteq> 45" "(48 + of_nat d :: u8) \<noteq> 43" "(48 + of_nat d :: u8) \<noteq> 44" "(48 + of_nat d :: u8) \<noteq> 35"
    "\<not> is_blank (48 + of_nat d)" "(48 + of_nat d :: u8) \<noteq> 0"
    by (auto simp: is_digit_def is_blank_def)
qed

lemma decimal_digits: "b \<in> set (decimal n) \<Longrightarrow> is_digit b"
proof (induction n rule: decimal.induct)
  case (1 n)
  show ?case
  proof (cases "n < 10")
    case True
    then show ?thesis using 1(2) digit_facts(1) by (simp add: decimal.simps [of n])
  next
    case False
    then show ?thesis using 1 digit_facts(1) [of "n mod 10"] by (auto simp: decimal.simps [of n])
  qed
qed

lemma digits_value_append:
  "\<forall>b \<in> set xs. is_digit b \<Longrightarrow> digits_value v (xs @ ys) = digits_value (digits_value v xs) ys"
  by (induction xs arbitrary: v) auto

lemma digits_value_decimal: "digits_value 0 (decimal n) = int n"
proof (induction n rule: decimal.induct)
  case (1 n)
  show ?case
  proof (cases "n < 10")
    case True
    then show ?thesis using digit_facts [of n] by (simp add: decimal.simps [of n])
  next
    case False
    have "digits_value 0 (decimal n) = 10 * int (n div 10) + int (n mod 10)"
      using False 1 digit_facts(1,2) [of "n mod 10"] decimal_digits
      by (simp add: decimal.simps [of n] digits_value_append)
    then show ?thesis by presburger
  qed
qed

lemma decimal_Cons: "\<exists>d r. d < 10 \<and> decimal n = (48 + of_nat d) # r"
proof (induction n rule: decimal.induct)
  case (1 n)
  show ?case
  proof (cases "n < 10")
    case True
    then show ?thesis by (intro exI [of _ n] exI [of _ "[]"]) (simp add: decimal.simps [of n])
  next
    case False
    with 1 obtain d r where "d < 10" "decimal (n div 10) = (48 + of_nat d) # r" by blast
    with False show ?thesis by (intro exI [of _ d] exI [of _ "r @ [48 + of_nat (n mod 10)]"]) (simp add: decimal.simps [of n])
  qed
qed

lemma atol_decimal:
  assumes "n < 2 ^ 31"
  shows "atol (decimal n) = int n"
proof -
  obtain d r where d: "d < 10" "decimal n = (48 + of_nat d) # r" using decimal_Cons by blast
  have "atol (decimal n) = max (- (2 ^ 31)) (min (2 ^ 31 - 1) (digits_value 0 (decimal n)))"
    using digit_facts [OF d(1)] unfolding atol_def d(2) Let_def by simp
  also have "\<dots> = int n" unfolding digits_value_decimal using assms by simp
  finally show ?thesis .
qed

lemma decimal_no: "\<not> is_digit c \<Longrightarrow> c \<notin> set (decimal n)"
  using decimal_digits by blast

lemma decimal_plain [simp]: "44 \<notin> set (decimal n)" "35 \<notin> set (decimal n)" "0 \<notin> set (decimal n)" "decimal n \<noteq> []"
proof -
  show "44 \<notin> set (decimal n)" "35 \<notin> set (decimal n)" "0 \<notin> set (decimal n)"
    by (auto intro!: decimal_no simp: is_digit_def)
  show "decimal n \<noteq> []" using decimal_Cons [of n] by auto
qed

text \<open>
  A configuration file: the text that it has for a section and a key, with a default.
  \<open>GetPrivateProfileString(section, key, default, buffer, n, file)\<close> copies what fits of it, with the end
  mark, into a buffer of \<open>n\<close> characters.
\<close>

type_synonym profile = "u8 list \<Rightarrow> u8 list \<Rightarrow> u8 list \<Rightarrow> u8 list"

definition ini_string :: "nat \<Rightarrow> profile \<Rightarrow> u8 list \<Rightarrow> u8 list \<Rightarrow> u8 list \<Rightarrow> u8 list" where
  "ini_string n ini section key d = take (n - 1) (ini section key d)"

lemma ini_string_fits [simp]: "length (ini sec key d) < n \<Longrightarrow> ini_string n ini sec key d = ini sec key d"
  by (simp add: ini_string_def)

text \<open>\<open>strcpy\<close> into an array of \<open>n\<close> bytes.\<close>

definition copy_str :: "nat \<Rightarrow> u8 list \<Rightarrow> (u8 list \<Rightarrow> 'a result) \<Rightarrow> 'a result" where
  "copy_str n s f = (if length s < n then f s else Inl OutOfBounds)"

end
