(* ===== verification/DistTables.thy ===== *)
theory DistTables
  imports FsmSystem Sockets CStrings
begin

text \<open>
  The tables of \<open>Distribution\<close> (\<open>src/Kernel/Distribution.h\<close>, \<open>Distribution.cpp\<close>): the servers, and for
  each type of automata the linked list of the ranges of objects with the computers that serve them,
  the first one that is active first.  The objects \<open>AutoSrv\<close> are numbered in the order of their
  allocation; \<open>D_next\<close> holds their pointers.
\<close>

definition MAX_SERVER_NUM :: nat where "MAX_SERVER_NUM = 10"
definition MAX_AUTO_TYPES_NUM :: nat where "MAX_AUTO_TYPES_NUM = MAX_NUM_OF_AUTOMATES_TYPES"

record auto_srv =
  startId :: u32
  lastId :: u32
  compId :: "u8 list"

record ahdr =
  a_head :: ptr
  a_tail :: ptr

record server =
  srv_init :: bool
  srv_sock :: socket

record distribution =
  D_server :: "server list"
  D_serverName :: "u8 list"
  connSocket :: bool
  D_automate :: "ahdr list"
  D_next :: "addr \<Rightarrow> ptr"
  D_srv :: "addr \<Rightarrow> auto_srv"
  D_top :: nat

text \<open>\<open>new AutoSrv\<close>; \<open>junk\<close> is what the memory holds.\<close>

definition AutoSrv :: "auto_srv \<Rightarrow> auto_srv" where
  "AutoSrv junk = junk\<lparr>compId := replicate MAX_SERVER_NUM INVALID_08\<rparr>"

subsection \<open>The lists\<close>

definition InitLists :: "distribution \<Rightarrow> distribution" where
  "InitLists D = D\<lparr>D_automate := replicate MAX_AUTO_TYPES_NUM \<lparr>a_head = None, a_tail = None\<rparr>\<rparr>"

type_synonym srv_list = "(addr \<Rightarrow> ptr) \<times> ahdr"

definition PutInListTail :: "srv_list \<Rightarrow> addr \<Rightarrow> srv_list" where
  "PutInListTail = (\<lambda>(nx, H) newEl.
     let nx = nx(newEl := None) in
     case a_head H of
       None \<Rightarrow> (nx, H\<lparr>a_head := Some newEl, a_tail := Some newEl\<rparr>)
     | Some _ \<Rightarrow> (nx(the (a_tail H) := Some newEl), H\<lparr>a_tail := Some newEl\<rparr>))"

definition PutInListHead :: "srv_list \<Rightarrow> addr \<Rightarrow> srv_list" where
  "PutInListHead = (\<lambda>(nx, H) newEl.
     case a_head H of
       None \<Rightarrow> (nx, H\<lparr>a_head := Some newEl, a_tail := Some newEl\<rparr>)
     | Some h \<Rightarrow> (nx(newEl := Some h), H\<lparr>a_head := Some newEl\<rparr>))"

definition GetFromListHead :: "srv_list \<Rightarrow> ptr" where
  "GetFromListHead = (\<lambda>(nx, H). a_head H)"

definition RemoveFromListHead :: "srv_list \<Rightarrow> ptr \<times> srv_list" where
  "RemoveFromListHead = (\<lambda>(nx, H).
     if a_head H = a_tail H then (a_head H, nx, H\<lparr>a_head := None, a_tail := None\<rparr>)
     else (a_head H, nx, H\<lparr>a_head := nx (the (a_head H))\<rparr>))"

text \<open>The lists keep the contract of a FIFO list.\<close>

definition srv_content :: "srv_list \<Rightarrow> addr list \<Rightarrow> bool" where
  "srv_content = (\<lambda>(nx, H) as. lq nx (a_head H) (a_tail H) as)"

lemma PutInListTail_content:
  assumes "srv_content s as" "a \<notin> set as"
  shows "srv_content (PutInListTail s a) (as @ [a])"
proof -
  obtain nx H where s: "s = (nx, H)" by (cases s)
  have lq: "lq nx (a_head H) (a_tail H) as" using assms(1) by (simp add: srv_content_def s)
  show ?thesis
  proof (cases "a_head H")
    case None
    then have "as = []" using lq by (auto simp: lq_empty_iff)
    then show ?thesis using None by (simp add: srv_content_def PutInListTail_def s lq_def)
  next
    case (Some h)
    then have "as \<noteq> []" using lq by auto
    then obtain b where b: "a_tail H = Some b" using lq by (auto simp: lq_def)
    with lq_put [of nx "a_head H" b as a] lq assms(2) Some show ?thesis
      by (simp add: srv_content_def PutInListTail_def s Let_def)
  qed
qed

lemma PutInListHead_content:
  assumes "srv_content s as" "a \<notin> set as" "as = [] \<Longrightarrow> fst s a = None"
  shows "srv_content (PutInListHead s a) (a # as)"
proof -
  obtain nx H where s: "s = (nx, H)" by (cases s)
  have lq: "lq nx (a_head H) (a_tail H) as" using assms(1) by (simp add: srv_content_def s)
  show ?thesis
  proof (cases "a_head H")
    case None
    then have "as = []" using lq by (auto simp: lq_empty_iff)
    then show ?thesis using None assms(3) by (simp add: srv_content_def PutInListHead_def s lq_def)
  next
    case (Some h)
    then have "as \<noteq> []" using lq by auto
    with lq assms(2) Some show ?thesis by (auto simp: srv_content_def PutInListHead_def s lq_def)
  qed
qed

lemma RemoveFromListHead_content:
  "srv_content s [] \<Longrightarrow> fst (RemoveFromListHead s) = None \<and> srv_content (snd (RemoveFromListHead s)) []"
  "srv_content s (a # as) \<Longrightarrow> fst (RemoveFromListHead s) = Some a \<and> srv_content (snd (RemoveFromListHead s)) as"
proof -
  show "srv_content s [] \<Longrightarrow> fst (RemoveFromListHead s) = None \<and> srv_content (snd (RemoveFromListHead s)) []"
    by (cases s) (simp add: srv_content_def RemoveFromListHead_def)
  assume c: "srv_content s (a # as)"
  obtain nx H where s: "s = (nx, H)" by (cases s)
  have lq: "lq nx (a_head H) (a_tail H) (a # as)" using c by (simp add: srv_content_def s)
  then have d: "distinct (a # as)" "a_head H = Some a" "a_tail H = Some (last (a # as))" by (auto simp: lq_def)
  note g = lq_get [OF lq]
  have "a_head H = a_tail H \<longleftrightarrow> as = []" using d by (auto split: if_splits)
  then show "fst (RemoveFromListHead s) = Some a \<and> srv_content (snd (RemoveFromListHead s)) as"
    using g d(2) by (auto simp: srv_content_def RemoveFromListHead_def s split: if_splits)
qed

interpretation srvq: fifo_list PutInListTail RemoveFromListHead srv_content
  by unfold_locales (auto intro: PutInListTail_content dest: RemoveFromListHead_content)

lemma GetFromListHead_content: "srv_content s as \<Longrightarrow> GetFromListHead s = (case as of [] \<Rightarrow> None | a # _ \<Rightarrow> Some a)"
  by (cases s; cases as) (auto simp: srv_content_def GetFromListHead_def lq_def)

subsection \<open>The active server of a range\<close>

text \<open>The loop of \<open>GetActivSrv\<close>; the table of the servers is read at the number of the computer.\<close>

fun active_loop :: "u8 list \<Rightarrow> server list \<Rightarrow> u8 result" where
  "active_loop [] srvs = Inr INVALID_08"
| "active_loop (c # cs) srvs =
     (if c \<noteq> INVALID_08
      then at_index srvs (unat c) (\<lambda>s. if srv_init s then Inr c else active_loop cs srvs)
      else active_loop cs srvs)"

definition GetActivSrv :: "auto_srv \<Rightarrow> distribution \<Rightarrow> u8 result" where
  "GetActivSrv as D = active_loop (compId as) (D_server D)"

definition active_server :: "server list \<Rightarrow> u8 list \<Rightarrow> u8" where
  "active_server srvs cs = (case filter (\<lambda>c. c \<noteq> INVALID_08 \<and> srv_init (srvs ! unat c)) cs of [] \<Rightarrow> INVALID_08 | c # _ \<Rightarrow> c)"

text \<open>The numbers of the computers are those of servers, or 255.\<close>

definition comps_ok :: "u8 list \<Rightarrow> server list \<Rightarrow> bool" where
  "comps_ok cs srvs \<longleftrightarrow> (\<forall>c \<in> set cs. c = INVALID_08 \<or> unat c < length srvs)"

lemma active_loop_ok: "comps_ok cs srvs \<Longrightarrow> active_loop cs srvs = Inr (active_server srvs cs)"
  by (induction cs) (auto simp: comps_ok_def active_server_def)

lemma active_server_init:
  "active_server srvs cs \<noteq> INVALID_08 \<Longrightarrow> active_server srvs cs \<in> set cs \<and> srv_init (srvs ! unat (active_server srvs cs))"
proof -
  assume "active_server srvs cs \<noteq> INVALID_08"
  then obtain c rest where f: "filter (\<lambda>c. c \<noteq> INVALID_08 \<and> srv_init (srvs ! unat c)) cs = c # rest"
    "active_server srvs cs = c" by (auto simp: active_server_def split: list.splits)
  have "c \<in> set (filter (\<lambda>c. c \<noteq> INVALID_08 \<and> srv_init (srvs ! unat c)) cs)" unfolding f(1) by simp
  with f(2) show ?thesis by simp
qed

end
