(* ===== verification/Distribution.thy ===== *)
theory Distribution
  imports DistTables
begin

text \<open>
  \<open>Distribution\<close> (\<open>src/Kernel/Distribution.cpp\<close>): a system of automata that is spread over several
  computers.  The monitor loop handles the messages for automata that are active here and sends the
  others to the servers; a thread for each server receives messages and puts them into the mailbox 3.
\<close>

type_synonym ('o, 'a) dop = "(kernel \<times> 'o fsm_system \<times> distribution, 'a) op"

definition on_system :: "('o, 'a) sop \<Rightarrow> ('o, 'a) dop" where
  "on_system f = (\<lambda>(K, S, D). bindR (f (K, S)) (\<lambda>(x, K, S). Inr (x, K, S, D)))"

lemma on_system_simps [simp]:
  "f (K, S) = Inr (x, K', S') \<Longrightarrow> on_system f (K, S, D) = Inr (x, K', S', D)"
  "f (K, S) = Inl e \<Longrightarrow> on_system f (K, S, D) = Inl e"
  by (simp_all add: on_system_def)

subsection \<open>Inline functions of \<open>FSMSystem\<close>\<close>

text \<open>\<open>GetMsgInfoLength\<close> of the system returns one byte of the length only.\<close>

definition sys_GetMsgInfoLength :: "u8 list \<Rightarrow> u8" where
  "sys_GetMsgInfoLength bs = bs ! MSG_LENGTH"

definition sys_GetMsgToAutomate :: "u8 list \<Rightarrow> u8" where
  "sys_GetMsgToAutomate bs = bs ! MSG_TO_AUTOMATE"

definition sys_GetMsgToGroup :: "u8 list \<Rightarrow> u8" where
  "sys_GetMsgToGroup bs = bs ! MSG_TO_GROUP"

definition sys_GetMsgObjectNumberTo :: "u8 list \<Rightarrow> u32" where
  "sys_GetMsgObjectNumberTo bs = GetUint32 bs MSG_OBJECT_ID_TO"

definition sys_GetMsg :: "bool \<Rightarrow> u8 \<Rightarrow> ('o, ptr) sop" where
  "sys_GetMsg nd mbxId = (\<lambda>(K, S). if \<not> S_Kernel S then Inl NullDeref
     else bindR (po_Get nd mbxId (K_mem K, K_Buffers K, K_PostOffice K)) (\<lambda>(msg, m, B, P).
       Inr (msg, K\<lparr>K_mem := m, K_Buffers := B, K_PostOffice := P\<rparr>, S)))"

definition sys_GetBuffer :: "bool \<Rightarrow> u32 \<Rightarrow> ('o, addr) sop" where
  "sys_GetBuffer nd bufferLength = (\<lambda>(K, S). if \<not> S_Kernel S then Inl NullDeref
     else bindR (GetBuffer nd bufferLength (K_mem K, K_Buffers K)) (\<lambda>(a, m, B).
       Inr (a, K\<lparr>K_mem := m, K_Buffers := B\<rparr>, S)))"

definition SendToMbx :: "addr \<Rightarrow> ('o, unit) sop" where
  "SendToMbx msg = (\<lambda>(K, S). if \<not> S_Kernel S then Inl NullDeref
     else bindR (po_Add 3 (Some msg) (K_mem K, K_Buffers K, K_PostOffice K)) (\<lambda>(m, B, P).
       Inr ((), K\<lparr>K_mem := m, K_Buffers := B, K_PostOffice := P\<rparr>, S)))"

subsection \<open>Sending\<close>

text \<open>\<open>server[i]\<close>\<close>

definition server_at :: "nat \<Rightarrow> (server \<Rightarrow> ('o, 'a) dop) \<Rightarrow> ('o, 'a) dop" where
  "server_at i f = (\<lambda>(K, S, D). at_index (D_server D) i (\<lambda>s. f s (K, S, D)))"

definition set_server :: "nat \<Rightarrow> server \<Rightarrow> ('o, unit) dop" where
  "set_server i s = (\<lambda>(K, S, D). Inr ((), K, S, D\<lparr>D_server := (D_server D)[i := s]\<rparr>))"

definition SendMsgToServer :: "bool \<Rightarrow> nat \<Rightarrow> addr \<Rightarrow> ('o, unit) dop" where
  "SendMsgToServer nd ServerNum Msg = (\<lambda>(K, S, D). in_buff (K_mem K) Msg MSG_HEADER_LENGTH
     (let bs = m_data (K_mem K) Msg;
          len = (ucast (sys_GetMsgInfoLength bs) + of_nat MSG_HEADER_LENGTH :: u16) in
      in_buff (K_mem K) Msg (unat len)
      (run [server_at ServerNum (\<lambda>s.
              let (sendLen, so) = send (SetUint16 [0, 0] 0 len @ take (unat len) bs) (srv_sock s) in
              if sendLen \<le> 0 then set_server ServerNum \<lparr>srv_init = False, srv_sock = closesocket so\<rparr>
              else set_server ServerNum (s\<lparr>srv_sock := so\<rparr>)),
            on_system (DiscardMsg nd (Some Msg))] (K, S, D))))"

subsection \<open>Receiving\<close>

text \<open>
  \<open>ReceiveMsg\<close>.  \<open>buff\<close> has 100 bytes and \<open>msg\<close> 512; a piece that is longer than the array it is
  received into is written behind its end.  \<open>junk\<close> is what \<open>msgLen\<close> holds in the stack.
\<close>

definition DIST_BUFF :: nat where "DIST_BUFF = 100"
definition DIST_MSG :: nat where "DIST_MSG = 512"

function recv_loop :: "nat \<Rightarrow> u8 list \<Rightarrow> u8 list \<Rightarrow> socket \<Rightarrow> ((nat \<times> u8 list) \<times> socket) result" where
  "recv_loop msgLen got piece so =
     (if length piece > DIST_BUFF then Inl OutOfBounds
      else if length got + length piece > DIST_MSG then Inl OutOfBounds
      else if piece = [] \<or> length got + length piece > msgLen then Inr ((0, got), so)
      else let got = got @ piece in
        if length got = msgLen then Inr ((msgLen, got), so)
        else case recv (msgLen - length got) so of
            (None, so) \<Rightarrow> Inr ((0, got), so)
          | (Some piece, so) \<Rightarrow> recv_loop msgLen got piece so)"
  by pat_completeness auto
termination
  by (relation "measure (\<lambda>(msgLen, got, piece, so). msgLen - length got)")
    (auto simp flip: length_greater_0_conv)

declare recv_loop.simps [simp del]

definition ReceiveMsg :: "u8 list \<Rightarrow> socket \<Rightarrow> ((nat \<times> u8 list) \<times> socket) result" where
  "ReceiveMsg junk so = (case recv 2 so of
     (None, so) \<Rightarrow> Inr ((0, []), so)
   | (Some bs, so) \<Rightarrow> if bs = [] then Inr ((0, []), so) else
       let msgLen = unat (GetUint16 (bs @ drop (length bs) junk) 0) in
       case recv msgLen so of
         (None, so) \<Rightarrow> Inr ((0, []), so)
       | (Some piece, so) \<Rightarrow> recv_loop msgLen [] piece so)"

text \<open>One round of \<open>Receive\<close>; the result tells whether the loop goes on.\<close>

definition receive_body :: "bool \<Rightarrow> u8 list \<Rightarrow> nat \<Rightarrow> ('o, bool) dop" where
  "receive_body nd junk ServerNum = server_at ServerNum (\<lambda>s (K, S, D).
     bindR (ReceiveMsg junk (srv_sock s)) (\<lambda>((ret, msg), so).
     if ret = 0 then bnd (set_server ServerNum \<lparr>srv_init = False, srv_sock = closesocket so\<rparr>) (\<lambda>_ st. Inr (False, st)) (K, S, D)
     else bnd (set_server ServerNum (s\<lparr>srv_sock := so\<rparr>)) (\<lambda>_.
          bnd (on_system (sys_GetBuffer nd (of_nat ret))) (\<lambda>sendMsg (K, S, D).
          in_buff (K_mem K) sendMsg ret
          (bnd (on_system (SendToMbx sendMsg)) (\<lambda>_ st. Inr (True, st))
             (K\<lparr>K_mem := SetData sendMsg (msg @ drop ret (m_data (K_mem K) sendMsg)) (K_mem K)\<rparr>, S, D)))) (K, S, D)))"

fun Receive :: "nat \<Rightarrow> bool \<Rightarrow> u8 list \<Rightarrow> nat \<Rightarrow> ('o, unit) dop" where
  "Receive 0 nd junk ServerNum s = Inl NoFuel"
| "Receive (Suc fuel) nd junk ServerNum s =
     bindR (receive_body nd junk ServerNum s) (\<lambda>(go, s). if go then Receive fuel nd junk ServerNum s else Inr ((), s))"

text \<open>A server that connects sends its number first.\<close>

definition FindServerNum :: "socket \<Rightarrow> u8 \<times> socket" where
  "FindServerNum so = (case recv 1 so of (Some (b # _), so) \<Rightarrow> (b, so) | (_, so) \<Rightarrow> (INVALID_08, so))"

text \<open>The loop of \<open>AcceptConn\<close>, once a connection \<open>newSocket\<close> is there.\<close>

definition accept_body :: "socket \<Rightarrow> ('o, nat) dop" where
  "accept_body newSocket = (let (serverNum, so) = FindServerNum newSocket in
     server_at (unat serverNum) (\<lambda>_.
     bnd (set_server (unat serverNum) \<lparr>srv_init = True, srv_sock = so\<rparr>) (\<lambda>_ st. Inr (unat serverNum, st))))"

text \<open>
  The whole loop: the list holds the sockets that \<open>accept\<close> returns one after the other, \<open>None\<close> when
  \<open>listen\<close> or \<open>accept\<close> fails.  For each one a thread with the loop \<open>Receive\<close> is created.
\<close>

fun AcceptConn :: "socket option list \<Rightarrow> ('o, unit) dop" where
  "AcceptConn [] s = Inl Blocked"
| "AcceptConn (None # cs) s = Inr ((), s)"
| "AcceptConn (Some newSocket # cs) s = bindR (accept_body newSocket s) (\<lambda>(_, s). AcceptConn cs s)"

text \<open>
  \<open>connSocket\<close> tells whether the socket for the connections of other servers is bound; then the
  thread with \<open>AcceptConn\<close> is created.
\<close>

definition WaitServerConn :: "bool \<Rightarrow> bool \<Rightarrow> ('o, unit) dop" where
  "WaitServerConn opened bound = (\<lambda>(K, S, D). Inr ((), K, S, D\<lparr>connSocket := opened \<and> bound\<rparr>))"

subsection \<open>Routing\<close>

fun srv_walk :: "nat \<Rightarrow> (auto_srv \<Rightarrow> bool result) \<Rightarrow> distribution \<Rightarrow> ptr \<Rightarrow> ptr result" where
  "srv_walk 0 P D p = Inl NoFuel"
| "srv_walk (Suc n) P D p = (case p of None \<Rightarrow> Inr None
     | Some a \<Rightarrow> bindR (P (D_srv D a)) (\<lambda>b. if b then Inr (Some a) else srv_walk n P D (D_next D a)))"

definition head_of :: "u8 \<Rightarrow> distribution \<Rightarrow> ptr result" where
  "head_of AType D = at_index (D_automate D) (unat AType) (\<lambda>H. Inr (GetFromListHead (D_next D, H)))"

text \<open>A loop over the list of a type: the first entry for which the condition holds.\<close>

definition find_srv :: "(auto_srv \<Rightarrow> bool result) \<Rightarrow> distribution \<Rightarrow> ptr \<Rightarrow> ptr result" where
  "find_srv P D p = srv_walk (Suc (D_top D)) P D p"

definition IsSupported :: "u8 \<Rightarrow> u32 \<Rightarrow> ('o, bool) dop" where
  "IsSupported AType ObjId = (\<lambda>(K, S, D). bindR (head_of AType D) (\<lambda>ai.
     bindR (find_srv (\<lambda>as. bindR (GetActivSrv as D) (\<lambda>compId.
        Inr (compId = S_serverId S \<and> (ObjId = INVALID_32 \<or> startId as \<le> ObjId \<and> ObjId \<le> lastId as)))) D ai) (\<lambda>p.
     Inr (p \<noteq> None, K, S, D))))"

definition to_active :: "bool \<Rightarrow> ptr \<Rightarrow> addr \<Rightarrow> ('o, unit) dop" where
  "to_active nd p msg = (\<lambda>(K, S, D). deref p (\<lambda>a.
     bindR (GetActivSrv (D_srv D a) D) (\<lambda>compId. SendMsgToServer nd (unat compId) msg (K, S, D))))"

definition SendMsgToFirstSrv :: "bool \<Rightarrow> addr \<Rightarrow> ('o, unit) dop" where
  "SendMsgToFirstSrv nd msg = (\<lambda>(K, S, D). in_buff (K_mem K) msg MSG_HEADER_LENGTH
     (bindR (head_of (sys_GetMsgToAutomate (m_data (K_mem K) msg)) D) (\<lambda>as.
      bindR (find_srv (\<lambda>as. bindR (GetActivSrv as D) (\<lambda>compId.
         Inr (compId \<noteq> INVALID_08 \<and> compId \<noteq> S_serverId S))) D as) (\<lambda>p.
      case p of Some _ \<Rightarrow> to_active nd p msg (K, S, D)
        | None \<Rightarrow> on_system (DiscardMsg nd (Some msg)) (K, S, D)))))"

text \<open>First the entry of this computer, then the first active one behind it.\<close>

definition SendMsgToNextSrv :: "bool \<Rightarrow> addr \<Rightarrow> ('o, unit) dop" where
  "SendMsgToNextSrv nd msg = (\<lambda>(K, S, D). in_buff (K_mem K) msg MSG_HEADER_LENGTH
     (bindR (head_of (sys_GetMsgToAutomate (m_data (K_mem K) msg)) D) (\<lambda>as.
      bindR (find_srv (\<lambda>as. bindR (GetActivSrv as D) (\<lambda>compId. Inr (compId = S_serverId S))) D as) (\<lambda>own.
      bindR (find_srv (\<lambda>as. bindR (GetActivSrv as D) (\<lambda>compId. Inr (compId \<noteq> INVALID_08))) D
        (case own of None \<Rightarrow> None | Some a \<Rightarrow> D_next D a)) (\<lambda>p.
      case p of Some _ \<Rightarrow> to_active nd p msg (K, S, D)
        | None \<Rightarrow> SendMsgToFirstSrv nd msg (K, S, D))))))"

definition ProcessMsg :: "bool \<Rightarrow> 'o vtable \<Rightarrow> addr \<Rightarrow> ('o, unit) dop" where
  "ProcessMsg nd vt msg = (\<lambda>(K, S, D). in_buff (K_mem K) msg MSG_HEADER_LENGTH
     (let bs = m_data (K_mem K) msg; t = unat (sys_GetMsgToAutomate bs); objNum = sys_GetMsgObjectNumberTo bs in
      if objNum = INVALID_32 then
        bnd (on_system (free_get t)) (\<lambda>object. case object of
            Some a \<Rightarrow> on_system (on_object a (v_Process vt (Some msg)))
          | None \<Rightarrow> if sys_GetMsgToGroup bs = INVALID_08 then SendMsgToNextSrv nd msg else ret ()) (K, S, D)
      else on_system (call_object t (unat objNum) (v_Process vt (Some msg))) (K, S, D)))"

subsection \<open>The monitor loop\<close>

text \<open>What is done with a message.\<close>

definition route_msg :: "bool \<Rightarrow> 'o vtable \<Rightarrow> addr \<Rightarrow> ('o, unit) dop" where
  "route_msg nd vt msg = (\<lambda>(K, S, D). in_buff (K_mem K) msg MSG_HEADER_LENGTH
     (let bs = m_data (K_mem K) msg; automateType = sys_GetMsgToAutomate bs;
          objNum = sys_GetMsgObjectNumberTo bs; group = sys_GetMsgToGroup bs in
      if group = S_serverId S then
        bnd (IsSupported automateType objNum) (\<lambda>b. if b then ProcessMsg nd vt msg
          else on_system (DiscardMsg nd (Some msg))) (K, S, D)
      else if group = INVALID_08 then
        bnd (IsSupported automateType objNum) (\<lambda>b. if b then ProcessMsg nd vt msg
          else SendMsgToFirstSrv nd msg) (K, S, D)
      else SendMsgToServer nd (unat group) msg (K, S, D)))"

definition dist_body :: "bool \<Rightarrow> 'o vtable \<Rightarrow> u8 \<Rightarrow> ('o, unit) dop" where
  "dist_body nd vt i = bnd (on_system (sys_GetMsg nd i)) (\<lambda>msg. case msg of None \<Rightarrow> ret () | Some a \<Rightarrow> route_msg nd vt a)"

fun dist_loop :: "nat \<Rightarrow> bool \<Rightarrow> 'o vtable \<Rightarrow> ('o, unit) dop" where
  "dist_loop 0 nd vt s = Inl NoFuel"
| "dist_loop (Suc fuel) nd vt (K, S, D) =
     (if S_SystemWorking S
      then bindR (run (map (\<lambda>i. dist_body nd vt (of_nat i)) [0 ..< unat (S_NumberOfMbx S)]) (K, S, D)) (\<lambda>(_, s).
           dist_loop fuel nd vt s)
      else Inr ((), K, S, D))"

definition dist_Start :: "nat \<Rightarrow> bool \<Rightarrow> 'o vtable \<Rightarrow> ('o, unit) dop" where
  "dist_Start fuel nd vt = (\<lambda>(K, S, D). dist_loop fuel nd vt (K, S\<lparr>S_SystemWorking := True\<rparr>, D))"

end
