(* ===== verification/DistConfig.thy ===== *)
theory DistConfig
  imports Distribution
begin

text \<open>
  The configuration of \<open>Distribution\<close>: the constructor reads the file \<open>Distribution.ini\<close>, fills the
  lists of the servers for each type of automata (\<open>FillAutoStruct\<close>) and connects to the other servers
  (\<open>ConnectToServers\<close>).  \<open>ini\<close> is that file, whose lines are cut to the arrays they are read into, \<open>serversNum\<close>
  what \<open>GetPrivateProfileInt\<close> yields for the number of servers, \<open>net\<close> for the socket that \<open>connect\<close> yields for a server, \<open>lst\<close> for
  the results of \<open>socket\<close> and \<open>bind\<close> in \<open>WaitServerConn\<close>.
\<close>

definition COMMA :: u8 where "COMMA = 44"
definition HASH :: u8 where "HASH = 35"

subsection \<open>The own number\<close>

definition third_field :: "u8 list \<Rightarrow> (u8 list \<times> u8 list \<times> u8 list) result" where
  "third_field message = bindR (cut_at COMMA message) (\<lambda>(srvIp, start).
     bindR (cut_at COMMA start) (\<lambda>(srvPort, start).
     bindR (cut_at COMMA start) (\<lambda>(srvName, _). Inr (srvIp, srvPort, srvName))))"

text \<open>\<open>memcmp(a, b, strlen(b)) == 0\<close>\<close>

definition starts_with :: "u8 list \<Rightarrow> u8 list \<Rightarrow> bool" where
  "starts_with a b \<longleftrightarrow> take (length b) a = b"

fun own_loop :: "profile \<Rightarrow> u8 list \<Rightarrow> nat \<Rightarrow> nat \<Rightarrow> u8 result" where
  "own_loop ini name i 0 = Inr INVALID_08"
| "own_loop ini name i (Suc n) =
     bindR (third_field (ini_string 50 ini (str ''SERVERS'') (decimal i) (str ''UNKNOWN''))) (\<lambda>(_, _, srvName).
     if starts_with srvName name then Inr (of_nat i) else own_loop ini name (i + 1) n)"

definition FindOwnNum :: "profile \<Rightarrow> int \<Rightarrow> u8 list \<Rightarrow> u8 result" where
  "FindOwnNum ini serversNum name = own_loop ini name 0 (nat serversNum)"

subsection \<open>The other servers\<close>

definition ConnectToServer :: "(nat \<Rightarrow> socket option) \<Rightarrow> nat \<Rightarrow> ('o, bool) dop" where
  "ConnectToServer net ServerNum = server_at ServerNum (\<lambda>s (K, S, D). case net ServerNum of
     None \<Rightarrow> bnd (set_server ServerNum \<lparr>srv_init = False, srv_sock = closesocket (srv_sock s)\<rparr>) (\<lambda>_. ret False) (K, S, D)
   | Some so \<Rightarrow> bnd (set_server ServerNum \<lparr>srv_init = True, srv_sock = snd (send [S_serverId S] so)\<rparr>)
       (\<lambda>_. ret True) (K, S, D))"

fun connect_loop :: "profile \<Rightarrow> (nat \<Rightarrow> socket option) \<Rightarrow> u8 list \<Rightarrow> nat \<Rightarrow> nat \<Rightarrow> ('o, unit) dop" where
  "connect_loop ini net name i 0 s = Inr ((), s)"
| "connect_loop ini net name i (Suc n) s =
     bindR (third_field (ini_string 50 ini (str ''SERVERS'') (decimal i) (str ''UNKNOWN''))) (\<lambda>(_, _, srvName).
     bindR (if \<not> starts_with srvName name then bnd (ConnectToServer net i) (\<lambda>_. ret ()) s
            else bnd (server_at i (\<lambda>s. set_server i (s\<lparr>srv_init := True\<rparr>))) (\<lambda>_ (K, S, D).
              Inr ((), K, S\<lparr>S_serverId := of_nat i\<rparr>, D)) s) (\<lambda>(_, s).
     connect_loop ini net name (i + 1) n s))"

definition ConnectToServers ::
  "profile \<Rightarrow> int \<Rightarrow> (nat \<Rightarrow> socket option) \<Rightarrow> bool \<times> bool \<Rightarrow> u8 list \<Rightarrow> ('o, unit) dop" where
  "ConnectToServers ini serversNum net lst name =
     bnd (connect_loop ini net name 0 (nat serversNum)) (\<lambda>_. WaitServerConn (fst lst) (snd lst))"

subsection \<open>The lists of the servers\<close>

text \<open>
  The numbers of the computers of an entry, up to one that starts with \<open>#\<close>.  \<open>tok\<close> is the string at
  \<open>start\<close>, \<open>rest\<close> the one at \<open>offset\<close>.
\<close>

function comps_loop :: "u8 list \<Rightarrow> u8 list \<Rightarrow> nat \<Rightarrow> u8 list \<Rightarrow> (u8 list \<times> u8 list) result" where
  "comps_loop tok rest n cs =
     (if tok \<noteq> [] \<and> hd tok = HASH then Inr (cs, rest)
      else if n < length cs
      then bindR (cut_at COMMA rest) (\<lambda>(tok', rest').
           comps_loop tok' rest' (n + 1) (cs[n := of_int (atol tok)]))
      else Inl OutOfBounds)"
  by pat_completeness auto
termination
  by (relation "measure (\<lambda>(tok, rest, n, cs). length rest)") (auto simp: cut_at_Inr)

declare comps_loop.simps [simp del]

definition read_entry :: "auto_srv \<Rightarrow> u8 list \<Rightarrow> (auto_srv \<times> u8 list) result" where
  "read_entry junk start =
     bindR (cut_at COMMA start) (\<lambda>(t1, start).
     bindR (cut_at COMMA start) (\<lambda>(t2, start).
     bindR (cut_at COMMA start) (\<lambda>(tok, rest).
     bindR (comps_loop tok rest 0 (compId (AutoSrv junk))) (\<lambda>(cs, start).
     Inr ((AutoSrv junk)\<lparr>startId := of_int (atol t1), lastId := of_int (atol t2), compId := cs\<rparr>, start)))))"

definition new_entry :: "nat \<Rightarrow> auto_srv \<Rightarrow> distribution \<Rightarrow> distribution" where
  "new_entry i x D = (let a = D_top D; (nx, H) = PutInListTail (D_next D, D_automate D ! i) a in
     D\<lparr>D_srv := (D_srv D)(a := x), D_top := a + 1, D_next := nx, D_automate := (D_automate D)[i := H]\<rparr>)"

fun entries_loop :: "auto_srv \<Rightarrow> nat \<Rightarrow> nat \<Rightarrow> u8 list \<Rightarrow> distribution \<Rightarrow> distribution result" where
  "entries_loop junk i 0 start D = Inr D"
| "entries_loop junk i (Suc n) start D =
     bindR (read_entry junk start) (\<lambda>(x, start). entries_loop junk i n start (new_entry i x D))"

definition fill_type :: "profile \<Rightarrow> auto_srv \<Rightarrow> nat \<Rightarrow> distribution \<Rightarrow> distribution result" where
  "fill_type ini junk i D = (let message = ini_string 300 ini (str ''AUTOMATES'') (decimal i) (str ''UNKNOWN'') in
     if message = str ''UNKNOWN'' then Inr D
     else bindR (cut_at COMMA message) (\<lambda>(t, start). entries_loop junk i (nat (atol t)) start D))"

fun fill_loop :: "profile \<Rightarrow> auto_srv \<Rightarrow> nat list \<Rightarrow> distribution \<Rightarrow> distribution result" where
  "fill_loop ini junk [] D = Inr D"
| "fill_loop ini junk (i # is) D = bindR (fill_type ini junk i D) (fill_loop ini junk is)"

definition FillAutoStruct :: "profile \<Rightarrow> auto_srv \<Rightarrow> distribution \<Rightarrow> distribution result" where
  "FillAutoStruct ini junk = fill_loop ini junk [0 ..< MAX_AUTO_TYPES_NUM]"

subsection \<open>Construction and destruction\<close>

text \<open>\<open>wsa\<close>: \<open>WSAStartup\<close> succeeds; otherwise the constructor returns with its tables uninitialised.\<close>

definition Distribution_ctor ::
  "profile \<Rightarrow> int \<Rightarrow> (nat \<Rightarrow> socket option) \<Rightarrow> bool \<times> bool \<Rightarrow> bool \<Rightarrow> auto_srv \<Rightarrow> u8 list \<Rightarrow> u8 \<Rightarrow> u8 \<Rightarrow> ('o, unit) dop" where
  "Distribution_ctor ini serversNum net lst wsa junk srvName numOfAutomates numberOfMbx = (\<lambda>(K, S, D).
     bindR (FSMSystem numOfAutomates numberOfMbx S) (\<lambda>S.
     copy_str 20 srvName (\<lambda>name.
     bindR (FindOwnNum ini serversNum name) (\<lambda>own.
     let S = S\<lparr>S_serverId := own\<rparr>; D = D\<lparr>D_serverName := name\<rparr> in
     if \<not> wsa then Inr ((), K, S, D)
     else bindR (FillAutoStruct ini junk (InitLists D)) (\<lambda>D.
          ConnectToServers ini serversNum net lst srvName (K, S, D))))))"

fun remove_all :: "nat \<Rightarrow> srv_list \<Rightarrow> srv_list result" where
  "remove_all 0 s = Inl NoFuel"
| "remove_all (Suc n) s = (case RemoveFromListHead s of (None, s) \<Rightarrow> Inr s | (Some _, s) \<Rightarrow> remove_all n s)"

fun destroy_loop :: "nat list \<Rightarrow> distribution \<Rightarrow> distribution result" where
  "destroy_loop [] D = Inr D"
| "destroy_loop (i # is) D = bindR (remove_all (Suc (D_top D)) (D_next D, D_automate D ! i)) (\<lambda>(nx, H).
     destroy_loop is (D\<lparr>D_next := nx, D_automate := (D_automate D)[i := H]\<rparr>))"

definition Distribution_destructor :: "distribution \<Rightarrow> distribution result" where
  "Distribution_destructor = destroy_loop [0 ..< MAX_AUTO_TYPES_NUM]"

subsection \<open>The tables are well-formed\<close>

definition dist_lists :: "distribution \<Rightarrow> addr list list \<Rightarrow> bool" where
  "dist_lists D ass \<longleftrightarrow> length (D_automate D) = length ass \<and> distinct (concat ass) \<and>
     (\<forall>a \<in> pooled ass. a < D_top D) \<and>
     (\<forall>i < length ass. srv_content (D_next D, D_automate D ! i) (ass ! i))"

lemma srv_content_cong:
  "srv_content (nx, H) as \<Longrightarrow> \<forall>a \<in> set as. nx' a = nx a \<Longrightarrow> srv_content (nx', H) as"
  unfolding srv_content_def using lq_cong [of as nx' nx] by auto

lemma dist_lists_Init: "dist_lists (InitLists D) (replicate MAX_AUTO_TYPES_NUM [])"
  by (simp add: dist_lists_def InitLists_def srv_content_def pooled_def)

text \<open>A new entry goes to the end of its list and leaves the others alone.\<close>

lemma new_entry_ok:
  assumes "dist_lists D ass" "i < length ass"
  shows "dist_lists (new_entry i x D) (ass[i := ass ! i @ [D_top D]])"
    "D_srv (new_entry i x D) = (D_srv D)(D_top D := x)" "D_top (new_entry i x D) = D_top D + 1"
    "D_server (new_entry i x D) = D_server D" "D_serverName (new_entry i x D) = D_serverName D"
proof -
  let ?a = "D_top D"
  obtain nx H where p: "PutInListTail (D_next D, D_automate D ! i) ?a = (nx, H)" by fastforce
  have D: "length (D_automate D) = length ass" "distinct (concat ass)" "\<forall>a \<in> pooled ass. a < ?a"
    "\<forall>j < length ass. srv_content (D_next D, D_automate D ! j) (ass ! j)"
    using assms(1) by (simp_all add: dist_lists_def)
  have fresh: "?a \<notin> pooled ass" using D(3) by blast
  then have fi: "?a \<notin> set (ass ! i)" using assms(2) by (auto simp: pooled_def)
  from PutInListTail_content [OF D(4) [rule_format, OF assms(2)] fi] have
    new: "srv_content (nx, H) (ass ! i @ [?a])" unfolding p .
  have old: "srv_content (nx, D_automate D ! j) (ass ! j)" if j: "j < length ass" "j \<noteq> i" for j
  proof (rule srv_content_cong [OF D(4) [rule_format, OF j(1)]], intro ballI)
    fix b assume b: "b \<in> set (ass ! j)"
    have "b \<in> pooled ass" using b j(1) by (auto simp: pooled_def)
    then have ba: "b \<noteq> ?a" using fresh by blast
    have "the (a_tail (D_automate D ! i)) \<noteq> b" if "a_head (D_automate D ! i) \<noteq> None"
    proof -
      have lq: "lq (D_next D) (a_head (D_automate D ! i)) (a_tail (D_automate D ! i)) (ass ! i)"
        using D(4) assms(2) by (auto simp: srv_content_def)
      then have "ass ! i \<noteq> []" using that by auto
      then have "the (a_tail (D_automate D ! i)) \<in> set (ass ! i)" using lq by (simp add: lq_def)
      moreover have "set (ass ! i) \<inter> set (ass ! j) = {}"
        by (rule concat_nth_disjoint [OF D(2) assms(2) j(1) j(2) [symmetric]])
      ultimately show ?thesis using b by blast
    qed
    then show "nx b = D_next D b" using p ba by (auto simp: PutInListTail_def Let_def split: option.splits)
  qed
  note C = concat_snoc(1) [OF assms(2), of ?a] concat_snoc(2) [OF assms(2) D(2) fresh]
  show "dist_lists (new_entry i x D) (ass[i := ass ! i @ [?a]])"
    using p new old D(1,3) C assms(2) by (auto simp: dist_lists_def new_entry_def Let_def nth_list_update less_SucI)
  show "D_srv (new_entry i x D) = (D_srv D)(?a := x)" "D_top (new_entry i x D) = ?a + 1"
    "D_server (new_entry i x D) = D_server D" "D_serverName (new_entry i x D) = D_serverName D"
    using p by (simp_all add: new_entry_def Let_def)
qed

end
