(* ===== verification/SystemOps.thy ===== *)
theory SystemOps
  imports AutomatonContract FsmSystem
begin

text \<open>
  The monitor loop of \<open>FSMSystem\<close>, at the level of the lists of buffers: the first mailbox that has a
  message is served, and the message goes to the object its header names.
\<close>

lemma GetMsgSync_ok:
  assumes K: "k_ok K own mss L fss" and S: "S_Kernel S" and n: "unat (MailBoxesNum (K_PostOffice K)) \<le> MAXIMUM_WAIT_OBJECTS"
    and i: "i < length mss" "mss ! i = a # ms" "\<forall>j < i. mss ! j = []" and a: "\<not> is_discarded (K_mem K) a"
    and sem: "length (mss ! i) \<le> SEM_MAX"
  shows "\<exists>K'. GetMsgSync nd (K, S) = Inr ((Some a, of_nat i), K', S) \<and> k_ok K' (a # own) (mss[i := ms]) L fss \<and>
    kframe {} K K'"
proof -
  note D = k_okD [OF K]
  let ?m = "K_mem K" and ?B = "K_Buffers K" and ?P = "K_PostOffice K" and ?mss = "mss[i := ms]"
  let ?sems = "(semHandle ?P)[i := semHandle ?P ! i - 1]"
  have sig: "semHandle ?P ! i = length (mss ! i)" "\<forall>j < i. semHandle ?P ! j = 0"
  proof -
    show "semHandle ?P ! i = length (mss ! i)" using D(8) i(1) sem by (auto simp: signals_def)
    show "\<forall>j < i. semHandle ?P ! j = 0"
    proof (intro allI impI)
      fix j assume "j < i"
      then have "j < length mss" "mss ! j = []" using i(1,3) by simp_all
      moreover from this(1) D(8) have "semHandle ?P ! j \<le> length (mss ! j)" unfolding signals_def by blast
      ultimately show "semHandle ?P ! j = 0" by simp
    qed
  qed
  then have pos: "0 < semHandle ?P ! i" using i(2) by simp
  have l: "live ?m (mss ! i) = a # ms" "dead ?m (mss ! i) = []" using i(2) a by simp_all
  from po_GetSync_correct [OF D(4) n i(1) pos sig(2), of nd] obtain m' B' P' where
    r: "po_GetSync nd (?m, ?B, ?P) = Inr (Some a, of_nat i, m', B', P')" "po_ok (m', B', P') ?mss fss"
      "semHandle P' = ?sems" "MailBoxesNum P' = MailBoxesNum ?P" "same_pool ?B B'" "same_bytes ?m m'"
      "\<forall>b. b \<notin> set (mss ! i) \<longrightarrow> b \<notin> pooled fss \<longrightarrow> m_next m' b = m_next ?m b"
    unfolding l(1) by (auto simp: po_get_post_def l)
  let ?K = "K\<lparr>K_mem := m', K_Buffers := B', K_PostOffice := P'\<rparr>"
  have nx: "m_next m' b = m_next ?m b" if "b \<in> set (map fst L)" for b
  proof -
    have "b \<notin> pooled fss" "b \<notin> set (concat mss)" using that D(3) unfolding used_buffers_def by auto
    moreover from this(2) have "b \<notin> set (mss ! i)" using pooledI [OF i(1)] by (auto simp: pooled_def)
    ultimately show ?thesis using r(7) by blast
  qed
  have "mset (mss ! i) + mset (concat ?mss) = mset ms + mset (concat mss)"
    using mset_concat_update [OF i(1), of ms] by (simp only: add.commute)
  then have m1: "mset ((a # own) @ map fst L @ concat ?mss) = mset (own @ map fst L @ concat mss)"
    using i(2) by (simp add: ac_simps)
  then have "used_buffers (?m, ?B) fss ((a # own) @ map fst L @ concat ?mss)" using D(3) used_buffers_mset by blast
  then have used: "used_buffers (m', B') fss ((a # own) @ map fst L @ concat ?mss)"
    using used_buffers_same [OF r(6,5)] by blast
  then have used2: "used_buffers (m', B') fss (map fst L @ concat ?mss)" by (rule used_buffers_subset)
  from kernel_ok_frame [OF D(2) r(2,6,4) nx used2] have "kernel_ok (m', B', P', K_Timer K) ?mss L fss" by simp
  moreover have "signals (semHandle P') ?mss"
    using D(8) r(3) i sig sem po_okD(4) [OF D(4)] by (auto simp: signals_def nth_list_update)
  moreover have "accounted (m_top m') ((a # own) @ map fst L @ concat ?mss) fss"
    using D(9) r(6) mset_eq_setD [OF m1] by (simp only: accounted_def same_bytes_def)
  ultimately have "k_ok ?K (a # own) ?mss L fss" using D(1) used by (simp add: k_ok_def)
  moreover have "kframe {} K ?K" using r(4-6) by (simp add: kframe_def same_bytes_def)
  moreover have "GetMsgSync nd (K, S) = Inr ((Some a, of_nat i), ?K, S)" using S r(1) by (simp add: GetMsgSync_def)
  ultimately show ?thesis by blast
qed

text \<open>Without a message in any mailbox the monitor loop waits.\<close>

lemma GetMsgSync_blocks:
  assumes K: "k_ok K own mss L fss" and S: "S_Kernel S" and n: "unat (MailBoxesNum (K_PostOffice K)) \<le> MAXIMUM_WAIT_OBJECTS"
    and e: "\<forall>ms \<in> set mss. ms = []"
  shows "GetMsgSync nd (K, S) = Inl Blocked"
proof -
  note D = k_okD [OF K]
  have "semHandle (K_PostOffice K) ! i = 0" if "i < length mss" for i
  proof -
    have "semHandle (K_PostOffice K) ! i \<le> length (mss ! i)" using D(8) that by (auto simp: signals_def)
    moreover have "mss ! i = []" using e that by simp
    ultimately show ?thesis by simp
  qed
  then have "first_signalled (take (unat (MailBoxesNum (K_PostOffice K))) (semHandle (K_PostOffice K))) = None"
    using D(6) unfolding first_signalled_None by (auto simp: in_set_conv_nth)
  then show ?thesis
    using n S by (simp add: GetMsgSync_def po_GetSync_def WaitForMultipleObjects_def)
qed

end
