(* ===== verification/DistRoutes.thy ===== *)
theory DistRoutes
  imports DistConfig SystemOps
begin

text \<open>
  What the operations of \<open>Distribution\<close> do, in terms of lists: the configuration file is read back as it
  was written (\<open>FillAutoStruct_render\<close>), a message goes where \<open>route\<close> says (\<open>route_msg_route\<close>), and the
  bytes a server sends are received by the other, however the network cuts them (\<open>ReceiveMsg_pieces\<close>).
\<close>

subsection \<open>The configuration file\<close>

text \<open>Entries as they are written in the file: a range of objects and the computers that serve it.\<close>

type_synonym entry = "u32 \<times> u32 \<times> u8 list"

definition render_comps :: "u8 list \<Rightarrow> u8 list" where
  "render_comps cs = concat (map (\<lambda>c. decimal (unat c) @ [COMMA]) cs) @ [HASH, COMMA]"

fun render_entry :: "entry \<Rightarrow> u8 list" where
  "render_entry (s, l, cs) = decimal (unat s) @ COMMA # decimal (unat l) @ COMMA # render_comps cs"

definition render_type :: "entry list \<Rightarrow> u8 list" where
  "render_type es = decimal (length es) @ COMMA # concat (map render_entry es)"

fun entry_ok :: "entry \<Rightarrow> bool" where
  "entry_ok (s, l, cs) \<longleftrightarrow> unat s < 2 ^ 31 \<and> unat l < 2 ^ 31 \<and> length cs \<le> MAX_SERVER_NUM"

fun entry_srv :: "auto_srv \<Rightarrow> entry \<Rightarrow> auto_srv" where
  "entry_srv junk (s, l, cs) = junk\<lparr>startId := s, lastId := l,
     compId := cs @ replicate (MAX_SERVER_NUM - length cs) INVALID_08\<rparr>"

lemma render_comps_simps [simp]:
  "render_comps [] = [HASH, COMMA]"
  "render_comps (c # cs) = decimal (unat c) @ COMMA # render_comps cs"
  by (simp_all add: render_comps_def)

lemma comma_decimal [simp]: "COMMA \<notin> set (decimal n)" "HASH \<notin> set (decimal n)"
  by (simp_all add: COMMA_def HASH_def)

lemma hash_comma [simp]: "HASH \<noteq> COMMA"
  by (simp add: HASH_def COMMA_def)

lemma cut_at_decimal [simp]: "cut_at COMMA (decimal n @ COMMA # r) = Inr (decimal n, r)"
  by (rule cut_at_token) simp

lemma cut_at_hash [simp]: "cut_at COMMA (HASH # COMMA # r) = Inr ([HASH], r)"
  using cut_at_token [of COMMA "[HASH]" r] hash_comma by simp

lemma of_int_atol_decimal: "unat (x :: 'a :: len word) < 2 ^ 31 \<Longrightarrow> of_int (atol (decimal (unat x))) = x"
  by (simp add: atol_decimal)

lemma comps_loop_render:
  assumes "cut_at COMMA (render_comps cs @ r) = Inr (tok, rest)" "n + length cs \<le> length ks"
  shows "comps_loop tok rest n ks = Inr (take n ks @ cs @ drop (n + length cs) ks, r)"
  using assms
proof (induction cs arbitrary: tok rest n ks)
  case Nil
  then show ?case by (subst comps_loop.simps) auto
next
  case (Cons c cs)
  then have t: "tok = decimal (unat c)" "rest = render_comps cs @ r" by simp_all
  have ex: "\<exists>t u. cut_at COMMA (render_comps cs @ r) = Inr (t, u)" by (cases cs) auto
  then obtain t u where tu: "cut_at COMMA (render_comps cs @ r) = Inr (t, u)" by blast
  have "unat c < 2 ^ LENGTH(8)" by (rule unsigned_less)
  then have "unat c < 2 ^ 31" by simp
  then have a: "of_int (atol tok) = c" unfolding t(1) by (rule of_int_atol_decimal)
  have h: "hd tok \<noteq> HASH"
  proof -
    have "hd tok \<in> set tok" unfolding t(1) by simp
    then show ?thesis unfolding t(1) by (metis comma_decimal(2))
  qed
  have n: "n < length ks" "Suc n + length cs \<le> length (ks[n := c])" using Cons.prems(2) by simp_all
  have "comps_loop tok rest n ks = comps_loop t u (n + 1) (ks[n := c])"
    using h n(1) a tu t(2) by (subst comps_loop.simps) simp
  also have "\<dots> = Inr (take (Suc n) (ks[n := c]) @ cs @ drop (Suc n + length cs) (ks[n := c]), r)"
    using Cons.IH [OF tu n(2)] by simp
  finally show ?case using n(1) by (simp add: take_Suc_conv_app_nth)
qed

lemma read_entry_render:
  assumes "entry_ok e"
  shows "read_entry junk (render_entry e @ r) = Inr (entry_srv junk e, r)"
proof -
  obtain s l cs where e: "e = (s, l, cs)" by (cases e) auto
  have ok: "unat s < 2 ^ 31" "unat l < 2 ^ 31" "length cs \<le> MAX_SERVER_NUM" using assms by (simp_all add: e)
  have "\<exists>t u. cut_at COMMA (render_comps cs @ r) = Inr (t, u)" by (cases cs) auto
  then obtain t u where tu: "cut_at COMMA (render_comps cs @ r) = Inr (t, u)" by blast
  have "comps_loop t u 0 (replicate MAX_SERVER_NUM INVALID_08) = Inr (cs @ replicate (MAX_SERVER_NUM - length cs) INVALID_08, r)"
    using comps_loop_render [OF tu, of 0 "replicate MAX_SERVER_NUM INVALID_08"] ok(3) by simp
  then show ?thesis
    using tu of_int_atol_decimal [OF ok(1)] of_int_atol_decimal [OF ok(2)] by (simp add: e read_entry_def AutoSrv_def)
qed

lemma entries_loop_render:
  assumes "dist_lists D ass" "i < length ass" "\<forall>e \<in> set es. entry_ok e"
  shows "\<exists>D'. entries_loop junk i (length es) (concat (map render_entry es) @ r) D = Inr D' \<and>
    dist_lists D' (ass[i := ass ! i @ [D_top D ..< D_top D + length es]]) \<and>
    map (D_srv D') [D_top D ..< D_top D + length es] = map (entry_srv junk) es \<and>
    (\<forall>a < D_top D. D_srv D' a = D_srv D a) \<and> D_top D' = D_top D + length es \<and>
    D_server D' = D_server D \<and> D_serverName D' = D_serverName D"
  using assms
proof (induction es arbitrary: D ass)
  case Nil
  then show ?case by simp
next
  case (Cons e es)
  let ?x = "entry_srv junk e" and ?n = "D_top D" and ?ass = "ass[i := ass ! i @ [D_top D]]"
  note N = new_entry_ok [OF Cons.prems(1,2), of ?x]
  have "i < length ?ass" "\<forall>e \<in> set es. entry_ok e" using Cons.prems(2,3) by simp_all
  from Cons.IH [OF N(1) this] obtain D' where
    r: "entries_loop junk i (length es) (concat (map render_entry es) @ r) (new_entry i ?x D) = Inr D'"
      "dist_lists D' (?ass[i := ?ass ! i @ [?n + 1 ..< ?n + 1 + length es]])"
      "map (D_srv D') [?n + 1 ..< ?n + 1 + length es] = map (entry_srv junk) es"
      "\<forall>a < ?n + 1. D_srv D' a = D_srv (new_entry i ?x D) a" "D_top D' = ?n + 1 + length es"
      "D_server D' = D_server D" "D_serverName D' = D_serverName D" unfolding N(3-5) by blast
  have u: "[?n ..< ?n + length (e # es)] = ?n # [?n + 1 ..< ?n + 1 + length es]" by (simp add: upt_rec)
  have "D_srv D' ?n = ?x" "\<forall>a < ?n. D_srv D' a = D_srv D a" using r(4) unfolding N(2) by auto
  moreover have "entries_loop junk i (length (e # es)) (concat (map render_entry (e # es)) @ r) D = Inr D'"
    using read_entry_render [of e junk "concat (map render_entry es) @ r"] Cons.prems(3) r(1) by simp
  moreover have "dist_lists D' (ass[i := ass ! i @ [?n ..< ?n + length (e # es)]])"
    using r(2) Cons.prems(2) unfolding u by simp
  ultimately show ?case using r(3,5-7) unfolding u by (intro exI [of _ D']) simp
qed

text \<open>The file holds one line for every type that has entries.\<close>

definition renders :: "profile \<Rightarrow> (nat \<Rightarrow> entry list) \<Rightarrow> bool" where
  "renders ini es \<longleftrightarrow> (\<forall>i < MAX_AUTO_TYPES_NUM. \<forall>d. ini (str ''AUTOMATES'') (decimal i) d =
     (if es i = [] then d else render_type (es i)))"

definition lists_entries :: "distribution \<Rightarrow> addr list list \<Rightarrow> auto_srv \<Rightarrow> (nat \<Rightarrow> entry list) \<Rightarrow> bool" where
  "lists_entries D ass junk es \<longleftrightarrow> dist_lists D ass \<and> length ass = MAX_AUTO_TYPES_NUM \<and>
     (\<forall>i < MAX_AUTO_TYPES_NUM. map (D_srv D) (ass ! i) = map (entry_srv junk) (es i))"

lemma render_type_known: "render_type es \<noteq> str ''UNKNOWN''"
proof -
  obtain d r where d: "d < 10" "decimal (length es) = (48 + of_nat d) # r" using decimal_Cons by blast
  have "is_digit (48 + of_nat d)" by (rule digit_facts [OF d(1)])
  moreover have "\<not> is_digit (85 :: u8)" by (simp add: is_digit_def)
  ultimately have "(48 + of_nat d :: u8) \<noteq> 85" by metis
  then show ?thesis using d(2) by (simp add: render_type_def str_def of_char_def)
qed

lemma length_render_type: "length es \<le> length (render_type es)"
proof -
  have "render_entry e \<noteq> []" for e by (cases e) simp
  then have "length es \<le> length (concat (map render_entry es))"
  proof (induction es)
    case (Cons e es)
    then show ?case by (cases "render_entry e") (auto simp: Suc_le_eq less_Suc_eq_le trans_le_add2)
  qed simp
  then show ?thesis by (simp add: render_type_def)
qed

lemma fill_type_render:
  assumes "dist_lists D ass" "i < length ass" "\<forall>e \<in> set es. entry_ok e" "length (render_type es) < 300"
    and "ini (str ''AUTOMATES'') (decimal i) (str ''UNKNOWN'') = (if es = [] then str ''UNKNOWN'' else render_type es)"
  shows "\<exists>D'. fill_type ini junk i D = Inr D' \<and> dist_lists D' (ass[i := ass ! i @ [D_top D ..< D_top D + length es]]) \<and>
    map (D_srv D') [D_top D ..< D_top D + length es] = map (entry_srv junk) es \<and>
    (\<forall>a < D_top D. D_srv D' a = D_srv D a) \<and> D_top D' = D_top D + length es \<and>
    D_server D' = D_server D \<and> D_serverName D' = D_serverName D"
proof (cases "es = []")
  case True
  have "length (str ''UNKNOWN'') < 300" by (simp add: str_def)
  then show ?thesis using assms(1,5) True by (simp add: fill_type_def)
next
  case False
  have "cut_at COMMA (render_type es) = Inr (decimal (length es), concat (map render_entry es))"
    by (simp add: render_type_def)
  moreover have "nat (atol (decimal (length es))) = length es"
    using le_less_trans [OF length_render_type assms(4)] by (simp add: atol_decimal)
  ultimately have "fill_type ini junk i D = entries_loop junk i (length es) (concat (map render_entry es) @ []) D"
    using assms(4,5) False render_type_known [of es] by (simp add: fill_type_def)
  then show ?thesis using entries_loop_render [OF assms(1-3), of junk "[]"] by simp
qed

lemma fill_loop_render:
  assumes "renders ini es" "\<forall>i < MAX_AUTO_TYPES_NUM. (\<forall>e \<in> set (es i). entry_ok e) \<and> length (render_type (es i)) < 300"
    and "k \<le> MAX_AUTO_TYPES_NUM" "dist_lists D (replicate MAX_AUTO_TYPES_NUM [])"
  shows "\<exists>D' ass. fill_loop ini junk [0 ..< k] D = Inr D' \<and> dist_lists D' ass \<and> length ass = MAX_AUTO_TYPES_NUM \<and>
    (\<forall>i < k. map (D_srv D') (ass ! i) = map (entry_srv junk) (es i)) \<and>
    (\<forall>i < MAX_AUTO_TYPES_NUM. k \<le> i \<longrightarrow> ass ! i = []) \<and> D_server D' = D_server D \<and> D_serverName D' = D_serverName D"
  using assms(3)
proof (induction k)
  case 0
  then show ?case using assms(4) by (intro exI [of _ D] exI [of _ "replicate MAX_AUTO_TYPES_NUM []"]) simp
next
  case (Suc k)
  then obtain D1 ass where
    1: "fill_loop ini junk [0 ..< k] D = Inr D1" "dist_lists D1 ass" "length ass = MAX_AUTO_TYPES_NUM"
      "\<forall>i < k. map (D_srv D1) (ass ! i) = map (entry_srv junk) (es i)"
      "\<forall>i < MAX_AUTO_TYPES_NUM. k \<le> i \<longrightarrow> ass ! i = []" "D_server D1 = D_server D" "D_serverName D1 = D_serverName D" by auto
  have k: "k < length ass" "k < MAX_AUTO_TYPES_NUM" using Suc.prems 1(3) by simp_all
  have "ini (str ''AUTOMATES'') (decimal k) (str ''UNKNOWN'') = (if es k = [] then str ''UNKNOWN'' else render_type (es k))"
    using assms(1) k(2) by (simp add: renders_def)
  from fill_type_render [where es = "es k" and junk = junk and ini = ini, OF 1(2) k(1) _ _ this] assms(2) k(2) obtain D2 where
    2: "fill_type ini junk k D1 = Inr D2" "dist_lists D2 (ass[k := ass ! k @ [D_top D1 ..< D_top D1 + length (es k)]])"
      "map (D_srv D2) [D_top D1 ..< D_top D1 + length (es k)] = map (entry_srv junk) (es k)"
      "\<forall>a < D_top D1. D_srv D2 a = D_srv D1 a" "D_server D2 = D_server D1" "D_serverName D2 = D_serverName D1" by blast
  let ?ass = "ass[k := [D_top D1 ..< D_top D1 + length (es k)]]"
  have app: "fill_loop ini junk (xs @ ys) s = bindR (fill_loop ini junk xs s) (fill_loop ini junk ys)" for xs ys s
    by (induction xs arbitrary: s) (auto simp: bindR_assoc intro!: bindR_cong)
  have "fill_loop ini junk [0 ..< Suc k] D = Inr D2" using 1(1) 2(1) by (simp add: app)
  moreover have "dist_lists D2 ?ass" using 2(2) 1(5) k(2) by simp
  moreover have same: "map (D_srv D2) (ass ! i) = map (D_srv D1) (ass ! i)" if "i < length ass" for i
  proof -
    have "\<forall>a \<in> set (ass ! i). a < D_top D1" using that 1(2) nth_mem by (fastforce simp: dist_lists_def pooled_def)
    then show ?thesis using 2(4) by simp
  qed
  have "map (D_srv D2) (?ass ! i) = map (entry_srv junk) (es i)" if "i < Suc k" for i
  proof (cases "i = k")
    case True
    then show ?thesis using 2(3) k(1) by simp
  next
    case False
    then have "i < k" using that by simp
    then show ?thesis using same [of i] 1(4) k(1) by simp
  qed
  ultimately show ?case using 1(3,5,6,7) 2(5,6)
    by (intro exI [of _ D2] exI [of _ ?ass]) (simp add: nth_list_update)
qed

lemma FillAutoStruct_render:
  assumes "renders ini es" "\<forall>i < MAX_AUTO_TYPES_NUM. (\<forall>e \<in> set (es i). entry_ok e) \<and> length (render_type (es i)) < 300"
  shows "\<exists>D' ass. FillAutoStruct ini junk (InitLists D) = Inr D' \<and> lists_entries D' ass junk es \<and>
    D_server D' = D_server D \<and> D_serverName D' = D_serverName D"
  using fill_loop_render [OF assms order_refl dist_lists_Init, of junk D]
  unfolding FillAutoStruct_def lists_entries_def by (auto simp: InitLists_def)

subsection \<open>Routing\<close>

text \<open>A walk along a list finds the first entry with the property.\<close>

lemma srv_walk_ok:
  assumes "chain (D_next D) p as" "length as < n" "\<forall>a \<in> set as. P (D_srv D a) = Inr (Q (D_srv D a))"
  shows "srv_walk n P D p = Inr (List.find (\<lambda>a. Q (D_srv D a)) as)"
  using assms
proof (induction n arbitrary: p as)
  case (Suc n)
  then show ?case by (cases as) auto
qed simp

lemma dist_lists_chain:
  assumes "dist_lists D ass" "i < length ass"
  shows "chain (D_next D) (a_head (D_automate D ! i)) (ass ! i)" "length (ass ! i) \<le> D_top D"
    "a \<in> set (ass ! i) \<Longrightarrow> \<exists>bs. chain (D_next D) (D_next D a) bs \<and> ass ! i = takeWhile (\<lambda>x. x \<noteq> a) (ass ! i) @ a # bs"
proof -
  have c: "srv_content (D_next D, D_automate D ! i) (ass ! i)" using assms by (simp add: dist_lists_def)
  then show ch: "chain (D_next D) (a_head (D_automate D ! i)) (ass ! i)" by (simp add: srv_content_def lq_def)
  have d: "distinct (ass ! i)" using c by (simp add: srv_content_def lq_def)
  have "set (ass ! i) \<subseteq> {..< D_top D}" using assms by (auto simp: dist_lists_def pooled_def)
  then have "card (set (ass ! i)) \<le> card {..< D_top D}" by (intro card_mono) simp_all
  then show "length (ass ! i) \<le> D_top D" using d by (simp add: distinct_card)
  have "chain nx p as \<Longrightarrow> a \<in> set as \<Longrightarrow> \<exists>bs. chain nx (nx a) bs \<and> as = takeWhile (\<lambda>x. x \<noteq> a) as @ a # bs"
    for nx p as by (induction as arbitrary: p) auto
  from this [OF ch] show "a \<in> set (ass ! i) \<Longrightarrow>
      \<exists>bs. chain (D_next D) (D_next D a) bs \<and> ass ! i = takeWhile (\<lambda>x. x \<noteq> a) (ass ! i) @ a # bs" .
qed

text \<open>The tables name servers that exist.\<close>

definition dist_ok :: "distribution \<Rightarrow> addr list list \<Rightarrow> bool" where
  "dist_ok D ass \<longleftrightarrow> dist_lists D ass \<and> (\<forall>a \<in> pooled ass. comps_ok (compId (D_srv D a)) (D_server D))"

abbreviation active :: "distribution \<Rightarrow> auto_srv \<Rightarrow> u8" where
  "active D x \<equiv> active_server (D_server D) (compId x)"

lemma find_srv_ok:
  assumes "dist_ok D ass" "i < length ass" "\<And>x. P x = bindR (GetActivSrv x D) (\<lambda>c. Inr (Q c x))"
  shows "find_srv P D (a_head (D_automate D ! i)) = Inr (List.find (\<lambda>a. Q (active D (D_srv D a)) (D_srv D a)) (ass ! i))"
    "a \<in> set (ass ! i) \<Longrightarrow> \<exists>bs. chain (D_next D) (D_next D a) bs \<and> ass ! i = takeWhile (\<lambda>x. x \<noteq> a) (ass ! i) @ a # bs \<and>
      find_srv P D (D_next D a) = Inr (List.find (\<lambda>a. Q (active D (D_srv D a)) (D_srv D a)) bs)"
proof -
  have D: "dist_lists D ass" using assms(1) by (simp add: dist_ok_def)
  have ok: "P (D_srv D a) = Inr (Q (active D (D_srv D a)) (D_srv D a))" if "a \<in> set (ass ! i)" for a
  proof -
    have "comps_ok (compId (D_srv D a)) (D_server D)"
      using assms(1,2) that by (auto simp: dist_ok_def pooled_def)
    then show ?thesis by (simp add: assms(3) GetActivSrv_def active_loop_ok)
  qed
  note c = dist_lists_chain [OF D assms(2)]
  show "find_srv P D (a_head (D_automate D ! i)) = Inr (List.find (\<lambda>a. Q (active D (D_srv D a)) (D_srv D a)) (ass ! i))"
    unfolding find_srv_def by (rule srv_walk_ok [OF c(1)]) (use c(2) ok in auto)
  assume "a \<in> set (ass ! i)"
  from c(3) [OF this] obtain bs where bs: "chain (D_next D) (D_next D a) bs"
    "ass ! i = takeWhile (\<lambda>x. x \<noteq> a) (ass ! i) @ a # bs" by blast
  have "set bs \<subseteq> set (ass ! i)" "length bs < length (ass ! i)" using arg_cong [OF bs(2), of set] arg_cong [OF bs(2), of length]
    by (auto simp del: takeWhile_append)
  then have "find_srv P D (D_next D a) = Inr (List.find (\<lambda>a. Q (active D (D_srv D a)) (D_srv D a)) bs)"
    unfolding find_srv_def by (intro srv_walk_ok [OF bs(1)]) (use c(2) ok in auto)
  with bs show "\<exists>bs. chain (D_next D) (D_next D a) bs \<and> ass ! i = takeWhile (\<lambda>x. x \<noteq> a) (ass ! i) @ a # bs \<and>
      find_srv P D (D_next D a) = Inr (List.find (\<lambda>a. Q (active D (D_srv D a)) (D_srv D a)) bs)" by blast
qed

text \<open>Where a message goes: to an automaton of this computer, to a server, or nowhere.\<close>

datatype route = Local | Remote u8 | Discard

definition served_here :: "distribution \<Rightarrow> auto_srv list \<Rightarrow> u8 \<Rightarrow> u32 \<Rightarrow> bool" where
  "served_here D es own obj \<longleftrightarrow> (\<exists>x \<in> set es. active D x = own \<and> (obj = INVALID_32 \<or> startId x \<le> obj \<and> obj \<le> lastId x))"

definition first_other :: "distribution \<Rightarrow> auto_srv list \<Rightarrow> u8 \<Rightarrow> route" where
  "first_other D es own = (case filter (\<lambda>c. c \<noteq> INVALID_08 \<and> c \<noteq> own) (map (active D) es) of [] \<Rightarrow> Discard | c # _ \<Rightarrow> Remote c)"

definition route :: "distribution \<Rightarrow> auto_srv list \<Rightarrow> u8 \<Rightarrow> u8 \<Rightarrow> u32 \<Rightarrow> route" where
  "route D es own grp obj =
     (if grp = own then if served_here D es own obj then Local else Discard
      else if grp = INVALID_08 then if served_here D es own obj then Local else first_other D es own
      else Remote grp)"

definition take_route :: "bool \<Rightarrow> 'o vtable \<Rightarrow> addr \<Rightarrow> route \<Rightarrow> ('o, unit) dop" where
  "take_route nd vt a r = (case r of Local \<Rightarrow> ProcessMsg nd vt a | Remote c \<Rightarrow> SendMsgToServer nd (unat c) a
     | Discard \<Rightarrow> on_system (DiscardMsg nd (Some a)))"

lemma find_None_iff: "List.find P xs = None \<longleftrightarrow> filter P xs = []"
  by (induction xs) auto

lemma find_Some_filter: "List.find P xs = Some x \<Longrightarrow> \<exists>ys. filter P xs = x # ys"
  by (induction xs) (auto split: if_splits)

lemma IsSupported_ok:
  assumes "dist_ok D ass" "unat t < length ass"
  shows "IsSupported t obj (K, S, D) = Inr (served_here D (map (D_srv D) (ass ! unat t)) (S_serverId S) obj, K, S, D)"
proof -
  let ?Q = "\<lambda>c x. c = S_serverId S \<and> (obj = INVALID_32 \<or> startId x \<le> obj \<and> obj \<le> lastId x)"
  have l: "length (D_automate D) = length ass" using assms(1) by (simp add: dist_ok_def dist_lists_def)
  have "List.find (\<lambda>a. ?Q (active D (D_srv D a)) (D_srv D a)) (ass ! unat t) \<noteq> None \<longleftrightarrow>
      served_here D (map (D_srv D) (ass ! unat t)) (S_serverId S) obj"
    by (auto simp: find_None_iff filter_empty_conv served_here_def)
  with find_srv_ok(1) [OF assms, of _ ?Q] show ?thesis
    using assms(2) l by (simp add: IsSupported_def head_of_def GetFromListHead_def)
qed

lemma SendMsgToFirstSrv_ok:
  assumes "dist_ok D ass" "t = bytes K a ! MSG_TO_AUTOMATE" "unat t < length ass" "MSG_HEADER_LENGTH \<le> length (bytes K a)"
  shows "SendMsgToFirstSrv nd a (K, S, D) =
    take_route nd vt a (first_other D (map (D_srv D) (ass ! unat t)) (S_serverId S)) (K, S, D)"
proof -
  let ?Q = "\<lambda>c x. c \<noteq> INVALID_08 \<and> c \<noteq> S_serverId S"
  let ?as = "ass ! unat t" and ?P = "\<lambda>a. ?Q (active D (D_srv D a)) (D_srv D a)"
  have l: "length (D_automate D) = length ass" using assms(1) by (simp add: dist_ok_def dist_lists_def)
  note F = find_srv_ok(1) [OF assms(1,3), of _ ?Q, OF refl]
  have f: "filter (\<lambda>c. c \<noteq> INVALID_08 \<and> c \<noteq> S_serverId S) (map (active D) (map (D_srv D) ?as)) =
      map (\<lambda>a. active D (D_srv D a)) (filter ?P ?as)" by (simp add: filter_map comp_def)
  show ?thesis
  proof (cases "List.find ?P ?as")
    case None
    then have "filter ?P ?as = []" by (simp add: find_None_iff)
    then have "first_other D (map (D_srv D) ?as) (S_serverId S) = Discard" by (simp only: first_other_def f) simp
    then show ?thesis using F None assms(2-4) l
      by (simp add: SendMsgToFirstSrv_def head_of_def GetFromListHead_def sys_GetMsgToAutomate_def take_route_def)
  next
    case (Some b)
    from find_Some_filter [OF this] obtain ys where "filter ?P ?as = b # ys" ..
    then have r: "first_other D (map (D_srv D) ?as) (S_serverId S) = Remote (active D (D_srv D b))"
      by (simp only: first_other_def f) simp
    have "b \<in> set ?as" using Some by (auto simp: find_Some_iff)
    then have "GetActivSrv (D_srv D b) D = Inr (active D (D_srv D b))"
      using assms(1,3) by (auto simp: dist_ok_def pooled_def GetActivSrv_def intro!: active_loop_ok)
    then show ?thesis using F Some r assms(2-4) l
      by (simp add: SendMsgToFirstSrv_def head_of_def GetFromListHead_def sys_GetMsgToAutomate_def take_route_def to_active_def)
  qed
qed

lemma route_msg_route:
  assumes "dist_ok D ass" "t = bytes K a ! MSG_TO_AUTOMATE" "unat t < length ass" "MSG_HEADER_LENGTH \<le> length (bytes K a)"
  shows "route_msg nd vt a (K, S, D) = take_route nd vt a
    (route D (map (D_srv D) (ass ! unat t)) (S_serverId S) (bytes K a ! MSG_TO_GROUP) (GetUint32 (bytes K a) MSG_OBJECT_ID_TO))
    (K, S, D)"
  using IsSupported_ok [OF assms(1,3), of _ K S] SendMsgToFirstSrv_ok [OF assms, of nd S vt] assms(2,4)
  by (auto simp: route_msg_def route_def take_route_def sys_GetMsgToAutomate_def sys_GetMsgToGroup_def
      sys_GetMsgObjectNumberTo_def bnd_def Let_def)

subsection \<open>The stream between two servers\<close>

lemma recv_loop_pieces:
  assumes "length got + length piece + length (concat ps) = msgLen" "msgLen \<le> DIST_MSG" "msgLen \<noteq> 0"
    and "[] \<notin> set (piece # ps)" "\<forall>p \<in> set (piece # ps). length p \<le> DIST_BUFF"
    and "arrives ps rest (so_in so)"
  shows "recv_loop msgLen got piece so = Inr ((msgLen, got @ piece @ concat ps), so\<lparr>so_in := rest\<rparr>)"
  using assms
proof (induction ps arbitrary: got piece so)
  case Nil
  then show ?case by (subst recv_loop.simps) auto
next
  case (Cons p ps)
  have "msgLen - (length got + length piece) = length p + length (concat ps)" using Cons.prems(1) by auto
  from recv_arrives [OF Cons.prems(6) this] obtain s where
    s: "recv (msgLen - (length got + length piece)) so = (Some p, so\<lparr>so_in := s\<rparr>)" "arrives ps rest s" by blast
  moreover have "recv_loop msgLen (got @ piece) p (so\<lparr>so_in := s\<rparr>) =
      Inr ((msgLen, (got @ piece) @ p @ concat ps), so\<lparr>so_in := rest\<rparr>)"
    using Cons.IH [of "got @ piece" p "so\<lparr>so_in := s\<rparr>"] Cons.prems(1-5) s(2) by (simp add: ac_simps)
  moreover have "length p \<noteq> 0" using Cons.prems(4) by auto
  then have "length got + length piece < msgLen" using Cons.prems(1) by (simp only: concat.simps length_append)
  moreover have "piece \<noteq> []" using Cons.prems(4) by auto
  ultimately show ?case using Cons.prems(2,5) by (subst recv_loop.simps) simp
qed

definition frame :: "u8 list \<Rightarrow> u8 list" where
  "frame bs = SetUint16 [0, 0] 0 (of_nat (length bs)) @ bs"

lemma frame_length: "length (SetUint16 [0, 0] 0 v) = 2" "GetUint16 (SetUint16 [0, 0] 0 v @ xs) 0 = v"
proof -
  show l: "length (SetUint16 [0, 0] 0 v) = 2" by simp
  have "GetUint16 (SetUint16 [0, 0] 0 v @ xs) 0 = GetUint16 (SetUint16 [0, 0] 0 v) 0"
    unfolding GetUint16_def using l by (simp only: nth_append) simp
  then show "GetUint16 (SetUint16 [0, 0] 0 v @ xs) 0 = v" using Get_Set16 [of 0 "[0, 0]" v] by simp
qed

lemma frame_head: "SetUint16 [0, 0] 0 v \<noteq> []"
  using frame_length(1) [of v] by (metis list.size(3) zero_neq_numeral)

lemma ReceiveMsg_pieces:
  assumes "carried 2 (frame bs) x qs" "bs \<noteq> []" "length bs \<le> DIST_MSG" "\<forall>q \<in> set qs. length q \<le> DIST_BUFF"
    and "so_in so = map Some qs @ rest"
  shows "ReceiveMsg junk so = Inr ((length bs, bs), so\<lparr>so_in := left_over x rest\<rparr>)"
proof -
  let ?h = "SetUint16 [0, 0] 0 (of_nat (length bs) :: u16)"
  have h: "frame bs = ?h @ bs" "length ?h = 2" "?h \<noteq> []" using frame_length(1) [of "of_nat (length bs)"] frame_head
    by (simp_all add: frame_def)
  have "unat (GetUint16 (?h @ drop 2 junk) 0) = length bs"
    unfolding frame_length(2) using assms(3) by (simp add: DIST_MSG_def unat_of_nat_less)
  then have n: "unat (GetUint16 (?h @ drop (length ?h) junk) 0) = length bs" unfolding h(2) .
  from carried_head [of ?h bs x qs so rest] assms(1,2,5) obtain ps s where
    s: "recv 2 so = (Some ?h, so\<lparr>so_in := s\<rparr>)" "pieces_of bs ps" "arrives ps (left_over x rest) s"
      "\<forall>p \<in> set ps. \<exists>q \<in> set qs. length p \<le> length q" unfolding h(1,2) by blast
  obtain p ps' where ps: "ps = p # ps'" using s(2) assms(2) by (cases ps) (auto simp: pieces_of_def)
  have c: "concat (p # ps') = bs" "[] \<notin> set (p # ps')" using s(2) by (simp_all add: pieces_of_def ps)
  have l: "length bs = length p + length (concat ps')" using arg_cong [OF c(1), of length] by simp
  from recv_arrives [of p ps' "left_over x rest" "so\<lparr>so_in := s\<rparr>", OF _ l] s(3) obtain s' where
    s': "recv (length bs) (so\<lparr>so_in := s\<rparr>) = (Some p, so\<lparr>so_in := s'\<rparr>)" "arrives ps' (left_over x rest) s'" by (auto simp: ps)
  have "\<forall>p \<in> set (p # ps'). length p \<le> DIST_BUFF" using s(4) assms(4) unfolding ps by (meson le_trans)
  moreover have "length [] + length p + length (concat ps') = length bs" "length bs \<noteq> 0" by (simp add: l) (simp add: assms(2))
  ultimately have "recv_loop (length bs) [] p (so\<lparr>so_in := s'\<rparr>) = Inr ((length bs, bs), so\<lparr>so_in := left_over x rest\<rparr>)"
    using recv_loop_pieces [of "[]" p ps' "length bs", OF _ assms(3) _ c(2), of _ "so\<lparr>so_in := s'\<rparr>"] s'(2)
    unfolding c(1) [symmetric] by simp
  then show ?thesis using s(1) s'(1) h(3) n by (simp add: ReceiveMsg_def Let_def)
qed

text \<open>A longer piece is written behind the end of the array it is received into.\<close>

lemma ReceiveMsg_overflow:
  assumes "DIST_BUFF < length p" "length p \<le> n" "n < 65536" "so_in so = Some (SetUint16 [0, 0] 0 (of_nat n)) # Some p # rest"
  shows "ReceiveMsg junk so = Inl OutOfBounds"
proof -
  let ?h = "SetUint16 [0, 0] 0 (of_nat n :: u16)"
  have h: "length ?h = 2" "?h \<noteq> []" using frame_length(1) frame_head by simp_all
  have "unat (GetUint16 (?h @ drop (length ?h) junk) 0) = n"
    unfolding frame_length(2) using assms(3) by (simp add: unat_of_nat_less)
  moreover have "recv 2 so = (Some ?h, so\<lparr>so_in := Some p # rest\<rparr>)" using assms(4) h(1) by simp
  moreover have "recv n (so\<lparr>so_in := Some p # rest\<rparr>) = (Some p, so\<lparr>so_in := rest\<rparr>)" using assms(2) by simp
  moreover have "recv_loop n [] p (so\<lparr>so_in := rest\<rparr>) = Inl OutOfBounds"
    using assms(1) by (subst recv_loop.simps) simp
  ultimately show ?thesis using h(2) by (simp add: ReceiveMsg_def Let_def)
qed

text \<open>What \<open>SendMsgToServer\<close> hands to the socket: the header and the length of the message modulo 256.\<close>

definition sent_part :: "u8 list \<Rightarrow> u8 list" where
  "sent_part bs = take (MSG_HEADER_LENGTH + unat (info_length bs) mod 256) bs"

lemma sys_length: "MSG_HEADER_LENGTH \<le> length bs \<Longrightarrow> unat (sys_GetMsgInfoLength bs) = unat (info_length bs) mod 256"
proof -
  have "sys_GetMsgInfoLength bs = ucast (GetUint16 bs MSG_LENGTH)"
    unfolding sys_GetMsgInfoLength_def GetUint16_def Let_def
    by (intro bit_word_eqI) (auto simp: bit_simps)
  then show ?thesis by (simp add: info_length_def unsigned_ucast_eq take_bit_eq_mod)
qed

lemma SendMsgToServer_sent:
  assumes "MSG_HEADER_LENGTH + unat (info_length (bytes K a)) mod 256 \<le> length (bytes K a)"
    and "i < length (D_server D)" "so_send (srv_sock (D_server D ! i))" "S_Kernel S"
    and "RetBuffer nd (Some a) (K_mem K, K_Buffers K) = Inr (m', B')"
  shows "SendMsgToServer nd i a (K, S, D) = Inr ((), K\<lparr>K_mem := m', K_Buffers := B'\<rparr>, S,
    D\<lparr>D_server := (D_server D)[i := (D_server D ! i)\<lparr>srv_sock := (srv_sock (D_server D ! i))
      \<lparr>so_out := so_out (srv_sock (D_server D ! i)) @ [frame (sent_part (bytes K a))]\<rparr>\<rparr>]\<rparr>)"
proof -
  let ?bs = "bytes K a" and ?s = "D_server D ! i"
  let ?len = "ucast (sys_GetMsgInfoLength ?bs) + of_nat MSG_HEADER_LENGTH :: u16"
  have h: "MSG_HEADER_LENGTH \<le> length ?bs" using assms(1) by simp
  have u: "unat ?len = MSG_HEADER_LENGTH + unat (info_length ?bs) mod 256"
    using sys_length [OF h] by (simp add: unat_word_ariths unsigned_ucast_eq take_bit_eq_mod offset_defs)
  have p: "take (unat ?len) ?bs = sent_part ?bs" unfolding u sent_part_def ..
  have l: "length (sent_part ?bs) = unat ?len" using assms(1) u by (simp add: sent_part_def)
  have "SetUint16 [0, 0] 0 ?len @ take (unat ?len) ?bs = frame (sent_part ?bs)"
    unfolding p frame_def l by simp
  moreover have "0 < length (frame (sent_part ?bs))" using frame_length(1) by (simp add: frame_def)
  ultimately show ?thesis
    using assms(2-5) h assms(1) u
    by (simp add: SendMsgToServer_def Let_def server_at_def set_server_def send_def DiscardMsg_def on_system_def)
qed

end
