(* ===== verification/UserAuto.thy ===== *)
theory UserAuto
  imports AppConst
begin

text \<open>
  \<open>UserAuto\<close> (\<open>src/POP3ClientCppUnit/UserAuto.h\<close>, \<open>UserAuto.cpp\<close>): reads the name of a domain from the
  console, passes it to the client automaton and prints the answer.  \<open>U_Console\<close> is the words
  still to be typed, \<open>U_Printed\<close> the answers printed so far.
\<close>

datatype user_proc = FSM_User_Idle_Set_All | FSM_User_Data_Input_From_Console
  | FSM_User_Pass_Data_To_Client | FSM_User_Get_Data_From_Client

definition FSM_User_Idle :: u8 where "FSM_User_Idle = 0"
definition FSM_User_Data_Input :: u8 where "FSM_User_Data_Input = 1"
definition FSM_User_To_Client_Data :: u8 where "FSM_User_To_Client_Data = 2"
definition FSM_Client_To_User_Return_Data :: u8 where "FSM_Client_To_User_Return_Data = 3"

lemmas user_states = FSM_User_Idle_def FSM_User_Data_Input_def FSM_User_To_Client_Data_def
  FSM_Client_To_User_Return_Data_def

record user = "user_proc fsm" +
  U_DNSRequestInput :: "u8 list"
  U_Console :: "u8 list list"
  U_Printed :: "u8 list list"

type_synonym ('z, 'a) uop = "(kernel \<times> 'z user_scheme, 'a) op"

definition UserAuto :: "('z, unit) uop" where
  "UserAuto = FiniteStateMachine USER_AUTOMATE_TYPE_ID USER_AUTOMATE_MBX_ID 0 4 3 True"

definition user_branches :: "(u8 \<times> u16 \<times> user_proc) list" where
  "user_branches =
     [(FSM_User_Idle, MSG_User_Idle, FSM_User_Idle_Set_All),
      (FSM_User_Data_Input, MSG_User_Data_Input, FSM_User_Data_Input_From_Console),
      (FSM_User_To_Client_Data, MSG_User_To_Client_Data_Sent, FSM_User_Pass_Data_To_Client),
      (FSM_Client_To_User_Return_Data, MSG_Client_To_User_Return_Data_Recived,
        FSM_User_Get_Data_From_Client)]"

definition user_Initialize :: "('z, unit) uop" where
  "user_Initialize =
     run (SetState FSM_User_Idle #
          map (\<lambda>(st, code, p). InitEventProc st code (Some (Proc p))) user_branches)"

definition user_Start :: "bool \<Rightarrow> ('z, unit) uop" where
  "user_Start nd = send_to nd MSG_User_Idle USER_AUTOMATE_TYPE_ID USER_AUTOMATE_MBX_ID"

definition user_set_all :: "bool \<Rightarrow> ('z, unit) uop" where
  "user_set_all nd =
     run [send_to nd MSG_Client_Idle CL_AUTOMATE_TYPE_ID CL_AUTOMATE_MBX_ID,
          send_to nd MSG_Channel_Idle CH_AUTOMATE_TYPE_ID CH_AUTOMATE_MBX_ID,
          send_to nd MSG_User_Data_Input USER_AUTOMATE_TYPE_ID USER_AUTOMATE_MBX_ID,
          SetState FSM_User_Data_Input]"

text \<open>\<open>scanf("%s")\<close> waits for a word and writes all of it, with an end mark, into the array.\<close>

definition scan_word :: "('z, unit) uop" where
  "scan_word = (\<lambda>(K, A). case U_Console A of [] \<Rightarrow> Inl Blocked
     | w # ws \<Rightarrow> bindR (put_str w (U_DNSRequestInput A)) (\<lambda>s.
         Inr ((), K, A\<lparr>U_DNSRequestInput := s, U_Console := ws\<rparr>)))"

definition user_data_input :: "bool \<Rightarrow> ('z, unit) uop" where
  "user_data_input nd =
     run [scan_word,
          send_to nd MSG_User_To_Client_Data_Sent USER_AUTOMATE_TYPE_ID USER_AUTOMATE_MBX_ID,
          SetState FSM_User_To_Client_Data]"

definition user_pass_data :: "bool \<Rightarrow> ('z, unit) uop" where
  "user_pass_data nd =
     run [PrepareNewMessage nd 0 MSG_User_To_Client_Data_Sent LOCAL_PARAM_CODING,
          SetMsgToAutomate CL_AUTOMATE_TYPE_ID,
          SetMsgObjectNumberTo 0,
          (\<lambda>(K, A). bindR (c_str (U_DNSRequestInput A)) (\<lambda>s.
             bnd (mh_AddParam nd PARAM_Name (of_nat (length s)) (U_DNSRequestInput A)) (\<lambda>_. ret ()) (K, A))),
          SendMessage CL_AUTOMATE_MBX_ID,
          SetState FSM_Client_To_User_Return_Data]"

definition user_get_data :: "bool \<Rightarrow> ('z, unit) uop" where
  "user_get_data nd =
     run [bnd (param_size nd PARAM_DATA) (\<lambda>p (K, A).
            bnd (param_copy p (U_DNSRequestInput A)) (\<lambda>s (K, A).
              Inr ((), K, A\<lparr>U_DNSRequestInput := s\<rparr>)) (K, A)),
          (\<lambda>(K, A). bindR (c_str (U_DNSRequestInput A)) (\<lambda>s.
             Inr ((), K, A\<lparr>U_Printed := U_Printed A @ [s]\<rparr>))),
          user_set_all nd]"

fun user_exec :: "bool \<Rightarrow> user_proc \<Rightarrow> ('z, unit) uop" where
  "user_exec nd FSM_User_Idle_Set_All = user_set_all nd"
| "user_exec nd FSM_User_Data_Input_From_Console = user_data_input nd"
| "user_exec nd FSM_User_Pass_Data_To_Client = user_pass_data nd"
| "user_exec nd FSM_User_Get_Data_From_Client = user_get_data nd"

end
