(* ===== verification/UserSpec.thy ===== *)
theory UserSpec
  imports AutomatonContract UserAuto
begin

text \<open>
  The abstract user automaton, and the proof that each procedure of \<open>UserAuto\<close> does its abstract step,
  \<open>uproc_refines\<close>.  The state is the state of the automaton, the string in its array, the words that
  are still to be typed and the answers that have been printed.
\<close>

subsection \<open>Steps\<close>

type_synonym uview = "u8 \<times> u8 list result \<times> u8 list list \<times> u8 list list"

text \<open>The messages that set all automata going.\<close>

definition user_kick :: "outgoing list" where
  "user_kick =
     [(CL_AUTOMATE_MBX_ID, MSG_Client_Idle, CL_AUTOMATE_TYPE_ID, []),
      (CH_AUTOMATE_MBX_ID, MSG_Channel_Idle, CH_AUTOMATE_TYPE_ID, []),
      (USER_AUTOMATE_MBX_ID, MSG_User_Data_Input, USER_AUTOMATE_TYPE_ID, [])]"

fun uproc_step :: "user_proc \<Rightarrow> uview \<Rightarrow> param list \<Rightarrow> uview \<times> outgoing list" where
  "uproc_step FSM_User_Idle_Set_All (st, nm, ws, out) ps = ((FSM_User_Data_Input, nm, ws, out), user_kick)"
| "uproc_step FSM_User_Data_Input_From_Console (st, nm, ws, out) ps =
     ((FSM_User_To_Client_Data, Inr (hd ws), tl ws, out),
      [(USER_AUTOMATE_MBX_ID, MSG_User_To_Client_Data_Sent, USER_AUTOMATE_TYPE_ID, [])])"
| "uproc_step FSM_User_Pass_Data_To_Client (st, nm, ws, out) ps =
     ((FSM_Client_To_User_Return_Data, nm, ws, out),
      [(CL_AUTOMATE_MBX_ID, MSG_User_To_Client_Data_Sent, CL_AUTOMATE_TYPE_ID, [(PARAM_Name, projr nm)])])"
| "uproc_step FSM_User_Get_Data_From_Client (st, nm, ws, out) ps =
     (let s = the (map_of ps PARAM_DATA) in ((FSM_User_Data_Input, Inr s, ws, out @ [s]), user_kick))"

definition user_step :: "uview \<Rightarrow> u16 \<Rightarrow> param list \<Rightarrow> uview \<times> outgoing list" where
  "user_step v code ps = (case proc_for user_branches (fst v) code of
     DoNothing \<Rightarrow> (v, []) | Proc p \<Rightarrow> uproc_step p v ps)"

text \<open>A word that is read is a string that fits the array; without a word the procedure waits.\<close>

definition word_ready :: "u8 list list \<Rightarrow> bool" where
  "word_ready ws \<longleftrightarrow> (case ws of [] \<Rightarrow> False | w # _ \<Rightarrow> 0 \<notin> set w \<and> length w < 256)"

fun uproc_needs :: "nat \<Rightarrow> user_proc \<Rightarrow> uview \<Rightarrow> param list \<Rightarrow> bool" where
  "uproc_needs k FSM_User_Data_Input_From_Console (st, nm, ws, out) ps = word_ready ws"
| "uproc_needs k FSM_User_Pass_Data_To_Client (st, nm, ws, out) ps = string_upto k nm"
| "uproc_needs k FSM_User_Get_Data_From_Client v ps = string_param ps PARAM_DATA"
| "uproc_needs k _ v ps = True"

definition user_needs :: "nat \<Rightarrow> uview \<Rightarrow> u16 \<Rightarrow> param list \<Rightarrow> bool" where
  "user_needs k v code ps = (case proc_for user_branches (fst v) code of
     DoNothing \<Rightarrow> True | Proc p \<Rightarrow> uproc_needs k p v ps)"

subsection \<open>The automaton\<close>

definition user_ok :: "'z user_scheme \<Rightarrow> bool" where
  "user_ok A \<longleftrightarrow> (\<exists>ss. F_States A = Some ss \<and> states_ok 3 4 user_branches ss) \<and> length (U_DNSRequestInput A) = 256"

definition user_view :: "'z user_scheme \<Rightarrow> uview" where
  "user_view A = (A_State A, c_str (U_DNSRequestInput A), U_Console A, U_Printed A)"

lemma user_data:
  fixes A A' :: "'z user_scheme"
  assumes "handler.more A' = handler.more A"
  shows "user_ok A' = user_ok A \<and> user_view A' = user_view A"
  using assms by (cases A; cases A'; simp add: user_ok_def user_view_def)

lemma user_ok_upd [simp]:
  "user_ok (A\<lparr>A_State := st\<rparr>) = user_ok A" "user_ok (A\<lparr>U_Console := ws\<rparr>) = user_ok A"
  "user_ok (A\<lparr>U_Printed := out\<rparr>) = user_ok A" "user_ok (A\<lparr>H_If := x\<rparr>) = user_ok A"
  "length s = 256 \<Longrightarrow> user_ok A \<Longrightarrow> user_ok (A\<lparr>U_DNSRequestInput := s\<rparr>)"
  by (simp_all add: user_ok_def)

abbreviation user_done where
  "user_done \<equiv> step_done user_ok user_view (\<lambda>_. None)"

text \<open>Every procedure ends with \<open>SetState\<close>.\<close>

lemma user_finish:
  fixes A B A' :: "'z user_scheme"
  assumes "progress k n a own A mss K outs L K' A'" "handler.more A' = handler.more B" "user_ok B"
    and "v = (st, c_str (U_DNSRequestInput B), U_Console B, U_Printed B)"
  shows "user_done k a own A mss L K (v, outs) K' (A'\<lparr>A_State := st\<rparr>)"
proof (rule step_done_same)
  note d = user_data [OF assms(2)]
  show "progress k n a own A mss K outs L K' (A'\<lparr>A_State := st\<rparr>)"
    by (rule progress_cong [OF assms(1)]) simp_all
  show "user_ok (A'\<lparr>A_State := st\<rparr>)" "user_view (A'\<lparr>A_State := st\<rparr>) = v"
    using d assms(3,4) by (auto simp: user_view_def)
qed simp

lemma more_field_user: "more_field U_DNSRequestInput (handler.more A) = U_DNSRequestInput A"
  by (cases A) simp

subsection \<open>The procedures\<close>

lemma user_set_all_ok:
  fixes A B :: "'z user_scheme"
  assumes P: "progress k 3 a own A mss K [] L K1 B" and ok: "user_ok B"
  shows "achieves (user_set_all nd) K1 B (user_done k a own A mss L K
    ((FSM_User_Data_Input, c_str (U_DNSRequestInput B), U_Console B, U_Printed B), user_kick))"
proof -
  let ?v = "(FSM_User_Data_Input, c_str (U_DNSRequestInput B), U_Console B, U_Printed B)"
  have fin: "achieves (run [SetState FSM_User_Data_Input]) K' A' (user_done k a own A mss L K (?v, user_kick))"
    if "sent B A'" "progress k n a own A mss K user_kick L K' A'" for n K' A'
    using user_finish [OF that(2) sent_sel(5) [OF that(1)] ok refl] by (simp add: achieves_run_Cons)
  from P have 1: "progress k (Suc (Suc (Suc 0))) a own A mss K [] L K1 B" by (simp add: numeral_3_eq_3)
  show ?thesis
    unfolding user_set_all_def
    by (rule progress_send_then [OF 1 mbx_ids(2)], rule progress_send_then [OF _ mbx_ids(1)], assumption,
      rule progress_send_then [OF _ order_refl], assumption)
      (rule fin, blast intro: sent_trans, simp add: user_kick_def)
qed

lemma user_data_input_ok:
  fixes A :: "'z user_scheme"
  assumes P: "progress k 3 a own A mss K [] L K A" and ok: "user_ok A"
    and n: "uproc_needs k FSM_User_Data_Input_From_Console (user_view A) ps"
  shows "achieves (user_data_input nd) K A (user_done k a own A mss L K
    (uproc_step FSM_User_Data_Input_From_Console (user_view A) ps))"
proof -
  obtain w ws where w: "U_Console A = w # ws" "0 \<notin> set w" "length w < 256"
    using n by (auto simp: user_view_def word_ready_def split: list.splits)
  have l: "length (U_DNSRequestInput A) = 256" using ok by (simp add: user_ok_def)
  let ?s = "w @ 0 # drop (length w + 1) (U_DNSRequestInput A)"
  let ?A = "A\<lparr>U_DNSRequestInput := ?s, U_Console := ws\<rparr>"
  have s: "scan_word (K, A) = Inr ((), K, ?A)" using w l by (simp add: scan_word_def put_str_def)
  have ok': "user_ok ?A" using ok w(3) l by simp
  have 1: "progress k (Suc 2) a own A mss K [] L K ?A"
    unfolding progress3 [symmetric] by (rule progress_cong [OF P]) simp_all
  have v: "fst (uproc_step FSM_User_Data_Input_From_Console (user_view A) ps) =
      (FSM_User_To_Client_Data, c_str (U_DNSRequestInput ?A), U_Console ?A, U_Printed ?A)"
    using w c_str_copied [OF w(2)] by (simp add: user_view_def)
  have "achieves (run [send_to nd MSG_User_To_Client_Data_Sent USER_AUTOMATE_TYPE_ID USER_AUTOMATE_MBX_ID,
      SetState FSM_User_To_Client_Data]) K ?A (user_done k a own A mss L K
      (uproc_step FSM_User_Data_Input_From_Console (user_view A) ps))"
  proof (rule progress_send_then [OF 1 order_refl])
    fix K' and A' :: "'z user_scheme"
    assume r: "sent ?A A'" "progress k 2 a own A mss K
      ([] @ [(USER_AUTOMATE_MBX_ID, MSG_User_To_Client_Data_Sent, USER_AUTOMATE_TYPE_ID, [])]) L K' A'"
    from user_finish [OF r(2) sent_sel(5) [OF r(1)] ok' v]
    show "achieves (run [SetState FSM_User_To_Client_Data]) K' A' (user_done k a own A mss L K
        (uproc_step FSM_User_Data_Input_From_Console (user_view A) ps))"
      by (simp add: achieves_run_Cons user_view_def)
  qed
  then show ?thesis
    unfolding user_data_input_def achieves_run_Cons [of scan_word] by (simp add: achieves_def s)
qed

lemma user_pass_data_ok:
  fixes A :: "'z user_scheme"
  assumes P: "progress k 3 a own A mss K [] L K A" and ok: "user_ok A"
    and n: "uproc_needs k FSM_User_Pass_Data_To_Client (user_view A) ps"
  shows "achieves (user_pass_data nd) K A (user_done k a own A mss L K
    (uproc_step FSM_User_Pass_Data_To_Client (user_view A) ps))"
proof -
  obtain v where v: "c_str (U_DNSRequestInput A) = Inr v" "length v \<le> k"
    using n string_uptoD by (auto simp: user_view_def)
  have fs: "user_pass_data nd = run ((prepared nd MSG_User_To_Client_Data_Sent CL_AUTOMATE_TYPE_ID @
      [add_string nd PARAM_Name (more_field U_DNSRequestInput), SendMessage CL_AUTOMATE_MBX_ID]) @
      [SetState FSM_Client_To_User_Return_Data])"
    by (simp add: user_pass_data_def prepared_def add_string_def more_field_user)
  have p: "PARAM_Name \<noteq> 0" "unat PARAM_Name < 65536" by (simp_all add: PARAM_Name_def)
  note S = progress_send_string [where g = "more_field U_DNSRequestInput", OF P [unfolded progress3] mbx_ids(2) p _ v(2),
      unfolded more_field_user, OF v(1)]
  show ?thesis
    unfolding fs achieves_run_append [where gs = "[SetState FSM_Client_To_User_Return_Data]"] achieves_run_Cons
      achieves_run_Nil SetState_achieves
    by (rule achieves_mono [OF S], elim conjE)
      (use v user_finish [OF _ sent_sel(5) ok refl] in \<open>simp add: user_view_def\<close>)
qed

lemma user_get_data_ok:
  fixes A :: "'z user_scheme"
  assumes P: "progress k 3 a own A mss K [] L K A" and ok: "user_ok A"
    and ps: "has_params pc16 (bytes K a) ps" "string_param ps PARAM_DATA"
  shows "achieves (user_get_data nd) K A (user_done k a own A mss L K
    (uproc_step FSM_User_Get_Data_From_Client (user_view A) ps))"
proof -
  from string_paramD [OF ps(2)] obtain v where v: "map_of ps PARAM_DATA = Some v" "0 \<notin> set v" "length v < 256" by blast
  have l: "length (U_DNSRequestInput A) = 256" using ok by (simp add: user_ok_def)
  let ?s = "v @ 0 # drop (length v + 1) (U_DNSRequestInput A)"
  from progress_read [OF P ps(1) v(1,3) l, of nd] obtain off i where
    p: "param_size nd PARAM_DATA (K, A) = Inr ((a, i, length v), K, A\<lparr>H_If := (H_If A)\<lparr>CurrentOffset := off\<rparr>\<rparr>)"
      "\<And>A' :: 'z user_scheme. param_copy (a, i, length v) (U_DNSRequestInput A) (K, A') = Inr (?s, K, A')"
    by blast
  let ?A = "A\<lparr>H_If := (H_If A)\<lparr>CurrentOffset := off\<rparr>, U_DNSRequestInput := ?s, U_Printed := U_Printed A @ [v]\<rparr>"
  have 1: "progress k 3 a own A mss K [] L K ?A" by (rule progress_cong [OF P]) simp_all
  have ok': "user_ok ?A" using ok v(3) l by simp
  have c: "c_str ?s = Inr v" by (rule c_str_copied [OF v(2)])
  have "achieves (user_set_all nd) K ?A (user_done k a own A mss L K
      (uproc_step FSM_User_Get_Data_From_Client (user_view A) ps))"
    using user_set_all_ok [OF 1 ok', of nd] v c by (simp add: user_view_def)
  then show ?thesis
    unfolding user_get_data_def achieves_run_Cons achieves_run_Nil by (simp add: achieves_def p c [simplified])
qed

text \<open>All procedures.\<close>

lemma uproc_refines:
  fixes A :: "'z user_scheme"
  assumes P: "progress k 3 a own A mss K [] L K A" and ok: "user_ok A"
    and ps: "carries (bytes K a) ps" and n: "uproc_needs k p (user_view A) ps"
  shows "achieves (user_exec nd p) K A (user_done k a own A mss L K (uproc_step p (user_view A) ps))"
proof (cases p)
  case FSM_User_Idle_Set_All
  then show ?thesis using user_set_all_ok [OF P ok] by (simp add: user_view_def)
next
  case FSM_User_Data_Input_From_Console
  with n user_data_input_ok [OF P ok, of ps nd] show ?thesis by simp
next
  case FSM_User_Pass_Data_To_Client
  with n user_pass_data_ok [OF P ok, of ps nd] show ?thesis by simp
next
  case FSM_User_Get_Data_From_Client
  with n string_param_nonempty ps have "has_params pc16 (bytes K a) ps" "string_param ps PARAM_DATA"
    by (auto simp: carries_def)
  with user_get_data_ok [OF P ok] FSM_User_Get_Data_From_Client show ?thesis by simp
qed

end
