(* ===== verification/UserProps.thy ===== *)
theory UserProps
  imports UserSpec DemoAutomata
begin

text \<open>
  The properties of the user automaton: it is ready after its constructor and \<open>Initialize\<close>, and
  \<open>Process\<close> makes exactly the abstract steps of \<open>user_step\<close>.
\<close>

lemma user_table_fits: "table_fits 3 4 user_branches"
proof -
  have "length (rows_of user_branches st) \<le> 3" for st
    unfolding user_branches_def user_states rows_of_simps unat_small by auto
  moreover have "\<forall>(s, e, p) \<in> set user_branches. unat s < 4"
    by (simp add: user_branches_def user_states)
  moreover have "distinct (map (\<lambda>(s, e, p). (s, e)) user_branches)"
    by (simp add: user_branches_def user_states msg_codes)
  ultimately show ?thesis by (simp add: table_fits_def)
qed

lemma user_built: "H_codec A = pc16 \<Longrightarrow> \<exists>B. UserAuto (K, A) = Inr ((), K\<lparr>K_Api := False, K_LogingObject := None\<rparr>, B) \<and>
    built USER_AUTOMATE_TYPE_ID USER_AUTOMATE_MBX_ID 4 3 A B"
  unfolding UserAuto_def by (rule FiniteStateMachine_built) simp_all

lemma user_initialized:
  fixes A B :: "'z user_scheme"
  assumes B: "built au mbx 4 3 A B" and len: "length (U_DNSRequestInput A) = 256"
  shows "\<exists>A'. user_Initialize (K, B) = Inr ((), K, A') \<and> idle A' \<and> user_ok A' \<and>
    user_view A' = (FSM_User_Idle, c_str (U_DNSRequestInput A), U_Console A, U_Printed A)"
proof -
  have more: "U_DNSRequestInput B = U_DNSRequestInput A" "U_Console B = U_Console A" "U_Printed B = U_Printed A"
    using B by (cases A; cases B; simp add: built_def)+
  from B have "F_States B = Some (replicate 4 (fresh_state 3))" "F_MaxNumOfProcPerState B = 3"
    by (simp_all add: built_def)
  from init_rows_fresh [OF this user_table_fits, of K] obtain ss where
    i: "init_rows user_branches (K, B) = Inr ((), K, B\<lparr>F_States := Some ss\<rparr>)" "states_ok 3 4 user_branches ss" by blast
  have s: "SetState FSM_User_Idle (K, B) = Inr ((), K, B)"
    using B by (simp add: SetState_def upd_def built_def FSM_User_Idle_def)
  have "user_Initialize (K, B) = Inr ((), K, B\<lparr>F_States := Some ss\<rparr>)"
    using s i(1) by (simp add: user_Initialize_def init_rows_def [symmetric])
  then show ?thesis using i(2) more len B
    by (intro exI [of _ "B\<lparr>F_States := Some ss\<rparr>"])
      (simp add: user_ok_def user_view_def FSM_User_Idle_def built_def idle_def)
qed

subsection \<open>The refinement\<close>

interpretation user: automaton "user_exec nd" user_branches user_ok user_view fst "\<lambda>_. None"
  uproc_needs uproc_step for nd
proof
  fix A A' :: "'a user_scheme"
  show "user_ok A \<Longrightarrow> \<exists>ss k n. F_States A = Some ss \<and> states_ok k n user_branches ss \<and>
      (\<forall>st \<in> fst ` set user_branches. unat st < n)"
    using user_table_fits by (fastforce simp: user_ok_def table_fits_def)
  show "fst (user_view A) = A_State A" by (simp add: user_view_def)
  show "handler.more A' = handler.more A \<Longrightarrow>
      user_ok A' = user_ok A \<and> user_view A' = user_view A \<and> None = None" using user_data by simp
qed (rule uproc_refines)

lemma user_table_step:
  "user.table_step = user_step" "user.table_needs = user_needs"
  by (intro ext; simp add: user.table_step_def user.table_needs_def user_step_def user_needs_def)+

text \<open>C23: \<open>Process\<close> refines the abstract user automaton.  In every state of the dialogue and for every
  message the call succeeds: the word that is read, the answer that is printed and the new state are
  those of \<open>user_step\<close>, exactly its messages are sent, after an answer those that start the next
  round of all three automata, and no buffer is lost.  This holds as long as a word has been typed
  when one is read, the answer fits the array, and three buffers of the smallest class are free.\<close>

theorem user_refines:
  assumes "ready_for k 3 a own mss L K A" "user_ok A"
    and "loggable nd (bytes K a)" "GetUint16 (bytes K a) MSG_CODE = code" "carries (bytes K a) ps"
    and "A_State A \<in> fst ` set user_branches" "user_needs k (user_view A) code ps"
  shows "\<exists>K' A'. Process nd (user_exec nd) (Some a) (K, A) = Inr ((), K', A') \<and> user_ok A' \<and>
    user_view A' = fst (user_step (user_view A) code ps) \<and>
    handled own A mss L K (snd (user_step (user_view A) code ps)) None None K' A'"
  using user.Process_step [OF assms(1,2) _ assms(3-6), of nd] assms(7) unfolding user_table_step achieves_def
  by simp

definition raw_user :: user where
  "raw_user = \<lparr>H_CurrentMessage = None, H_NewMessage = None, H_codec = pc16, H_If = MessageInterface,
     A_mbxId = 0, A_automateId = 0, A_TimerResolution = Timer1s, A_LogFlag = 0, A_ConnectionId = 0, A_GroupId = 0,
     A_CallId = 0, A_LeftMbx = 0, A_LeftAutomate = 0, A_LeftGroup = 0, A_LeftObjectId = 0, A_RightMbx = 0,
     A_RightAutomate = 0, A_RightGroup = 0, A_RightObjectId = 0, A_State = 0,
     F_ReturnMemory = False, F_TimerStore = [], F_NumOfStates = 0, F_NumOfTimers = 0,
     F_MaxNumOfProcPerState = 0, F_States = None,
     U_DNSRequestInput = 97 # replicate 255 0, U_Console = [[102, 116, 110], [97]], U_Printed = []\<rparr>"

definition demo_user :: user where
  "demo_user = (case run [UserAuto, user_Initialize] (run_kernel [], raw_user) of
     Inr (_, _, A) \<Rightarrow> A | Inl _ \<Rightarrow> raw_user)"

lemma demo_user_ok: "user_ok demo_user" "H_NewMessage demo_user = None" "H_codec demo_user = pc16"
  "U_Console demo_user = [[102, 116, 110], [97]]" "U_Printed demo_user = []"
proof -
  have r: "H_codec raw_user = pc16" "length (U_DNSRequestInput raw_user) = 256" by (simp_all add: raw_user_def)
  from user_built [OF r(1), of "run_kernel []"] obtain B where
    B: "UserAuto (run_kernel [], raw_user) = Inr ((), run_kernel []\<lparr>K_Api := False, K_LogingObject := None\<rparr>, B)"
      "built USER_AUTOMATE_TYPE_ID USER_AUTOMATE_MBX_ID 4 3 raw_user B" by blast
  from user_initialized [OF B(2) r(2), of "run_kernel []\<lparr>K_Api := False, K_LogingObject := None\<rparr>"] B(1)
  have "idle demo_user \<and> user_ok demo_user \<and> user_view demo_user =
      (FSM_User_Idle, c_str (U_DNSRequestInput raw_user), U_Console raw_user, U_Printed raw_user)"
    by (auto simp: demo_user_def)
  then show "user_ok demo_user" "H_NewMessage demo_user = None" "H_codec demo_user = pc16"
    "U_Console demo_user = [[102, 116, 110], [97]]" "U_Printed demo_user = []"
    by (simp_all add: idle_def user_view_def raw_user_def)
qed

theorem user_refines_witness:
  "\<exists>K' A'. Process False (user_exec False) (Some 3)
      (run_kernel (run_message MSG_Client_To_User_Return_Data_Recived [(PARAM_DATA, [49, 46, 50])]),
       demo_user\<lparr>A_State := FSM_Client_To_User_Return_Data\<rparr>) = Inr ((), K', A') \<and>
    U_Printed A' = [[49, 46, 50]] \<and> A_State A' = FSM_User_Data_Input"
proof -
  let ?A = "demo_user\<lparr>A_State := FSM_Client_To_User_Return_Data\<rparr>" and ?ps = "[(PARAM_DATA, [49, 46, 50])]"
  let ?c = "MSG_Client_To_User_Return_Data_Recived"
  let ?bs = "run_message ?c ?ps"
  have ps: "\<forall>p \<in> set ?ps. param_ok pc16 p" "length (enc pc16 ?ps) \<le> 105"
    by (simp_all add: PARAM_DATA_def in_field_def)
  note M = run_message_ok [OF ps, where code = ?c]
  have A: "user_ok ?A" "H_NewMessage ?A = None" "H_codec ?A = pc16" using demo_user_ok by simp_all
  have b: "bytes (run_kernel ?bs) 3 = ?bs" by (rule run_kernel_ready)
  have 1: "loggable False (bytes (run_kernel ?bs) 3)" "carries (bytes (run_kernel ?bs) 3) ?ps"
    "GetUint16 (bytes (run_kernel ?bs) 3) MSG_CODE = ?c"
    unfolding b carries_def using M by simp_all
  have st: "A_State ?A \<in> fst ` set user_branches" by (simp add: user_branches_def)
  have pf: "proc_for user_branches FSM_Client_To_User_Return_Data ?c = Proc FSM_User_Get_Data_From_Client"
    by (simp add: proc_for_def user_branches_def user_states msg_codes)
  have n: "user_needs 90 (user_view ?A) ?c ?ps"
    using pf by (simp add: user_needs_def user_view_def string_param_def)
  have s: "user_step (user_view ?A) ?c ?ps = uproc_step FSM_User_Get_Data_From_Client (user_view ?A) ?ps"
    using pf by (simp add: user_step_def user_view_def)
  from user_refines [OF demo_ready [OF M(1) A(2,3)] A(1) 1(1,3,2) st n] obtain K' A' where
    r: "Process False (user_exec False) (Some 3) (run_kernel ?bs, ?A) = Inr ((), K', A')"
      "user_view A' = fst (uproc_step FSM_User_Get_Data_From_Client (user_view ?A) ?ps)"
    unfolding s by blast
  have "U_Printed A' = [[49, 46, 50]]" "A_State A' = FSM_User_Data_Input"
    using r(2) demo_user_ok(5) by (simp_all add: user_view_def Let_def)
  with r(1) show ?thesis by blast
qed

end
