(* ===== verification/ClAuto.thy ===== *)
theory ClAuto
  imports AppConst
begin

text \<open>
  \<open>ClAuto\<close> (\<open>src/POP3ClientCppUnit/ClAuto.h\<close>, \<open>ClAuto.cpp\<close>): gets the name from the user automaton,
  looks it up in the file \<open>table.txt\<close>, asks the channel automaton when it is not there, and
  passes the answer to the user automaton.  \<open>C_Table\<close> is the content of the file, \<open>None\<close> when it
  cannot be opened.
\<close>

datatype client_proc = FSM_Client_Idle_State | FSM_Client_Get_Data_From_User
  | FSM_Client_Check_In_Local_Table | FSM_Client_Pass_DNS_Request_To_Channel
  | FSM_Client_Get_DNS_Request_From_Channel | FSM_Client_Pass_DNS_Request_To_Client
  | FSM_Client_Timer_Expired

record client = "client_proc fsm" +
  C_DNSRequestInput :: "u8 list"
  C_DNSRequestOutput :: "u8 list"
  C_Table :: "u8 list option"

type_synonym ('z, 'a) clop = "(kernel \<times> 'z client_scheme, 'a) op"

definition ClAuto :: "('z, unit) clop" where
  "ClAuto = FiniteStateMachine CL_AUTOMATE_TYPE_ID CL_AUTOMATE_MBX_ID 0 10 2 True"

definition client_branches :: "(u8 \<times> u16 \<times> client_proc) list" where
  "client_branches =
     [(FSM_Client_Idle, MSG_Client_Idle, FSM_Client_Idle_State),
      (FSM_Client_Input_From_User, MSG_User_To_Client_Data_Sent, FSM_Client_Get_Data_From_User),
      (FSM_Client_Check_Local_Table, MSG_Client_Check_Local_Table, FSM_Client_Check_In_Local_Table),
      (FSM_Client_DNS_Request, MSG_Client_To_Channel_DNS_Request_Sent,
        FSM_Client_Pass_DNS_Request_To_Channel),
      (FSM_Client_DNS_Recived, MSG_Channel_To_Client_DNS_Request_Recived,
        FSM_Client_Get_DNS_Request_From_Channel),
      (FSM_Client_DNS_Recived, MSG_Client_To_User_Return_Data_Recived,
        FSM_Client_Pass_DNS_Request_To_Client),
      (FSM_Client_DNS_Request, MSG_Timer_Expired, FSM_Client_Timer_Expired)]"

definition client_Initialize :: "('z, unit) clop" where
  "client_Initialize =
     run (SetState FSM_Client_Idle #
          map (\<lambda>(st, code, p). InitEventProc st code (Some (Proc p))) client_branches @
          [InitTimerBlock TIMER1_ID TIMER1_COUNT MSG_Timer_Expired])"

definition client_get_data :: "bool \<Rightarrow> ('z, unit) clop" where
  "client_get_data nd =
     run [bnd (param_size nd PARAM_Name) (\<lambda>p (K, A).
            bnd (param_copy p (C_DNSRequestInput A)) (\<lambda>s (K, A).
              Inr ((), K, A\<lparr>C_DNSRequestInput := s\<rparr>)) (K, A)),
          send_to nd MSG_Client_Check_Local_Table CL_AUTOMATE_TYPE_ID CL_AUTOMATE_MBX_ID,
          SetState FSM_Client_Check_Local_Table]"

subsection \<open>The local table\<close>

text \<open>An input stream, and \<open>getline\<close> on it: after an error the line keeps its old value.\<close>

record stream =
  st_rest :: "u8 list"
  st_eof :: bool
  st_fail :: bool

definition st_good :: "stream \<Rightarrow> bool" where
  "st_good st \<longleftrightarrow> \<not> st_eof st \<and> \<not> st_fail st"

definition getline :: "stream \<Rightarrow> u8 list \<Rightarrow> stream \<times> u8 list" where
  "getline st line =
     (if \<not> st_good st then (st\<lparr>st_fail := True\<rparr>, line)
      else let l = takeWhile (\<lambda>b. b \<noteq> 10) (st_rest st) in
        case dropWhile (\<lambda>b. b \<noteq> 10) (st_rest st) of
          [] \<Rightarrow> (\<lparr>st_rest = [], st_eof = True, st_fail = (l = [])\<rparr>, l)
        | _ # r \<Rightarrow> (\<lparr>st_rest = r, st_eof = False, st_fail = False\<rparr>, l))"

text \<open>\<open>line.find(search)\<close>: the first position at which \<open>search\<close> starts.\<close>

fun find_str :: "u8 list \<Rightarrow> u8 list \<Rightarrow> nat option" where
  "find_str search [] = (if search = [] then Some 0 else None)"
| "find_str search (b # bs) =
     (if take (length search) (b # bs) = search then Some 0
      else map_option Suc (find_str search bs))"

text \<open>The loop over the lines: the answer is the line behind the first one that is found.\<close>

function table_loop :: "u8 list \<Rightarrow> stream \<Rightarrow> u8 list option" where
  "table_loop search st =
     (if st_good st
      then let (st, line) = getline st [] in
        case find_str search line of
          Some pos \<Rightarrow> Some (snd (getline st line))
        | None \<Rightarrow> table_loop search st
      else None)"
  by pat_completeness auto
termination
proof (relation "measure (\<lambda>(search, st). length (st_rest st) + (if st_good st then 1 else 0))")
  fix search st st' line x
  assume a: "st_good st" "x = getline st []" "(st', line) = x"
  have "length (dropWhile (\<lambda>b. b \<noteq> 10) (st_rest st)) \<le> length (st_rest st)"
    by (rule length_dropWhile_le)
  with a show "((search, st'), search, st) \<in>
      measure (\<lambda>(search, st). length (st_rest st) + (if st_good st then 1 else 0))"
    by (auto simp: getline_def st_good_def Let_def split: list.splits)
qed simp

declare table_loop.simps [simp del]

text \<open>
  \<open>search.copy(DNSRequestInput, n)\<close> copies from the empty string \<open>search\<close> to the array: nothing is
  copied and \<open>search\<close> stays empty.
\<close>

definition search_table :: "u8 list \<Rightarrow> u8 list option \<Rightarrow> (u8 list \<times> u8 list option) result" where
  "search_table input table =
     bindR (c_str input) (\<lambda>s.
     let search = []; input = take (length s) search @ drop (length (take (length s) search)) input
     in Inr (input, case table of None \<Rightarrow> None
        | Some content \<Rightarrow> table_loop search \<lparr>st_rest = content, st_eof = False, st_fail = False\<rparr>))"

definition client_check_table :: "bool \<Rightarrow> ('z, unit) clop" where
  "client_check_table nd = (\<lambda>(K, A).
     bindR (search_table (C_DNSRequestInput A) (C_Table A)) (\<lambda>(input, found).
     let A = A\<lparr>C_DNSRequestInput := input\<rparr> in
     case found of
       Some line \<Rightarrow>
         run [(\<lambda>(K, A). bindR (put_str (takeWhile (\<lambda>b. b \<noteq> 0) line) (C_DNSRequestOutput A)) (\<lambda>s.
                Inr ((), K, A\<lparr>C_DNSRequestOutput := s\<rparr>))),
              send_to nd MSG_Client_To_User_Return_Data_Recived CL_AUTOMATE_TYPE_ID CL_AUTOMATE_MBX_ID,
              SetState FSM_Client_DNS_Recived] (K, A)
     | None \<Rightarrow>
         run [send_to nd MSG_Client_To_Channel_DNS_Request_Sent CL_AUTOMATE_TYPE_ID CL_AUTOMATE_MBX_ID,
              SetState FSM_Client_DNS_Request] (K, A)))"

subsection \<open>The other handlers\<close>

definition client_pass_to_channel :: "bool \<Rightarrow> ('z, unit) clop" where
  "client_pass_to_channel nd =
     run [PrepareNewMessage nd 0 MSG_Client_To_Channel_DNS_Request_Sent LOCAL_PARAM_CODING,
          SetMsgToAutomate CH_AUTOMATE_TYPE_ID,
          SetMsgObjectNumberTo 0,
          (\<lambda>(K, A). bindR (c_str (C_DNSRequestInput A)) (\<lambda>s.
             bnd (mh_AddParam nd PARAM_DNS_INPUT (of_nat (length s)) (C_DNSRequestInput A)) (\<lambda>_. ret ()) (K, A))),
          SendMessage CH_AUTOMATE_MBX_ID,
          StartTimer nd TIMER1_ID,
          SetState FSM_Client_DNS_Recived]"

definition client_get_from_channel :: "bool \<Rightarrow> ('z, unit) clop" where
  "client_get_from_channel nd =
     run [bnd (param_size nd PARAM_DATA) (\<lambda>p.
          bnd (StopTimer nd TIMER1_ID) (\<lambda>_ (K, A).
            bnd (param_copy p (C_DNSRequestOutput A)) (\<lambda>s (K, A).
              Inr ((), K, A\<lparr>C_DNSRequestOutput := s\<rparr>)) (K, A))),
          send_to nd MSG_Client_To_User_Return_Data_Recived CL_AUTOMATE_TYPE_ID CL_AUTOMATE_MBX_ID]"

definition client_pass_to_user :: "bool \<Rightarrow> ('z, unit) clop" where
  "client_pass_to_user nd =
     run [PrepareNewMessage nd 0 MSG_Client_To_User_Return_Data_Recived LOCAL_PARAM_CODING,
          SetMsgToAutomate USER_AUTOMATE_TYPE_ID,
          SetMsgObjectNumberTo 0,
          (\<lambda>(K, A). bindR (c_str (C_DNSRequestOutput A)) (\<lambda>s.
             bnd (mh_AddParam nd PARAM_DATA (of_nat (length s)) (C_DNSRequestOutput A)) (\<lambda>_. ret ()) (K, A))),
          SendMessage USER_AUTOMATE_MBX_ID,
          SetState FSM_Client_Idle]"

definition client_timer_expired :: "bool \<Rightarrow> ('z, unit) clop" where
  "client_timer_expired nd =
     run [send_to nd MSG_Client_To_Channel_DNS_Request_Sent CL_AUTOMATE_TYPE_ID CL_AUTOMATE_MBX_ID,
          SetState FSM_Client_DNS_Request]"

fun client_exec :: "bool \<Rightarrow> client_proc \<Rightarrow> ('z, unit) clop" where
  "client_exec nd FSM_Client_Idle_State = SetState FSM_Client_Input_From_User"
| "client_exec nd FSM_Client_Get_Data_From_User = client_get_data nd"
| "client_exec nd FSM_Client_Check_In_Local_Table = client_check_table nd"
| "client_exec nd FSM_Client_Pass_DNS_Request_To_Channel = client_pass_to_channel nd"
| "client_exec nd FSM_Client_Get_DNS_Request_From_Channel = client_get_from_channel nd"
| "client_exec nd FSM_Client_Pass_DNS_Request_To_Client = client_pass_to_user nd"
| "client_exec nd FSM_Client_Timer_Expired = client_timer_expired nd"

end
