(* ===== verification/ClientSpec.thy ===== *)
theory ClientSpec
  imports AutomatonContract ClAuto
begin

text \<open>
  The abstract client.  Its state is the state of the automaton, the name and the answer it
  remembers (\<open>Inl\<close> as long as the array holds no string), whether a timer is running, and the
  content of the local table, if the file can be opened.
\<close>

subsection \<open>The search of the local table\<close>

text \<open>The second line of the table, or all of it when it has one line only.\<close>

definition answer_line :: "u8 list \<Rightarrow> u8 list" where
  "answer_line content = (case dropWhile (\<lambda>b. b \<noteq> 10) content of [] \<Rightarrow> content
     | _ # r \<Rightarrow> takeWhile (\<lambda>b. b \<noteq> 10) r)"

lemma find_str_Nil: "find_str [] line = Some 0"
  by (cases line) simp_all

lemma table_loop_answer:
  "table_loop [] \<lparr>st_rest = content, st_eof = False, st_fail = False\<rparr> = Some (answer_line content)"
proof (cases "dropWhile (\<lambda>b. b \<noteq> 10) content")
  case Nil
  then have "takeWhile (\<lambda>b. b \<noteq> 10) content = content"
    using takeWhile_dropWhile_id [of "\<lambda>b. b \<noteq> 10" content] by simp
  with Nil show ?thesis
    by (subst table_loop.simps) (simp add: getline_def st_good_def find_str_Nil answer_line_def Let_def del: dropWhile_eq_Nil_conv)
next
  case (Cons x r)
  then show ?thesis
    by (subst table_loop.simps)
      (simp add: getline_def st_good_def find_str_Nil answer_line_def Let_def split: list.split
        del: dropWhile_eq_Nil_conv)
qed

lemma search_table_answer:
  assumes "c_str input = Inr v"
  shows "search_table input table = Inr (input, map_option answer_line table)"
  using assms table_loop_answer by (cases table) (simp_all add: search_table_def)

definition table_answer :: "u8 list \<Rightarrow> u8 list" where
  "table_answer content = takeWhile (\<lambda>b. b \<noteq> 0) (answer_line content)"

subsection \<open>Steps\<close>

type_synonym cview = "u8 \<times> u8 list result \<times> u8 list result \<times> bool \<times> u8 list option"

fun cproc_step :: "client_proc \<Rightarrow> cview \<Rightarrow> param list \<Rightarrow> cview \<times> outgoing list" where
  "cproc_step FSM_Client_Idle_State (st, nm, an, tm, tab) ps =
     ((FSM_Client_Input_From_User, nm, an, tm, tab), [])"
| "cproc_step FSM_Client_Get_Data_From_User (st, nm, an, tm, tab) ps =
     ((FSM_Client_Check_Local_Table, Inr (the (map_of ps PARAM_Name)), an, tm, tab),
      [(CL_AUTOMATE_MBX_ID, MSG_Client_Check_Local_Table, CL_AUTOMATE_TYPE_ID, [])])"
| "cproc_step FSM_Client_Check_In_Local_Table (st, nm, an, tm, tab) ps = (case tab of
      Some content \<Rightarrow>
        ((FSM_Client_DNS_Recived, nm, Inr (table_answer content), tm, tab),
         [(CL_AUTOMATE_MBX_ID, MSG_Client_To_User_Return_Data_Recived, CL_AUTOMATE_TYPE_ID, [])])
    | None \<Rightarrow>
        ((FSM_Client_DNS_Request, nm, an, tm, tab),
         [(CL_AUTOMATE_MBX_ID, MSG_Client_To_Channel_DNS_Request_Sent, CL_AUTOMATE_TYPE_ID, [])]))"
| "cproc_step FSM_Client_Pass_DNS_Request_To_Channel (st, nm, an, tm, tab) ps =
     ((FSM_Client_DNS_Recived, nm, an, True, tab),
      [(CH_AUTOMATE_MBX_ID, MSG_Client_To_Channel_DNS_Request_Sent, CH_AUTOMATE_TYPE_ID,
        [(PARAM_DNS_INPUT, projr nm)])])"
| "cproc_step FSM_Client_Get_DNS_Request_From_Channel (st, nm, an, tm, tab) ps =
     ((st, nm, Inr (the (map_of ps PARAM_DATA)), False, tab),
      [(CL_AUTOMATE_MBX_ID, MSG_Client_To_User_Return_Data_Recived, CL_AUTOMATE_TYPE_ID, [])])"
| "cproc_step FSM_Client_Pass_DNS_Request_To_Client (st, nm, an, tm, tab) ps =
     ((FSM_Client_Idle, nm, an, tm, tab),
      [(USER_AUTOMATE_MBX_ID, MSG_Client_To_User_Return_Data_Recived, USER_AUTOMATE_TYPE_ID,
        [(PARAM_DATA, projr an)])])"
| "cproc_step FSM_Client_Timer_Expired (st, nm, an, tm, tab) ps =
     ((FSM_Client_DNS_Request, nm, an, tm, tab),
      [(CL_AUTOMATE_MBX_ID, MSG_Client_To_Channel_DNS_Request_Sent, CL_AUTOMATE_TYPE_ID, [])])"

text \<open>The step the branch table selects for a message with the code \<open>code\<close>.\<close>

definition client_step :: "cview \<Rightarrow> u16 \<Rightarrow> param list \<Rightarrow> cview \<times> outgoing list" where
  "client_step v code ps = (case proc_for client_branches (fst v) code of
     DoNothing \<Rightarrow> (v, []) | Proc p \<Rightarrow> cproc_step p v ps)"

text \<open>
  What a procedure relies on: the parameter it reads is there and fits its array, the string it
  sends is there and fits a buffer, and a timer is started only when none is running.
\<close>

fun cproc_needs :: "nat \<Rightarrow> client_proc \<Rightarrow> cview \<Rightarrow> param list \<Rightarrow> bool" where
  "cproc_needs k FSM_Client_Get_Data_From_User v ps = string_param ps PARAM_Name"
| "cproc_needs k FSM_Client_Check_In_Local_Table (st, nm, an, tm, tab) ps =
     (string_upto 255 nm \<and> (case tab of None \<Rightarrow> True | Some content \<Rightarrow> length (table_answer content) < 256))"
| "cproc_needs k FSM_Client_Pass_DNS_Request_To_Channel (st, nm, an, tm, tab) ps =
     (string_upto k nm \<and> \<not> tm)"
| "cproc_needs k FSM_Client_Get_DNS_Request_From_Channel v ps = string_param ps PARAM_DATA"
| "cproc_needs k FSM_Client_Pass_DNS_Request_To_Client (st, nm, an, tm, tab) ps = string_upto k an"
| "cproc_needs k _ v ps = True"

definition client_needs :: "nat \<Rightarrow> cview \<Rightarrow> u16 \<Rightarrow> param list \<Rightarrow> bool" where
  "client_needs k v code ps = (case proc_for client_branches (fst v) code of
     DoNothing \<Rightarrow> True | Proc p \<Rightarrow> cproc_needs k p v ps)"

subsection \<open>The automaton\<close>

definition client_timer :: "ptr \<Rightarrow> timer_block" where
  "client_timer p = \<lparr>tb_Count = TIMER1_COUNT, tb_SignalId = MSG_Timer_Expired, tb_Valid = True, tb_TimerBuffer = p\<rparr>"

definition timer_of :: "'z client_scheme \<Rightarrow> ptr" where
  "timer_of A = tb_TimerBuffer (F_TimerStore A ! 0)"

definition client_ok :: "'z client_scheme \<Rightarrow> bool" where
  "client_ok A \<longleftrightarrow> (\<exists>ss. F_States A = Some ss \<and> states_ok 2 10 client_branches ss) \<and>
     F_TimerStore A = [client_timer (timer_of A)] \<and> F_NumOfTimers A = 1 \<and>
     length (C_DNSRequestInput A) = 256 \<and> length (C_DNSRequestOutput A) = 256 \<and>
     A_mbxId A = CL_AUTOMATE_MBX_ID \<and> A_TimerResolution A = Timer1s"

definition client_view :: "'z client_scheme \<Rightarrow> cview" where
  "client_view A = (A_State A, c_str (C_DNSRequestInput A), c_str (C_DNSRequestOutput A), timer_of A \<noteq> None, C_Table A)"

lemma client_data:
  fixes A A' :: "'z client_scheme"
  assumes "handler.more A' = handler.more A"
  shows "client_ok A' = client_ok A \<and> client_view A' = client_view A \<and> timer_of A' = timer_of A"
    "C_DNSRequestInput A' = C_DNSRequestInput A" "C_DNSRequestOutput A' = C_DNSRequestOutput A"
  using assms by (cases A; cases A'; simp add: client_ok_def client_view_def timer_of_def)+

lemma client_ok_upd [simp]:
  "client_ok (A\<lparr>A_State := st\<rparr>) = client_ok A"
  "length s = 256 \<Longrightarrow> client_ok A \<Longrightarrow> client_ok (A\<lparr>C_DNSRequestInput := s\<rparr>)"
  "length s = 256 \<Longrightarrow> client_ok A \<Longrightarrow> client_ok (A\<lparr>C_DNSRequestOutput := s\<rparr>)"
  "client_ok (A\<lparr>H_If := x\<rparr>) = client_ok A"
  by (simp_all add: client_ok_def timer_of_def)

lemma timer_of_upd [simp]:
  "timer_of (A\<lparr>A_State := st\<rparr>) = timer_of A" "timer_of (A\<lparr>C_DNSRequestInput := s\<rparr>) = timer_of A"
  "timer_of (A\<lparr>C_DNSRequestOutput := s\<rparr>) = timer_of A" "timer_of (A\<lparr>H_If := x\<rparr>) = timer_of A"
  by (simp_all add: timer_of_def)

text \<open>The procedures of the client end with \<open>SetState\<close> or with a message.\<close>

abbreviation client_done where
  "client_done \<equiv> step_done client_ok client_view timer_of"

lemma client_finish:
  fixes A B A' :: "'z client_scheme"
  assumes "progress k n a own A mss K outs L K' A'" "handler.more A' = handler.more B" "client_ok B"
    and "timer_of B = timer_of A"
    and "v = (st, c_str (C_DNSRequestInput B), c_str (C_DNSRequestOutput B), timer_of A \<noteq> None, C_Table B)"
  shows "client_done k a own A mss L K (v, outs) K' (A'\<lparr>A_State := st\<rparr>)"
proof -
  let ?B = "A'\<lparr>A_State := st\<rparr>"
  note d = client_data [OF assms(2)]
  have "progress k n a own A mss K outs L K' ?B"
    by (rule progress_cong [OF assms(1)]) simp_all
  moreover have "client_view A' = client_view B" using d by simp
  then have "client_view ?B = v" using assms(4,5) by (auto simp: client_view_def)
  moreover have "client_ok ?B" "timer_of ?B = timer_of A" using d assms(3,4) by simp_all
  ultimately show ?thesis unfolding step_done_def using timers_follow_same by fastforce
qed

end
