(* ===== verification/ClientProcs.thy ===== *)
theory ClientProcs
  imports ClientSpec
begin

text \<open>
  Each procedure of \<open>ClAuto\<close> does its abstract step, \<open>cproc_refines\<close>; the procedures are taken in the
  order of the source.
\<close>

subsection \<open>Procedures that send a message without parameters\<close>

lemma client_send_state:
  fixes A B :: "'z client_scheme"
  assumes P: "progress k (Suc n) a own A mss K outs L K1 B" and mbx: "mbx \<le> USER_AUTOMATE_MBX_ID"
    and B: "client_ok B" "timer_of B = timer_of A"
    and v: "v = (st, c_str (C_DNSRequestInput B), c_str (C_DNSRequestOutput B), timer_of A \<noteq> None, C_Table B)"
  shows "achieves (run [send_to nd code au mbx, SetState st]) K1 B
    (client_done k a own A mss L K (v, outs @ [(mbx, code, au, [])]))"
  unfolding achieves_run_Cons achieves_run_Nil SetState_achieves
  by (rule achieves_mono [OF progress_send_to [OF P mbx]], elim conjE)
    (rule client_finish [OF _ sent_sel(5) B v], assumption+)

lemma client_idle_ok:
  fixes A :: "'z client_scheme"
  assumes P: "progress k 3 a own A mss K [] L K A" and ok: "client_ok A"
  shows "achieves (SetState st) K A (client_done k a own A mss L K
    ((st, c_str (C_DNSRequestInput A), c_str (C_DNSRequestOutput A), timer_of A \<noteq> None, C_Table A), []))"
  using client_finish [OF P refl ok refl refl] by simp

text \<open>A string is copied out of the received message.\<close>

lemma client_get_data_ok:
  fixes A :: "'z client_scheme"
  assumes P: "progress k 3 a own A mss K [] L K A" and ok: "client_ok A"
    and ps: "has_params pc16 (bytes K a) ps" "string_param ps PARAM_Name"
  shows "achieves (client_get_data nd) K A (client_done k a own A mss L K
    (cproc_step FSM_Client_Get_Data_From_User (client_view A) ps))"
proof -
  from string_paramD [OF ps(2)] obtain v where v: "map_of ps PARAM_Name = Some v" "0 \<notin> set v" "length v < 256" by blast
  have l: "length (C_DNSRequestInput A) = 256" using ok by (simp add: client_ok_def)
  let ?s = "v @ 0 # drop (length v + 1) (C_DNSRequestInput A)"
  have ls: "length ?s = 256" using v(3) l by simp
  from progress_read [OF P ps(1) v(1,3) l, of nd] obtain off i where
    p: "param_size nd PARAM_Name (K, A) = Inr ((a, i, length v), K, A\<lparr>H_If := (H_If A)\<lparr>CurrentOffset := off\<rparr>\<rparr>)"
      "\<And>A' :: 'z client_scheme. param_copy (a, i, length v) (C_DNSRequestInput A) (K, A') = Inr (?s, K, A')"
    by blast
  let ?A = "A\<lparr>H_If := (H_If A)\<lparr>CurrentOffset := off\<rparr>, C_DNSRequestInput := ?s\<rparr>"
  have 1: "progress k (Suc 2) a own A mss K [] L K ?A"
    unfolding progress3 [symmetric] by (rule progress_cong [OF P]) simp_all
  have "achieves (run [send_to nd MSG_Client_Check_Local_Table CL_AUTOMATE_TYPE_ID CL_AUTOMATE_MBX_ID,
      SetState FSM_Client_Check_Local_Table]) K ?A (client_done k a own A mss L K
      (cproc_step FSM_Client_Get_Data_From_User (client_view A) ps))"
    using client_send_state [OF 1 mbx_ids(2) client_ok_upd(2) [OF ls] _ refl, where nd = nd and st = FSM_Client_Check_Local_Table
        and code = MSG_Client_Check_Local_Table and au = CL_AUTOMATE_TYPE_ID] ok v c_str_copied [OF v(2)]
    by (simp add: client_view_def)
  then show ?thesis
    unfolding client_get_data_def achieves_run_Cons by (simp add: achieves_def p)
qed

lemma client_check_table_ok:
  fixes A :: "'z client_scheme"
  assumes P: "progress k 3 a own A mss K [] L K A" and ok: "client_ok A"
    and n: "cproc_needs k FSM_Client_Check_In_Local_Table (client_view A) ps"
  shows "achieves (client_check_table nd) K A (client_done k a own A mss L K
    (cproc_step FSM_Client_Check_In_Local_Table (client_view A) ps))"
proof -
  obtain v where v: "c_str (C_DNSRequestInput A) = Inr v"
    using n string_uptoD [of 255 "c_str (C_DNSRequestInput A)"] by (auto simp: client_view_def)
  note t = search_table_answer [OF v, of "C_Table A"]
  have A: "A\<lparr>C_DNSRequestInput := C_DNSRequestInput A\<rparr> = A" by simp
  have 1: "progress k (Suc 2) a own A mss K [] L K A" using P unfolding progress3 .
  show ?thesis
  proof (cases "C_Table A")
    case None
    have "achieves (run [send_to nd MSG_Client_To_Channel_DNS_Request_Sent CL_AUTOMATE_TYPE_ID CL_AUTOMATE_MBX_ID,
        SetState FSM_Client_DNS_Request]) K A (client_done k a own A mss L K
        (cproc_step FSM_Client_Check_In_Local_Table (client_view A) ps))"
      using client_send_state [OF 1 mbx_ids(2) ok refl refl, of nd] None by (simp add: client_view_def)
    then show ?thesis using t None A by (simp add: achieves_def client_check_table_def)
  next
    case (Some content)
    let ?l = "table_answer content"
    let ?s = "?l @ 0 # drop (length ?l + 1) (C_DNSRequestOutput A)"
    have l: "length (C_DNSRequestOutput A) = 256" using ok by (simp add: client_ok_def)
    have len: "length ?l < 256" using n Some by (simp add: client_view_def)
    then have ls: "length ?s = 256" using l by simp
    let ?A = "A\<lparr>C_DNSRequestOutput := ?s\<rparr>"
    have put: "put_str ?l (C_DNSRequestOutput A) = Inr ?s" using len l by (simp add: put_str_def)
    have z: "0 \<notin> set ?l" by (auto simp: table_answer_def dest: set_takeWhileD)
    have 2: "progress k (Suc 2) a own A mss K [] L K ?A" by (rule progress_cong [OF 1]) simp_all
    have "achieves (run [send_to nd MSG_Client_To_User_Return_Data_Recived CL_AUTOMATE_TYPE_ID CL_AUTOMATE_MBX_ID,
        SetState FSM_Client_DNS_Recived]) K ?A (client_done k a own A mss L K
        (cproc_step FSM_Client_Check_In_Local_Table (client_view A) ps))"
      using client_send_state [OF 2 mbx_ids(2) client_ok_upd(3) [OF ls ok] _ refl, where nd = nd and st = FSM_Client_DNS_Recived
          and code = MSG_Client_To_User_Return_Data_Recived and au = CL_AUTOMATE_TYPE_ID] Some c_str_copied [OF z]
      by (simp add: client_view_def)
    then show ?thesis using t Some A put by (simp add: achieves_def client_check_table_def table_answer_def)
  qed
qed

lemma client_timer_expired_ok:
  fixes A :: "'z client_scheme"
  assumes P: "progress k 3 a own A mss K [] L K A" and ok: "client_ok A"
  shows "achieves (client_timer_expired nd) K A (client_done k a own A mss L K
    (cproc_step FSM_Client_Timer_Expired (client_view A) ps))"
  using client_send_state [OF P [unfolded progress3] mbx_ids(2) ok refl refl, of nd]
  by (simp add: client_timer_expired_def client_view_def)

subsection \<open>Procedures that send a string\<close>

lemma more_field_client:
  "more_field C_DNSRequestInput (handler.more A) = C_DNSRequestInput A"
  "more_field C_DNSRequestOutput (handler.more A) = C_DNSRequestOutput A"
  by (cases A; simp)+

lemma client_pass_to_user_ok:
  fixes A :: "'z client_scheme"
  assumes P: "progress k 3 a own A mss K [] L K A" and ok: "client_ok A"
    and n: "cproc_needs k FSM_Client_Pass_DNS_Request_To_Client (client_view A) ps"
  shows "achieves (client_pass_to_user nd) K A (client_done k a own A mss L K
    (cproc_step FSM_Client_Pass_DNS_Request_To_Client (client_view A) ps))"
proof -
  obtain v where v: "c_str (C_DNSRequestOutput A) = Inr v" "length v \<le> k"
    using n string_uptoD by (auto simp: client_view_def)
  have fs: "client_pass_to_user nd = run ((prepared nd MSG_Client_To_User_Return_Data_Recived USER_AUTOMATE_TYPE_ID @
      [add_string nd PARAM_DATA (more_field C_DNSRequestOutput), SendMessage USER_AUTOMATE_MBX_ID]) @
      [SetState FSM_Client_Idle])"
    by (simp add: client_pass_to_user_def prepared_def add_string_def more_field_client)
  have p: "PARAM_DATA \<noteq> 0" "unat PARAM_DATA < 65536" by (simp_all add: PARAM_DATA_def)
  note S = progress_send_string [where g = "more_field C_DNSRequestOutput", OF P [unfolded progress3] order_refl p _ v(2),
      unfolded more_field_client, OF v(1)]
  show ?thesis
    unfolding fs achieves_run_append [where gs = "[SetState FSM_Client_Idle]"] achieves_run_Cons achieves_run_Nil
      SetState_achieves
    by (rule achieves_mono [OF S], elim conjE)
      (use v client_finish [OF _ sent_sel(5) ok refl refl] in \<open>simp add: client_view_def\<close>)
qed

subsection \<open>Procedures that use the timer\<close>

lemma client_timer_ready: "client_ok A \<Longrightarrow> timer_ready TIMER1_ID (client_timer (timer_of A)) A"
  by (simp add: client_ok_def timer_ready_def TIMER1_ID_def client_timer_def)

lemma client_ok_timer:
  assumes "client_ok A"
  shows "client_ok (with_buffer TIMER1_ID (client_timer (timer_of A)) p A)"
    "timer_of (with_buffer TIMER1_ID (client_timer (timer_of A)) p A) = p"
proof -
  obtain q where q: "F_TimerStore A = [client_timer q]" using assms by (auto simp: client_ok_def)
  then show "timer_of (with_buffer TIMER1_ID (client_timer (timer_of A)) p A) = p"
    by (simp add: timer_of_def TIMER1_ID_def client_timer_def)
  show "client_ok (with_buffer TIMER1_ID (client_timer (timer_of A)) p A)"
    using assms q by (simp add: client_ok_def timer_of_def TIMER1_ID_def client_timer_def)
qed

lemma client_pass_to_channel_ok:
  fixes A :: "'z client_scheme"
  assumes P: "progress k 3 a own A mss K [] L K A" and ok: "client_ok A"
    and n: "cproc_needs k FSM_Client_Pass_DNS_Request_To_Channel (client_view A) ps"
  shows "achieves (client_pass_to_channel nd) K A (client_done k a own A mss L K
    (cproc_step FSM_Client_Pass_DNS_Request_To_Channel (client_view A) ps))"
proof -
  obtain v where v: "c_str (C_DNSRequestInput A) = Inr v" "length v \<le> k" and tm: "timer_of A = None"
    using n string_uptoD by (auto simp: client_view_def)
  have fs: "client_pass_to_channel nd = run ((prepared nd MSG_Client_To_Channel_DNS_Request_Sent CH_AUTOMATE_TYPE_ID @
      [add_string nd PARAM_DNS_INPUT (more_field C_DNSRequestInput), SendMessage CH_AUTOMATE_MBX_ID]) @
      [StartTimer nd TIMER1_ID, SetState FSM_Client_DNS_Recived])"
    by (simp add: client_pass_to_channel_def prepared_def add_string_def more_field_client)
  have p: "PARAM_DNS_INPUT \<noteq> 0" "unat PARAM_DNS_INPUT < 65536" by (simp_all add: PARAM_DNS_INPUT_def)
  note S = progress_send_string [where g = "more_field C_DNSRequestInput", OF P [unfolded progress3] mbx_ids(1) p _ v(2),
      unfolded more_field_client, OF v(1)]
  let ?outs = "[(CH_AUTOMATE_MBX_ID, MSG_Client_To_Channel_DNS_Request_Sent, CH_AUTOMATE_TYPE_ID, [(PARAM_DNS_INPUT, v)])]"
  have step: "cproc_step FSM_Client_Pass_DNS_Request_To_Channel (client_view A) ps =
      ((FSM_Client_DNS_Recived, Inr v, c_str (C_DNSRequestOutput A), True, C_Table A), ?outs)"
    using v by (simp add: client_view_def)
  show ?thesis
    unfolding fs achieves_run_append [where gs = "[StartTimer nd TIMER1_ID, SetState FSM_Client_DNS_Recived]"]
      achieves_run_Cons achieves_run_Nil SetState_achieves step
  proof (rule achieves_mono [OF S], elim conjE)
    fix K1 and A1 :: "'z client_scheme"
    assume r: "sent A A1" "progress k 2 a own A mss K ([] @ ?outs) L K1 A1"
    note d = client_data [OF sent_sel(5) [OF r(1)]]
    have ok1: "client_ok A1" "timer_of A1 = None" using d ok tm by simp_all
    have t: "timer_ready TIMER1_ID (client_timer None) A1" "tb_TimerBuffer (client_timer None) = None"
      "tb_Count (client_timer None) \<noteq> 0" "A_TimerResolution A1 = Timer1s" "A_mbxId A1 \<le> USER_AUTOMATE_MBX_ID"
      using client_timer_ready [OF ok1(1)] ok1 by (simp_all add: client_timer_def TIMER1_COUNT_def client_ok_def)
    have P1: "progress k (Suc 1) a own A mss K ?outs L K1 A1" using r(2) by (simp only: append_Nil Suc_1)
    note T = progress_StartTimer [OF P1 t(1,2,5,3,4), of nd]
    show "achieves (StartTimer nd TIMER1_ID) K1 A1 (\<lambda>K' A'. client_done k a own A mss L K
        ((FSM_Client_DNS_Recived, Inr v, c_str (C_DNSRequestOutput A), True, C_Table A), ?outs) K'
        (A'\<lparr>A_State := FSM_Client_DNS_Recived\<rparr>))"
    proof (rule achieves_mono [OF T], elim exE conjE)
      fix K2 b and A2 :: "'z client_scheme"
      let ?L = "dins b (unat (tb_Count (client_timer None))) L" and ?A = "A2\<lparr>A_State := FSM_Client_DNS_Recived\<rparr>"
      assume t2: "A2 = with_buffer TIMER1_ID (client_timer None) (Some b) A1"
        "progress k 1 a own A mss K ?outs ?L K2 A2"
        "is_timer_message A (tb_SignalId (client_timer None)) (bytes K2 b)"
      have ok2: "client_ok ?A" "timer_of ?A = Some b"
        using client_ok_timer [OF ok1(1), of "Some b"] ok1(2) t2(1) by simp_all
      have "client_view ?A = (FSM_Client_DNS_Recived, Inr v, c_str (C_DNSRequestOutput A), True, C_Table A)"
        using d ok2 v t2(1) by (auto simp: client_view_def)
      moreover have "progress k 1 a own A mss K ?outs ?L K2 ?A" by (rule progress_cong [OF t2(2)]) simp_all
      moreover have "timers_follow A (timer_of A) (timer_of ?A) L ?L (bytes K2)"
        using tm ok2(2) t2(3) by (simp add: timers_follow_def client_timer_def)
      ultimately show "client_done k a own A mss L K
        ((FSM_Client_DNS_Recived, Inr v, c_str (C_DNSRequestOutput A), True, C_Table A), ?outs) K2 ?A"
        unfolding step_done_def using ok2(1) by auto
    qed
  qed
qed

lemma client_get_from_channel_ok:
  fixes A :: "'z client_scheme"
  assumes P: "progress k 3 a own A mss K [] L K A" and ok: "client_ok A" and tL: "set_option (timer_of A) \<subseteq> set (map fst L)"
    and ps: "has_params pc16 (bytes K a) ps" "string_param ps PARAM_DATA"
  shows "achieves (client_get_from_channel nd) K A (client_done k a own A mss L K
    (cproc_step FSM_Client_Get_DNS_Request_From_Channel (client_view A) ps))"
proof -
  from string_paramD [OF ps(2)] obtain v where v: "map_of ps PARAM_DATA = Some v" "0 \<notin> set v" "length v < 256" by blast
  have l: "length (C_DNSRequestOutput A) = 256" using ok by (simp add: client_ok_def)
  let ?s = "v @ 0 # drop (length v + 1) (C_DNSRequestOutput A)"
  have ls: "length ?s = 256" using v(3) l by simp
  from progress_read [OF P ps(1) v(1,3) l, of nd] obtain off i where
    p: "param_size nd PARAM_DATA (K, A) = Inr ((a, i, length v), K, A\<lparr>H_If := (H_If A)\<lparr>CurrentOffset := off\<rparr>\<rparr>)"
      "\<And>(A' :: 'z client_scheme) K'. bytes K' a = bytes K a \<Longrightarrow>
        param_copy (a, i, length v) (C_DNSRequestOutput A) (K', A') = Inr (?s, K', A')" by blast
  let ?A1 = "A\<lparr>H_If := (H_If A)\<lparr>CurrentOffset := off\<rparr>\<rparr>"
  have ok1: "client_ok ?A1" "timer_of ?A1 = timer_of A" using ok by simp_all
  have P1: "progress k 3 a own A mss K [] L K ?A1" by (rule progress_cong [OF P]) simp_all
  note tr = client_timer_ready [OF ok1(1), unfolded ok1(2)]
  let ?A2 = "with_buffer TIMER1_ID (client_timer (timer_of A)) None ?A1"
  have A2: "client_ok ?A2" "timer_of ?A2 = None" using client_ok_timer [OF ok1(1), of None] ok1(2) by simp_all
  let ?m = "(CL_AUTOMATE_MBX_ID, MSG_Client_To_User_Return_Data_Recived, CL_AUTOMATE_TYPE_ID, [])"
  let ?v = "(A_State A, c_str (C_DNSRequestInput A), Inr v, False, C_Table A)"
  have step: "cproc_step FSM_Client_Get_DNS_Request_From_Channel (client_view A) ps = (?v, [?m])"
    using v(1) by (simp add: client_view_def)
  have stop: "achieves (StopTimer nd TIMER1_ID) K ?A1 (\<lambda>K2 A'. A' = ?A2 \<and> progress k 3 a own A mss K [] L K2 ?A2 \<and>
      (\<forall>b. timer_of A = Some b \<longrightarrow> GetUint16 (bytes K2 b) MSG_CODE = DISCARDED))"
  proof (cases "timer_of A")
    case None
    then have "?A2 = ?A1" using ok1(1) None by (simp add: client_ok_def timer_of_def TIMER1_ID_def client_timer_def)
    moreover have "StopTimer nd TIMER1_ID (K, ?A1) = Inr ((), K, ?A1)"
      by (rule StopTimer_idle [OF tr]) (simp add: None client_timer_def)
    ultimately show ?thesis using P1 None by (simp add: achieves_def)
  next
    case (Some b)
    have b: "tb_TimerBuffer (client_timer (timer_of A)) = Some b" "b \<in> set (map fst L)"
      using Some tL by (simp_all add: client_timer_def)
    show ?thesis by (rule achieves_mono [OF progress_StopTimer [OF P1 tr b, of nd]]) (use Some in auto)
  qed
  let ?A3 = "?A2\<lparr>C_DNSRequestOutput := ?s\<rparr>"
  have fin: "achieves (send_to nd MSG_Client_To_User_Return_Data_Recived CL_AUTOMATE_TYPE_ID CL_AUTOMATE_MBX_ID) K2 ?A3
      (client_done k a own A mss L K (?v, [?m]))"
    if k2: "progress k 3 a own A mss K [] L K2 ?A2" "\<forall>b. timer_of A = Some b \<longrightarrow> GetUint16 (bytes K2 b) MSG_CODE = DISCARDED" for K2
  proof -
    have "progress k 3 a own A mss K [] L K2 ?A3" by (rule progress_cong [OF k2(1)]) simp_all
    note S = progress_send_to [OF this [unfolded progress3] mbx_ids(2)]
    show ?thesis
    proof (rule achieves_mono [OF S], elim conjE)
      fix K3 A'
      assume r: "sent ?A3 A'" "progress k 2 a own A mss K ([] @ [?m]) L K3 A'" "\<forall>x \<in> set (map fst L). bytes K3 x = bytes K2 x"
      note d = client_data [OF sent_sel(5) [OF r(1)]]
      have o3: "client_ok ?A3" "timer_of ?A3 = None"
        using A2 ls by simp_all
      have "client_view ?A3 = ?v" using o3(2) c_str_copied [OF v(2)] by (simp add: client_view_def)
      then have o: "client_ok A'" "client_view A' = ?v" "timer_of A' = None" using d o3 by simp_all
      have "timers_follow A (timer_of A) (timer_of A') L L (bytes K3)"
      proof (cases "timer_of A")
        case (Some b)
        then have "b \<in> set (map fst L)" using tL by simp
        then have "bytes K3 b = bytes K2 b" using r(3) by blast
        with o(3) k2(2) Some show ?thesis by (simp add: timers_follow_def)
      qed (use o(3) in \<open>simp add: timers_follow_def\<close>)
      then show "client_done k a own A mss L K (?v, [?m]) K3 A'"
        unfolding step_done_def using o r(2) by auto
    qed
  qed
  from stop obtain K2 where k2: "StopTimer nd TIMER1_ID (K, ?A1) = Inr ((), K2, ?A2)" "progress k 3 a own A mss K [] L K2 ?A2"
    "\<forall>b. timer_of A = Some b \<longrightarrow> GetUint16 (bytes K2 b) MSG_CODE = DISCARDED" by (auto simp: achieves_def)
  have "bytes K2 a = bytes K a" using progressD(10) [OF k2(2), of a] by simp
  then have cp: "param_copy (a, i, length v) (C_DNSRequestOutput ?A2) (K2, ?A2) = Inr (?s, K2, ?A2)"
    using p(2) [of K2 ?A2] by simp
  show ?thesis
    unfolding client_get_from_channel_def step achieves_run_Cons achieves_run_Nil
      achieves_bnd_ret [where f = "param_size nd PARAM_DATA", OF p(1)]
    unfolding achieves_bnd_ret [where f = "StopTimer nd TIMER1_ID", OF k2(1)]
    using fin [OF k2(2,3)] cp by (simp add: achieves_def)
qed

text \<open>All procedures.\<close>

lemma cproc_refines:
  fixes A :: "'z client_scheme"
  assumes P: "progress k 3 a own A mss K [] L K A" and ok: "client_ok A" and tL: "set_option (timer_of A) \<subseteq> set (map fst L)"
    and ps: "carries (bytes K a) ps" and n: "cproc_needs k p (client_view A) ps"
  shows "achieves (client_exec nd p) K A (client_done k a own A mss L K (cproc_step p (client_view A) ps))"
proof -
  have ps': "has_params pc16 (bytes K a) ps" if "string_param ps c" for c
    using ps string_param_nonempty [OF that] by (simp add: carries_def)
  show ?thesis
  proof (cases p)
    case FSM_Client_Idle_State
    then show ?thesis using client_idle_ok [OF P ok, of FSM_Client_Input_From_User] by (simp add: client_view_def)
  next
    case FSM_Client_Get_Data_From_User
    with n client_get_data_ok [OF P ok ps'] show ?thesis by simp
  next
    case FSM_Client_Check_In_Local_Table
    with n client_check_table_ok [OF P ok, of ps nd] show ?thesis by simp
  next
    case FSM_Client_Pass_DNS_Request_To_Channel
    with n client_pass_to_channel_ok [OF P ok, of ps nd] show ?thesis by simp
  next
    case FSM_Client_Get_DNS_Request_From_Channel
    with n client_get_from_channel_ok [OF P ok tL ps'] show ?thesis by simp
  next
    case FSM_Client_Pass_DNS_Request_To_Client
    with n client_pass_to_user_ok [OF P ok, of ps nd] show ?thesis by simp
  next
    case FSM_Client_Timer_Expired
    with client_timer_expired_ok [OF P ok] show ?thesis by simp
  qed
qed

end
