(* ===== verification/ClientProps.thy ===== *)
theory ClientProps
  imports AutomatonContract ClientProcs DemoAutomata
begin

text \<open>
  The properties of the client automaton: it is ready after its constructor and \<open>Initialize\<close>,
  \<open>Process\<close> makes exactly the abstract steps of \<open>client_step\<close>, and two of these steps are not what
  the program is for: a timeout is ignored, and the table answers every name alike.
\<close>

lemma client_table_fits: "table_fits 2 10 client_branches"
proof -
  have "length (rows_of client_branches st) \<le> 2" for st
    unfolding client_branches_def client_states rows_of_simps unat_small by auto
  moreover have "\<forall>(s, e, p) \<in> set client_branches. unat s < 10"
    by (simp add: client_branches_def client_states)
  moreover have "distinct (map (\<lambda>(s, e, p). (s, e)) client_branches)"
    by (simp add: client_branches_def client_states msg_codes)
  ultimately show ?thesis by (simp add: table_fits_def)
qed

subsection \<open>Construction\<close>

lemma client_built: "H_codec A = pc16 \<Longrightarrow> \<exists>B. ClAuto (K, A) = Inr ((), K\<lparr>K_Api := False, K_LogingObject := None\<rparr>, B) \<and>
    built CL_AUTOMATE_TYPE_ID CL_AUTOMATE_MBX_ID 10 2 A B"
  unfolding ClAuto_def by (rule FiniteStateMachine_built) simp_all

lemma client_initialized:
  fixes A B :: "'z client_scheme"
  assumes B: "built CL_AUTOMATE_TYPE_ID CL_AUTOMATE_MBX_ID 10 2 A B"
    and len: "length (C_DNSRequestInput A) = 256" "length (C_DNSRequestOutput A) = 256"
  shows "\<exists>A'. client_Initialize (K, B) = Inr ((), K, A') \<and> idle A' \<and> client_ok A' \<and> timer_of A' = None \<and>
    A_automateId A' = CL_AUTOMATE_TYPE_ID \<and>
    client_view A' = (FSM_Client_Idle, c_str (C_DNSRequestInput A), c_str (C_DNSRequestOutput A), False, C_Table A)"
proof -
  have more: "C_DNSRequestInput B = C_DNSRequestInput A" "C_DNSRequestOutput B = C_DNSRequestOutput A" "C_Table B = C_Table A"
    using B by (cases A; cases B; simp add: built_def)+
  from B have "F_States B = Some (replicate 10 (fresh_state 2))" "F_MaxNumOfProcPerState B = 2"
    by (simp_all add: built_def)
  from init_rows_fresh [OF this client_table_fits, of K] obtain ss where
    i: "init_rows client_branches (K, B) = Inr ((), K, B\<lparr>F_States := Some ss\<rparr>)" "states_ok 2 10 client_branches ss" by blast
  let ?A = "B\<lparr>F_States := Some ss, F_TimerStore := [client_timer None]\<rparr>"
  have s: "SetState FSM_Client_Idle (K, B) = Inr ((), K, B)"
    using B by (simp add: SetState_def upd_def built_def FSM_Client_Idle_def)
  have t: "InitTimerBlock TIMER1_ID TIMER1_COUNT MSG_Timer_Expired (K, B\<lparr>F_States := Some ss\<rparr>) = Inr ((), K, ?A)"
    using B by (simp add: InitTimerBlock_def set_timer_def timer_at_def upd_def built_def TIMER1_ID_def client_timer_def)
  have "client_Initialize (K, B) = Inr ((), K, ?A)"
    using s i(1) t by (simp add: client_Initialize_def run_append init_rows_def [symmetric])
  then show ?thesis using i(2) more len B
    by (intro exI [of _ ?A])
      (simp add: client_ok_def client_view_def timer_of_def client_timer_def FSM_Client_Idle_def built_def idle_def)
qed

lemma client_started:
  fixes A :: "'z client_scheme"
  assumes "H_codec A = pc16" "length (C_DNSRequestInput A) = 256" "length (C_DNSRequestOutput A) = 256"
  shows "\<exists>A'. run [ClAuto, client_Initialize] (K, A) =
      Inr ((), K\<lparr>K_Api := False, K_LogingObject := None\<rparr>, A') \<and>
    client_ok A' \<and> idle A' \<and> A_State A' = FSM_Client_Idle \<and> timer_of A' = None \<and> A_automateId A' = CL_AUTOMATE_TYPE_ID"
proof -
  let ?K = "K\<lparr>K_Api := False, K_LogingObject := None\<rparr>"
  from client_built [OF assms(1), of K] obtain B where
    B: "ClAuto (K, A) = Inr ((), ?K, B)" "built CL_AUTOMATE_TYPE_ID CL_AUTOMATE_MBX_ID 10 2 A B" by blast
  from client_initialized [OF B(2) assms(2,3), of ?K] B(1) show ?thesis by (auto simp: client_view_def)
qed

lemma client_lookup:
  assumes "client_ok A" "A_State A \<in> fst ` set client_branches"
  shows "GetProcedure nd e (K, A) = Inr (Some (proc_for client_branches (A_State A) e), K, A)"
  using assms GetProcedure_started [OF _ _ client_table_fits] unfolding client_ok_def by blast

text \<open>C21: The constructor of the client and \<open>Initialize\<close> succeed on every raw object whose codec is
  \<open>stdMsg_pc16_pl16\<close>.  The client is then idle without a timer and holds no message, and its table
  gives for every state that has a branch and every event the procedure of \<open>client_branches\<close>, or
  \<open>DoNothing\<close> for an event without a branch.\<close>

theorem client_starts:
  fixes A :: "'z client_scheme"
  assumes "H_codec A = pc16" "length (C_DNSRequestInput A) = 256" "length (C_DNSRequestOutput A) = 256"
  shows "\<exists>A'. run [ClAuto, client_Initialize] (K, A) =
      Inr ((), K\<lparr>K_Api := False, K_LogingObject := None\<rparr>, A') \<and>
    client_ok A' \<and> A_State A' = FSM_Client_Idle \<and> timer_of A' = None \<and> H_CurrentMessage A' = None \<and>
    A_automateId A' = CL_AUTOMATE_TYPE_ID \<and>
    (\<forall>nd K st e. st \<in> fst ` set client_branches \<longrightarrow>
       GetProcedure nd e (K, A'\<lparr>A_State := st\<rparr>) =
         Inr (Some (proc_for client_branches st e), K, A'\<lparr>A_State := st\<rparr>))"
proof -
  from client_started [OF assms, of K] obtain A' where
    A': "run [ClAuto, client_Initialize] (K, A) = Inr ((), K\<lparr>K_Api := False, K_LogingObject := None\<rparr>, A')"
      "client_ok A'" "idle A'" "A_State A' = FSM_Client_Idle" "timer_of A' = None" "A_automateId A' = CL_AUTOMATE_TYPE_ID"
    by blast
  have "GetProcedure nd e (K', A'\<lparr>A_State := st\<rparr>) =
      Inr (Some (proc_for client_branches st e), K', A'\<lparr>A_State := st\<rparr>)"
    if "st \<in> fst ` set client_branches" for nd e K' st
    using client_lookup [of "A'\<lparr>A_State := st\<rparr>" nd e K'] A'(2) that by simp
  with A' show ?thesis by (intro exI [of _ A']) (simp add: idle_def)
qed

definition raw_client :: client where
  "raw_client = \<lparr>H_CurrentMessage = None, H_NewMessage = None, H_codec = pc16, H_If = MessageInterface,
     A_mbxId = 0, A_automateId = 0, A_TimerResolution = Timer1s, A_LogFlag = 0, A_ConnectionId = 0, A_GroupId = 0,
     A_CallId = 0, A_LeftMbx = 0, A_LeftAutomate = 0, A_LeftGroup = 0, A_LeftObjectId = 0, A_RightMbx = 0,
     A_RightAutomate = 0, A_RightGroup = 0, A_RightObjectId = 0, A_State = 0,
     F_ReturnMemory = False, F_TimerStore = [], F_NumOfStates = 0, F_NumOfTimers = 0,
     F_MaxNumOfProcPerState = 0, F_States = None,
     C_DNSRequestInput = 97 # replicate 255 0, C_DNSRequestOutput = replicate 256 0, C_Table = None\<rparr>"

theorem client_starts_witness:
  "\<exists>A'. run [ClAuto, client_Initialize] (run_kernel [], raw_client) =
      Inr ((), run_kernel []\<lparr>K_Api := False, K_LogingObject := None\<rparr>, A') \<and> client_ok A' \<and>
    A_State A' = FSM_Client_Idle \<and> timer_of A' = None"
proof -
  have "H_codec raw_client = pc16" "length (C_DNSRequestInput raw_client) = 256"
    "length (C_DNSRequestOutput raw_client) = 256" by (simp_all add: raw_client_def)
  from client_starts [OF this, of "run_kernel []"] show ?thesis by blast
qed

subsection \<open>The refinement\<close>

interpretation client: automaton "client_exec nd" client_branches client_ok client_view fst timer_of
  cproc_needs cproc_step for nd
proof
  fix A A' :: "'a client_scheme"
  show "client_ok A \<Longrightarrow> \<exists>ss k n. F_States A = Some ss \<and> states_ok k n client_branches ss \<and>
      (\<forall>st \<in> fst ` set client_branches. unat st < n)"
    using client_table_fits by (fastforce simp: client_ok_def table_fits_def)
  show "fst (client_view A) = A_State A" by (simp add: client_view_def)
  show "handler.more A' = handler.more A \<Longrightarrow>
      client_ok A' = client_ok A \<and> client_view A' = client_view A \<and> timer_of A' = timer_of A"
    by (rule client_data)
qed (rule cproc_refines)

lemma client_table_step:
  "client.table_step = client_step" "client.table_needs = client_needs"
  by (intro ext; simp add: client.table_step_def client.table_needs_def client_step_def client_needs_def)+

text \<open>C20: \<open>Process\<close> refines the abstract client.  Whatever message the client gets in a state that
  has a branch, the call succeeds in debug and in release builds; the new state, the name and the
  answer the client remembers and its timer are those of \<open>client_step\<close>; exactly the messages of
  \<open>client_step\<close> are put into exactly their mailboxes, with the right receiver, sender and
  parameters; the other messages keep every byte; the client is left without a message, and each
  buffer of the pool is then free, in a mailbox or in the timer list: none is lost.  This holds as
  long as the parameters the procedure reads are there and fit, and three buffers of the smallest
  class are free.\<close>

theorem client_refines:
  assumes "ready_for k 3 a own mss L K A" "client_ok A" "set_option (timer_of A) \<subseteq> set (map fst L)"
    and "loggable nd (bytes K a)" "GetUint16 (bytes K a) MSG_CODE = code" "carries (bytes K a) ps"
    and "A_State A \<in> fst ` set client_branches" "client_needs k (client_view A) code ps"
  shows "\<exists>K' A'. Process nd (client_exec nd) (Some a) (K, A) = Inr ((), K', A') \<and> client_ok A' \<and>
    client_view A' = fst (client_step (client_view A) code ps) \<and>
    handled own A mss L K (snd (client_step (client_view A) code ps)) (timer_of A) (timer_of A') K' A'"
  using client.Process_step [OF assms(1-7), of nd] assms(8) unfolding client_table_step achieves_def by blast

text \<open>A client at the kernel of \<open>DemoAutomata\<close>.\<close>

definition demo_client :: client where
  "demo_client = (case run [ClAuto, client_Initialize] (run_kernel [], raw_client) of
     Inr (_, _, A) \<Rightarrow> A | Inl _ \<Rightarrow> raw_client)"

lemma demo_client_ok: "client_ok demo_client" "timer_of demo_client = None"
  "H_NewMessage demo_client = None" "H_codec demo_client = pc16"
proof -
  have "H_codec raw_client = pc16" "length (C_DNSRequestInput raw_client) = 256"
    "length (C_DNSRequestOutput raw_client) = 256" by (simp_all add: raw_client_def)
  from client_started [OF this, of "run_kernel []"] show "client_ok demo_client" "timer_of demo_client = None"
    "H_NewMessage demo_client = None" "H_codec demo_client = pc16" by (auto simp: demo_client_def idle_def)
qed

theorem client_refines_witness:
  "\<exists>K' A' b. Process False (client_exec False) (Some 3)
      (run_kernel (run_message MSG_User_To_Client_Data_Sent [(PARAM_Name, [102, 116, 110])]),
       demo_client\<lparr>A_State := FSM_Client_Input_From_User\<rparr>) = Inr ((), K', A') \<and>
    A_State A' = FSM_Client_Check_Local_Table \<and> c_str (C_DNSRequestInput A') = Inr [102, 116, 110] \<and>
    GetUint16 (bytes K' b) MSG_CODE = MSG_Client_Check_Local_Table"
proof -
  let ?A = "demo_client\<lparr>A_State := FSM_Client_Input_From_User\<rparr>" and ?ps = "[(PARAM_Name, [102, 116, 110])]"
  let ?bs = "run_message MSG_User_To_Client_Data_Sent ?ps"
  have ps: "\<forall>p \<in> set ?ps. param_ok pc16 p" "length (enc pc16 ?ps) \<le> 105"
    by (simp_all add: PARAM_Name_def in_field_def)
  note M = run_message_ok [OF ps, where code = MSG_User_To_Client_Data_Sent]
  have A: "client_ok ?A" "set_option (timer_of ?A) \<subseteq> set (map fst [(4 :: nat, 5 :: nat)])"
    "H_NewMessage ?A = None" "H_codec ?A = pc16" using demo_client_ok by simp_all
  have b: "bytes (run_kernel ?bs) 3 = ?bs" by (rule run_kernel_ready)
  have 1: "loggable False (bytes (run_kernel ?bs) 3)" "carries (bytes (run_kernel ?bs) 3) ?ps"
    "GetUint16 (bytes (run_kernel ?bs) 3) MSG_CODE = MSG_User_To_Client_Data_Sent"
    unfolding b carries_def using M by simp_all
  have st: "A_State ?A \<in> fst ` set client_branches" by (simp add: client_branches_def)
  have pf: "proc_for client_branches FSM_Client_Input_From_User MSG_User_To_Client_Data_Sent =
      Proc FSM_Client_Get_Data_From_User"
    by (simp add: proc_for_def client_branches_def client_states msg_codes)
  have n: "client_needs 90 (client_view ?A) MSG_User_To_Client_Data_Sent ?ps"
    using pf by (simp add: client_needs_def client_view_def string_param_def)
  have s: "client_step (client_view ?A) MSG_User_To_Client_Data_Sent ?ps =
      cproc_step FSM_Client_Get_Data_From_User (client_view ?A) ?ps"
    using pf by (simp add: client_step_def client_view_def)
  from client_refines [OF demo_ready [OF M(1) A(3,4)] A(1,2) 1(1,3,2) st n] obtain K' A' where
    r: "Process False (client_exec False) (Some 3) (run_kernel ?bs, ?A) = Inr ((), K', A')"
      "client_view A' = fst (cproc_step FSM_Client_Get_Data_From_User (client_view ?A) ?ps)"
      "handled [] ?A [[], [], []] [(4, 5)] (run_kernel ?bs)
        (snd (cproc_step FSM_Client_Get_Data_From_User (client_view ?A) ?ps)) (timer_of ?A) (timer_of A') K' A'"
    unfolding s by blast
  have "A_State A' = FSM_Client_Check_Local_Table" "c_str (C_DNSRequestInput A') = Inr [102, 116, 110]"
    using r(2) by (simp_all add: client_view_def)
  moreover obtain b where "GetUint16 (bytes K' b) MSG_CODE = MSG_Client_Check_Local_Table"
    using r(3) by (auto simp: client_view_def handled_def)
  ultimately show ?thesis using r(1) by blast
qed

subsection \<open>What the client does not do\<close>

text \<open>The timeout of a request is lost.  The timer runs while the client waits in the state
  \<open>FSM_Client_DNS_Recived\<close>, which \<open>FSM_Client_Pass_DNS_Request_To_Channel\<close> enters when it starts
  the timer, but the branch for \<open>MSG_Timer_Expired\<close> belongs to \<open>FSM_Client_DNS_Request\<close>: when the
  timer expires nothing is sent, no timer is started and the client waits on, for ever if the
  answer does not come.\<close>

theorem client_ignores_timeout:
  assumes "ready_for k 3 a own mss L K A" "client_ok A" "set_option (timer_of A) \<subseteq> set (map fst L)"
    and "loggable nd (bytes K a)" "GetUint16 (bytes K a) MSG_CODE = MSG_Timer_Expired"
    and "client_view A = fst (cproc_step FSM_Client_Pass_DNS_Request_To_Channel v ps)"
  shows "\<exists>K' A'. Process nd (client_exec nd) (Some a) (K, A) = Inr ((), K', A') \<and>
    client_view A' = client_view A \<and> handled own A mss L K [] (timer_of A) (timer_of A') K' A'"
proof -
  have st: "fst (client_view A) = FSM_Client_DNS_Recived" using assms(6) by (cases v) simp
  have pf: "proc_for client_branches FSM_Client_DNS_Recived MSG_Timer_Expired = DoNothing"
    by (simp add: proc_for_def client_branches_def client_states msg_codes)
  have n: "client.table_needs k (client_view A) MSG_Timer_Expired []" and
    s: "client.table_step (client_view A) MSG_Timer_Expired [] = (client_view A, [])"
    using st pf by (simp_all add: client.table_needs_def client.table_step_def)
  have m: "A_State A \<in> fst ` set client_branches" using st by (simp add: client_branches_def client_view_def)
  have P: "achieves (Process nd (client_exec nd) (Some a)) K A (\<lambda>K' A'. client_view A' = client_view A \<and>
      handled own A mss L K [] (timer_of A) (timer_of A') K' A')"
    using client.Process_step [OF assms(1-5) carries_Nil m n, of nd] unfolding s
    by (simp add: achieves_def) blast
  then show ?thesis unfolding achieves_def by auto
qed

theorem client_ignores_timeout_witness:
  "\<exists>K' A'. Process True (client_exec True) (Some 3)
      (run_kernel (run_message MSG_Timer_Expired []),
       demo_client\<lparr>A_State := FSM_Client_DNS_Recived, F_TimerStore := [client_timer (Some 4)]\<rparr>) =
        Inr ((), K', A') \<and> A_State A' = FSM_Client_DNS_Recived"
proof -
  let ?A = "demo_client\<lparr>A_State := FSM_Client_DNS_Recived, F_TimerStore := [client_timer (Some 4)]\<rparr>"
  let ?bs = "run_message MSG_Timer_Expired []"
  have "\<forall>p \<in> set ([] :: param list). param_ok pc16 p" "length (enc pc16 []) \<le> 105" by simp_all
  note M = run_message_ok [OF this, where code = MSG_Timer_Expired]
  have A: "client_ok ?A" "set_option (timer_of ?A) \<subseteq> set (map fst [(4 :: nat, 5 :: nat)])"
    "H_NewMessage ?A = None" "H_codec ?A = pc16"
    using demo_client_ok by (simp_all add: client_ok_def timer_of_def client_timer_def)
  have v: "client_view ?A = fst (cproc_step FSM_Client_Pass_DNS_Request_To_Channel (client_view ?A) [])"
    by (simp add: client_view_def timer_of_def client_timer_def)
  have b: "bytes (run_kernel ?bs) 3 = ?bs" by (rule run_kernel_ready)
  have 1: "loggable True (bytes (run_kernel ?bs) 3)"
    "GetUint16 (bytes (run_kernel ?bs) 3) MSG_CODE = MSG_Timer_Expired"
    unfolding b using M by simp_all
  from client_ignores_timeout [OF demo_ready [OF M(1) A(3,4)] A(1,2) 1 v] obtain K' A' where
    "Process True (client_exec True) (Some 3) (run_kernel ?bs, ?A) = Inr ((), K', A')"
    "client_view A' = client_view ?A" by blast
  then show ?thesis by (intro exI [of _ K'] exI [of _ A']) (simp add: client_view_def)
qed

text \<open>The search of the local table does not look at the name: for every name and every table the
  answer is the second line of the file, or its only line.  The name was to be copied to the search
  string, but \<open>search.copy(DNSRequestInput, ..)\<close> copies from it.\<close>

theorem table_ignores_name:
  assumes "c_str input = Inr v"
  shows "search_table input None = Inr (input, None) \<and>
    search_table input (Some content) = Inr (input, Some (answer_line content))"
  using search_table_answer [OF assms] by simp

theorem table_ignores_name_witness:
  "search_table [98, 0] None = Inr ([98, 0], None) \<and>
   search_table [98, 0] (Some [97, 10, 99, 10]) = Inr ([98, 0], Some [99])"
  using table_ignores_name [where input = "[98, 0]" and v = "[98]" and content = "[97, 10, 99, 10]"]
  by (simp add: answer_line_def c_str_def)

end
