(* ===== verification/ChAuto.thy ===== *)
theory ChAuto
  imports AppConst
begin

text \<open>
  \<open>ChAuto\<close> (\<open>src/POP3ClientCppUnit/ChAuto.h\<close>, \<open>ChAuto.cpp\<close>): sends the name to the server over a TCP
  connection; a thread that listens on the socket passes the answer to the client automaton.
  What the calls of the socket library return is the record \<open>net_env\<close>; \<open>H_Sent\<close> is what has been
  handed to \<open>send\<close> and \<open>H_Listening\<close> tells whether the thread has been started.
\<close>

datatype channel_proc = FSM_Channel_Idle_State | FSM_Channel_Get_DNS_Request
  | FSM_Channel_Connect_State | FSM_Channel_Connected_State
  | FSM_Channel_Recive_DNS_Request_From_Server | FSM_Channel_Disconnect_State
  | FSM_Channel_To_Client_DNS_Request_Pass

definition FSM_Channel_Idle :: u8 where "FSM_Channel_Idle = 0"
definition FSM_Channel_DNS_Request :: u8 where "FSM_Channel_DNS_Request = 1"
definition FSM_Channel_Connect :: u8 where "FSM_Channel_Connect = 2"
definition FSM_Channel_Connected :: u8 where "FSM_Channel_Connected = 3"
definition FSM_Channel_Disconnect :: u8 where "FSM_Channel_Disconnect = 4"
definition FSM_Channel_To_Client_DNS_Request_Sent :: u8 where
  "FSM_Channel_To_Client_DNS_Request_Sent = 5"

lemmas channel_states = FSM_Channel_Idle_def FSM_Channel_DNS_Request_def FSM_Channel_Connect_def
  FSM_Channel_Connected_def FSM_Channel_Disconnect_def FSM_Channel_To_Client_DNS_Request_Sent_def

text \<open>Whether each call succeeds: \<open>WSAStartup\<close>, the resolution of the server name, \<open>socket\<close>,
  \<open>connect\<close> and \<open>CreateThread\<close>.\<close>

record net_env =
  n_startup :: bool
  n_resolved :: bool
  n_socket :: bool
  n_connect :: bool
  n_thread :: bool

record channel = "channel_proc fsm" +
  H_DNSRequestInput :: "u8 list"
  H_FirstStartFlag :: "32 word"
  H_Socket :: bool
  H_Sent :: "u8 list list"
  H_Listening :: bool
  H_Net :: net_env

type_synonym ('z, 'a) chop = "(kernel \<times> 'z channel_scheme, 'a) op"

definition ChAuto :: "('z, unit) chop" where
  "ChAuto = FiniteStateMachine CH_AUTOMATE_TYPE_ID CH_AUTOMATE_MBX_ID 1 6 3 True"

definition channel_branches :: "(u8 \<times> u16 \<times> channel_proc) list" where
  "channel_branches =
     [(FSM_Channel_Idle, MSG_Channel_Idle, FSM_Channel_Idle_State),
      (FSM_Channel_DNS_Request, MSG_Client_To_Channel_DNS_Request_Sent, FSM_Channel_Get_DNS_Request),
      (FSM_Channel_Connect, MSG_Channel_Create_Socket, FSM_Channel_Connect_State),
      (FSM_Channel_Connected, MSG_Channel_DNS_Request_Send, FSM_Channel_Connected_State),
      (FSM_Channel_Connected, MSG_Channel_DNS_Request_Recive,
        FSM_Channel_Recive_DNS_Request_From_Server),
      (FSM_Channel_Disconnect, MSG_Channel_Disconnect, FSM_Channel_Disconnect_State),
      (FSM_Channel_To_Client_DNS_Request_Sent, MSG_Channel_To_Client_DNS_Request_Recived,
        FSM_Channel_To_Client_DNS_Request_Pass)]"

definition channel_Initialize :: "('z, unit) chop" where
  "channel_Initialize =
     run ((\<lambda>(K, A). Inr ((), K, A\<lparr>H_FirstStartFlag := 0\<rparr>)) #
          SetState FSM_Channel_Idle #
          map (\<lambda>(st, code, p). InitEventProc st code (Some (Proc p))) channel_branches)"

definition channel_idle_state :: "('z, unit) chop" where
  "channel_idle_state =
     run [SetState FSM_Channel_DNS_Request,
          (\<lambda>(K, A). Inr ((), K, A\<lparr>H_FirstStartFlag := H_FirstStartFlag A + 1\<rparr>))]"

definition channel_get_request :: "bool \<Rightarrow> ('z, unit) chop" where
  "channel_get_request nd =
     run [bnd (param_size nd PARAM_DNS_INPUT) (\<lambda>p (K, A).
            bnd (param_copy p (H_DNSRequestInput A)) (\<lambda>s (K, A).
              Inr ((), K, A\<lparr>H_DNSRequestInput := s\<rparr>)) (K, A)),
          (\<lambda>(K, A). if H_FirstStartFlag A = 1
             then run [send_to nd MSG_Channel_Create_Socket CH_AUTOMATE_TYPE_ID CH_AUTOMATE_MBX_ID,
                       SetState FSM_Channel_Connect] (K, A)
             else Inr ((), K, A))]"

text \<open>Every failure returns at once; only a socket that has been created is closed.\<close>

definition channel_connect :: "('z, unit) chop" where
  "channel_connect = (\<lambda>(K, A). let e = H_Net A in
     if \<not> n_startup e then Inr ((), K, A)
     else if \<not> n_resolved e then Inr ((), K, A)
     else if \<not> n_socket e then Inr ((), K, A\<lparr>H_Socket := False\<rparr>)
     else if \<not> n_connect e then Inr ((), K, A\<lparr>H_Socket := False\<rparr>)
     else bindR (c_str (H_DNSRequestInput A)) (\<lambda>s.
       let A = A\<lparr>H_Socket := True, H_Sent := H_Sent A @ [s]\<rparr> in
       if n_thread e then Inr ((), K, A\<lparr>H_Listening := True\<rparr>)
       else Inr ((), K, A\<lparr>H_Socket := False\<rparr>)))"

definition channel_disconnect_state :: "bool \<Rightarrow> ('z, unit) chop" where
  "channel_disconnect_state nd =
     run [send_to nd MSG_Channel_Idle CH_AUTOMATE_TYPE_ID CH_AUTOMATE_MBX_ID,
          SetState FSM_Channel_Idle]"

text \<open>\<open>apBuffer\<close> is the memory behind the pointer, \<open>anBufferLength\<close> the number of bytes received.\<close>

definition channel_request_pass :: "bool \<Rightarrow> u8 list \<Rightarrow> u16 \<Rightarrow> ('z, unit) chop" where
  "channel_request_pass nd apBuffer anBufferLength =
     run [send_str nd MSG_Channel_To_Client_DNS_Request_Recived CL_AUTOMATE_TYPE_ID CL_AUTOMATE_MBX_ID
            PARAM_DATA (ucast anBufferLength) apBuffer,
          send_to nd MSG_Channel_Disconnect CH_AUTOMATE_TYPE_ID CH_AUTOMATE_MBX_ID,
          SetState FSM_Channel_Disconnect]"

text \<open>
  The last procedure takes two arguments, its branch calls it with none; no state leads to that
  branch.
\<close>

fun channel_exec :: "bool \<Rightarrow> channel_proc \<Rightarrow> ('z, unit) chop" where
  "channel_exec nd FSM_Channel_Idle_State = channel_idle_state"
| "channel_exec nd FSM_Channel_Get_DNS_Request = channel_get_request nd"
| "channel_exec nd FSM_Channel_Connect_State = channel_connect"
| "channel_exec nd FSM_Channel_Connected_State = ret ()"
| "channel_exec nd FSM_Channel_Recive_DNS_Request_From_Server = ret ()"
| "channel_exec nd FSM_Channel_Disconnect_State = channel_disconnect_state nd"
| "channel_exec nd FSM_Channel_To_Client_DNS_Request_Pass = fails OutOfBounds"

subsection \<open>The listening thread\<close>

text \<open>
  What a call of \<open>recv\<close> returns: at most 255 bytes, the end of the connection, or an error.  The
  thread runs the handlers itself, each call here being one step of the system.
\<close>

datatype recv_result = Received "u8 list" | Closed | RecvError

definition listener_step :: "bool \<Rightarrow> recv_result \<Rightarrow> ('z, unit) chop" where
  "listener_step nd r = (\<lambda>(K, A). if \<not> H_Listening A then Inr ((), K, A) else
     case r of
       Received bs \<Rightarrow> channel_request_pass nd (bs @ replicate (255 - length bs) 0) (of_nat (length bs)) (K, A)
     | Closed \<Rightarrow> run [channel_disconnect_state nd, (\<lambda>(K, A). Inr ((), K, A\<lparr>H_Listening := False\<rparr>))] (K, A)
     | RecvError \<Rightarrow> Inr ((), K, A\<lparr>H_Listening := False\<rparr>))"

end
