(* ===== verification/ChannelSpec.thy ===== *)
theory ChannelSpec
  imports AutomatonContract ChAuto
begin

text \<open>
  The abstract channel automaton, the proof that each procedure of \<open>ChAuto\<close> does its abstract step,
  \<open>chproc_refines\<close>, and the proof that the listening thread does, \<open>listener_refines\<close>.
\<close>

subsection \<open>Steps\<close>

record chview =
  v_state :: u8
  v_name :: "u8 list result"
  v_starts :: "32 word"
  v_socket :: bool
  v_sent :: "u8 list list"
  v_listening :: bool
  v_net :: net_env

text \<open>The name goes to the server when the connection is there; the thread may still fail to start.\<close>

definition connect_view :: "chview \<Rightarrow> chview" where
  "connect_view v = (let e = v_net v in
     if \<not> n_startup e \<or> \<not> n_resolved e then v
     else if \<not> n_socket e \<or> \<not> n_connect e then v\<lparr>v_socket := False\<rparr>
     else v\<lparr>v_socket := n_thread e, v_sent := v_sent v @ [projr (v_name v)],
       v_listening := v_listening v \<or> n_thread e\<rparr>)"

fun chproc_step :: "channel_proc \<Rightarrow> chview \<Rightarrow> param list \<Rightarrow> chview \<times> outgoing list" where
  "chproc_step FSM_Channel_Idle_State v ps =
     (v\<lparr>v_state := FSM_Channel_DNS_Request, v_starts := v_starts v + 1\<rparr>, [])"
| "chproc_step FSM_Channel_Get_DNS_Request v ps =
     (let v' = v\<lparr>v_name := Inr (the (map_of ps PARAM_DNS_INPUT))\<rparr> in
      if v_starts v = 1
      then (v'\<lparr>v_state := FSM_Channel_Connect\<rparr>,
            [(CH_AUTOMATE_MBX_ID, MSG_Channel_Create_Socket, CH_AUTOMATE_TYPE_ID, [])])
      else (v', []))"
| "chproc_step FSM_Channel_Connect_State v ps = (connect_view v, [])"
| "chproc_step FSM_Channel_Connected_State v ps = (v, [])"
| "chproc_step FSM_Channel_Recive_DNS_Request_From_Server v ps = (v, [])"
| "chproc_step FSM_Channel_Disconnect_State v ps =
     (v\<lparr>v_state := FSM_Channel_Idle\<rparr>, [(CH_AUTOMATE_MBX_ID, MSG_Channel_Idle, CH_AUTOMATE_TYPE_ID, [])])"
| "chproc_step FSM_Channel_To_Client_DNS_Request_Pass v ps = (v, [])"

definition channel_step :: "chview \<Rightarrow> u16 \<Rightarrow> param list \<Rightarrow> chview \<times> outgoing list" where
  "channel_step v code ps = (case proc_for channel_branches (v_state v) code of
     DoNothing \<Rightarrow> (v, []) | Proc p \<Rightarrow> chproc_step p v ps)"

fun chproc_needs :: "nat \<Rightarrow> channel_proc \<Rightarrow> chview \<Rightarrow> param list \<Rightarrow> bool" where
  "chproc_needs k FSM_Channel_Get_DNS_Request v ps = string_param ps PARAM_DNS_INPUT"
| "chproc_needs k FSM_Channel_Connect_State v ps = string_upto 255 (v_name v)"
| "chproc_needs k FSM_Channel_To_Client_DNS_Request_Pass v ps = False"
| "chproc_needs k _ v ps = True"

definition channel_needs :: "nat \<Rightarrow> chview \<Rightarrow> u16 \<Rightarrow> param list \<Rightarrow> bool" where
  "channel_needs k v code ps = (case proc_for channel_branches (v_state v) code of
     DoNothing \<Rightarrow> True | Proc p \<Rightarrow> chproc_needs k p v ps)"

text \<open>What the listening thread does with the result of \<open>recv\<close>.\<close>

definition listen_step :: "chview \<Rightarrow> recv_result \<Rightarrow> chview \<times> outgoing list" where
  "listen_step v r = (if \<not> v_listening v then (v, []) else case r of
     Received bs \<Rightarrow> (v\<lparr>v_state := FSM_Channel_Disconnect\<rparr>,
       [(CL_AUTOMATE_MBX_ID, MSG_Channel_To_Client_DNS_Request_Recived, CL_AUTOMATE_TYPE_ID, [(PARAM_DATA, bs)]),
        (CH_AUTOMATE_MBX_ID, MSG_Channel_Disconnect, CH_AUTOMATE_TYPE_ID, [])])
   | Closed \<Rightarrow> (v\<lparr>v_state := FSM_Channel_Idle, v_listening := False\<rparr>,
       [(CH_AUTOMATE_MBX_ID, MSG_Channel_Idle, CH_AUTOMATE_TYPE_ID, [])])
   | RecvError \<Rightarrow> (v\<lparr>v_listening := False\<rparr>, []))"

subsection \<open>The automaton\<close>

definition channel_ok :: "'z channel_scheme \<Rightarrow> bool" where
  "channel_ok A \<longleftrightarrow> (\<exists>ss. F_States A = Some ss \<and> states_ok 3 6 channel_branches ss) \<and> length (H_DNSRequestInput A) = 256"

definition channel_view :: "'z channel_scheme \<Rightarrow> chview" where
  "channel_view A = \<lparr>v_state = A_State A, v_name = c_str (H_DNSRequestInput A), v_starts = H_FirstStartFlag A,
     v_socket = H_Socket A, v_sent = H_Sent A, v_listening = H_Listening A, v_net = H_Net A\<rparr>"

lemma channel_view_sel [simp]:
  "v_state (channel_view A) = A_State A" "v_name (channel_view A) = c_str (H_DNSRequestInput A)"
  "v_starts (channel_view A) = H_FirstStartFlag A" "v_socket (channel_view A) = H_Socket A"
  "v_sent (channel_view A) = H_Sent A" "v_listening (channel_view A) = H_Listening A" "v_net (channel_view A) = H_Net A"
  by (simp_all add: channel_view_def)

lemma channel_view_upd [simp]:
  "channel_view (A\<lparr>A_State := st\<rparr>) = (channel_view A)\<lparr>v_state := st\<rparr>"
  "channel_view (A\<lparr>H_FirstStartFlag := n\<rparr>) = (channel_view A)\<lparr>v_starts := n\<rparr>"
  "channel_view (A\<lparr>H_Socket := b\<rparr>) = (channel_view A)\<lparr>v_socket := b\<rparr>"
  "channel_view (A\<lparr>H_Sent := ws\<rparr>) = (channel_view A)\<lparr>v_sent := ws\<rparr>"
  "channel_view (A\<lparr>H_Listening := b\<rparr>) = (channel_view A)\<lparr>v_listening := b\<rparr>"
  "channel_view (A\<lparr>H_DNSRequestInput := s\<rparr>) = (channel_view A)\<lparr>v_name := c_str s\<rparr>"
  "channel_view (A\<lparr>H_If := x\<rparr>) = channel_view A"
  by (simp_all add: channel_view_def)

lemma channel_data:
  fixes A A' :: "'z channel_scheme"
  assumes "handler.more A' = handler.more A"
  shows "channel_ok A' = channel_ok A" "channel_view A' = channel_view A"
  using assms by (cases A; cases A'; simp add: channel_ok_def channel_view_def)+

lemma channel_ok_upd [simp]:
  "channel_ok (A\<lparr>A_State := st\<rparr>) = channel_ok A" "channel_ok (A\<lparr>H_FirstStartFlag := n\<rparr>) = channel_ok A"
  "channel_ok (A\<lparr>H_Socket := b\<rparr>) = channel_ok A" "channel_ok (A\<lparr>H_Sent := ws\<rparr>) = channel_ok A"
  "channel_ok (A\<lparr>H_Listening := b\<rparr>) = channel_ok A" "channel_ok (A\<lparr>H_If := x\<rparr>) = channel_ok A"
  "length s = 256 \<Longrightarrow> channel_ok A \<Longrightarrow> channel_ok (A\<lparr>H_DNSRequestInput := s\<rparr>)"
  by (simp_all add: channel_ok_def)

abbreviation channel_done where
  "channel_done \<equiv> step_done channel_ok channel_view (\<lambda>_. None)"

lemma channel_finish:
  fixes A A' B :: "'z channel_scheme"
  assumes "progress k n a own A mss K outs L K' B"
    and "H_CurrentMessage A' = H_CurrentMessage B" "CurrentMessage (H_If A') = CurrentMessage (H_If B)"
    and "H_NewMessage A' = H_NewMessage B" "H_codec A' = H_codec B"
    and "A_automateId A' = A_automateId B" "A_GroupId A' = A_GroupId B" "A_ConnectionId A' = A_ConnectionId B"
    and "channel_ok A'" "channel_view A' = v"
  shows "channel_done k a own A mss L K (v, outs) K' A'"
  by (rule step_done_same [OF progress_cong [OF assms(1-8)]]) (use assms(9,10) in simp_all)

lemma channel_sent:
  fixes A A' B :: "'z channel_scheme"
  assumes "progress k n a own A mss K outs L K' A'" "sent B A'" "channel_ok B" "v = (channel_view B)\<lparr>v_state := st\<rparr>"
  shows "channel_done k a own A mss L K (v, outs) K' (A'\<lparr>A_State := st\<rparr>)"
  by (rule channel_finish [OF assms(1)]) (use channel_data [OF sent_sel(5) [OF assms(2)]] assms(3,4) in simp_all)

subsection \<open>The procedures\<close>

lemma channel_idle_ok:
  fixes A :: "'z channel_scheme"
  assumes P: "progress k 3 a own A mss K [] L K A" and ok: "channel_ok A"
  shows "achieves channel_idle_state K A (channel_done k a own A mss L K
    (chproc_step FSM_Channel_Idle_State (channel_view A) ps))"
proof -
  let ?A = "A\<lparr>A_State := FSM_Channel_DNS_Request, H_FirstStartFlag := H_FirstStartFlag A + 1\<rparr>"
  have "channel_done k a own A mss L K (chproc_step FSM_Channel_Idle_State (channel_view A) ps) K ?A"
    unfolding chproc_step.simps by (rule channel_finish [OF P]) (use ok in simp_all)
  then show ?thesis
    unfolding channel_idle_state_def achieves_run_Cons achieves_run_Nil SetState_achieves by (simp add: achieves_def)
qed

lemma channel_get_request_ok:
  fixes A :: "'z channel_scheme"
  assumes P: "progress k 3 a own A mss K [] L K A" and ok: "channel_ok A"
    and ps: "has_params pc16 (bytes K a) ps" "string_param ps PARAM_DNS_INPUT"
  shows "achieves (channel_get_request nd) K A (channel_done k a own A mss L K
    (chproc_step FSM_Channel_Get_DNS_Request (channel_view A) ps))"
proof -
  let ?r = "chproc_step FSM_Channel_Get_DNS_Request (channel_view A) ps"
  from string_paramD [OF ps(2)] obtain v where
    v: "map_of ps PARAM_DNS_INPUT = Some v" "0 \<notin> set v" "length v < 256" by blast
  have l: "length (H_DNSRequestInput A) = 256" using ok by (simp add: channel_ok_def)
  let ?s = "v @ 0 # drop (length v + 1) (H_DNSRequestInput A)"
  from progress_read [OF P ps(1) v(1,3) l, of nd] obtain off i where
    p: "param_size nd PARAM_DNS_INPUT (K, A) = Inr ((a, i, length v), K, A\<lparr>H_If := (H_If A)\<lparr>CurrentOffset := off\<rparr>\<rparr>)"
      "\<And>A' :: 'z channel_scheme. param_copy (a, i, length v) (H_DNSRequestInput A) (K, A') = Inr (?s, K, A')"
    by blast
  let ?A = "A\<lparr>H_If := (H_If A)\<lparr>CurrentOffset := off\<rparr>, H_DNSRequestInput := ?s\<rparr>"
  have 1: "progress k (Suc 2) a own A mss K [] L K ?A"
    unfolding progress3 [symmetric] by (rule progress_cong [OF P]) simp_all
  have ok': "channel_ok ?A" using ok v(3) l by simp
  have vw: "channel_view ?A = (channel_view A)\<lparr>v_name := Inr v\<rparr>" using c_str_copied [OF v(2)] by simp
  have "achieves (run [send_to nd MSG_Channel_Create_Socket CH_AUTOMATE_TYPE_ID CH_AUTOMATE_MBX_ID,
      SetState FSM_Channel_Connect]) K ?A (channel_done k a own A mss L K ?r)" if "H_FirstStartFlag A = 1"
  proof (rule progress_send_then [OF 1 mbx_ids(1)])
    fix K' and A' :: "'z channel_scheme"
    assume r: "sent ?A A'" "progress k 2 a own A mss K
      ([] @ [(CH_AUTOMATE_MBX_ID, MSG_Channel_Create_Socket, CH_AUTOMATE_TYPE_ID, [])]) L K' A'"
    show "achieves (run [SetState FSM_Channel_Connect]) K' A' (channel_done k a own A mss L K ?r)"
      using channel_sent [OF r(2,1) ok' refl] vw that v(1) by (simp add: achieves_run_Cons)
  qed
  moreover have "channel_done k a own A mss L K ?r K ?A" if "H_FirstStartFlag A \<noteq> 1"
    using channel_finish [where A' = ?A, OF 1 _ _ _ _ _ _ _ ok' vw] that v(1) by simp
  ultimately show ?thesis
    unfolding channel_get_request_def achieves_run_Cons [of "bnd _ _"] achieves_run_Cons [of "\<lambda>(K, A). _ K A"] achieves_run_Nil
    by (auto simp: achieves_def p)
qed

lemma channel_connect_ok:
  fixes A :: "'z channel_scheme"
  assumes P: "progress k 3 a own A mss K [] L K A" and ok: "channel_ok A"
    and n: "string_upto 255 (c_str (H_DNSRequestInput A))"
  shows "achieves channel_connect K A (channel_done k a own A mss L K
    (chproc_step FSM_Channel_Connect_State (channel_view A) ps))"
proof -
  from string_uptoD [OF n] obtain v where v: "c_str (H_DNSRequestInput A) = Inr v" by blast
  have "\<exists>A'. channel_connect (K, A) = Inr ((), K, A') \<and> channel_ok A' \<and> channel_view A' = connect_view (channel_view A) \<and>
      H_CurrentMessage A' = H_CurrentMessage A \<and> H_If A' = H_If A \<and> H_NewMessage A' = H_NewMessage A \<and>
      H_codec A' = H_codec A \<and> A_automateId A' = A_automateId A \<and> A_GroupId A' = A_GroupId A \<and>
      A_ConnectionId A' = A_ConnectionId A"
    using ok v by (auto simp: channel_connect_def connect_view_def Let_def)
  then obtain A' where r: "channel_connect (K, A) = Inr ((), K, A')" "channel_ok A'"
    "channel_view A' = connect_view (channel_view A)" "H_CurrentMessage A' = H_CurrentMessage A" "H_If A' = H_If A"
    "H_NewMessage A' = H_NewMessage A" "H_codec A' = H_codec A" "A_automateId A' = A_automateId A"
    "A_GroupId A' = A_GroupId A" "A_ConnectionId A' = A_ConnectionId A" by blast
  show ?thesis
    unfolding achieves_def chproc_step.simps
    using r(1) channel_finish [OF P r(4) _ r(6-10,2,3)] r(5) by auto
qed

lemma channel_disconnect_ok:
  fixes A :: "'z channel_scheme"
  assumes P: "progress k 3 a own A mss K [] L K A" and ok: "channel_ok A"
  shows "achieves (channel_disconnect_state nd) K A (channel_done k a own A mss L K
    (chproc_step FSM_Channel_Disconnect_State (channel_view A) ps))"
  unfolding channel_disconnect_state_def
proof (rule progress_send_then [OF P [unfolded progress3] mbx_ids(1)])
  fix K' and A' :: "'z channel_scheme"
  assume "sent A A'" "progress k 2 a own A mss K ([] @ [(CH_AUTOMATE_MBX_ID, MSG_Channel_Idle, CH_AUTOMATE_TYPE_ID, [])]) L K' A'"
  from channel_sent [OF this(2,1) ok refl]
  show "achieves (run [SetState FSM_Channel_Idle]) K' A' (channel_done k a own A mss L K
      (chproc_step FSM_Channel_Disconnect_State (channel_view A) ps))" by (simp add: achieves_run_Cons)
qed

text \<open>All procedures.\<close>

lemma chproc_refines:
  fixes A :: "'z channel_scheme"
  assumes P: "progress k 3 a own A mss K [] L K A" and ok: "channel_ok A"
    and ps: "carries (bytes K a) ps" and n: "chproc_needs k p (channel_view A) ps"
  shows "achieves (channel_exec nd p) K A (channel_done k a own A mss L K (chproc_step p (channel_view A) ps))"
proof -
  have skip: "achieves (ret ()) K A (channel_done k a own A mss L K (channel_view A, []))"
    using channel_finish [OF P refl refl refl refl refl refl refl ok refl] by simp
  show ?thesis
  proof (cases p)
    case FSM_Channel_Idle_State
    then show ?thesis using channel_idle_ok [OF P ok] by simp
  next
    case FSM_Channel_Get_DNS_Request
    with n string_param_nonempty ps have "has_params pc16 (bytes K a) ps" "string_param ps PARAM_DNS_INPUT"
      by (auto simp: carries_def)
    with channel_get_request_ok [OF P ok] FSM_Channel_Get_DNS_Request show ?thesis by simp
  next
    case FSM_Channel_Connect_State
    with n channel_connect_ok [OF P ok] show ?thesis by simp
  next
    case FSM_Channel_Disconnect_State
    with channel_disconnect_ok [OF P ok] show ?thesis by simp
  qed (use skip n in simp_all)
qed

subsection \<open>The listening thread\<close>

lemma sending_handled:
  assumes "sending k n own A mss K outs L K' A'" "H_CurrentMessage A' = None"
  shows "handled own A mss L K outs None None K' A'"
proof -
  note D = sendingD [OF assms(1)]
  from D(9) obtain mss' fss where "k_ok K' own mss' L fss" "sends A mss outs mss' (bytes K')" by blast
  then show ?thesis unfolding handled_def using D(1-4,8,10-12) assms(2) timers_follow_same by blast
qed

lemma channel_handled:
  fixes A A' B :: "'z channel_scheme"
  assumes "sending k n own A mss K outs L K' A'" "sent A A'" "H_CurrentMessage A = None" "channel_ok A"
    and B: "B = A'\<lparr>A_State := st, H_Listening := l\<rparr> \<or> B = A'\<lparr>A_State := st\<rparr> \<and> l = H_Listening A"
  shows "channel_ok B \<and> channel_view B = (channel_view A)\<lparr>v_state := st, v_listening := l\<rparr> \<and>
    handled own A mss L K outs None None K' B"
proof -
  note d = channel_data [OF sent_sel(5) [OF assms(2)]]
  have "sending k n own A mss K outs L K' B" "H_CurrentMessage B = None"
    using assms(1,3) sent_sel(1) [OF assms(2)] B by (auto simp: sending_def)
  then have "handled own A mss L K outs None None K' B" by (rule sending_handled)
  moreover have "channel_view A = (channel_view A)\<lparr>v_listening := H_Listening A\<rparr>" by (simp add: channel_view_def)
  moreover have "(channel_view A)\<lparr>v_state := st\<rparr> = (channel_view A)\<lparr>v_state := st, v_listening := H_Listening A\<rparr>"
    by (simp add: channel_view_def)
  ultimately show ?thesis using B d assms(4) by auto
qed

lemma listener_refines:
  fixes A :: "'z channel_scheme"
  assumes S: "sending k 2 own A mss K [] L K A" and A: "H_CurrentMessage A = None" "channel_ok A"
    and r: "\<And>bs. r = Received bs \<Longrightarrow> length bs \<le> min k 255"
  shows "achieves (listener_step nd r) K A (\<lambda>K' A'. channel_ok A' \<and>
    channel_view A' = fst (listen_step (channel_view A) r) \<and>
    handled own A mss L K (snd (listen_step (channel_view A) r)) None None K' A')" (is "achieves _ K A ?R")
proof (cases "H_Listening A")
  case False
  then show ?thesis using sending_handled [OF S A(1)] A(2) by (simp add: achieves_def listener_step_def listen_step_def)
next
  case True
  have S1: "sending k (Suc 1) own A mss K [] L K A" using S by (simp only: Suc_1)
  show ?thesis
  proof (cases r)
    case (Received bs)
    let ?m = "(CL_AUTOMATE_MBX_ID, MSG_Channel_To_Client_DNS_Request_Recived, CL_AUTOMATE_TYPE_ID, [(PARAM_DATA, bs)])"
    let ?data = "bs @ replicate (255 - length bs) 0"
    have len: "length bs \<le> k" "length bs \<le> 255" using r [OF Received] by simp_all
    have u: "unat (of_nat (length bs) :: u16) = length bs" using len(2) by (intro unat_of_nat_less) simp
    have "take_bit 16 (length bs) = length bs" using len(2) by (intro take_bit_nat_eq_self) simp
    then have w: "ucast (of_nat (length bs) :: u16) = (of_nat (length bs) :: u32)" by (simp add: unsigned_of_nat)
    let ?add = "bnd (mh_AddParam nd PARAM_DATA (of_nat (length bs)) ?data) (\<lambda>_. ret ())"
    let ?gs = "[send_to nd MSG_Channel_Disconnect CH_AUTOMATE_TYPE_ID CH_AUTOMATE_MBX_ID, SetState FSM_Channel_Disconnect]"
    have fs: "channel_request_pass nd ?data (of_nat (length bs)) =
        run (run (prepared nd MSG_Channel_To_Client_DNS_Request_Recived CL_AUTOMATE_TYPE_ID @
          [?add, SendMessage CL_AUTOMATE_MBX_ID]) # ?gs)"
      by (simp add: channel_request_pass_def send_str_def prepared_def w)
    have p: "PARAM_DATA \<noteq> 0" "unat PARAM_DATA < 65536" by (simp_all add: PARAM_DATA_def)
    have "achieves (channel_request_pass nd ?data (of_nat (length bs))) K A ?R"
      unfolding fs achieves_run_Cons [where fs = ?gs]
    proof (rule achieves_mono [OF sending_send_param [OF S1 mbx_ids(2) p len(1) refl]], elim conjE)
      fix K1 and A1 :: "'z channel_scheme"
      assume 1: "sent A A1" "sending k 1 own A mss K ([] @ [?m]) L K1 A1"
      then have "sending k (Suc 0) own A mss K [?m] L K1 A1" by simp
      from sending_send_to [OF this mbx_ids(1), of nd MSG_Channel_Disconnect CH_AUTOMATE_TYPE_ID]
      show "achieves (run ?gs) K1 A1 ?R" unfolding achieves_run_Cons achieves_run_Nil SetState_achieves
      proof (rule achieves_mono, elim conjE)
        fix K2 and A2 :: "'z channel_scheme"
        assume 2: "sent A1 A2" "sending k 0 own A mss K ([?m] @ [(CH_AUTOMATE_MBX_ID, MSG_Channel_Disconnect, CH_AUTOMATE_TYPE_ID, [])]) L K2 A2"
        from channel_handled [OF 2(2) sent_trans [OF 1(1) 2(1)] A disjI2 [OF conjI [OF refl refl]], where st = FSM_Channel_Disconnect] True
        show "?R K2 (A2\<lparr>A_State := FSM_Channel_Disconnect\<rparr>)"
          using Received by (simp add: listen_step_def channel_view_def)
      qed
    qed
    then show ?thesis using True Received by (simp add: achieves_def listener_step_def)
  next
    case Closed
    have "achieves (run [channel_disconnect_state nd, (\<lambda>(K, A). Inr ((), K, A\<lparr>H_Listening := False\<rparr>))]) K A ?R"
      unfolding achieves_run_Cons [of "channel_disconnect_state nd"] achieves_run_Cons [of "\<lambda>(K, A). _ K A"] achieves_run_Nil
      unfolding channel_disconnect_state_def achieves_run_Cons [of "send_to _ _ _ _"] achieves_run_Cons [of "SetState _"]
        achieves_run_Nil SetState_achieves
    proof (rule achieves_mono [OF sending_send_to [OF S1 mbx_ids(1)]], elim conjE)
      fix K1 and A1 :: "'z channel_scheme"
      assume 1: "sent A A1" "sending k 1 own A mss K ([] @ [(CH_AUTOMATE_MBX_ID, MSG_Channel_Idle, CH_AUTOMATE_TYPE_ID, [])]) L K1 A1"
      from channel_handled [OF 1(2,1) A disjI1 [OF refl], where st = FSM_Channel_Idle and l = False] True
      show "achieves (\<lambda>(K, A). Inr ((), K, A\<lparr>H_Listening := False\<rparr>)) K1 (A1\<lparr>A_State := FSM_Channel_Idle\<rparr>) ?R"
        using Closed by (simp add: listen_step_def achieves_def)
    qed
    then show ?thesis using True Closed by (simp add: achieves_def listener_step_def)
  next
    case RecvError
    have "sending k 2 own A mss K [] L K (A\<lparr>H_Listening := False\<rparr>)" using S by (simp add: sending_def)
    from sending_handled [OF this] A RecvError True show ?thesis
      by (simp add: achieves_def listener_step_def listen_step_def)
  qed
qed

end
