(* ===== verification/ChannelProps.thy ===== *)
theory ChannelProps
  imports ChannelSpec DemoAutomata
begin

text \<open>
  The properties of the channel automaton: it is ready after its constructor and \<open>Initialize\<close>,
  \<open>Process\<close> makes exactly the abstract steps of \<open>channel_step\<close>, the listening thread those of
  \<open>listen_step\<close>, and a second request is never sent to the server.
\<close>

lemma channel_table_fits: "table_fits 3 6 channel_branches"
proof -
  have "length (rows_of channel_branches st) \<le> 3" for st
    unfolding channel_branches_def channel_states rows_of_simps unat_small by auto
  moreover have "\<forall>(s, e, p) \<in> set channel_branches. unat s < 6"
    by (simp add: channel_branches_def channel_states)
  moreover have "distinct (map (\<lambda>(s, e, p). (s, e)) channel_branches)"
    by (simp add: channel_branches_def channel_states msg_codes)
  ultimately show ?thesis by (simp add: table_fits_def)
qed

lemma channel_built: "H_codec A = pc16 \<Longrightarrow> \<exists>B. ChAuto (K, A) = Inr ((), K\<lparr>K_Api := False, K_LogingObject := None\<rparr>, B) \<and>
    built CH_AUTOMATE_TYPE_ID CH_AUTOMATE_MBX_ID 6 3 A B"
  unfolding ChAuto_def by (rule FiniteStateMachine_built) simp_all

lemma channel_initialized:
  fixes A B :: "'z channel_scheme"
  assumes B: "built au mbx 6 3 A B" and len: "length (H_DNSRequestInput A) = 256"
  shows "\<exists>A'. channel_Initialize (K, B) = Inr ((), K, A') \<and> idle A' \<and> channel_ok A' \<and>
    channel_view A' = (channel_view A)\<lparr>v_state := FSM_Channel_Idle, v_starts := 0\<rparr>"
proof -
  let ?B = "B\<lparr>H_FirstStartFlag := 0\<rparr>"
  have more: "H_DNSRequestInput B = H_DNSRequestInput A" "H_Socket B = H_Socket A" "H_Sent B = H_Sent A"
    "H_Listening B = H_Listening A" "H_Net B = H_Net A"
    using B by (cases A; cases B; simp add: built_def)+
  from B have "F_States ?B = Some (replicate 6 (fresh_state 3))" "F_MaxNumOfProcPerState ?B = 3"
    by (simp_all add: built_def)
  from init_rows_fresh [OF this channel_table_fits, of K] obtain ss where
    i: "init_rows channel_branches (K, ?B) = Inr ((), K, ?B\<lparr>F_States := Some ss\<rparr>)" "states_ok 3 6 channel_branches ss"
    by blast
  have s: "SetState FSM_Channel_Idle (K, ?B) = Inr ((), K, ?B)"
    using B by (simp add: SetState_def upd_def built_def FSM_Channel_Idle_def)
  have "channel_Initialize (K, B) = Inr ((), K, ?B\<lparr>F_States := Some ss\<rparr>)"
    using s i(1) by (simp add: channel_Initialize_def init_rows_def [symmetric])
  then show ?thesis using i(2) more len B
    by (intro exI [of _ "?B\<lparr>F_States := Some ss\<rparr>"])
      (simp add: channel_ok_def channel_view_def FSM_Channel_Idle_def built_def idle_def)
qed

subsection \<open>The refinement\<close>

interpretation channel: automaton "channel_exec nd" channel_branches channel_ok channel_view v_state "\<lambda>_. None"
  chproc_needs chproc_step for nd
proof
  fix A A' :: "'a channel_scheme"
  show "channel_ok A \<Longrightarrow> \<exists>ss k n. F_States A = Some ss \<and> states_ok k n channel_branches ss \<and>
      (\<forall>st \<in> fst ` set channel_branches. unat st < n)"
    using channel_table_fits by (fastforce simp: channel_ok_def table_fits_def)
  show "v_state (channel_view A) = A_State A" by simp
  show "handler.more A' = handler.more A \<Longrightarrow>
      channel_ok A' = channel_ok A \<and> channel_view A' = channel_view A \<and> None = None" using channel_data by metis
qed (rule chproc_refines)

lemma channel_table_step:
  "channel.table_step = channel_step" "channel.table_needs = channel_needs"
  by (intro ext; simp add: channel.table_step_def channel.table_needs_def channel_step_def channel_needs_def)+

text \<open>C24: \<open>Process\<close> refines the abstract channel automaton: in every state that has a branch and for
  every message that the state can handle (\<open>channel_needs\<close>) the call succeeds, the new state, the name, what went to the server and the counter
  of starts are those of \<open>channel_step\<close>, whatever the calls of the socket library return; exactly the
  messages of \<open>channel_step\<close> are sent, and no buffer is lost.  A request must carry a name, a name to be sent
  must end within its array, and the branch of the state \<open>FSM_Channel_To_Client_DNS_Request_Sent\<close> for
  \<open>MSG_Channel_To_Client_DNS_Request_Recived\<close>, whose procedure is called without its two arguments, is left out.\<close>

theorem channel_refines:
  assumes "ready_for k 3 a own mss L K A" "channel_ok A"
    and "loggable nd (bytes K a)" "GetUint16 (bytes K a) MSG_CODE = code" "carries (bytes K a) ps"
    and "A_State A \<in> fst ` set channel_branches" "channel_needs k (channel_view A) code ps"
  shows "\<exists>K' A'. Process nd (channel_exec nd) (Some a) (K, A) = Inr ((), K', A') \<and> channel_ok A' \<and>
    channel_view A' = fst (channel_step (channel_view A) code ps) \<and>
    handled own A mss L K (snd (channel_step (channel_view A) code ps)) None None K' A'"
  using channel.Process_step [OF assms(1,2) _ assms(3-6), of nd] assms(7) unfolding channel_table_step achieves_def
  by simp

definition raw_channel :: channel where
  "raw_channel = \<lparr>H_CurrentMessage = None, H_NewMessage = None, H_codec = pc16, H_If = MessageInterface,
     A_mbxId = 0, A_automateId = 0, A_TimerResolution = Timer1s, A_LogFlag = 0, A_ConnectionId = 0, A_GroupId = 0,
     A_CallId = 0, A_LeftMbx = 0, A_LeftAutomate = 0, A_LeftGroup = 0, A_LeftObjectId = 0, A_RightMbx = 0,
     A_RightAutomate = 0, A_RightGroup = 0, A_RightObjectId = 0, A_State = 0,
     F_ReturnMemory = False, F_TimerStore = [], F_NumOfStates = 0, F_NumOfTimers = 0,
     F_MaxNumOfProcPerState = 0, F_States = None,
     H_DNSRequestInput = 97 # replicate 255 0, H_FirstStartFlag = 0, H_Socket = False, H_Sent = [], H_Listening = False,
     H_Net = \<lparr>n_startup = True, n_resolved = True, n_socket = True, n_connect = True, n_thread = True\<rparr>\<rparr>"

definition demo_channel :: channel where
  "demo_channel = (case run [ChAuto, channel_Initialize] (run_kernel [], raw_channel) of
     Inr (_, _, A) \<Rightarrow> A | Inl _ \<Rightarrow> raw_channel)"

lemma demo_channel_ok: "channel_ok demo_channel" "H_NewMessage demo_channel = None" "H_codec demo_channel = pc16"
  "H_CurrentMessage demo_channel = None"
  "channel_view demo_channel = (channel_view raw_channel)\<lparr>v_state := FSM_Channel_Idle, v_starts := 0\<rparr>"
proof -
  have r: "H_codec raw_channel = pc16" "length (H_DNSRequestInput raw_channel) = 256" by (simp_all add: raw_channel_def)
  from channel_built [OF r(1), of "run_kernel []"] obtain B where
    B: "ChAuto (run_kernel [], raw_channel) = Inr ((), run_kernel []\<lparr>K_Api := False, K_LogingObject := None\<rparr>, B)"
      "built CH_AUTOMATE_TYPE_ID CH_AUTOMATE_MBX_ID 6 3 raw_channel B" by blast
  from channel_initialized [OF B(2) r(2), of "run_kernel []\<lparr>K_Api := False, K_LogingObject := None\<rparr>"] B(1)
  have "idle demo_channel \<and> channel_ok demo_channel \<and>
      channel_view demo_channel = (channel_view raw_channel)\<lparr>v_state := FSM_Channel_Idle, v_starts := 0\<rparr>"
    by (auto simp: demo_channel_def)
  then show "channel_ok demo_channel" "H_NewMessage demo_channel = None" "H_codec demo_channel = pc16"
    "H_CurrentMessage demo_channel = None"
    "channel_view demo_channel = (channel_view raw_channel)\<lparr>v_state := FSM_Channel_Idle, v_starts := 0\<rparr>"
    by (simp_all add: idle_def)
qed

theorem channel_refines_witness:
  "\<exists>K' A'. Process True (channel_exec True) (Some 3)
      (run_kernel (run_message MSG_Channel_Create_Socket []),
       demo_channel\<lparr>A_State := FSM_Channel_Connect, H_DNSRequestInput := 98 # replicate 255 0\<rparr>) = Inr ((), K', A') \<and>
    H_Sent A' = [[98]] \<and> H_Listening A'"
proof -
  let ?A = "demo_channel\<lparr>A_State := FSM_Channel_Connect, H_DNSRequestInput := 98 # replicate 255 0\<rparr>"
  let ?c = "MSG_Channel_Create_Socket"
  let ?bs = "run_message ?c []"
  have "\<forall>p \<in> set ([] :: param list). param_ok pc16 p" "length (enc pc16 []) \<le> 105" by simp_all
  note M = run_message_ok [OF this, where code = ?c]
  have A: "channel_ok ?A" "H_NewMessage ?A = None" "H_codec ?A = pc16" using demo_channel_ok by simp_all
  have b: "bytes (run_kernel ?bs) 3 = ?bs" by (rule run_kernel_ready)
  have 1: "loggable True (bytes (run_kernel ?bs) 3)" "GetUint16 (bytes (run_kernel ?bs) 3) MSG_CODE = ?c"
    unfolding b using M by simp_all
  have st: "A_State ?A \<in> fst ` set channel_branches" by (simp add: channel_branches_def)
  have pf: "proc_for channel_branches FSM_Channel_Connect ?c = Proc FSM_Channel_Connect_State"
    by (simp add: proc_for_def channel_branches_def channel_states msg_codes)
  have c: "c_str (98 # replicate 255 0) = Inr [98]" by (simp add: c_str_def)
  have n: "channel_needs 90 (channel_view ?A) ?c []" using pf c by (simp add: channel_needs_def string_upto_def)
  have s: "channel_step (channel_view ?A) ?c [] = (connect_view (channel_view ?A), [])"
    using pf by (simp add: channel_step_def)
  from channel_refines [OF demo_ready [OF M(1) A(2,3)] A(1) 1 carries_Nil st n] obtain K' A' where
    r: "Process True (channel_exec True) (Some 3) (run_kernel ?bs, ?A) = Inr ((), K', A')"
      "channel_view A' = connect_view (channel_view ?A)"
    unfolding s by auto
  have "v_sent (connect_view (channel_view ?A)) = [[98]] \<and> v_listening (connect_view (channel_view ?A))"
    using demo_channel_ok(5) c by (simp add: connect_view_def raw_channel_def channel_view_def Let_def)
  then have "H_Sent A' = [[98]]" "H_Listening A'" using r(2) channel_view_sel [of A'] by simp_all
  with r(1) show ?thesis by blast
qed

text \<open>C25: What the listening thread does with a result of \<open>recv\<close> is \<open>listen_step\<close>: the bytes of an answer
  go to the client in one message, followed by the message that makes the channel disconnect; at the
  end of the connection the channel goes back to its idle state by itself.\<close>

theorem listener_step_refines:
  assumes "sending k 2 own A mss K [] L K A" "H_CurrentMessage A = None" "channel_ok A"
    and "case r of Received bs \<Rightarrow> length bs \<le> min k 255 | _ \<Rightarrow> True"
  shows "\<exists>K' A'. listener_step nd r (K, A) = Inr ((), K', A') \<and> channel_ok A' \<and>
    channel_view A' = fst (listen_step (channel_view A) r) \<and>
    handled own A mss L K (snd (listen_step (channel_view A) r)) None None K' A'"
  using listener_refines [OF assms(1-3), of r nd] assms(4) by (cases r) (simp_all add: achieves_def)

theorem listener_step_refines_witness:
  "\<exists>K' A'. listener_step True (Received [49, 46, 50]) (run_kernel (replicate 128 0), demo_channel\<lparr>H_Listening := True\<rparr>) =
      Inr ((), K', A') \<and> A_State A' = FSM_Channel_Disconnect"
proof -
  let ?A = "demo_channel\<lparr>H_Listening := True\<rparr>" and ?K = "run_kernel (replicate 128 0)"
  have A: "channel_ok ?A" "H_CurrentMessage ?A = None" "H_NewMessage ?A = None" "H_codec ?A = pc16"
    using demo_channel_ok by simp_all
  have "ready_for 90 3 3 [] [[], [], []] [(4, 5)] ?K ?A" by (rule demo_ready) (use A in simp_all)
  then have "sending 90 2 [3] ?A [[], [], []] ?K [] [(4, 5)] ?K ?A"
    unfolding ready_for_def sending_def using stock_mono [of _ _ 90 3 2] by auto
  from listener_step_refines [OF this A(2,1), of "Received [49, 46, 50]" True] obtain K' A' where
    r: "listener_step True (Received [49, 46, 50]) (?K, ?A) = Inr ((), K', A')"
      "channel_view A' = fst (listen_step (channel_view ?A) (Received [49, 46, 50]))" by auto
  then have "v_state (channel_view A') = FSM_Channel_Disconnect" by (simp add: listen_step_def)
  with r(1) show ?thesis by auto
qed

text \<open>Only the first request is sent to the server.  \<open>FirstStartFlag\<close> counts the starts of the
  channel and is never set back; from the second start on a request is stored, but no socket is
  created, nothing is sent and no answer comes, and the channel stays where it is.\<close>

theorem later_request_ignored:
  assumes "ready_for k 3 a own mss L K A" "channel_ok A" "loggable nd (bytes K a)"
    and "A_State A = FSM_Channel_DNS_Request" "H_FirstStartFlag A \<noteq> 1"
    and "GetUint16 (bytes K a) MSG_CODE = MSG_Client_To_Channel_DNS_Request_Sent"
    and "has_params pc16 (bytes K a) ps" "string_param ps PARAM_DNS_INPUT"
  shows "\<exists>K' A'. Process nd (channel_exec nd) (Some a) (K, A) = Inr ((), K', A') \<and>
    channel_view A' = (channel_view A)\<lparr>v_name := Inr (the (map_of ps PARAM_DNS_INPUT))\<rparr> \<and>
    handled own A mss L K [] None None K' A'"
proof -
  have pf: "proc_for channel_branches FSM_Channel_DNS_Request MSG_Client_To_Channel_DNS_Request_Sent =
      Proc FSM_Channel_Get_DNS_Request"
    by (simp add: proc_for_def channel_branches_def channel_states msg_codes)
  have s: "channel_step (channel_view A) MSG_Client_To_Channel_DNS_Request_Sent ps =
      ((channel_view A)\<lparr>v_name := Inr (the (map_of ps PARAM_DNS_INPUT))\<rparr>, [])"
    using pf assms(4,5) by (simp add: channel_step_def Let_def)
  have st: "A_State A \<in> fst ` set channel_branches" using assms(4) by (simp add: channel_branches_def)
  have n: "channel.table_needs k (channel_view A) MSG_Client_To_Channel_DNS_Request_Sent ps"
    using pf assms(4,8) by (simp add: channel_table_step channel_needs_def)
  have c: "carries (bytes K a) ps" using assms(7) by (simp add: carries_def)
  from channel.Process_step [OF assms(1,2) _ assms(3,6) c st n, of nd] show ?thesis
    unfolding channel_table_step s achieves_def by auto
qed

theorem later_request_ignored_witness:
  "\<exists>K' A'. Process False (channel_exec False) (Some 3)
      (run_kernel (run_message MSG_Client_To_Channel_DNS_Request_Sent [(PARAM_DNS_INPUT, [102, 116, 110])]),
       demo_channel\<lparr>A_State := FSM_Channel_DNS_Request, H_FirstStartFlag := 2\<rparr>) = Inr ((), K', A') \<and>
    A_State A' = FSM_Channel_DNS_Request \<and> H_Sent A' = []"
proof -
  let ?A = "demo_channel\<lparr>A_State := FSM_Channel_DNS_Request, H_FirstStartFlag := 2\<rparr>"
  let ?c = "MSG_Client_To_Channel_DNS_Request_Sent" and ?ps = "[(PARAM_DNS_INPUT, [102, 116, 110])]"
  let ?bs = "run_message ?c ?ps"
  have ps: "\<forall>p \<in> set ?ps. param_ok pc16 p" "length (enc pc16 ?ps) \<le> 105"
    by (simp_all add: PARAM_DNS_INPUT_def in_field_def)
  note M = run_message_ok [OF ps, where code = ?c]
  have A: "channel_ok ?A" "H_NewMessage ?A = None" "H_codec ?A = pc16" using demo_channel_ok by simp_all
  have b: "bytes (run_kernel ?bs) 3 = ?bs" by (rule run_kernel_ready)
  have 1: "loggable False (bytes (run_kernel ?bs) 3)" "has_params pc16 (bytes (run_kernel ?bs) 3) ?ps"
    "GetUint16 (bytes (run_kernel ?bs) 3) MSG_CODE = ?c"
    unfolding b using M by simp_all
  have "string_param ?ps PARAM_DNS_INPUT" by (simp add: string_param_def)
  from later_request_ignored [OF demo_ready [OF M(1) A(2,3)] A(1) 1(1) _ _ 1(3,2) this] obtain K' A' where
    r: "Process False (channel_exec False) (Some 3) (run_kernel ?bs, ?A) = Inr ((), K', A')"
      "channel_view A' = (channel_view ?A)\<lparr>v_name := Inr [102, 116, 110]\<rparr>"
    by auto
  then have "v_state (channel_view A') = FSM_Channel_DNS_Request" "v_sent (channel_view A') = []"
    using demo_channel_ok(5) by (simp_all add: raw_channel_def)
  with r(1) show ?thesis by auto
qed

end
