(* ===== verification/Scene.thy ===== *)
theory Scene
  imports UserProps ClientProps ChannelProps
begin

text \<open>
  The abstract program: the views of the three automata and the messages in the mailboxes.  A round
  serves the first mailbox that has a message, makes the abstract step of its receiver and appends
  the messages of the step to their mailboxes.
\<close>

record scene =
  q_user :: uview
  q_client :: cview
  q_channel :: chview
  q_boxes :: "msg list list"
  q_timers :: nat

definition post :: "outgoing list \<Rightarrow> msg list list \<Rightarrow> msg list list" where
  "post outs boxes = fold (\<lambda>(mbx, m) bs. bs[unat mbx := bs ! unat mbx @ [m]]) outs boxes"

lemma post_simps [simp]:
  "post [] boxes = boxes"
  "post ((mbx, m) # outs) boxes = post outs (boxes[unat mbx := boxes ! unat mbx @ [m]])"
  by (simp_all add: post_def)

fun timer_on :: "cview \<Rightarrow> bool" where
  "timer_on (st, nm, an, tm, tab) = tm"

text \<open>A timer that is stopped stays in the list of the kernel until it is due.\<close>

fun scene_step :: "msg \<Rightarrow> scene \<Rightarrow> scene" where
  "scene_step (code, au, ps) Q =
     (if au = CH_AUTOMATE_TYPE_ID then
        let (v, outs) = channel_step (q_channel Q) code ps in
        Q\<lparr>q_channel := v, q_boxes := post outs (q_boxes Q)\<rparr>
      else if au = CL_AUTOMATE_TYPE_ID then
        let (v, outs) = client_step (q_client Q) code ps in
        Q\<lparr>q_client := v, q_boxes := post outs (q_boxes Q),
          q_timers := q_timers Q + (if timer_on v \<and> \<not> timer_on (q_client Q) then 1 else 0)\<rparr>
      else
        let (v, outs) = user_step (q_user Q) code ps in
        Q\<lparr>q_user := v, q_boxes := post outs (q_boxes Q)\<rparr>)"

fun first_box :: "'m list list \<Rightarrow> nat option" where
  "first_box [] = None"
| "first_box (b # bs) = (if b \<noteq> [] then Some 0 else map_option Suc (first_box bs))"

lemma first_box_Some: "first_box bs = Some i \<longleftrightarrow> i < length bs \<and> bs ! i \<noteq> [] \<and> (\<forall>j < i. bs ! j = [])"
proof (induction bs arbitrary: i)
  case (Cons b bs)
  then show ?case by (cases i) (auto simp: All_less_Suc2)
qed simp

definition scene_round :: "scene \<Rightarrow> scene" where
  "scene_round Q = (case first_box (q_boxes Q) of None \<Rightarrow> Q
     | Some i \<Rightarrow> scene_step (hd (q_boxes Q ! i)) (Q\<lparr>q_boxes := (q_boxes Q)[i := tl (q_boxes Q ! i)]\<rparr>))"

text \<open>
  What a round relies on: the message can be logged (in a debug build the length of a message must
  not be a multiple of 256), the receiver is in a state with branches and has what the procedure
  needs, and the pool has buffers left.
\<close>

definition message_bytes :: "param list \<Rightarrow> nat" where
  "message_bytes ps = MSG_HEADER_LENGTH + (if ps = [] then 0 else length (enc pc16 ps) + 2)"

fun accepts :: "bool \<Rightarrow> nat \<Rightarrow> msg \<Rightarrow> scene \<Rightarrow> bool" where
  "accepts nd k (code, au, ps) Q \<longleftrightarrow> (nd \<or> message_bytes ps mod 256 \<noteq> 0) \<and>
     (if au = CH_AUTOMATE_TYPE_ID then
        v_state (q_channel Q) \<in> fst ` set channel_branches \<and> channel_needs k (q_channel Q) code ps
      else if au = CL_AUTOMATE_TYPE_ID then
        fst (q_client Q) \<in> fst ` set client_branches \<and> client_needs k (q_client Q) code ps
      else au = USER_AUTOMATE_TYPE_ID \<and>
        fst (q_user Q) \<in> fst ` set user_branches \<and> user_needs k (q_user Q) code ps)"

definition enabled :: "bool \<Rightarrow> nat \<Rightarrow> nat \<Rightarrow> scene \<Rightarrow> bool" where
  "enabled nd k N Q \<longleftrightarrow> 3 + q_timers Q + length (concat (q_boxes Q)) \<le> N \<and>
     (case first_box (q_boxes Q) of None \<Rightarrow> False | Some i \<Rightarrow> accepts nd k (hd (q_boxes Q ! i)) Q)"

fun rounds :: "nat \<Rightarrow> scene \<Rightarrow> scene" where
  "rounds 0 Q = Q"
| "rounds (Suc n) Q = rounds n (scene_round Q)"

fun all_enabled :: "bool \<Rightarrow> nat \<Rightarrow> nat \<Rightarrow> nat \<Rightarrow> scene \<Rightarrow> bool" where
  "all_enabled nd k N 0 Q = True"
| "all_enabled nd k N (Suc n) Q = (enabled nd k N Q \<and> all_enabled nd k N n (scene_round Q))"

lemma rounds_add: "rounds (m + n) Q = rounds n (rounds m Q)"
  by (induction m arbitrary: Q) simp_all

lemma all_enabled_add:
  "all_enabled nd k N (m + n) Q \<longleftrightarrow> all_enabled nd k N m Q \<and> all_enabled nd k N n (rounds m Q)"
  by (induction m arbitrary: Q) simp_all

text \<open>The codes of the messages the automata send.\<close>

lemma step_codes:
  "(mbx, m) \<in> set (snd (channel_step v code ps)) \<Longrightarrow> fst m \<noteq> DISCARDED"
  "(mbx, m) \<in> set (snd (client_step w code ps)) \<Longrightarrow> fst m \<noteq> DISCARDED"
  "(mbx, m) \<in> set (snd (user_step u code ps)) \<Longrightarrow> fst m \<noteq> DISCARDED"
  "(mbx, m) \<in> set (snd (listen_step v r)) \<Longrightarrow> fst m \<noteq> DISCARDED"
proof -
  show "(mbx, m) \<in> set (snd (channel_step v code ps)) \<Longrightarrow> fst m \<noteq> DISCARDED"
  proof (cases "proc_for channel_branches (v_state v) code")
    case (Proc p)
    then show "(mbx, m) \<in> set (snd (channel_step v code ps)) \<Longrightarrow> fst m \<noteq> DISCARDED"
      by (cases p) (auto simp: channel_step_def Let_def msg_codes DISCARDED_def split: if_splits)
  qed (simp add: channel_step_def)
  show "(mbx, m) \<in> set (snd (client_step w code ps)) \<Longrightarrow> fst m \<noteq> DISCARDED"
  proof (cases "proc_for client_branches (fst w) code")
    case (Proc p)
    then show "(mbx, m) \<in> set (snd (client_step w code ps)) \<Longrightarrow> fst m \<noteq> DISCARDED"
      by (cases p; cases w) (auto simp: client_step_def msg_codes DISCARDED_def split: option.splits)
  qed (simp add: client_step_def)
  show "(mbx, m) \<in> set (snd (user_step u code ps)) \<Longrightarrow> fst m \<noteq> DISCARDED"
  proof (cases "proc_for user_branches (fst u) code")
    case (Proc p)
    then show "(mbx, m) \<in> set (snd (user_step u code ps)) \<Longrightarrow> fst m \<noteq> DISCARDED"
      by (cases p; cases u) (auto simp: user_step_def user_kick_def Let_def msg_codes DISCARDED_def)
  qed (simp add: user_step_def)
  show "(mbx, m) \<in> set (snd (listen_step v r)) \<Longrightarrow> fst m \<noteq> DISCARDED"
    by (cases r) (auto simp: listen_step_def msg_codes DISCARDED_def split: if_splits)
qed

lemma all_step_codes:
  "\<forall>p \<in> set (snd (channel_step v code ps)). fst (snd p) \<noteq> DISCARDED"
  "\<forall>p \<in> set (snd (client_step w code ps)). fst (snd p) \<noteq> DISCARDED"
  "\<forall>p \<in> set (snd (user_step u code ps)). fst (snd p) \<noteq> DISCARDED"
  "\<forall>p \<in> set (snd (listen_step v r)). fst (snd p) \<noteq> DISCARDED"
  using step_codes by (metis prod.collapse)+

text \<open>What the listening thread does.\<close>

definition scene_listen :: "recv_result \<Rightarrow> scene \<Rightarrow> scene" where
  "scene_listen r Q = (let (v, outs) = listen_step (q_channel Q) r in
     Q\<lparr>q_channel := v, q_boxes := post outs (q_boxes Q)\<rparr>)"

end
