(* ===== verification/LogFile.thy ===== *)
theory LogFile
  imports Log CStrings
begin

text \<open>
  \<open>LogFile\<close> (\<open>src/Kernel/LogFile.h\<close>, \<open>LogFile.cpp\<close>): the log that is written to a file.  It keeps the names of
  the automata, messages and timers that the constructor reads from a configuration file (\<open>ini\<close>,
  whose lines are cut to the array \<open>data[300]\<close>), and finds the parameters of the record that \<open>LogInterface\<close>
  has built.  \<open>Write\<close> returns at once; what stands behind its first statement is never executed.
\<close>

definition MAX_NUM_OF_MESSAGES :: nat where "MAX_NUM_OF_MESSAGES = 100"
definition MAX_NUM_OF_TIMERS :: nat where "MAX_NUM_OF_TIMERS = 20"
definition MAX_NUM_OF_AUTOMATE_TYPES :: nat where "MAX_NUM_OF_AUTOMATE_TYPES = 50"
definition MAX_NUM_OF_MSG_CODING_TYPES :: nat where "MAX_NUM_OF_MSG_CODING_TYPES = 5"
definition MAX_NAME_LENGTH :: nat where "MAX_NAME_LENGTH = 51"

record msg_data =
  msgName :: "u8 list list"
  msgCode :: "u16 list"
  NumOfMsgs :: u16

record automate_data =
  automateName :: "u8 list"
  timerName :: "u8 list list"

record log_file =
  FileName :: "u8 list"
  IniFileName :: "u8 list"
  AutomateData :: "automate_data list"
  MsgData :: "msg_data list"
  MaxNameLength :: nat

subsection \<open>Hexadecimal numbers\<close>

definition atob :: "u8 \<Rightarrow> u8" where
  "atob c = (if 48 \<le> c \<and> c \<le> 57 then c - 48 else if 97 \<le> c \<and> c \<le> 102 then c - 87
     else if 65 \<le> c \<and> c \<le> 70 then c - 55 else 0)"

fun hex_loop :: "u32 \<Rightarrow> u8 list \<Rightarrow> u32" where
  "hex_loop tmp [] = tmp"
| "hex_loop tmp (c # cs) = hex_loop (push_bit 4 tmp OR ucast (atob c)) cs"

definition behind :: "u8 \<Rightarrow> u8 list \<Rightarrow> u8 list" where
  "behind c s = (case str_cut c s of None \<Rightarrow> s | Some (_, r) \<Rightarrow> r)"

text \<open>A space ends the string; this changes the string of the caller, too.\<close>

definition cut_space :: "u8 list \<Rightarrow> u8 list" where
  "cut_space = takeWhile (\<lambda>c. c \<noteq> 32)"

definition ConvertToBin :: "u8 list \<Rightarrow> u32" where
  "ConvertToBin hex = hex_loop 0 (behind 120 (behind 88 (cut_space hex)))"

subsection \<open>Reading the names\<close>

definition longer :: "u8 list \<Rightarrow> log_file \<Rightarrow> log_file" where
  "longer name F = F\<lparr>MaxNameLength := max (MaxNameLength F) (length name)\<rparr>"

fun automate_names :: "profile \<Rightarrow> nat list \<Rightarrow> log_file \<Rightarrow> log_file result" where
  "automate_names ini [] F = Inr F"
| "automate_names ini (i # is) F = (let data = ini_string 300 ini (str ''AUTOMATES'') (decimal i) (str ''UNKNOWN'') in
     copy_str MAX_NAME_LENGTH data (\<lambda>name. automate_names ini is
       (longer name (F\<lparr>AutomateData := (AutomateData F)[i := (AutomateData F ! i)\<lparr>automateName := name\<rparr>]\<rparr>))))"

definition add_msg :: "u16 \<Rightarrow> u8 list \<Rightarrow> u8 list \<Rightarrow> log_file \<Rightarrow> log_file result" where
  "add_msg code name info F = (let coding = unat (of_int (atol info) :: u16) in
     if coding < length (MsgData F) then
       let D = MsgData F ! coding; msgNum = unat (NumOfMsgs D) in
       if msgNum < length (msgCode D) then
         copy_str MAX_NAME_LENGTH name (\<lambda>name. Inr (longer name (F\<lparr>MsgData := (MsgData F)[coding :=
           \<lparr>msgName = (msgName D)[msgNum := name], msgCode = (msgCode D)[msgNum := code], NumOfMsgs = NumOfMsgs D + 1\<rparr>]\<rparr>)))
       else Inl OutOfBounds
     else Inl OutOfBounds)"

text \<open>The codings of a message, separated by commas.\<close>

function codings_loop :: "u16 \<Rightarrow> u8 list \<Rightarrow> u8 list \<Rightarrow> log_file \<Rightarrow> log_file result" where
  "codings_loop code name info F = (case str_cut 44 info of
     None \<Rightarrow> add_msg code name info F
   | Some (t, r) \<Rightarrow> bindR (add_msg code name t F) (codings_loop code name r))"
  by pat_completeness auto
termination
  by (relation "measure (\<lambda>(code, name, info, F). length info)") (auto dest: str_cut_shorter)

declare codings_loop.simps [simp del]

text \<open>The string \<open>data\<close> is left as its first part up to a space, with which the loop is entered again.\<close>

definition read_msg :: "u8 list \<Rightarrow> log_file \<Rightarrow> (u8 list \<times> log_file) result" where
  "read_msg data F = bindR (cut_at 44 data) (\<lambda>(data, info).
     let code = ucast (ConvertToBin data) in
     bindR (cut_at 44 info) (\<lambda>(name, info).
     bindR (codings_loop code name info F) (\<lambda>F. Inr (cut_space data, F))))"

definition read_timer :: "u8 list \<Rightarrow> log_file \<Rightarrow> (u8 list \<times> log_file) result" where
  "read_timer data F = bindR (cut_at 44 data) (\<lambda>(data, info).
     let automate = unat (of_int (atol data) :: u16) in
     bindR (cut_at 44 info) (\<lambda>(info, tmp).
     let code = unat (of_int (atol info) :: u16) in
     if automate < length (AutomateData F) \<and> code < length (timerName (AutomateData F ! automate)) then
       copy_str MAX_NAME_LENGTH tmp (\<lambda>name. Inr (data, F\<lparr>AutomateData := (AutomateData F)[automate :=
         (AutomateData F ! automate)\<lparr>timerName := (timerName (AutomateData F ! automate))[code := name]\<rparr>]\<rparr>))
     else Inl OutOfBounds))"

text \<open>
  The loop over the keys \<open>0\<close>, \<open>1\<close>, .. of a section, up to the first that is not there.  It ends when a
  file has finitely many keys; \<open>fuel\<close> bounds their number.
\<close>

fun keys_loop :: "(u8 list \<Rightarrow> log_file \<Rightarrow> (u8 list \<times> log_file) result) \<Rightarrow> profile \<Rightarrow> u8 list \<Rightarrow> nat \<Rightarrow>
    nat \<Rightarrow> u8 list \<Rightarrow> log_file \<Rightarrow> log_file result" where
  "keys_loop entry ini sec 0 i data F = Inl NoFuel"
| "keys_loop entry ini sec (Suc fuel) i data F =
     (if data = str ''END'' then Inr F
      else let data = ini_string 300 ini sec (decimal i) (str ''END'') in
        if data = str ''END'' then Inr F
        else bindR (entry data F) (\<lambda>(data, F). keys_loop entry ini sec fuel (i + 1) data F))"

definition read_keys where
  "read_keys entry ini sec fuel F = keys_loop entry ini sec fuel 0 (ini_string 300 ini sec (decimal 0) (str ''END'')) F"

definition ReadIniFile :: "nat \<Rightarrow> profile \<Rightarrow> log_file \<Rightarrow> log_file result" where
  "ReadIniFile fuel ini F =
     bindR (automate_names ini [0 ..< MAX_NUM_OF_AUTOMATE_TYPES] F) (\<lambda>F.
     bindR (read_keys read_msg ini (str ''MESSAGES'') fuel F) (\<lambda>F.
     read_keys read_timer ini (str ''TIMERS'') fuel F))"

definition empty_names :: "u8 list \<Rightarrow> u8 list \<Rightarrow> log_file" where
  "empty_names file iniFile = \<lparr>FileName = file, IniFileName = iniFile,
     AutomateData = replicate MAX_NUM_OF_AUTOMATE_TYPES \<lparr>automateName = [], timerName = replicate MAX_NUM_OF_TIMERS []\<rparr>,
     MsgData = replicate MAX_NUM_OF_MSG_CODING_TYPES
       \<lparr>msgName = replicate MAX_NUM_OF_MESSAGES [], msgCode = replicate MAX_NUM_OF_MESSAGES 0, NumOfMsgs = 0\<rparr>,
     MaxNameLength = 0\<rparr>"

text \<open>\<open>opens\<close>: the log can be opened for writing.\<close>

definition LogFile :: "nat \<Rightarrow> (u8 list \<Rightarrow> profile) \<Rightarrow> bool \<Rightarrow> u8 list \<Rightarrow> u8 list \<Rightarrow> log_file result" where
  "LogFile fuel inis opens fileName iniFileName =
     copy_str 60 fileName (\<lambda>file. copy_str 60 iniFileName (\<lambda>iniFile.
     bindR (ReadIniFile fuel (inis iniFile) (empty_names file iniFile)) (\<lambda>F.
     if opens then Inr F else Inl (Exits 100))))"

definition LogOpenFile :: "bool \<Rightarrow> (log_file, unit) op" where
  "LogOpenFile opens F = (if opens then Inr ((), F) else Inl (Exits 100))"

definition lf_Write :: "(log_if, unit) op" where
  "lf_Write L = Inr ((), L)"

subsection \<open>Finding a parameter of a record\<close>

text \<open>The result is the index of the parameter in \<open>LogBuffer\<close>.\<close>

fun find_log_param :: "nat \<Rightarrow> u8 \<Rightarrow> u16 \<Rightarrow> log_if \<Rightarrow> nat option result" where
  "find_log_param 0 ParamCode pos L = Inl NoFuel"
| "find_log_param (Suc fuel) ParamCode pos L =
     (if pos < ParamOffset L then
        if unat pos < length (LogBuffer L) then
          if LogBuffer L ! unat pos = ParamCode then Inr (Some (unat pos))
          else if unat pos + 1 < length (LogBuffer L)
          then find_log_param fuel ParamCode (pos + (ucast (LogBuffer L ! (unat pos + 1)) + 2)) L
          else Inl OutOfBounds
        else Inl OutOfBounds
      else Inr None)"

definition lf_FindParam :: "u8 \<Rightarrow> log_if \<Rightarrow> nat option result" where
  "lf_FindParam ParamCode L = find_log_param LOG_BUFFER_SIZE ParamCode 4 L"

end
