(* ===== verification/Program.thy ===== *)
theory Program
  imports FsmSystem UserAuto ClAuto ChAuto LogFile
begin

text \<open>
  The program (\<open>src/POP3ClientCppUnit/main.cpp\<close>): \<open>SystemThread\<close> builds the three automata, the kernel
  and the system, starts the user automaton and runs the monitor loop.  An object of the system is
  one of the three automata; calling one of its virtual functions is a case distinction.
\<close>

datatype actor = Channel channel | Client client | User user

fun virtual :: "(kernel \<times> channel, unit) op \<Rightarrow> (kernel \<times> client, unit) op \<Rightarrow> (kernel \<times> user, unit) op \<Rightarrow>
    (kernel \<times> actor, unit) op" where
  "virtual f g h (K, Channel A) = bindR (f (K, A)) (\<lambda>(_, K, A). Inr ((), K, Channel A))"
| "virtual f g h (K, Client A) = bindR (g (K, A)) (\<lambda>(_, K, A). Inr ((), K, Client A))"
| "virtual f g h (K, User A) = bindR (h (K, A)) (\<lambda>(_, K, A). Inr ((), K, User A))"

text \<open>\<open>NoFreeInstances\<close> of the three automata prints a line.\<close>

definition program_vtable :: "bool \<Rightarrow> actor vtable" where
  "program_vtable nd = \<lparr>
     v_Process = (\<lambda>p. virtual (Process nd (channel_exec nd) p) (Process nd (client_exec nd) p) (Process nd (user_exec nd) p)),
     v_NoFreeObjectProcedure = (\<lambda>p. virtual (NoFreeObjectProcedure nd (ret ()) p)
       (NoFreeObjectProcedure nd (ret ()) p) (NoFreeObjectProcedure nd (ret ()) p)),
     v_Initialize = virtual channel_Initialize client_Initialize user_Initialize,
     v_SetObjectId = (\<lambda>i a. case a of Channel A \<Rightarrow> Channel (A\<lparr>A_ConnectionId := i\<rparr>)
       | Client A \<Rightarrow> Client (A\<lparr>A_ConnectionId := i\<rparr>) | User A \<Rightarrow> User (A\<lparr>A_ConnectionId := i\<rparr>)),
     v_SetGroup = (\<lambda>g a. case a of Channel A \<Rightarrow> Channel (A\<lparr>A_GroupId := g\<rparr>)
       | Client A \<Rightarrow> Client (A\<lparr>A_GroupId := g\<rparr>) | User A \<Rightarrow> User (A\<lparr>A_GroupId := g\<rparr>))\<rparr>"

definition AUTOMAT_COUNT :: u8 where "AUTOMAT_COUNT = 3"
definition MSGBOX_COUNT :: u8 where "MSGBOX_COUNT = 3"

definition buffsCount :: "u32 list" where "buffsCount = [50, 50, 5000, 10]"
definition buffsLength :: "u32 list" where "buffsLength = [128, 256, 512, 1024]"

text \<open>
  What the start takes from its surroundings: \<open>E_ini\<close> are the configuration files, of which one that is
  read has fewer than \<open>E_keys\<close> keys in a section, \<open>E_opens\<close> says that the log can be written,
  \<open>E_logmem\<close> and \<open>E_junk\<close> are memory, and \<open>E_ident\<close> is what \<open>timeSetEvent\<close> returns.
\<close>

record start_env =
  E_keys :: nat
  E_ini :: "u8 list \<Rightarrow> profile"
  E_opens :: bool
  E_logmem :: "u8 list"
  E_junk :: "addr \<Rightarrow> u8 list"
  E_ident :: u32

text \<open>The log \<open>lf\<close>.  The constructor of its base class fills the record buffer, its own one reads the
  names and opens the file; it ends the program when it cannot.\<close>

definition SystemLog :: "start_env \<Rightarrow> log_file result" where
  "SystemLog E = LogFile (E_keys E) (E_ini E) (E_opens E) (str ''log.log'') (str ''./log.ini'')"

text \<open>The local variables \<open>Channel\<close>, \<open>Client\<close> and \<open>User\<close> are the objects 0, 1 and 2.  What comes before
  \<open>sys.Start()\<close>:\<close>

definition boot :: "bool \<Rightarrow> start_env \<Rightarrow> (actor, unit) sop" where
  "boot nd E =
     run [on_object 0 (virtual ChAuto ClAuto UserAuto),
          on_object 1 (virtual ChAuto ClAuto UserAuto),
          on_object 2 (virtual ChAuto ClAuto UserAuto),
          (\<lambda>(K, S). bindR (SystemLog E) (\<lambda>lf. Inr ((), SetLogInterface (LogInterface (E_logmem E)) K, S))),
          InitKernel 4 (Some buffsCount) (Some buffsLength) 3 Timer1s (E_junk E) (E_ident E),
          sys_Add_first nd (program_vtable nd) (Some 0) CH_AUTOMATE_TYPE_ID 1 True,
          sys_Add_first nd (program_vtable nd) (Some 1) CL_AUTOMATE_TYPE_ID 1 True,
          sys_Add_first nd (program_vtable nd) (Some 2) USER_AUTOMATE_TYPE_ID 1 True,
          on_object 2 (virtual (fails NullDeref) (fails NullDeref) (user_Start nd))]"

definition SystemThread :: "nat \<Rightarrow> bool \<Rightarrow> start_env \<Rightarrow> (actor, unit) sop" where
  "SystemThread fuel nd E = run [boot nd E, sys_Start fuel nd (program_vtable nd)]"

text \<open>One call of \<open>recv\<close> in the listening thread of the channel.\<close>

definition listener :: "bool \<Rightarrow> recv_result \<Rightarrow> (actor, unit) sop" where
  "listener nd r = on_object 0 (virtual (listener_step nd r) (fails NullDeref) (fails NullDeref))"

end
