(* ===== verification/SceneRefines.thy ===== *)
theory SceneRefines
  imports Scene SystemOps Program
begin

text \<open>
  The program refines the abstract program: \<open>running k N K S Q\<close> relates the kernel \<open>K\<close> and the system \<open>S\<close>
  to the scene \<open>Q\<close>; the monitor loop of \<open>FSMSystem\<close> makes the rounds of \<open>Q\<close>, the listening thread its
  steps.
\<close>

subsection \<open>Messages\<close>

definition boxes_rel :: "(addr \<Rightarrow> u8 list) \<Rightarrow> msg list list \<Rightarrow> addr list list \<Rightarrow> bool" where
  "boxes_rel bs = list_all2 (list_all2 (\<lambda>m b. says m (bs b) \<and> fst m \<noteq> DISCARDED))"

lemma boxes_rel_cong:
  assumes "boxes_rel bs boxes mss" "\<And>x. x \<in> set (concat mss) \<Longrightarrow> bs' x = bs x"
  shows "boxes_rel bs' boxes mss"
  unfolding boxes_rel_def
proof (rule list.rel_mono_strong [OF assms(1) [unfolded boxes_rel_def]])
  fix ms as assume "as \<in> set mss" and r: "list_all2 (\<lambda>m b. says m (bs b) \<and> fst m \<noteq> DISCARDED) ms as"
  then have "\<And>x. x \<in> set as \<Longrightarrow> bs' x = bs x" using assms(2) by auto
  then show "list_all2 (\<lambda>m b. says m (bs' b) \<and> fst m \<noteq> DISCARDED) ms as"
    by (intro list.rel_mono_strong [OF r]) simp
qed

lemma boxes_rel_length: "boxes_rel bs boxes mss \<Longrightarrow> length boxes = length mss"
  by (auto simp: boxes_rel_def dest: list_all2_lengthD)

lemma boxes_rel_nth:
  "boxes_rel bs boxes mss \<Longrightarrow> i < length mss \<Longrightarrow>
    list_all2 (\<lambda>m b. says m (bs b) \<and> fst m \<noteq> DISCARDED) (boxes ! i) (mss ! i)"
  by (auto simp: boxes_rel_def list_all2_conv_all_nth)

lemma boxes_rel_update:
  "boxes_rel bs boxes mss \<Longrightarrow> list_all2 (\<lambda>m b. says m (bs b) \<and> fst m \<noteq> DISCARDED) ms as \<Longrightarrow>
    boxes_rel bs (boxes[i := ms]) (mss[i := as])"
  unfolding boxes_rel_def by (rule list_all2_update_cong)

lemma boxes_rel_total: "boxes_rel bs boxes mss \<Longrightarrow> length (concat boxes) = length (concat mss)"
  unfolding boxes_rel_def by (induction rule: list_all2_induct) (auto dest: list_all2_lengthD)

lemma boxes_rel_sends:
  "sends A mss outs mss' bs \<Longrightarrow> boxes_rel bs boxes mss \<Longrightarrow> \<forall>p \<in> set outs. fst (snd p) \<noteq> DISCARDED \<Longrightarrow>
    boxes_rel bs (post outs boxes) mss'"
proof (induction A mss outs mss' bs arbitrary: boxes rule: sends.induct)
  case (2 A mss mbx m outs mss' bs)
  then obtain b where b: "unat mbx < length mss" "says m (bs b)"
    "sends A (mss[unat mbx := mss ! unat mbx @ [b]]) outs mss' bs" by auto
  have "fst m \<noteq> DISCARDED" using "2.prems"(3) by simp
  then have "boxes_rel bs (boxes[unat mbx := boxes ! unat mbx @ [m]]) (mss[unat mbx := mss ! unat mbx @ [b]])"
    using b(2) by (intro boxes_rel_update [OF "2.prems"(2)] list_all2_appendI boxes_rel_nth [OF "2.prems"(2) b(1)]) simp
  with "2.IH" [OF b(3)] "2.prems"(3) show ?case by simp
qed simp

text \<open>A message can be logged and carries its parameters.\<close>

lemma says_loggable:
  assumes "says (code, au, ps) bs" "MSG_HEADER_LENGTH \<le> length bs" "nd \<or> message_bytes ps mod 256 \<noteq> 0"
  shows "loggable nd bs" "carries bs ps" "GetUint16 bs MSG_CODE = code"
proof -
  show "carries bs ps" "GetUint16 bs MSG_CODE = code" using assms(1) by (auto simp: carries_def split: if_splits)
  let ?n = "info_length bs + of_nat MSG_HEADER_LENGTH"
  have l: "unat (info_length bs) + MSG_HEADER_LENGTH = message_bytes ps"
    using assms(1) by (auto simp: message_bytes_def has_params_def split: if_splits)
  have b: "message_bytes ps \<le> length bs"
  proof (cases ps)
    case Nil
    then show ?thesis using assms(2) by (simp add: message_bytes_def)
  next
    case (Cons p qs)
    then have "has_params pc16 bs ps" using assms(1) by auto
    then show ?thesis using Cons by (auto simp: has_params_def message_bytes_def)
  qed
  have "unat (ucast ?n :: u8) = unat ?n mod 256" by (simp add: unsigned_ucast_eq take_bit_eq_mod)
  also have "unat ?n = message_bytes ps mod 65536"
    by (simp add: unat_word_ariths l [symmetric] offset_defs)
  also have "\<dots> mod 256 = message_bytes ps mod 256" by (simp add: mod_mod_cancel)
  finally have u: "unat (ucast ?n :: u8) = message_bytes ps mod 256" .
  then have "unat (ucast ?n :: u8) \<le> length bs" using b mod_less_eq_dividend le_trans by metis
  moreover have "nd \<or> (ucast ?n :: u8) \<noteq> 0"
  proof (cases nd)
    case False
    then show ?thesis using assms(3) u unat_eq_0 [of "ucast ?n :: u8"] by metis
  qed simp
  ultimately show "loggable nd bs" unfolding loggable_def Let_def by blast
qed


subsection \<open>The program and the scene\<close>

definition sys_shape :: "'o fsm_system \<Rightarrow> bool" where
  "sys_shape S \<longleftrightarrow> S_Kernel S \<and> S_NumberOfAutomates S = 3 \<and> S_NumberOfMbx S = 3 \<and>
     3 \<le> length (S_Automates S) \<and> 3 \<le> length (S_NumberOfObjects S) \<and>
     (\<forall>t < 3. S_Automates S ! t = Array [Some t] \<and> S_NumberOfObjects S ! t = 1)"

text \<open>\<open>N\<close> buffers of the smallest class, for strings of up to \<open>k\<close> characters.\<close>

definition kernel_runs :: "nat \<Rightarrow> nat \<Rightarrow> kernel \<Rightarrow> bool" where
  "kernel_runs k N K \<longleftrightarrow> log_ready K \<and> k < 65000 \<and> USER_AUTOMATE_MBX_ID < MailBoxesNum (K_PostOffice K) \<and>
     unat (MailBoxesNum (K_PostOffice K)) \<le> MAXIMUM_WAIT_OBJECTS \<and> TimerResolution (K_Timer K) = Timer1s \<and>
     m_top (K_mem K) \<le> SEM_MAX \<and> roomy K k N"

definition running :: "nat \<Rightarrow> nat \<Rightarrow> kernel \<Rightarrow> actor fsm_system \<Rightarrow> scene \<Rightarrow> bool" where
  "running k N K S Q \<longleftrightarrow> sys_shape S \<and> kernel_runs k N K \<and> (\<exists>Ch Cl Us mss L fss.
     S_Objects S 0 = Channel Ch \<and> S_Objects S 1 = Client Cl \<and> S_Objects S 2 = User Us \<and>
     idle Ch \<and> idle Cl \<and> idle Us \<and> channel_ok Ch \<and> client_ok Cl \<and> user_ok Us \<and>
     channel_view Ch = q_channel Q \<and> client_view Cl = q_client Q \<and> user_view Us = q_user Q \<and>
     k_ok K [] mss L fss \<and> boxes_rel (bytes K) (q_boxes Q) mss \<and>
     length L = q_timers Q \<and> set_option (timer_of Cl) \<subseteq> set (map fst L))"

lemma kernel_runs_keep:
  assumes "kernel_runs k N K" "kkeep K K'" "log_ready K'"
  shows "kernel_runs k N K'"
  using assms roomy_keep [OF assms(2)] by (simp add: kernel_runs_def kkeep_def)

lemma k_ok_messages:
  assumes "k_ok K own mss L fss"
  shows "length (concat mss) \<le> m_top (K_mem K)"
proof -
  note D = k_okD [OF assms]
  have "distinct (concat mss)" using D(3) by (simp add: used_buffers_def)
  then have "length (concat mss) = card (set (concat mss))" by (simp add: distinct_card del: set_concat)
  also have "\<dots> \<le> card {..< m_top (K_mem K)}"
    using D(9) unfolding accounted_def by (intro card_mono) auto
  finally show ?thesis by simp
qed

text \<open>What an automaton leaves behind after its step.\<close>

lemma handled_kernel:
  assumes h: "handled [] A mss L K outs t t' K' A'" and r: "boxes_rel (bytes K) boxes mss"
    and c: "\<forall>p \<in> set outs. fst (snd p) \<noteq> DISCARDED" and t: "set_option t \<subseteq> set (map fst L)"
  shows "log_ready K'" "kkeep K K'" "idle A'"
    "\<exists>mss' L' fss'. k_ok K' [] mss' L' fss' \<and> boxes_rel (bytes K') (post outs boxes) mss' \<and>
      length L' = length L + (if t' \<noteq> None \<and> t = None then 1 else 0) \<and> set_option t' \<subseteq> set (map fst L') \<and>
      (t = None \<and> t' = None \<longrightarrow> L' = L)"
proof -
  show "log_ready K'" "kkeep K K'" "idle A'" using h by (simp_all add: handled_def idle_def)
  from h obtain mss' L' fss' where K': "k_ok K' [] mss' L' fss'" "sends A mss outs mss' (bytes K')"
    "timers_follow A t t' L L' (bytes K')" by (auto simp: handled_def)
  have "\<forall>x \<in> set (concat mss). bytes K' x = bytes K x" using h by (simp add: handled_def)
  then have "boxes_rel (bytes K') boxes mss" by (intro boxes_rel_cong [OF r]) blast
  from boxes_rel_sends [OF K'(2) this c] have "boxes_rel (bytes K') (post outs boxes) mss'" .
  moreover have "length L' = length L + (if t' \<noteq> None \<and> t = None then 1 else 0) \<and> set_option t' \<subseteq> set (map fst L') \<and>
      (t = None \<and> t' = None \<longrightarrow> L' = L)"
  proof (cases t)
    case None
    then show ?thesis
      using K'(3) set_dins [of "the t'" "unat TIMER1_COUNT" L] by (cases t') (simp_all add: timers_follow_def)
  next
    case (Some b)
    then show ?thesis using K'(3) t by (cases t') (simp_all add: timers_follow_def)
  qed
  ultimately show "\<exists>mss' L' fss'. k_ok K' [] mss' L' fss' \<and> boxes_rel (bytes K') (post outs boxes) mss' \<and>
      length L' = length L + (if t' \<noteq> None \<and> t = None then 1 else 0) \<and> set_option t' \<subseteq> set (map fst L') \<and>
      (t = None \<and> t' = None \<longrightarrow> L' = L)"
    using K'(1) by blast
qed

subsection \<open>Dispatching\<close>

lemma dispatch_object:
  assumes S: "sys_shape S" and m: "says (code, au, ps) (bytes K a)" "MSG_HEADER_LENGTH \<le> length (bytes K a)"
    and au: "unat au < 3"
  shows "dispatch nd vt a (K, S) = on_object (unat au) (v_Process vt (Some a)) (K, S)"
proof -
  have "\<not> au > S_NumberOfAutomates S" using S au by (simp add: sys_shape_def word_less_nat_alt)
  moreover have "bytes K a ! MSG_TO_AUTOMATE = au" "GetUint32 (bytes K a) MSG_OBJECT_ID_TO = 0" using m(1) by simp_all
  moreover have "unat au < length (S_Automates S)" "unat au < length (S_NumberOfObjects S)"
    "S_NumberOfObjects S ! unat au = 1" "S_Automates S ! unat au = Array [Some (unat au)]"
    using S au by (auto simp: sys_shape_def)
  ultimately show ?thesis
    using m(2) by (simp add: dispatch_def Let_def in_buff_def call_object_def object_at_def)
qed

subsection \<open>A round\<close>

lemma boxes_rel_first:
  assumes "boxes_rel bs boxes mss" "first_box boxes = Some i"
  shows "i < length mss" "\<exists>a as. mss ! i = a # as \<and> says (hd (boxes ! i)) (bs a) \<and> fst (hd (boxes ! i)) \<noteq> DISCARDED \<and>
      boxes_rel bs (boxes[i := tl (boxes ! i)]) (mss[i := as])" "\<forall>j < i. mss ! j = []"
proof -
  have i: "i < length boxes" "boxes ! i \<noteq> []" "\<forall>j < i. boxes ! j = []" using assms(2) by (auto simp: first_box_Some)
  show il: "i < length mss" using i(1) boxes_rel_length [OF assms(1)] by simp
  have r: "list_all2 (\<lambda>m b. says m (bs b) \<and> fst m \<noteq> DISCARDED) (boxes ! j) (mss ! j)" if "j \<le> i" for j
    using boxes_rel_nth [OF assms(1)] il that by simp
  show "\<forall>j < i. mss ! j = []"
  proof (intro allI impI)
    fix j assume "j < i"
    then have "boxes ! j = []" "j \<le> i" using i(3) by simp_all
    with r [of j] show "mss ! j = []" by simp
  qed
  obtain m ms where m: "boxes ! i = m # ms" using i(2) by (cases "boxes ! i") auto
  with r [of i] obtain a as where a: "mss ! i = a # as" "says m (bs a)" "fst m \<noteq> DISCARDED"
    "list_all2 (\<lambda>m b. says m (bs b) \<and> fst m \<noteq> DISCARDED) ms as" by (auto simp: list_all2_Cons1)
  with boxes_rel_update [OF assms(1) a(4), of i] m show "\<exists>a as. mss ! i = a # as \<and> says (hd (boxes ! i)) (bs a) \<and>
      fst (hd (boxes ! i)) \<noteq> DISCARDED \<and> boxes_rel bs (boxes[i := tl (boxes ! i)]) (mss[i := as])" by auto
qed

lemma ready_round:
  assumes "kernel_runs k N K" "idle A" "k_ok K [a] mss L fss" "3 + 1 + length L + length (concat mss) \<le> N"
  shows "ready_for k 3 a [] mss L K A"
proof -
  from assms(1) obtain n where "roomy K k N" by (simp add: kernel_runs_def)
  then have "roomy K k (3 + length [a] + length L + length (concat mss))"
    using assms(4) by (auto simp: roomy_def intro: le_trans)
  from roomy_stock [OF assms(3) this] assms show ?thesis
    unfolding ready_for_def kernel_runs_def idle_def by blast
qed

text \<open>The system after its object \<open>t\<close> has become \<open>x\<close>.\<close>

lemma on_object_virtual:
  "S_Objects S t = Channel A \<Longrightarrow> f (K, A) = Inr ((), K', A') \<Longrightarrow>
    on_object t (virtual f g h) (K, S) = Inr ((), K', S\<lparr>S_Objects := (S_Objects S)(t := Channel A')\<rparr>)"
  "S_Objects S t = Client B \<Longrightarrow> g (K, B) = Inr ((), K', B') \<Longrightarrow>
    on_object t (virtual f g h) (K, S) = Inr ((), K', S\<lparr>S_Objects := (S_Objects S)(t := Client B')\<rparr>)"
  "S_Objects S t = User C \<Longrightarrow> h (K, C) = Inr ((), K', C') \<Longrightarrow>
    on_object t (virtual f g h) (K, S) = Inr ((), K', S\<lparr>S_Objects := (S_Objects S)(t := User C')\<rparr>)"
  by (simp_all add: on_object_def)

lemma sys_shape_objects [simp]: "sys_shape (S\<lparr>S_Objects := f\<rparr>) = sys_shape S"
  by (simp add: sys_shape_def)

lemma timer_on_view: "timer_on (client_view A) = (timer_of A \<noteq> None)"
  by (simp add: client_view_def)

lemmas type_ids = CH_AUTOMATE_TYPE_ID_def CL_AUTOMATE_TYPE_ID_def USER_AUTOMATE_TYPE_ID_def

lemma scene_step_refines:
  assumes S: "sys_shape S" "S_Objects S 0 = Channel Ch" "S_Objects S 1 = Client Cl" "S_Objects S 2 = User Us"
    and I: "idle Ch" "idle Cl" "idle Us" "channel_ok Ch" "client_ok Cl" "user_ok Us"
    and V: "channel_view Ch = q_channel Q" "client_view Cl = q_client Q" "user_view Us = q_user Q"
    and K: "kernel_runs k N K" "k_ok K [a] mss L fss" "boxes_rel (bytes K) (q_boxes Q) mss"
    and L: "length L = q_timers Q" "set_option (timer_of Cl) \<subseteq> set (map fst L)"
    and m: "says m (bytes K a)" "accepts nd k m Q" and room: "3 + 1 + length L + length (concat mss) \<le> N"
  shows "\<exists>K' S'. dispatch nd (program_vtable nd) a (K, S) = Inr ((), K', S') \<and> running k N K' S' (scene_step m Q)"
proof -
  obtain code au ps where m': "m = (code, au, ps)" by (cases m)
  have h: "MSG_HEADER_LENGTH \<le> length (bytes K a)" using k_okD(7) [OF K(2)] by simp
  have w: "nd \<or> message_bytes ps mod 256 \<noteq> 0" using m(2) by (simp add: m')
  note M = says_loggable [OF m(1) [unfolded m'] h w]
  have au: "unat au < 3" using m(2) by (auto simp: m' type_ids split: if_splits)
  note D = dispatch_object [OF S(1) m(1) [unfolded m'] h au]
  note R = ready_round [OF K(1) _ K(2) room]
  have sv: "A_State Ch = v_state (q_channel Q)" "A_State Cl = fst (q_client Q)" "A_State Us = fst (q_user Q)"
    by (simp_all add: V [symmetric] client_view_def user_view_def)
  have none: "set_option None \<subseteq> set (map fst L)" by simp
  have ne: "CL_AUTOMATE_TYPE_ID \<noteq> CH_AUTOMATE_TYPE_ID" "USER_AUTOMATE_TYPE_ID \<noteq> CH_AUTOMATE_TYPE_ID"
    "USER_AUTOMATE_TYPE_ID \<noteq> CL_AUTOMATE_TYPE_ID" by (simp_all add: type_ids)
  consider (ch) "au = CH_AUTOMATE_TYPE_ID" | (cl) "au = CL_AUTOMATE_TYPE_ID" | (us) "au = USER_AUTOMATE_TYPE_ID"
    using m(2) by (auto simp: m' split: if_splits)
  then show ?thesis
  proof cases
    case ch
    let ?r = "channel_step (channel_view Ch) code ps"
    have st: "A_State Ch \<in> fst ` set channel_branches" "channel_needs k (channel_view Ch) code ps"
      unfolding sv V using m(2) by (simp_all add: m' ch)
    from channel.Process_step [OF R [OF I(1)] I(4) none M(1,3,2) st(1), unfolded channel_table_step, OF st(2), of nd]
    obtain K' A' where
      r: "Process nd (channel_exec nd) (Some a) (K, Ch) = Inr ((), K', A')" "channel_ok A'"
        "channel_view A' = fst ?r" "handled [] Ch mss L K (snd ?r) None None K' A'" unfolding achieves_def by blast
    note H = handled_kernel [OF r(4) K(3) all_step_codes(1) none]
    from H(4) obtain mss' fss' where H4: "k_ok K' [] mss' L fss'" "boxes_rel (bytes K') (post (snd ?r) (q_boxes Q)) mss'"
      by blast
    let ?S = "S\<lparr>S_Objects := (S_Objects S)(0 := Channel A')\<rparr>"
    have "dispatch nd (program_vtable nd) a (K, S) = Inr ((), K', ?S)"
      unfolding D using r(1) S(2) ch by (simp add: program_vtable_def on_object_virtual(1) type_ids)
    moreover have "scene_step m Q = Q\<lparr>q_channel := fst ?r, q_boxes := post (snd ?r) (q_boxes Q)\<rparr>"
      by (simp add: m' ch V case_prod_beta' Let_def)
    then have "running k N K' ?S (scene_step m Q)"
      unfolding running_def using S I(2-6) V H(3) r(2,3) H4 L kernel_runs_keep [OF K(1) H(2,1)] by simp blast
    ultimately show ?thesis by blast
  next
    case cl
    let ?r = "client_step (client_view Cl) code ps"
    have st: "A_State Cl \<in> fst ` set client_branches" "client_needs k (client_view Cl) code ps"
      unfolding sv V using m(2) by (simp_all add: m' cl ne)
    from client.Process_step [OF R [OF I(2)] I(5) L(2) M(1,3,2) st(1), unfolded client_table_step, OF st(2), of nd]
    obtain K' A' where
      r: "Process nd (client_exec nd) (Some a) (K, Cl) = Inr ((), K', A')" "client_ok A'"
        "client_view A' = fst ?r" "handled [] Cl mss L K (snd ?r) (timer_of Cl) (timer_of A') K' A'" unfolding achieves_def by blast
    note H = handled_kernel [OF r(4) K(3) all_step_codes(2) L(2)]
    from H(4) obtain mss' L' fss' where H4: "k_ok K' [] mss' L' fss'" "boxes_rel (bytes K') (post (snd ?r) (q_boxes Q)) mss'"
      "length L' = length L + (if timer_of A' \<noteq> None \<and> timer_of Cl = None then 1 else 0)"
      "set_option (timer_of A') \<subseteq> set (map fst L')" by blast
    let ?S = "S\<lparr>S_Objects := (S_Objects S)(1 := Client A')\<rparr>"
    have "dispatch nd (program_vtable nd) a (K, S) = Inr ((), K', ?S)"
      unfolding D using r(1) S(3) cl by (simp add: program_vtable_def on_object_virtual(2) type_ids)
    moreover have "scene_step m Q = Q\<lparr>q_client := fst ?r, q_boxes := post (snd ?r) (q_boxes Q),
        q_timers := q_timers Q + (if timer_on (fst ?r) \<and> \<not> timer_on (client_view Cl) then 1 else 0)\<rparr>"
      by (simp add: m' cl ne V case_prod_beta' Let_def)
    then have "scene_step m Q = Q\<lparr>q_client := fst ?r, q_boxes := post (snd ?r) (q_boxes Q), q_timers := length L'\<rparr>"
      unfolding H4(3) r(3) [symmetric] timer_on_view using L(1) by simp
    then have "running k N K' ?S (scene_step m Q)"
      unfolding running_def using S I(1,3-6) V H(3) r(2,3) H4(1,2,4) kernel_runs_keep [OF K(1) H(2,1)] by simp blast
    ultimately show ?thesis by blast
  next
    case us
    let ?r = "user_step (user_view Us) code ps"
    have st: "A_State Us \<in> fst ` set user_branches" "user_needs k (user_view Us) code ps"
      unfolding sv V using m(2) by (simp_all add: m' us ne)
    from user.Process_step [OF R [OF I(3)] I(6) none M(1,3,2) st(1), unfolded user_table_step, OF st(2), of nd]
    obtain K' A' where
      r: "Process nd (user_exec nd) (Some a) (K, Us) = Inr ((), K', A')" "user_ok A'"
        "user_view A' = fst ?r" "handled [] Us mss L K (snd ?r) None None K' A'" unfolding achieves_def by blast
    note H = handled_kernel [OF r(4) K(3) all_step_codes(3) none]
    from H(4) obtain mss' fss' where H4: "k_ok K' [] mss' L fss'" "boxes_rel (bytes K') (post (snd ?r) (q_boxes Q)) mss'"
      by blast
    let ?S = "S\<lparr>S_Objects := (S_Objects S)(2 := User A')\<rparr>"
    have "dispatch nd (program_vtable nd) a (K, S) = Inr ((), K', ?S)"
      unfolding D using r(1) S(4) us by (simp add: program_vtable_def on_object_virtual(3) type_ids)
    moreover have "scene_step m Q = Q\<lparr>q_user := fst ?r, q_boxes := post (snd ?r) (q_boxes Q)\<rparr>"
      by (simp add: m' us ne V case_prod_beta' Let_def)
    then have "running k N K' ?S (scene_step m Q)"
      unfolding running_def using S I V H(3) r(2,3) H4 L kernel_runs_keep [OF K(1) H(2,1)] by simp blast
    ultimately show ?thesis by blast
  qed
qed

text \<open>A call of \<open>GetMsgSync\<close> and what is done with its message.\<close>

lemma round_refines:
  assumes r: "running k N K S Q" and e: "enabled nd k N Q"
  shows "\<exists>K' S'. start_body nd (program_vtable nd) (K, S) = Inr ((), K', S') \<and> running k N K' S' (scene_round Q)"
proof -
  from r obtain Ch Cl Us mss L fss where
    S: "sys_shape S" "S_Objects S 0 = Channel Ch" "S_Objects S 1 = Client Cl" "S_Objects S 2 = User Us"
    and I: "idle Ch" "idle Cl" "idle Us" "channel_ok Ch" "client_ok Cl" "user_ok Us"
    and V: "channel_view Ch = q_channel Q" "client_view Cl = q_client Q" "user_view Us = q_user Q"
    and K: "kernel_runs k N K" "k_ok K [] mss L fss" "boxes_rel (bytes K) (q_boxes Q) mss"
    and L: "length L = q_timers Q" "set_option (timer_of Cl) \<subseteq> set (map fst L)" unfolding running_def by blast
  from e obtain i where i: "first_box (q_boxes Q) = Some i" "accepts nd k (hd (q_boxes Q ! i)) Q"
    "3 + q_timers Q + length (concat (q_boxes Q)) \<le> N" by (auto simp: enabled_def split: option.splits)
  let ?m = "hd (q_boxes Q ! i)" and ?Q = "Q\<lparr>q_boxes := (q_boxes Q)[i := tl (q_boxes Q ! i)]\<rparr>"
  note B = boxes_rel_first [OF K(3) i(1)]
  from B(2) obtain a as where a: "mss ! i = a # as" "says ?m (bytes K a)" "fst ?m \<noteq> DISCARDED"
    "boxes_rel (bytes K) (q_boxes ?Q) (mss[i := as])" by auto
  have nd: "\<not> is_discarded (K_mem K) a" using a(2,3) by (cases ?m) (simp add: is_discarded_def)
  have tot: "length (concat mss) = length (concat (q_boxes Q))" using boxes_rel_total [OF K(3)] by simp
  have upd: "mset (concat (mss[i := as])) + mset (mss ! i) = mset (concat mss) + mset as"
    using mset_concat_update [OF B(1)] .
  then have "size (mset (concat (mss[i := as])) + mset (mss ! i)) = size (mset (concat mss) + mset as)" by simp
  then have tot': "length (concat (mss[i := as])) + 1 = length (concat mss)" by (simp add: a(1) del: length_concat)
  have "length (mss ! i) \<le> length (concat mss)"
    unfolding length_concat using B(1) by (intro member_le_sum_list) simp_all
  also have "\<dots> \<le> SEM_MAX" using k_ok_messages [OF K(2)] K(1) by (simp add: kernel_runs_def)
  finally have sem: "length (mss ! i) \<le> SEM_MAX" .
  have "S_Kernel S" "unat (MailBoxesNum (K_PostOffice K)) \<le> MAXIMUM_WAIT_OBJECTS"
    using S(1) K(1) by (simp_all add: sys_shape_def kernel_runs_def)
  from GetMsgSync_ok [OF K(2) this B(1) a(1) B(3) nd sem, of nd] obtain K1 where
    g: "GetMsgSync nd (K, S) = Inr ((Some a, of_nat i), K1, S)" "k_ok K1 [a] (mss[i := as]) L fss" "kframe {} K K1"
    by blast
  have b: "bytes K1 = bytes K" using kframeD(1) [OF g(3)] by auto
  have K1: "kernel_runs k N K1"
    by (rule kernel_runs_keep [OF K(1) kframe_keep [OF g(3)]]) (use K(1) kframeD(6) [OF g(3)] in \<open>simp add: kernel_runs_def\<close>)
  have "accepts nd k ?m ?Q" using i(2) by (cases ?m) simp
  moreover have "3 + 1 + length L + length (concat (mss[i := as])) \<le> N"
    using i(3) tot tot' L(1) by (simp del: length_concat)
  ultimately obtain K' S' where
    "dispatch nd (program_vtable nd) a (K1, S) = Inr ((), K', S')" "running k N K' S' (scene_step ?m ?Q)"
    using scene_step_refines [where Q = ?Q, OF S I _ _ _ K1 g(2) _ _ L(2), of ?m nd] V a(2,4) L(1) by (auto simp: b)
  then show ?thesis
    using g(1) i(1) by (intro exI [of _ K'] exI [of _ S']) (simp add: start_body_def scene_round_def)
qed

text \<open>The listening thread.\<close>

lemma listen_refines:
  assumes r: "running k N K S Q" and room: "2 + q_timers Q + length (concat (q_boxes Q)) \<le> N"
    and len: "case r of Received bs \<Rightarrow> length bs \<le> min k 255 | _ \<Rightarrow> True"
  shows "\<exists>K' S'. listener nd r (K, S) = Inr ((), K', S') \<and> running k N K' S' (scene_listen r Q)"
proof -
  from r obtain Ch Cl Us mss L fss where
    S: "sys_shape S" "S_Objects S 0 = Channel Ch" "S_Objects S 1 = Client Cl" "S_Objects S 2 = User Us"
    and I: "idle Ch" "idle Cl" "idle Us" "channel_ok Ch" "client_ok Cl" "user_ok Us"
    and V: "channel_view Ch = q_channel Q" "client_view Cl = q_client Q" "user_view Us = q_user Q"
    and K: "kernel_runs k N K" "k_ok K [] mss L fss" "boxes_rel (bytes K) (q_boxes Q) mss"
    and L: "length L = q_timers Q" "set_option (timer_of Cl) \<subseteq> set (map fst L)" unfolding running_def by blast
  let ?r = "listen_step (channel_view Ch) r"
  have "roomy K k (2 + length [] + length L + length (concat mss))"
    using K(1) room boxes_rel_total [OF K(3)] L(1) by (auto simp: kernel_runs_def roomy_def intro: le_trans)
  from roomy_stock [OF K(2) this] have "sending k 2 [] Ch mss K [] L K Ch"
    using K(1,2) I(1) unfolding sending_def kernel_runs_def idle_def by auto
  moreover have "H_CurrentMessage Ch = None" using I(1) by (simp add: idle_def)
  moreover have "length bs \<le> min k 255" if "r = Received bs" for bs using len that by simp
  ultimately have "achieves (listener_step nd r) K Ch (\<lambda>K' A'. channel_ok A' \<and> channel_view A' = fst ?r \<and>
      handled [] Ch mss L K (snd ?r) None None K' A')" using listener_refines [OF _ _ I(4)] by blast
  then obtain K' A' where
    s: "listener_step nd r (K, Ch) = Inr ((), K', A')" "channel_ok A'" "channel_view A' = fst ?r"
      "handled [] Ch mss L K (snd ?r) None None K' A'" unfolding achieves_def by blast
  have none: "set_option None \<subseteq> set (map fst L)" by simp
  note H = handled_kernel [OF s(4) K(3) all_step_codes(4) none]
  from H(4) obtain mss' fss' where H4: "k_ok K' [] mss' L fss'" "boxes_rel (bytes K') (post (snd ?r) (q_boxes Q)) mss'"
    by blast
  let ?S = "S\<lparr>S_Objects := (S_Objects S)(0 := Channel A')\<rparr>"
  have "listener nd r (K, S) = Inr ((), K', ?S)"
    unfolding listener_def using on_object_virtual(1) [OF S(2), where f = "listener_step nd r"] s(1) by simp
  moreover have "scene_listen r Q = Q\<lparr>q_channel := fst ?r, q_boxes := post (snd ?r) (q_boxes Q)\<rparr>"
    by (simp add: scene_listen_def V case_prod_beta' Let_def)
  then have "running k N K' ?S (scene_listen r Q)"
    unfolding running_def using S I(2-6) V H(3) s(2,3) H4 L kernel_runs_keep [OF K(1) H(2,1)] by simp blast
  ultimately show ?thesis by blast
qed

text \<open>Without a message the monitor loop waits for the listening thread or the clock.\<close>

lemma list_all2_all_Nil: "\<forall>xs \<in> set xss. xs = [] \<Longrightarrow> list_all2 (list_all2 P) xss yss \<Longrightarrow> \<forall>ys \<in> set yss. ys = []"
  by (induction xss arbitrary: yss) (auto simp: list_all2_Cons1)

lemma round_blocks:
  assumes "running k N K S Q" "\<forall>ms \<in> set (q_boxes Q). ms = []"
  shows "start_body nd vt (K, S) = Inl Blocked"
proof -
  from assms(1) obtain mss L fss where
    r: "sys_shape S" "kernel_runs k N K" "k_ok K [] mss L fss" "boxes_rel (bytes K) (q_boxes Q) mss"
    unfolding running_def by blast
  have "\<forall>ms \<in> set mss. ms = []"
    using assms(2) r(4) [unfolded boxes_rel_def] by (rule list_all2_all_Nil)
  moreover have "S_Kernel S" "unat (MailBoxesNum (K_PostOffice K)) \<le> MAXIMUM_WAIT_OBJECTS"
    using r(1,2) by (simp_all add: sys_shape_def kernel_runs_def)
  ultimately show ?thesis
    using GetMsgSync_blocks [OF r(3), of S nd] by (simp add: start_body_def bnd_def)
qed

subsection \<open>Any order of the two threads\<close>

text \<open>\<open>Serve\<close> is a call of \<open>GetMsgSync\<close> by the monitor loop, \<open>Recv r\<close> a call of \<open>recv\<close> that returns \<open>r\<close>.\<close>

datatype event = Serve | Recv recv_result

fun event_op :: "bool \<Rightarrow> event \<Rightarrow> (actor, unit) sop" where
  "event_op nd Serve = start_body nd (program_vtable nd)"
| "event_op nd (Recv r) = listener nd r"

fun scene_event :: "event \<Rightarrow> scene \<Rightarrow> scene" where
  "scene_event Serve Q = scene_round Q"
| "scene_event (Recv r) Q = scene_listen r Q"

fun event_enabled :: "bool \<Rightarrow> nat \<Rightarrow> nat \<Rightarrow> event \<Rightarrow> scene \<Rightarrow> bool" where
  "event_enabled nd k N Serve Q = enabled nd k N Q"
| "event_enabled nd k N (Recv r) Q \<longleftrightarrow> 2 + q_timers Q + length (concat (q_boxes Q)) \<le> N \<and>
     (case r of Received bs \<Rightarrow> length bs \<le> min k 255 | _ \<Rightarrow> True)"

fun events_enabled :: "bool \<Rightarrow> nat \<Rightarrow> nat \<Rightarrow> event list \<Rightarrow> scene \<Rightarrow> bool" where
  "events_enabled nd k N [] Q = True"
| "events_enabled nd k N (e # es) Q \<longleftrightarrow> event_enabled nd k N e Q \<and> events_enabled nd k N es (scene_event e Q)"

lemma events_refine:
  "running k N K S Q \<Longrightarrow> events_enabled nd k N es Q \<Longrightarrow>
    \<exists>K' S'. run (map (event_op nd) es) (K, S) = Inr ((), K', S') \<and> running k N K' S' (fold scene_event es Q)"
proof (induction es arbitrary: K S Q)
  case (Cons e es)
  have "\<exists>K' S'. event_op nd e (K, S) = Inr ((), K', S') \<and> running k N K' S' (scene_event e Q)"
  proof (cases e)
    case Serve
    then show ?thesis using round_refines [OF Cons.prems(1), of nd] Cons.prems(2) by simp
  next
    case (Recv r)
    then show ?thesis using listen_refines [OF Cons.prems(1), of r nd] Cons.prems(2) by simp
  qed
  then obtain K1 S1 where 1: "event_op nd e (K, S) = Inr ((), K1, S1)" "running k N K1 S1 (scene_event e Q)" by blast
  from Cons.IH [OF this(2)] Cons.prems(2) 1(1) show ?case by auto
qed simp

lemma serve_rounds:
  "fold scene_event (replicate n Serve) Q = rounds n Q"
  "events_enabled nd k N (replicate n Serve) Q = all_enabled nd k N n Q"
  by (induction n arbitrary: Q) simp_all

lemma events_enabled_append:
  "events_enabled nd k N (es @ fs) Q \<longleftrightarrow> events_enabled nd k N es Q \<and> events_enabled nd k N fs (fold scene_event es Q)"
  by (induction es arbitrary: Q) simp_all

end
