(* ===== verification/Boot.thy ===== *)
theory Boot
  imports SceneRefines
begin

text \<open>
  The start of the program: \<open>boot\<close> leads from raw memory to a running program whose scene is
  \<open>first_scene\<close>.
\<close>

subsection \<open>The kernel\<close>

lemma program_classes: "sort_classes 4 (buffsLength, buffsCount) = (buffsLength, buffsCount)"
  by (rule sort_classes_sorted) (simp_all add: buffsLength_def)

lemma make_mailboxes_all:
  "make_mailboxes n (Some B) = Inr (replicate n \<lparr>mb_Head = None, mb_Tail = None, mb_Count = 0, CsMailBox = 0\<rparr>)"
  by (induction n) (simp_all add: TMailBox_def)

lemma program_pool:
  assumes "m_top m = 0"
  shows "\<exists>m' B fss. TBuffers 4 (Some buffsCount) (Some buffsLength) junk m = Inr (m', B) \<and> tb_content (m', B) fss \<and>
    concat fss = [0 ..< m_top m'] \<and> m_top m' = 5110 \<and> length (fss ! 0) = 50 \<and> BuffersLength B ! 0 = 128 \<and>
    ClassBufferNum B = 4"
proof -
  have l: "length buffsLength = 4" "length buffsCount = 4" by (simp_all add: buffsLength_def buffsCount_def)
  have "\<forall>(len, cnt) \<in> set (zip buffsLength buffsCount). class_ok len cnt"
    by (simp add: buffsLength_def buffsCount_def class_ok_def)
  from TBuffers_succeeds [of 4 buffsLength buffsCount junk m] this l obtain m' B where
    r: "TBuffers 4 (Some buffsCount) (Some buffsLength) junk m = Inr (m', B)" by (auto simp: MAX_BUFF_CLASS_NO_def)
  from TBuffers_classes [OF r] program_classes l obtain fss where
    c: "BuffersLength B = buffsLength @ replicate (MAX_BUFF_CLASS_NO - 4) 0" "map length fss = map unat buffsCount"
      "tb_content (m', B) fss" "concat fss = [0 ..< m_top m']" "ClassBufferNum B = 4"
    using assms by auto
  have "m_top m' = length (concat fss)" using c(4) by simp
  also have "\<dots> = sum_list (map unat buffsCount)" unfolding length_concat c(2) ..
  finally have "m_top m' = 5110" by (simp add: buffsCount_def)
  moreover have "length (fss ! 0) = 50"
  proof -
    have "fss \<noteq> []" using c(2) by (auto simp: buffsCount_def)
    then have "length (fss ! 0) = map length fss ! 0" by simp
    then show ?thesis unfolding c(2) by (simp add: buffsCount_def)
  qed
  moreover have "BuffersLength B ! 0 = 128" unfolding c(1) by (simp add: buffsLength_def)
  ultimately show ?thesis using r c by blast
qed

lemma InitKernel_ok:
  assumes K: "m_top (K_mem K) = 0" "log_ready K" and S: "S_NumberOfMbx S = 3" and i: "ident \<noteq> 0"
  shows "\<exists>K' fss. InitKernel 4 (Some buffsCount) (Some buffsLength) 3 Timer1s junk ident (K, S) =
      Inr ((), K', S\<lparr>S_Kernel := True, S_FreeKernelMemory := True\<rparr>) \<and>
    k_ok K' [] (replicate 6 []) [] fss \<and> kernel_runs 98 50 K'"
proof -
  from program_pool [OF K(1), of junk] obtain m' B fss where
    p: "TBuffers 4 (Some buffsCount) (Some buffsLength) junk (K_mem K) = Inr (m', B)" "tb_content (m', B) fss"
      "concat fss = [0 ..< m_top m']" "m_top m' = 5110" "length (fss ! 0) = 50" "BuffersLength B ! 0 = 128"
      "ClassBufferNum B = 4" by blast
  let ?mb = "\<lparr>mb_Head = None, mb_Tail = None, mb_Count = 0, CsMailBox = 0\<rparr> :: mbox"
  let ?P = "\<lparr>MailBoxes = replicate 6 ?mb, MailBoxesNum = 6, semHandle = replicate 6 0\<rparr>"
  let ?T = "\<lparr>t_First = None, t_HeadCount = 0, TimerResolution = Timer1s, CsTimer = 0\<rparr> :: timers"
  let ?K = "K\<lparr>K_mem := m', K_PostOffice := ?P, K_Buffers := B, K_Timer := ?T, K_Api := True\<rparr>"
  have init: "InitKernel 4 (Some buffsCount) (Some buffsLength) 3 Timer1s junk ident (K, S) =
      Inr ((), ?K, S\<lparr>S_Kernel := True, S_FreeKernelMemory := True\<rparr>)"
    using p(1) S i by (simp add: InitKernel_def TPostOffice_def make_mailboxes_all CTimer_def SetKernelObjects_def)
  have "used_buffers (m', B) fss []" by (simp add: used_buffers_def)
  then have po: "po_ok (m', B, ?P) (replicate 6 []) fss"
    using p(2) by (simp add: po_ok_def mb_content_def lq_def)
  have "kernel_ok (m', B, ?P, ?T) (replicate 6 []) [] fss"
    using po \<open>used_buffers (m', B) fss []\<close> by (simp add: kernel_ok_def timer_content_def)
  moreover have "accounted (m_top m') [] fss"
    using p(3) by (simp add: accounted_def pooled_def atLeast0LessThan del: set_concat)
  ultimately have "k_ok ?K [] (replicate 6 []) [] fss"
    using \<open>used_buffers (m', B) fss []\<close> by (simp add: k_ok_def signals_def)
  moreover have "50 \<le> class_size ?K 0"
  proof -
    have il: "0 < length fss" using tb_contentD [OF p(2)] p(7) by (cases fss) (auto simp: tb_wf_def)
    have "set (fss ! 0) \<subseteq> {a. a < m_top m' \<and> unat (m_code m' a) = 0}"
    proof
      fix a assume a: "a \<in> set (fss ! 0)"
      then have "a \<in> set (concat fss)" using mset_in_concat [OF il] by blast
      then have "a < m_top m'" unfolding p(3) by simp
      with tb_contentD(6) [OF p(2) il a] show "a \<in> {a. a < m_top m' \<and> unat (m_code m' a) = 0}" by simp
    qed
    then have "card (set (fss ! 0)) \<le> card {a. a < m_top m' \<and> unat (m_code m' a) = 0}" by (intro card_mono) simp_all
    moreover have "distinct (fss ! 0)" using tb_contentD(4) [OF p(2)] il by (simp add: distinct_concat_iff)
    ultimately show ?thesis using p(5) by (simp add: class_size_def distinct_card)
  qed
  then have "kernel_runs 98 50 ?K"
    using K(2) p(4,6,7) by (auto simp: kernel_runs_def log_ready_def roomy_def fits_class_def USER_AUTOMATE_MBX_ID_def
        MAXIMUM_WAIT_OBJECTS_def SEM_MAX_def offset_defs intro!: exI [of _ 0])
  ultimately show ?thesis using init by blast
qed

subsection \<open>The automata\<close>

lemma fl_Add_ok: "\<exists>s'. fl_Add (Some a) s = Inr s'"
  by (cases "fl_PutOnTail s a") (simp add: fl_Add_def)

text \<open>A type of automata with one object has been added to the tables.\<close>

definition added :: "nat \<Rightarrow> oid \<Rightarrow> 'o \<Rightarrow> 'o fsm_system \<Rightarrow> 'o fsm_system \<Rightarrow> bool" where
  "added t a x S S' \<longleftrightarrow> S_Kernel S' = S_Kernel S \<and> S_NumberOfAutomates S' = S_NumberOfAutomates S \<and>
     S_NumberOfMbx S' = S_NumberOfMbx S \<and> S_serverId S' = S_serverId S \<and>
     S_NumberOfObjects S' = (S_NumberOfObjects S)[t := 1] \<and> S_Automates S' = (S_Automates S)[t := Array [Some a]] \<and>
     S_Objects S' = (S_Objects S)(a := x) \<and>
     length (S_UseFreeAutomateList S') = length (S_UseFreeAutomateList S) \<and>
     length (S_FreeAutomates S') = length (S_FreeAutomates S)"

lemma sys_Add_first_ok:
  assumes t: "t = unat automateType" "t < unat (S_NumberOfAutomates S)" "t < length (S_Automates S)"
      "t < length (S_NumberOfObjects S)" "t < length (S_UseFreeAutomateList S)" "t < length (S_FreeAutomates S)"
    and empty: "S_Automates S ! t = NoArray" "S_NumberOfObjects S ! t = 0"
    and init: "v_Initialize vt (K, v_SetGroup vt (S_serverId S) (v_SetObjectId vt 0 (S_Objects S a))) = Inr ((), K, A')"
  shows "\<exists>S'. sys_Add_first nd vt (Some a) automateType 1 True (K, S) = Inr ((), K, S') \<and> added t a A' S S'"
proof -
  obtain nx L where f: "fl_Add (Some a) (S_Next S, S_FreeAutomates S ! t) = Inr (nx, L)"
    using fl_Add_ok [of a "(S_Next S, S_FreeAutomates S ! t)"] by auto
  have "\<not> S_NumberOfAutomates S \<le> automateType" using t(1,2) by (simp add: word_le_nat_alt)
  then show ?thesis
    using t empty init f
    by (simp add: sys_Add_first_def Let_def set_array_def init_object_def on_object_def sys_FreeFSM_def free_add_def added_def)
qed

lemma program_Initialize:
  "v_Initialize (program_vtable nd) (K, v_SetGroup (program_vtable nd) g (v_SetObjectId (program_vtable nd) i (Channel A))) =
    bindR (channel_Initialize (K, A\<lparr>A_ConnectionId := i, A_GroupId := g\<rparr>)) (\<lambda>(_, K, A). Inr ((), K, Channel A))"
  "v_Initialize (program_vtable nd) (K, v_SetGroup (program_vtable nd) g (v_SetObjectId (program_vtable nd) i (Client B))) =
    bindR (client_Initialize (K, B\<lparr>A_ConnectionId := i, A_GroupId := g\<rparr>)) (\<lambda>(_, K, A). Inr ((), K, Client A))"
  "v_Initialize (program_vtable nd) (K, v_SetGroup (program_vtable nd) g (v_SetObjectId (program_vtable nd) i (User C))) =
    bindR (user_Initialize (K, C\<lparr>A_ConnectionId := i, A_GroupId := g\<rparr>)) (\<lambda>(_, K, A). Inr ((), K, User A))"
  by (simp_all add: program_vtable_def)

text \<open>\<open>User.Start()\<close> sends the first message.\<close>

lemma user_Start_refines:
  assumes r: "running k N K S Q" and room: "1 + q_timers Q + length (concat (q_boxes Q)) \<le> N"
  shows "\<exists>K' S'. on_object 2 (virtual f g (user_Start nd)) (K, S) = Inr ((), K', S') \<and>
    running k N K' S' (Q\<lparr>q_boxes := post [(USER_AUTOMATE_MBX_ID, MSG_User_Idle, USER_AUTOMATE_TYPE_ID, [])] (q_boxes Q)\<rparr>)"
proof -
  from r obtain Ch Cl Us mss L fss where
    S: "sys_shape S" "S_Objects S 0 = Channel Ch" "S_Objects S 1 = Client Cl" "S_Objects S 2 = User Us"
    and I: "idle Ch" "idle Cl" "idle Us" "channel_ok Ch" "client_ok Cl" "user_ok Us"
    and V: "channel_view Ch = q_channel Q" "client_view Cl = q_client Q" "user_view Us = q_user Q"
    and K: "kernel_runs k N K" "k_ok K [] mss L fss" "boxes_rel (bytes K) (q_boxes Q) mss"
    and L: "length L = q_timers Q" "set_option (timer_of Cl) \<subseteq> set (map fst L)" unfolding running_def by blast
  let ?m = "(USER_AUTOMATE_MBX_ID, MSG_User_Idle, USER_AUTOMATE_TYPE_ID, [])"
  have "roomy K k (1 + length [] + length L + length (concat mss))"
    using K(1) room boxes_rel_total [OF K(3)] L(1) by (auto simp: kernel_runs_def roomy_def intro: le_trans)
  from roomy_stock [OF K(2) this] have "sending k (Suc 0) [] Us mss K [] L K Us"
    using K(1,2) I(3) unfolding sending_def kernel_runs_def idle_def by auto
  from sending_send_to [OF this order_refl, of nd MSG_User_Idle USER_AUTOMATE_TYPE_ID] obtain K' A' where
    s: "user_Start nd (K, Us) = Inr ((), K', A')" "sent Us A'" "sending k 0 [] Us mss K ([] @ [?m]) L K' A'"
    unfolding achieves_def user_Start_def by blast
  have "H_CurrentMessage A' = None" using sent_sel(1) [OF s(2)] I(3) by (simp add: idle_def)
  from sending_handled [OF s(3) this] have h: "handled [] Us mss L K [?m] None None K' A'" by simp
  have "\<forall>p \<in> set [?m]. fst (snd p) \<noteq> DISCARDED" "set_option None \<subseteq> set (map fst L)"
    by (simp_all add: msg_codes DISCARDED_def)
  note H = handled_kernel [OF h K(3) this]
  from H(4) obtain mss' fss' where H4: "k_ok K' [] mss' L fss'" "boxes_rel (bytes K') (post [?m] (q_boxes Q)) mss'"
    by blast
  let ?S = "S\<lparr>S_Objects := (S_Objects S)(2 := User A')\<rparr>"
  have U: "user_ok A'" "user_view A' = user_view Us" using user_data [OF sent_sel(5) [OF s(2)]] I(6) by simp_all
  have "on_object 2 (virtual f g (user_Start nd)) (K, S) = Inr ((), K', ?S)"
    using on_object_virtual(3) [OF S(4), where h = "user_Start nd"] s(1) by simp
  moreover have "running k N K' ?S (Q\<lparr>q_boxes := post [?m] (q_boxes Q)\<rparr>)"
    unfolding running_def using S I(1,2,4,5) V H(3) U H4 L kernel_runs_keep [OF K(1) H(2,1)] by simp blast
  ultimately show ?thesis by blast
qed

subsection \<open>The start\<close>

definition first_scene :: "channel \<Rightarrow> client \<Rightarrow> user \<Rightarrow> scene" where
  "first_scene Ch Cl Us = \<lparr>
     q_user = (FSM_User_Idle, c_str (U_DNSRequestInput Us), U_Console Us, U_Printed Us),
     q_client = (FSM_Client_Idle, c_str (C_DNSRequestInput Cl), c_str (C_DNSRequestOutput Cl), False, C_Table Cl),
     q_channel = (channel_view Ch)\<lparr>v_state := FSM_Channel_Idle, v_starts := 0\<rparr>,
     q_boxes = [[], [], [(MSG_User_Idle, USER_AUTOMATE_TYPE_ID, [])], [], [], []],
     q_timers = 0\<rparr>"

text \<open>What the memory of the three automata must hold: the arrays of the strings.\<close>

definition raw_automata :: "actor fsm_system \<Rightarrow> channel \<Rightarrow> client \<Rightarrow> user \<Rightarrow> bool" where
  "raw_automata S Ch Cl Us \<longleftrightarrow>
     S_Objects S 0 = Channel Ch \<and> S_Objects S 1 = Client Cl \<and> S_Objects S 2 = User Us \<and>
     H_codec Ch = pc16 \<and> H_codec Cl = pc16 \<and> H_codec Us = pc16 \<and>
     length (H_DNSRequestInput Ch) = 256 \<and> length (C_DNSRequestInput Cl) = 256 \<and>
     length (C_DNSRequestOutput Cl) = 256 \<and> length (U_DNSRequestInput Us) = 256"

lemma run_step: "f s = Inr ((), s') \<Longrightarrow> run fs s' = r \<Longrightarrow> run (f # fs) s = r"
  by simp

lemma boot_runs:
  assumes S0: "FSMSystem AUTOMAT_COUNT MSGBOX_COUNT S0 = Inr S" "3 \<le> length (S_FreeAutomates S0)"
    and raw: "raw_automata S0 Ch Cl Us" and K: "m_top (K_mem K) = 0" and i: "E_ident E \<noteq> 0"
    and lf: "SystemLog E = Inr lf"
  shows "\<exists>K' S'. boot nd E (K, S) = Inr ((), K', S') \<and> running 98 50 K' S' (first_scene Ch Cl Us)"
proof -
  let ?K = "K\<lparr>K_Api := False, K_LogingObject := None\<rparr>"
  note R = raw [unfolded raw_automata_def]
  have rep: "replicate 3 x = [x, x, x]" for x :: 'x by (simp add: numeral_3_eq_3)
  have S: "S_NumberOfAutomates S = 3" "S_NumberOfMbx S = 3" "S_Automates S = [NoArray, NoArray, NoArray] @ drop 3 (S_Automates S0)"
    "S_NumberOfObjects S = [0, 0, 0] @ drop 3 (S_NumberOfObjects S0)"
    "S_UseFreeAutomateList S = [False, False, False] @ drop 3 (S_UseFreeAutomateList S0)"
    "S_Objects S = S_Objects S0" "S_FreeAutomates S = S_FreeAutomates S0"
    using S0(1) rep by (auto simp: FSMSystem_def checkC_Inr AUTOMAT_COUNT_def MSGBOX_COUNT_def Let_def)
  from channel_built [of Ch K] R obtain Ch1 where
    ch: "ChAuto (K, Ch) = Inr ((), ?K, Ch1)" "built CH_AUTOMATE_TYPE_ID CH_AUTOMATE_MBX_ID 6 3 Ch Ch1" by blast
  from client_built [of Cl ?K] R obtain Cl1 where
    cl: "ClAuto (?K, Cl) = Inr ((), ?K, Cl1)" "built CL_AUTOMATE_TYPE_ID CL_AUTOMATE_MBX_ID 10 2 Cl Cl1" by auto
  from user_built [of Us ?K] R obtain Us1 where
    us: "UserAuto (?K, Us) = Inr ((), ?K, Us1)" "built USER_AUTOMATE_TYPE_ID USER_AUTOMATE_MBX_ID 4 3 Us Us1" by auto
  let ?S1 = "S\<lparr>S_Objects := (S_Objects S)(0 := Channel Ch1, 1 := Client Cl1, 2 := User Us1)\<rparr>"
  let ?K1 = "SetLogInterface (LogInterface (E_logmem E)) ?K"
  have K1: "m_top (K_mem ?K1) = 0" "log_ready ?K1"
    using K by (simp_all add: SetLogInterface_def log_ready_def LogInterface_def)
  have "S_NumberOfMbx ?S1 = 3" using S by simp
  from InitKernel_ok [OF K1 this i, of "E_junk E"] obtain K2 fss where
    k: "InitKernel 4 (Some buffsCount) (Some buffsLength) 3 Timer1s (E_junk E) (E_ident E) (?K1, ?S1) =
        Inr ((), K2, ?S1\<lparr>S_Kernel := True, S_FreeKernelMemory := True\<rparr>)"
      "k_ok K2 [] (replicate 6 []) [] fss" "kernel_runs 98 50 K2" by blast
  let ?S2 = "?S1\<lparr>S_Kernel := True, S_FreeKernelMemory := True\<rparr>" and ?vt = "program_vtable nd"
  note defs = program_vtable_def type_ids
  from channel_initialized [of _ _ Ch "Ch1\<lparr>A_ConnectionId := 0, A_GroupId := S_serverId S\<rparr>" K2] ch(2) R obtain Ch2 where
    ch2: "channel_Initialize (K2, Ch1\<lparr>A_ConnectionId := 0, A_GroupId := S_serverId S\<rparr>) = Inr ((), K2, Ch2)"
      "idle Ch2" "channel_ok Ch2" "channel_view Ch2 = (channel_view Ch)\<lparr>v_state := FSM_Channel_Idle, v_starts := 0\<rparr>"
    by auto
  from client_initialized [of Cl "Cl1\<lparr>A_ConnectionId := 0, A_GroupId := S_serverId S\<rparr>" K2] cl(2) R obtain Cl2 where
    cl2: "client_Initialize (K2, Cl1\<lparr>A_ConnectionId := 0, A_GroupId := S_serverId S\<rparr>) = Inr ((), K2, Cl2)"
      "idle Cl2" "client_ok Cl2" "timer_of Cl2 = None"
      "client_view Cl2 = (FSM_Client_Idle, c_str (C_DNSRequestInput Cl), c_str (C_DNSRequestOutput Cl), False, C_Table Cl)"
    by auto
  from user_initialized [of _ _ Us "Us1\<lparr>A_ConnectionId := 0, A_GroupId := S_serverId S\<rparr>" K2] us(2) R obtain Us2 where
    us2: "user_Initialize (K2, Us1\<lparr>A_ConnectionId := 0, A_GroupId := S_serverId S\<rparr>) = Inr ((), K2, Us2)"
      "idle Us2" "user_ok Us2" "user_view Us2 = (FSM_User_Idle, c_str (U_DNSRequestInput Us), U_Console Us, U_Printed Us)"
    by auto
  have S2: "S_NumberOfAutomates ?S2 = 3" "S_NumberOfMbx ?S2 = 3" "S_Automates ?S2 = [NoArray, NoArray, NoArray] @ drop 3 (S_Automates S0)"
    "S_NumberOfObjects ?S2 = [0, 0, 0] @ drop 3 (S_NumberOfObjects S0)" "3 \<le> length (S_UseFreeAutomateList ?S2)"
    "3 \<le> length (S_FreeAutomates ?S2)" "S_Kernel ?S2" "S_serverId ?S2 = S_serverId S"
    "S_Objects ?S2 0 = Channel Ch1" "S_Objects ?S2 1 = Client Cl1" "S_Objects ?S2 2 = User Us1"
    using S S0(2) by simp_all
  have "S_UseFreeAutomateList ?S2 \<noteq> []" "S_FreeAutomates ?S2 \<noteq> []" using S2(5,6) by (auto simp del: fsm_system.simps)
  note S2 = S2 this
  obtain S3 where a1: "sys_Add_first nd ?vt (Some 0) CH_AUTOMATE_TYPE_ID 1 True (K2, ?S2) = Inr ((), K2, S3)"
    "added 0 0 (Channel Ch2) ?S2 S3"
    using sys_Add_first_ok [of 0 CH_AUTOMATE_TYPE_ID ?S2 ?vt K2 0 "Channel Ch2" nd] S2 ch2(1)
    by (auto simp: type_ids program_Initialize simp del: fsm_system.simps)
  obtain S4 where a2: "sys_Add_first nd ?vt (Some 1) CL_AUTOMATE_TYPE_ID 1 True (K2, S3) = Inr ((), K2, S4)"
    "added 1 1 (Client Cl2) S3 S4"
    using sys_Add_first_ok [of 1 CL_AUTOMATE_TYPE_ID S3 ?vt K2 1 "Client Cl2" nd] a1(2) S2 cl2(1)
    by (auto simp: added_def type_ids program_Initialize simp del: fsm_system.simps)
  obtain S5 where a3: "sys_Add_first nd ?vt (Some 2) USER_AUTOMATE_TYPE_ID 1 True (K2, S4) = Inr ((), K2, S5)"
    "added 2 2 (User Us2) S4 S5"
    using sys_Add_first_ok [of 2 USER_AUTOMATE_TYPE_ID S4 ?vt K2 2 "User Us2" nd] a1(2) a2(2) S2 us2(1)
    by (auto simp: added_def type_ids program_Initialize simp del: fsm_system.simps)
  let ?Q = "(first_scene Ch Cl Us)\<lparr>q_boxes := replicate 6 []\<rparr>"
  have shape: "sys_shape S5" "S_Objects S5 0 = Channel Ch2" "S_Objects S5 1 = Client Cl2" "S_Objects S5 2 = User Us2"
    using a1(2) a2(2) a3(2) S2 by (auto simp: added_def sys_shape_def less_Suc_eq numeral_3_eq_3 simp del: fsm_system.simps)
  have "boxes_rel (bytes K2) (replicate 6 []) (replicate 6 [])" by (simp add: boxes_rel_def list_all2_conv_all_nth)
  then have "running 98 50 K2 S5 ?Q"
    unfolding running_def
    using shape k(2,3) ch2(2-4) cl2(2-5) us2(2-4)
    by (intro conjI exI [of _ Ch2] exI [of _ Cl2] exI [of _ Us2] exI [of _ "replicate 6 []"] exI [of _ "[]"] exI [of _ fss])
      (simp_all add: first_scene_def)
  from user_Start_refines [OF this, of "fails NullDeref" "fails NullDeref" nd] obtain K6 S6 where
    st: "on_object 2 (virtual (fails NullDeref) (fails NullDeref) (user_Start nd)) (K2, S5) = Inr ((), K6, S6)"
      "running 98 50 K6 S6 (?Q\<lparr>q_boxes := post [(USER_AUTOMATE_MBX_ID, MSG_User_Idle, USER_AUTOMATE_TYPE_ID, [])] (q_boxes ?Q)\<rparr>)"
    by (auto simp: first_scene_def)
  have "?Q\<lparr>q_boxes := post [(USER_AUTOMATE_MBX_ID, MSG_User_Idle, USER_AUTOMATE_TYPE_ID, [])] (q_boxes ?Q)\<rparr> = first_scene Ch Cl Us"
  proof -
    have "replicate 6 x = [x, x, x, x, x, x]" for x :: "msg list" by (simp add: numeral_eq_Suc)
    moreover have "unat USER_AUTOMATE_MBX_ID = 2" by (simp add: USER_AUTOMATE_MBX_ID_def)
    ultimately show ?thesis by (simp add: first_scene_def)
  qed
  moreover have "boot nd E (K, S) = Inr ((), K6, S6)"
    unfolding boot_def
  proof (rule run_step)
    let ?Sa = "S\<lparr>S_Objects := (S_Objects S)(0 := Channel Ch1)\<rparr>"
    let ?Sb = "?Sa\<lparr>S_Objects := (S_Objects ?Sa)(1 := Client Cl1)\<rparr>"
    let ?log = "\<lambda>(K, S). bindR (SystemLog E) (\<lambda>lf. Inr ((), SetLogInterface (LogInterface (E_logmem E)) K, S))"
    let ?ctor = "virtual ChAuto ClAuto UserAuto"
    show "on_object 0 ?ctor (K, S) = Inr ((), ?K, ?Sa)" using on_object_virtual(1) ch(1) S(6) R by simp
    have 2: "on_object 1 ?ctor (?K, ?Sa) = Inr ((), ?K, ?Sb)" using on_object_virtual(2) cl(1) S(6) R by simp
    have 3: "on_object 2 ?ctor (?K, ?Sb) = Inr ((), ?K, ?S1)" using on_object_virtual(3) us(1) S(6) R by simp
    show "run [on_object 1 ?ctor, on_object 2 ?ctor, ?log,
          InitKernel 4 (Some buffsCount) (Some buffsLength) 3 Timer1s (E_junk E) (E_ident E),
          sys_Add_first nd ?vt (Some 0) CH_AUTOMATE_TYPE_ID 1 True,
          sys_Add_first nd ?vt (Some 1) CL_AUTOMATE_TYPE_ID 1 True,
          sys_Add_first nd ?vt (Some 2) USER_AUTOMATE_TYPE_ID 1 True,
          on_object 2 (virtual (fails NullDeref) (fails NullDeref) (user_Start nd))] (?K, ?Sa) = Inr ((), K6, S6)"
      by (simp only: run.simps 2 3 lf k(1) a1(1) a2(1) a3(1) st(1) bindR_Inr prod.case)
  qed
  ultimately show ?thesis using st(2) by auto
qed

end
