(* ===== verification/SceneRuns.thy ===== *)
theory SceneRuns
  imports Scene
begin

text \<open>
  Runs of the abstract program: what the dialogue of the three automata does with a word that is
  typed, when the local table can be opened (\<open>table_lookup\<close>) and when the name has to go to the
  server (\<open>network_request\<close>, \<open>network_answer\<close>, \<open>second_request\<close>).
\<close>

subsection \<open>The branches\<close>

lemma user_rows:
  "proc_for user_branches FSM_User_Idle MSG_User_Idle = Proc FSM_User_Idle_Set_All"
  "proc_for user_branches FSM_User_Data_Input MSG_User_Data_Input = Proc FSM_User_Data_Input_From_Console"
  "proc_for user_branches FSM_User_To_Client_Data MSG_User_To_Client_Data_Sent = Proc FSM_User_Pass_Data_To_Client"
  "proc_for user_branches FSM_Client_To_User_Return_Data MSG_Client_To_User_Return_Data_Recived =
     Proc FSM_User_Get_Data_From_Client"
  by (simp_all add: proc_for_def user_branches_def user_states msg_codes)

lemma client_rows:
  "proc_for client_branches FSM_Client_Idle MSG_Client_Idle = Proc FSM_Client_Idle_State"
  "proc_for client_branches FSM_Client_Input_From_User MSG_User_To_Client_Data_Sent = Proc FSM_Client_Get_Data_From_User"
  "proc_for client_branches FSM_Client_Check_Local_Table MSG_Client_Check_Local_Table = Proc FSM_Client_Check_In_Local_Table"
  "proc_for client_branches FSM_Client_DNS_Request MSG_Client_To_Channel_DNS_Request_Sent =
     Proc FSM_Client_Pass_DNS_Request_To_Channel"
  "proc_for client_branches FSM_Client_DNS_Recived MSG_Channel_To_Client_DNS_Request_Recived =
     Proc FSM_Client_Get_DNS_Request_From_Channel"
  "proc_for client_branches FSM_Client_DNS_Recived MSG_Client_To_User_Return_Data_Recived =
     Proc FSM_Client_Pass_DNS_Request_To_Client"
  by (simp_all add: proc_for_def client_branches_def client_states msg_codes)

lemma channel_rows:
  "proc_for channel_branches FSM_Channel_Idle MSG_Channel_Idle = Proc FSM_Channel_Idle_State"
  "proc_for channel_branches FSM_Channel_DNS_Request MSG_Channel_Idle = DoNothing"
  "proc_for channel_branches FSM_Channel_DNS_Request MSG_Client_To_Channel_DNS_Request_Sent = Proc FSM_Channel_Get_DNS_Request"
  "proc_for channel_branches FSM_Channel_Connect MSG_Channel_Create_Socket = Proc FSM_Channel_Connect_State"
  "proc_for channel_branches FSM_Channel_Disconnect MSG_Channel_Disconnect = Proc FSM_Channel_Disconnect_State"
  by (simp_all add: proc_for_def channel_branches_def channel_states msg_codes)

lemma branch_states [simp]:
  "FSM_User_Idle \<in> fst ` set user_branches" "FSM_User_Data_Input \<in> fst ` set user_branches"
  "FSM_User_To_Client_Data \<in> fst ` set user_branches" "FSM_Client_To_User_Return_Data \<in> fst ` set user_branches"
  "FSM_Client_Idle \<in> fst ` set client_branches" "FSM_Client_Input_From_User \<in> fst ` set client_branches"
  "FSM_Client_Check_Local_Table \<in> fst ` set client_branches" "FSM_Client_DNS_Request \<in> fst ` set client_branches"
  "FSM_Client_DNS_Recived \<in> fst ` set client_branches"
  "FSM_Channel_Idle \<in> fst ` set channel_branches" "FSM_Channel_DNS_Request \<in> fst ` set channel_branches"
  "FSM_Channel_Connect \<in> fst ` set channel_branches" "FSM_Channel_Disconnect \<in> fst ` set channel_branches"
  by (simp_all add: user_branches_def client_branches_def channel_branches_def)

lemma box_numbers [simp]:
  "unat CH_AUTOMATE_MBX_ID = 0" "unat CL_AUTOMATE_MBX_ID = 1" "unat USER_AUTOMATE_MBX_ID = 2"
  by (simp_all add: CH_AUTOMATE_MBX_ID_def CL_AUTOMATE_MBX_ID_def USER_AUTOMATE_MBX_ID_def)

lemma type_numbers [simp]:
  "CL_AUTOMATE_TYPE_ID \<noteq> CH_AUTOMATE_TYPE_ID" "USER_AUTOMATE_TYPE_ID \<noteq> CH_AUTOMATE_TYPE_ID"
  "USER_AUTOMATE_TYPE_ID \<noteq> CL_AUTOMATE_TYPE_ID"
  by (simp_all add: CH_AUTOMATE_TYPE_ID_def CL_AUTOMATE_TYPE_ID_def USER_AUTOMATE_TYPE_ID_def)

lemma message_bytes_simps:
  "message_bytes [] = 21" "message_bytes [(c, v)] = 27 + length v"
  by (simp_all add: message_bytes_def offset_defs)

text \<open>A step of the scene on explicit mailboxes.\<close>

lemmas scene_simps = enabled_def scene_round_def user_step_def client_step_def channel_step_def
  user_needs_def client_needs_def channel_needs_def user_rows client_rows channel_rows message_bytes_simps
  user_kick_def string_upto_def string_param_def word_ready_def

definition quiet :: "uview \<Rightarrow> cview \<Rightarrow> chview \<Rightarrow> nat \<Rightarrow> scene" where
  "quiet u c h t = \<lparr>q_user = u, q_client = c, q_channel = h, q_boxes = replicate 6 [], q_timers = t\<rparr>"

text \<open>The messages of \<open>user_kick\<close> are in the mailboxes.\<close>

definition asking :: "uview \<Rightarrow> cview \<Rightarrow> chview \<Rightarrow> nat \<Rightarrow> scene" where
  "asking u c h t = \<lparr>q_user = u, q_client = c, q_channel = h,
     q_boxes = [[(MSG_Channel_Idle, CH_AUTOMATE_TYPE_ID, [])], [(MSG_Client_Idle, CL_AUTOMATE_TYPE_ID, [])],
       [(MSG_User_Data_Input, USER_AUTOMATE_TYPE_ID, [])], [], [], []], q_timers = t\<rparr>"

definition typable :: "nat \<Rightarrow> u8 list \<Rightarrow> bool" where
  "typable k w \<longleftrightarrow> 0 \<notin> set w \<and> length w \<le> k"

text \<open>What the channel does with \<open>MSG_Channel_Idle\<close>.\<close>

definition channel_woken :: "chview \<Rightarrow> chview" where
  "channel_woken h = (if v_state h = FSM_Channel_Idle
     then h\<lparr>v_state := FSM_Channel_DNS_Request, v_starts := v_starts h + 1\<rparr> else h)"

definition waking :: "chview \<Rightarrow> bool" where
  "waking h \<longleftrightarrow> v_state h = FSM_Channel_Idle \<or> v_state h = FSM_Channel_DNS_Request"

lemma states_differ [simp]: "FSM_Channel_DNS_Request \<noteq> FSM_Channel_Idle"
  by (simp add: channel_states)

text \<open>From the kick to the word in the hands of the client: five rounds.\<close>

lemma five: "(5 :: nat) = Suc (Suc (Suc (Suc (Suc 0))))"
  by simp

lemma word_passed:
  assumes "waking h" "typable k w" "k < 229" "12 + t \<le> N"
  shows "all_enabled nd k N 5 (asking (FSM_User_Data_Input, nm, w # ws, out) (FSM_Client_Idle, cn, an, tm, tab) h t)"
    "rounds 5 (asking (FSM_User_Data_Input, nm, w # ws, out) (FSM_Client_Idle, cn, an, tm, tab) h t) =
     \<lparr>q_user = (FSM_Client_To_User_Return_Data, Inr w, ws, out),
       q_client = (FSM_Client_Check_Local_Table, Inr w, an, tm, tab), q_channel = channel_woken h,
       q_boxes = [[], [(MSG_Client_Check_Local_Table, CL_AUTOMATE_TYPE_ID, [])], [], [], [], []], q_timers = t\<rparr>"
proof -
  have "0 \<notin> set w" "length w \<le> k" "length w < 256" "(27 + length w) mod 256 \<noteq> 0"
    using assms(2,3) by (simp_all add: typable_def)
  with assms(1,4) show "all_enabled nd k N 5 (asking (FSM_User_Data_Input, nm, w # ws, out) (FSM_Client_Idle, cn, an, tm, tab) h t)"
    "rounds 5 (asking (FSM_User_Data_Input, nm, w # ws, out) (FSM_Client_Idle, cn, an, tm, tab) h t) =
     \<lparr>q_user = (FSM_Client_To_User_Return_Data, Inr w, ws, out),
       q_client = (FSM_Client_Check_Local_Table, Inr w, an, tm, tab), q_channel = channel_woken h,
       q_boxes = [[], [(MSG_Client_Check_Local_Table, CL_AUTOMATE_TYPE_ID, [])], [], [], [], []], q_timers = t\<rparr>"
    by (auto simp: asking_def scene_simps waking_def channel_woken_def five)
qed

text \<open>The table can be opened: three more rounds, and the user asks for the next word.\<close>

lemma table_answer_string: "0 \<notin> set (table_answer content)"
  by (auto simp: table_answer_def dest: set_takeWhileD)

lemma three: "(3 :: nat) = Suc (Suc (Suc 0))"
  by simp

lemma answer_found:
  assumes "length w < 256" "0 \<notin> set w" "length (table_answer content) \<le> k" "k < 229" "12 + t \<le> N"
  and Q_def: "Q = \<lparr>q_user = (FSM_Client_To_User_Return_Data, Inr w, ws, out),
       q_client = (FSM_Client_Check_Local_Table, Inr w, an, tm, Some content), q_channel = h,
       q_boxes = [[], [(MSG_Client_Check_Local_Table, CL_AUTOMATE_TYPE_ID, [])], [], [], [], []], q_timers = t\<rparr>"
  shows "all_enabled nd k N 3 Q"
    "rounds 3 Q = asking (FSM_User_Data_Input, Inr (table_answer content), ws, out @ [table_answer content])
       (FSM_Client_Idle, Inr w, Inr (table_answer content), tm, Some content) h t"
proof -
  let ?s = "table_answer content"
  have "0 \<notin> set ?s" "length ?s \<le> k" "length ?s < 256" "(27 + length ?s) mod 256 \<noteq> 0"
    using assms(3,4) table_answer_string by simp_all
  with assms(1,2,5) show "all_enabled nd k N 3 Q"
    "rounds 3 Q = asking (FSM_User_Data_Input, Inr (table_answer content), ws, out @ [table_answer content])
       (FSM_Client_Idle, Inr w, Inr (table_answer content), tm, Some content) h t"
    by (auto simp: Q_def asking_def scene_simps three Let_def)
qed

lemma table_lookup:
  assumes "waking h" "typable k w" "length (table_answer content) \<le> k" "k < 229" "12 + t \<le> N"
  and Q_def: "Q = asking (FSM_User_Data_Input, nm, w # ws, out) (FSM_Client_Idle, cn, an, tm, Some content) h t"
  shows "all_enabled nd k N 8 Q"
    "rounds 8 Q = asking (FSM_User_Data_Input, Inr (table_answer content), ws, out @ [table_answer content])
       (FSM_Client_Idle, Inr w, Inr (table_answer content), tm, Some content) (channel_woken h) t"
proof -
  have w: "length w < 256" "0 \<notin> set w" using assms(2,4) by (simp_all add: typable_def)
  have 8: "(8 :: nat) = 5 + 3" by simp
  note P = word_passed [OF assms(1,2,4,5)] and R = answer_found [OF w assms(3-5) refl]
  show "all_enabled nd k N 8 Q" unfolding 8 all_enabled_add Q_def using P R(1) by simp
  show "rounds 8 Q = asking (FSM_User_Data_Input, Inr (table_answer content), ws, out @ [table_answer content])
       (FSM_Client_Idle, Inr w, Inr (table_answer content), tm, Some content) (channel_woken h) t"
    unfolding 8 rounds_add Q_def using P R(2) by simp
qed

lemma waking_woken [simp]: "waking h \<Longrightarrow> waking (channel_woken h)"
  by (auto simp: waking_def channel_woken_def)

text \<open>All words that are typed, one after the other.\<close>

lemma table_dialogue:
  assumes "waking h" "\<forall>w \<in> set ws. typable k w" "length (table_answer content) \<le> k" "k < 229" "12 + t \<le> N"
  and Q_def: "Q = asking (FSM_User_Data_Input, nm, ws @ us, out) (FSM_Client_Idle, cn, an, tm, Some content) h t"
  shows "all_enabled nd k N (8 * length ws) Q \<and>
    (\<exists>nm' cn' an' h'. waking h' \<and> rounds (8 * length ws) Q =
      asking (FSM_User_Data_Input, nm', us, out @ replicate (length ws) (table_answer content))
        (FSM_Client_Idle, cn', an', tm, Some content) h' t)"
  using assms(1,2) unfolding Q_def
proof (induction ws arbitrary: nm cn an h out)
  case (Cons w ws)
  let ?Q = "asking (FSM_User_Data_Input, Inr (table_answer content), ws @ us, out @ [table_answer content])
    (FSM_Client_Idle, Inr w, Inr (table_answer content), tm, Some content) (channel_woken h) t"
  have w: "typable k w" "\<forall>v \<in> set ws. typable k v" using Cons.prems(2) by simp_all
  note T = table_lookup [where h = h and w = w and t = t and ws = "ws @ us", OF Cons.prems(1) w(1) assms(3-5) refl]
  from Cons.IH [OF waking_woken [OF Cons.prems(1)] w(2)] obtain nm' cn' an' h' where
    "all_enabled nd k N (8 * length ws) ?Q" "waking h'"
    "rounds (8 * length ws) ?Q = asking
      (FSM_User_Data_Input, nm', us, (out @ [table_answer content]) @ replicate (length ws) (table_answer content))
      (FSM_Client_Idle, cn', an', tm, Some content) h' t" by blast
  moreover have "8 * length (w # ws) = 8 + 8 * length ws" by simp
  ultimately show ?case
    using T by (auto simp: all_enabled_add rounds_add simp del: mult_Suc_right)
qed auto

text \<open>The table cannot be opened: the name goes to the channel, which sends it to the server when it has
  been started once.\<close>

definition online :: "chview \<Rightarrow> bool" where
  "online h \<longleftrightarrow> n_startup (v_net h) \<and> n_resolved (v_net h) \<and> n_socket (v_net h) \<and> n_connect (v_net h) \<and> n_thread (v_net h)"

definition contacted :: "chview \<Rightarrow> u8 list \<Rightarrow> chview" where
  "contacted h w = h\<lparr>v_state := FSM_Channel_Connect, v_name := Inr w, v_socket := True, v_sent := v_sent h @ [w],
     v_listening := True\<rparr>"

lemma four: "(4 :: nat) = Suc (Suc (Suc (Suc 0)))"
  by simp

lemma request_passed:
  assumes "length w < 256" "0 \<notin> set w" "length w \<le> k" "k < 229" "12 + t \<le> N" "v_state h = FSM_Channel_DNS_Request"
  and Q_def: "Q = \<lparr>q_user = (FSM_Client_To_User_Return_Data, Inr w, ws, out),
       q_client = (FSM_Client_Check_Local_Table, Inr w, an, False, None), q_channel = h,
       q_boxes = [[], [(MSG_Client_Check_Local_Table, CL_AUTOMATE_TYPE_ID, [])], [], [], [], []], q_timers = t\<rparr>"
  shows "v_starts h \<noteq> 1 \<Longrightarrow> all_enabled nd k N 3 Q \<and>
      rounds 3 Q = quiet (FSM_Client_To_User_Return_Data, Inr w, ws, out) (FSM_Client_DNS_Recived, Inr w, an, True, None)
        (h\<lparr>v_name := Inr w\<rparr>) (t + 1)"
    "v_starts h = 1 \<Longrightarrow> online h \<Longrightarrow> all_enabled nd k N 4 Q \<and>
      rounds 4 Q = quiet (FSM_Client_To_User_Return_Data, Inr w, ws, out) (FSM_Client_DNS_Recived, Inr w, an, True, None)
        (contacted h w) (t + 1)"
proof -
  have w: "(27 + length w) mod 256 \<noteq> 0" using assms(3,4) by simp
  have r: "replicate 6 x = [x, x, x, x, x, x]" for x :: "msg list" by (simp add: numeral_eq_Suc)
  show "all_enabled nd k N 3 Q \<and>
      rounds 3 Q = quiet (FSM_Client_To_User_Return_Data, Inr w, ws, out) (FSM_Client_DNS_Recived, Inr w, an, True, None)
        (h\<lparr>v_name := Inr w\<rparr>) (t + 1)" if "v_starts h \<noteq> 1"
    using assms(1-6) w that by (auto simp: Q_def quiet_def r scene_simps three Let_def)
  show "all_enabled nd k N 4 Q \<and>
      rounds 4 Q = quiet (FSM_Client_To_User_Return_Data, Inr w, ws, out) (FSM_Client_DNS_Recived, Inr w, an, True, None)
        (contacted h w) (t + 1)" if "v_starts h = 1" "online h"
    using assms(1-6) w that by (auto simp: Q_def quiet_def r scene_simps four Let_def connect_view_def online_def contacted_def)
qed

lemma woken_state: "waking h \<Longrightarrow> v_state (channel_woken h) = FSM_Channel_DNS_Request"
  by (auto simp: waking_def channel_woken_def)

lemma network_request:
  assumes "waking h" "typable k w" "k < 229" "12 + t \<le> N"
  and Q_def: "Q = asking (FSM_User_Data_Input, nm, w # ws, out) (FSM_Client_Idle, cn, an, False, None) h t"
  shows "v_starts (channel_woken h) \<noteq> 1 \<Longrightarrow> all_enabled nd k N 8 Q \<and>
      rounds 8 Q = quiet (FSM_Client_To_User_Return_Data, Inr w, ws, out) (FSM_Client_DNS_Recived, Inr w, an, True, None)
        ((channel_woken h)\<lparr>v_name := Inr w\<rparr>) (t + 1)"
    "v_starts (channel_woken h) = 1 \<Longrightarrow> online (channel_woken h) \<Longrightarrow> all_enabled nd k N 9 Q \<and>
      rounds 9 Q = quiet (FSM_Client_To_User_Return_Data, Inr w, ws, out) (FSM_Client_DNS_Recived, Inr w, an, True, None)
        (contacted (channel_woken h) w) (t + 1)"
proof -
  have w: "length w < 256" "0 \<notin> set w" "length w \<le> k" using assms(2,3) by (simp_all add: typable_def)
  have n: "(8 :: nat) = 5 + 3" "(9 :: nat) = 5 + 4" by simp_all
  note P = word_passed [OF assms(1-4)] and R = request_passed [OF w assms(3,4) woken_state [OF assms(1)] refl]
  show "all_enabled nd k N 8 Q \<and>
      rounds 8 Q = quiet (FSM_Client_To_User_Return_Data, Inr w, ws, out) (FSM_Client_DNS_Recived, Inr w, an, True, None)
        ((channel_woken h)\<lparr>v_name := Inr w\<rparr>) (t + 1)" if "v_starts (channel_woken h) \<noteq> 1"
    unfolding n(1) all_enabled_add rounds_add Q_def using P R(1) [OF that] by simp
  show "all_enabled nd k N 9 Q \<and>
      rounds 9 Q = quiet (FSM_Client_To_User_Return_Data, Inr w, ws, out) (FSM_Client_DNS_Recived, Inr w, an, True, None)
        (contacted (channel_woken h) w) (t + 1)" if "v_starts (channel_woken h) = 1" "online (channel_woken h)"
    unfolding n(2) all_enabled_add rounds_add Q_def using P R(2) [OF that] by simp
qed

text \<open>The server answers: the user sees the answer and the channel has been started once more.\<close>

lemma network_answer:
  assumes "v_listening h" "0 \<notin> set ans" "length ans \<le> k" "k < 229" "12 + t \<le> N"
  and Q_def: "Q = scene_listen (Received ans)
    (quiet (FSM_Client_To_User_Return_Data, Inr w, ws, out) (FSM_Client_DNS_Recived, Inr w, an, True, None) h t)"
  shows "all_enabled nd k N 5 Q" "rounds 5 Q = asking (FSM_User_Data_Input, Inr ans, ws, out @ [ans])
     (FSM_Client_Idle, Inr w, Inr ans, False, None)
     (h\<lparr>v_state := FSM_Channel_DNS_Request, v_starts := v_starts h + 1\<rparr>) t"
proof -
  have w: "(27 + length ans) mod 256 \<noteq> 0" "length ans < 256" using assms(3,4) by simp_all
  have r: "replicate 6 x = [x, x, x, x, x, x]" for x :: "msg list" by (simp add: numeral_eq_Suc)
  show "all_enabled nd k N 5 Q" "rounds 5 Q = asking (FSM_User_Data_Input, Inr ans, ws, out @ [ans])
     (FSM_Client_Idle, Inr w, Inr ans, False, None)
     (h\<lparr>v_state := FSM_Channel_DNS_Request, v_starts := v_starts h + 1\<rparr>) t"
    using assms(1-5) w
    by (auto simp: Q_def scene_listen_def listen_step_def quiet_def asking_def r scene_simps five Let_def)
qed

text \<open>The first round sets the automata going.\<close>

lemma kicked:
  assumes "11 + t \<le> N"
  and Q_def: "Q = \<lparr>q_user = (FSM_User_Idle, nm, ws, out), q_client = c, q_channel = h,
     q_boxes = [[], [], [(MSG_User_Idle, USER_AUTOMATE_TYPE_ID, [])], [], [], []], q_timers = t\<rparr>"
  shows "enabled nd k N Q" "scene_round Q = asking (FSM_User_Data_Input, nm, ws, out) c h t"
  using assms(1) by (auto simp: Q_def asking_def scene_simps)

end
