(* ===== verification/SystemProps.thy ===== *)
theory SystemProps
  imports Boot SceneRuns
begin

text \<open>
  The properties of the whole program, from raw memory to the answers the user reads: the start, the
  refinement of the abstract program in every interleaving of the monitor loop and the listening
  thread, the dialogue with the local table, and the lookups over the network.
\<close>

text \<open>A running program shows its scene.\<close>

lemma user_shown:
  assumes "running k N K S Q" "q_user Q = (st, nm, ws, out)"
  shows "\<exists>Us. S_Objects S 2 = User Us \<and> U_Console Us = ws \<and> U_Printed Us = out"
proof -
  from assms(1) obtain Us where "S_Objects S 2 = User Us" "user_view Us = q_user Q" unfolding running_def by blast
  with assms(2) show ?thesis by (auto simp: user_view_def)
qed

lemma channel_shown:
  assumes "running k N K S Q"
  shows "\<exists>Ch. S_Objects S 0 = Channel Ch \<and> H_Sent Ch = v_sent (q_channel Q)"
proof -
  from assms obtain Ch where "S_Objects S 0 = Channel Ch" "channel_view Ch = q_channel Q" unfolding running_def by blast
  then show ?thesis by (metis channel_view_sel(5))
qed

lemma booted_events:
  assumes "FSMSystem AUTOMAT_COUNT MSGBOX_COUNT S0 = Inr S" "3 \<le> length (S_FreeAutomates S0)"
    and "raw_automata S0 Ch Cl Us" "m_top (K_mem K) = 0" "E_ident E \<noteq> 0" "SystemLog E = Inr lf"
    and "events_enabled nd 98 50 es (first_scene Ch Cl Us)"
  shows "\<exists>K' S'. run (boot nd E # map (event_op nd) es) (K, S) = Inr ((), K', S') \<and>
    running 98 50 K' S' (fold scene_event es (first_scene Ch Cl Us))"
proof -
  from boot_runs [OF assms(1-6), of nd] obtain K1 S1 where
    1: "boot nd E (K, S) = Inr ((), K1, S1)" "running 98 50 K1 S1 (first_scene Ch Cl Us)" by blast
  from events_refine [OF this(2) assms(7)] 1(1) show ?thesis by simp
qed

subsection \<open>Scenes\<close>

text \<open>The first round and the words that are found in the table.\<close>

abbreviation asked :: "channel \<Rightarrow> client \<Rightarrow> user \<Rightarrow> scene" where
  "asked Ch Cl Us \<equiv> asking (FSM_User_Data_Input, c_str (U_DNSRequestInput Us), U_Console Us, U_Printed Us)
     (FSM_Client_Idle, c_str (C_DNSRequestInput Cl), c_str (C_DNSRequestOutput Cl), False, C_Table Cl)
     ((channel_view Ch)\<lparr>v_state := FSM_Channel_Idle, v_starts := 0\<rparr>) 0"

lemma first_round:
  "events_enabled nd 98 50 (Serve # es) (first_scene Ch Cl Us) = events_enabled nd 98 50 es (asked Ch Cl Us)"
  "fold scene_event (Serve # es) (first_scene Ch Cl Us) = fold scene_event es (asked Ch Cl Us)"
proof -
  note Q = kicked [where N = 50 and t = 0, OF _ refl]
  show "events_enabled nd 98 50 (Serve # es) (first_scene Ch Cl Us) = events_enabled nd 98 50 es (asked Ch Cl Us)"
    "fold scene_event (Serve # es) (first_scene Ch Cl Us) = fold scene_event es (asked Ch Cl Us)"
    using Q by (simp_all add: first_scene_def)
qed

lemma table_events:
  assumes "C_Table Cl = Some content" "length (table_answer content) \<le> 98" "U_Console Us = ws @ us"
    and "\<forall>w \<in> set ws. typable 98 w"
  shows "events_enabled nd 98 50 (replicate (Suc (8 * length ws)) Serve) (first_scene Ch Cl Us)"
    "\<exists>nm. q_user (fold scene_event (replicate (Suc (8 * length ws)) Serve) (first_scene Ch Cl Us)) =
      (FSM_User_Data_Input, nm, us, U_Printed Us @ replicate (length ws) (table_answer content))"
proof -
  let ?h = "(channel_view Ch)\<lparr>v_state := FSM_Channel_Idle, v_starts := 0\<rparr>"
  have h: "waking ?h" by (simp add: waking_def)
  have "all_enabled nd 98 50 (8 * length ws) (asked Ch Cl Us) \<and> (\<exists>nm' cn' an' h'. waking h' \<and>
      rounds (8 * length ws) (asked Ch Cl Us) = asking
        (FSM_User_Data_Input, nm', us, U_Printed Us @ replicate (length ws) (table_answer content))
        (FSM_Client_Idle, cn', an', False, Some content) h' 0)"
    unfolding assms(1,3) by (rule table_dialogue [OF h assms(4,2) _ _ refl]) simp_all
  then show "events_enabled nd 98 50 (replicate (Suc (8 * length ws)) Serve) (first_scene Ch Cl Us)"
    "\<exists>nm. q_user (fold scene_event (replicate (Suc (8 * length ws)) Serve) (first_scene Ch Cl Us)) =
      (FSM_User_Data_Input, nm, us, U_Printed Us @ replicate (length ws) (table_answer content))"
    unfolding replicate_Suc first_round serve_rounds by (auto simp: asking_def)
qed

text \<open>The first lookup over the network, and the request for the second one.\<close>

definition lookup_events :: "u8 list \<Rightarrow> event list" where
  "lookup_events ans = Serve # replicate 9 Serve @ Recv (Received ans) # replicate 5 Serve"

abbreviation connected :: "channel \<Rightarrow> bool" where
  "connected Ch \<equiv> n_startup (H_Net Ch) \<and> n_resolved (H_Net Ch) \<and> n_socket (H_Net Ch) \<and> n_connect (H_Net Ch) \<and>
     n_thread (H_Net Ch)"

lemma lookup_events_scene:
  assumes "C_Table Cl = None" "connected Ch" "U_Console Us = w # ws" "typable 98 w" "typable 98 ans"
  shows "events_enabled nd 98 50 (lookup_events ans) (first_scene Ch Cl Us)"
    "\<exists>h. fold scene_event (lookup_events ans) (first_scene Ch Cl Us) =
      asking (FSM_User_Data_Input, Inr ans, ws, U_Printed Us @ [ans]) (FSM_Client_Idle, Inr w, Inr ans, False, None) h 1 \<and>
      v_state h = FSM_Channel_DNS_Request \<and> v_starts h = 2 \<and> v_sent h = H_Sent Ch @ [w]"
proof -
  let ?h = "(channel_view Ch)\<lparr>v_state := FSM_Channel_Idle, v_starts := 0\<rparr>"
  let ?k = "contacted (channel_woken ?h) w"
  let ?u = "(FSM_Client_To_User_Return_Data, Inr w, ws, U_Printed Us)"
  let ?c = "(FSM_Client_DNS_Recived, Inr w, c_str (C_DNSRequestOutput Cl), True, None)"
  let ?e = "asking (FSM_User_Data_Input, Inr ans, ws, U_Printed Us @ [ans]) (FSM_Client_Idle, Inr w, Inr ans, False, None)
      (?k\<lparr>v_state := FSM_Channel_DNS_Request, v_starts := v_starts ?k + 1\<rparr>) 1"
  have h: "waking ?h" "v_starts (channel_woken ?h) = 1" "online (channel_woken ?h)"
    using assms(2) by (simp_all add: waking_def channel_woken_def online_def)
  have 9: "all_enabled nd 98 50 9 (asked Ch Cl Us)" "rounds 9 (asked Ch Cl Us) = quiet ?u ?c ?k 1" for nd
    using network_request(2) [where t = 0 and N = 50 and nd = nd, OF h(1) assms(4) _ _ refl h(2,3)]
    unfolding assms(1,3) by simp_all
  have ans: "0 \<notin> set ans" "length ans \<le> 98" using assms(5) by (simp_all add: typable_def)
  have l: "v_listening ?k" by (simp add: contacted_def)
  note 5 = network_answer [where t = 1 and N = 50 and w = w and ws = ws and out = "U_Printed Us" and
      an = "c_str (C_DNSRequestOutput Cl)", OF l ans _ _ refl]
  have r: "event_enabled nd 98 50 (Recv (Received ans)) (quiet ?u ?c ?k 1)" for nd using ans by (simp add: quiet_def)
  show "events_enabled nd 98 50 (lookup_events ans) (first_scene Ch Cl Us)"
    unfolding lookup_events_def first_round events_enabled_append serve_rounds using 9 r 5(1) by (simp add: serve_rounds)
  have "fold scene_event (lookup_events ans) (first_scene Ch Cl Us) = ?e"
    unfolding lookup_events_def first_round fold_append comp_def serve_rounds using 9(2) 5(2) by (simp add: serve_rounds del: fold_replicate)
  then show "\<exists>h. fold scene_event (lookup_events ans) (first_scene Ch Cl Us) =
      asking (FSM_User_Data_Input, Inr ans, ws, U_Printed Us @ [ans]) (FSM_Client_Idle, Inr w, Inr ans, False, None) h 1 \<and>
      v_state h = FSM_Channel_DNS_Request \<and> v_starts h = 2 \<and> v_sent h = H_Sent Ch @ [w]"
    by (intro exI conjI, assumption) (simp_all add: contacted_def channel_woken_def)
qed


lemma second_word_scene:
  assumes "C_Table Cl = None" "connected Ch" "U_Console Us = w # v # ws" "typable 98 w" "typable 98 v" "typable 98 ans"
  shows "\<exists>h. (\<forall>nd. events_enabled nd 98 50 (lookup_events ans @ replicate 8 Serve) (first_scene Ch Cl Us)) \<and>
    fold scene_event (lookup_events ans @ replicate 8 Serve) (first_scene Ch Cl Us) =
      quiet (FSM_Client_To_User_Return_Data, Inr v, ws, U_Printed Us @ [ans]) (FSM_Client_DNS_Recived, Inr v, Inr ans, True, None)
        (h\<lparr>v_name := Inr v\<rparr>) 2 \<and>
    v_state h = FSM_Channel_DNS_Request \<and> v_starts h = 2 \<and> v_sent h = H_Sent Ch @ [w]"
proof -
  note L = lookup_events_scene [OF assms(1-4,6)]
  from L(2) obtain h where
    h: "fold scene_event (lookup_events ans) (first_scene Ch Cl Us) = asking
        (FSM_User_Data_Input, Inr ans, v # ws, U_Printed Us @ [ans]) (FSM_Client_Idle, Inr w, Inr ans, False, None) h 1"
      "v_state h = FSM_Channel_DNS_Request" "v_starts h = 2" "v_sent h = H_Sent Ch @ [w]" by blast
  have h': "waking h" "channel_woken h = h" using h(2) by (simp_all add: waking_def channel_woken_def)
  have "v_starts (channel_woken h) \<noteq> 1" using h(3) h'(2) by simp
  note N = network_request(1) [where N = 50 and t = 1, OF h'(1) assms(5) _ _ refl this]
  have "events_enabled nd 98 50 (lookup_events ans @ replicate 8 Serve) (first_scene Ch Cl Us)" for nd
    unfolding events_enabled_append h(1) serve_rounds using L(1) N by simp
  moreover have "fold scene_event (lookup_events ans @ replicate 8 Serve) (first_scene Ch Cl Us) =
      quiet (FSM_Client_To_User_Return_Data, Inr v, ws, U_Printed Us @ [ans]) (FSM_Client_DNS_Recived, Inr v, Inr ans, True, None)
        (h\<lparr>v_name := Inr v\<rparr>) 2"
    unfolding fold_append comp_def h(1) serve_rounds using N h'(2) by (simp add: numeral_2_eq_2)
  ultimately show ?thesis using h(2-4) by blast
qed

subsection \<open>Nothing more is sent\<close>

text \<open>
  A channel that has been started more than once and is not connecting stays so, and sends nothing, until its
  counter of starts wraps.
\<close>

definition sends_no_more :: "nat \<Rightarrow> u8 list list \<Rightarrow> chview \<Rightarrow> bool" where
  "sends_no_more n out v \<longleftrightarrow> v_state v \<noteq> FSM_Channel_Connect \<and> 2 \<le> unat (v_starts v) \<and> unat (v_starts v) + n < 2 ^ 32 \<and>
     v_sent v = out"

lemma proc_for_row: "proc_for tb st code = Proc p \<Longrightarrow> (st, code, p) \<in> set tb"
  by (auto simp: proc_for_def dest!: map_of_SomeD split: option.splits)

lemma sends_no_more_start:
  assumes "sends_no_more (Suc n) out v" "st \<noteq> FSM_Channel_Connect"
  shows "sends_no_more n out (v\<lparr>v_state := st, v_starts := v_starts v + 1\<rparr>)"
proof -
  have "unat (v_starts v + 1) = unat (v_starts v) + 1"
    using assms(1) by (simp add: sends_no_more_def unat_word_ariths)
  with assms show ?thesis by (simp add: sends_no_more_def)
qed

lemma channel_step_sends_no_more:
  assumes "sends_no_more (Suc n) out v"
  shows "sends_no_more n out (fst (channel_step v code ps))"
proof (cases "proc_for channel_branches (v_state v) code")
  case DoNothing
  with assms show ?thesis by (simp add: channel_step_def sends_no_more_def)
next
  case (Proc p)
  have one: "v_starts v \<noteq> 1" using assms by (auto simp: sends_no_more_def)
  have "p \<noteq> FSM_Channel_Connect_State"
    using proc_for_row [OF Proc] assms by (auto simp: channel_branches_def sends_no_more_def)
  moreover have "FSM_Channel_DNS_Request \<noteq> FSM_Channel_Connect" "FSM_Channel_Idle \<noteq> FSM_Channel_Connect"
    by (simp_all add: channel_states)
  ultimately show ?thesis
    using Proc one assms sends_no_more_start [OF assms]
    by (cases p) (auto simp: channel_step_def Let_def sends_no_more_def)
qed

lemma listen_step_sends_no_more: "sends_no_more (Suc n) out v \<Longrightarrow> sends_no_more n out (fst (listen_step v r))"
  by (cases r) (auto simp: listen_step_def sends_no_more_def channel_states)

lemma scene_event_sends_no_more:
  assumes "sends_no_more (Suc n) out (q_channel Q)"
  shows "sends_no_more n out (q_channel (scene_event e Q))"
proof (cases e)
  case Serve
  have keep: "sends_no_more n out (q_channel Q)" using assms by (simp add: sends_no_more_def)
  have "sends_no_more n out (q_channel (scene_step m (Q\<lparr>q_boxes := bs\<rparr>)))" for m bs
  proof (cases m)
    case (fields code au ps)
    then show ?thesis
      using channel_step_sends_no_more [OF assms, of code ps] keep by (simp add: case_prod_beta' Let_def)
  qed
  with keep show ?thesis by (simp add: Serve scene_round_def split: option.split)
next
  case (Recv r)
  then show ?thesis using listen_step_sends_no_more [OF assms] by (simp add: scene_listen_def case_prod_beta' Let_def)
qed

lemma events_send_no_more:
  "sends_no_more (length es) out (q_channel Q) \<Longrightarrow> v_sent (q_channel (fold scene_event es Q)) = out"
proof (induction es arbitrary: Q)
  case (Cons e es)
  then show ?case using scene_event_sends_no_more [of "length es" out Q e] by simp
qed (simp add: sends_no_more_def)

text \<open>The mailboxes of a scene without messages are empty.\<close>

definition no_messages :: "kernel \<Rightarrow> bool" where
  "no_messages K \<longleftrightarrow> (\<forall>M \<in> set (MailBoxes (K_PostOffice K)). mb_Head M = None \<and> mb_Count M = 0)"

lemma running_no_messages:
  assumes "running k N K S Q" "\<forall>ms \<in> set (q_boxes Q). ms = []"
  shows "no_messages K"
proof -
  from assms(1) obtain mss L fss where
    r: "k_ok K [] mss L fss" "boxes_rel (bytes K) (q_boxes Q) mss" unfolding running_def by blast
  have "\<forall>ms \<in> set mss. ms = []" using assms(2) r(2) [unfolded boxes_rel_def] by (rule list_all2_all_Nil)
  moreover have "po_ok (K_mem K, K_Buffers K, K_PostOffice K) mss fss" using r(1) by (simp add: k_ok_def kernel_ok_def)
  note P = po_okD [OF this]
  ultimately have "mb_content (K_mem K, MailBoxes (K_PostOffice K) ! i) []" if "i < length (MailBoxes (K_PostOffice K))" for i
    using that P(3) P(5) [of i] nth_mem [of i mss] by metis
  then show ?thesis by (auto simp: no_messages_def in_set_conv_nth mb_content_def)
qed


subsection \<open>The properties\<close>

text \<open>C4: The program refines its abstraction: whatever the order in which the monitor loop serves a
  message and the listening thread receives something from the server, every call succeeds and leads
  to the state that the abstract program reaches by the same events.  What an event relies on is
  \<open>events_enabled\<close>: there is a message to be served, its receiver can handle it and the pool has
  room.\<close>

theorem program_refines:
  assumes "running k N K S Q" "events_enabled nd k N es Q"
  shows "\<exists>K' S'. run (map (event_op nd) es) (K, S) = Inr ((), K', S') \<and> running k N K' S' (fold scene_event es Q)"
  by (rule events_refine [OF assms])

text \<open>C5: The start of the program succeeds when the log can be opened: from raw memory the constructors, \<open>InitKernel\<close>, the three
  calls of \<open>Add\<close> and \<open>User.Start()\<close> lead to a running program with empty mailboxes but for the message
  \<open>MSG_User_Idle\<close>, all automata in their first states, with room for 50 messages and timers and strings
  of up to 98 characters.\<close>

theorem program_boots:
  assumes "FSMSystem AUTOMAT_COUNT MSGBOX_COUNT S0 = Inr S" "3 \<le> length (S_FreeAutomates S0)"
    and "raw_automata S0 Ch Cl Us" "m_top (K_mem K) = 0" "E_ident E \<noteq> 0" "SystemLog E = Inr lf"
  shows "\<exists>K' S'. boot nd E (K, S) = Inr ((), K', S') \<and> running 98 50 K' S' (first_scene Ch Cl Us)"
  by (rule boot_runs [OF assms])

text \<open>C1: The dialogue with the local table.  When the file can be opened, every word that is typed is
  answered: after the start and eight rounds of the monitor loop for each word, the program has
  printed one answer per word, has consumed exactly these words, and is ready for the next one.\<close>

theorem words_answered_from_table:
  assumes "FSMSystem AUTOMAT_COUNT MSGBOX_COUNT S0 = Inr S" "3 \<le> length (S_FreeAutomates S0)"
    and "raw_automata S0 Ch Cl Us" "m_top (K_mem K) = 0" "E_ident E \<noteq> 0" "SystemLog E = Inr lf"
    and "C_Table Cl = Some content" "length (table_answer content) \<le> 98"
    and "U_Console Us = ws @ us" "\<forall>w \<in> set ws. typable 98 w"
  shows "\<exists>K' S' Us'. run (boot nd E # replicate (1 + 8 * length ws) (start_body nd (program_vtable nd)))
      (K, S) = Inr ((), K', S') \<and> S_Objects S' 2 = User Us' \<and> U_Console Us' = us \<and>
      U_Printed Us' = U_Printed Us @ replicate (length ws) (table_answer content)"
proof -
  let ?es = "replicate (Suc (8 * length ws)) Serve"
  note T = table_events [OF assms(7-10)]
  from booted_events [OF assms(1-6) T(1), of nd] obtain K' S' where
    r: "run (boot nd E # map (event_op nd) ?es) (K, S) = Inr ((), K', S')"
      "running 98 50 K' S' (fold scene_event ?es (first_scene Ch Cl Us))" by blast
  from T(2) obtain nm where "q_user (fold scene_event ?es (first_scene Ch Cl Us)) =
      (FSM_User_Data_Input, nm, us, U_Printed Us @ replicate (length ws) (table_answer content))" by blast
  from user_shown [OF r(2) this] r(1) show ?thesis by simp
qed

text \<open>C2: The first lookup over the network.  When the table cannot be opened and the server can be
  reached, the word that is typed is sent to the server, exactly once, and the answer of the server
  is printed, after ten rounds, the answer and five more rounds.\<close>

theorem first_lookup_answered:
  assumes "FSMSystem AUTOMAT_COUNT MSGBOX_COUNT S0 = Inr S" "3 \<le> length (S_FreeAutomates S0)"
    and "raw_automata S0 Ch Cl Us" "m_top (K_mem K) = 0" "E_ident E \<noteq> 0" "SystemLog E = Inr lf"
    and "C_Table Cl = None" "connected Ch" "U_Console Us = w # ws" "typable 98 w" "typable 98 ans"
  shows "\<exists>K' S' Ch' Us'. run (boot nd E # map (event_op nd) (lookup_events ans)) (K, S) = Inr ((), K', S') \<and>
      S_Objects S' 0 = Channel Ch' \<and> S_Objects S' 2 = User Us' \<and> H_Sent Ch' = H_Sent Ch @ [w] \<and>
      U_Console Us' = ws \<and> U_Printed Us' = U_Printed Us @ [ans]"
proof -
  note L = lookup_events_scene [OF assms(7-11)]
  from booted_events [OF assms(1-6) L(1), of nd] obtain K' S' where
    r: "run (boot nd E # map (event_op nd) (lookup_events ans)) (K, S) = Inr ((), K', S')"
      "running 98 50 K' S' (fold scene_event (lookup_events ans) (first_scene Ch Cl Us))" by blast
  from L(2) obtain h where
    h: "fold scene_event (lookup_events ans) (first_scene Ch Cl Us) = asking
        (FSM_User_Data_Input, Inr ans, ws, U_Printed Us @ [ans]) (FSM_Client_Idle, Inr w, Inr ans, False, None) h 1"
      "v_sent h = H_Sent Ch @ [w]" by blast
  note r2 = r(2) [unfolded h(1)]
  from user_shown [OF r2] obtain Us' where "S_Objects S' 2 = User Us'" "U_Console Us' = ws"
    "U_Printed Us' = U_Printed Us @ [ans]" by (auto simp: asking_def)
  moreover from channel_shown [OF r2] obtain Ch' where "S_Objects S' 0 = Channel Ch'" "H_Sent Ch' = H_Sent Ch @ [w]"
    by (auto simp: asking_def h(2))
  ultimately show ?thesis using r(1) by blast
qed

text \<open>C3: The second lookup over the network hangs.  The channel answers the first start only
  (\<open>FirstStartFlag\<close>).  Eight rounds after the second word is typed nothing but the first word has been sent and nothing but the
  first answer has been printed, all mailboxes are empty, and the next round of the monitor loop waits.
  From there on nothing is sent to the server, whatever the listening thread receives and however the
  rounds of the loop follow, for the next 2^32 - 3 events.\<close>

theorem second_lookup_hangs:
  assumes "FSMSystem AUTOMAT_COUNT MSGBOX_COUNT S0 = Inr S" "3 \<le> length (S_FreeAutomates S0)"
    and "raw_automata S0 Ch Cl Us" "m_top (K_mem K) = 0" "E_ident E \<noteq> 0" "SystemLog E = Inr lf"
    and "C_Table Cl = None" "connected Ch" "U_Console Us = w # v # ws" "typable 98 w" "typable 98 v" "typable 98 ans"
    and "es = lookup_events ans @ replicate 8 Serve"
  shows "\<exists>K' S' Ch' Us'. run (boot nd E # map (event_op nd) es) (K, S) = Inr ((), K', S') \<and>
      S_Objects S' 0 = Channel Ch' \<and> S_Objects S' 2 = User Us' \<and> H_Sent Ch' = H_Sent Ch @ [w] \<and>
      U_Console Us' = ws \<and> U_Printed Us' = U_Printed Us @ [ans] \<and> no_messages K' \<and>
      start_body nd (program_vtable nd) (K', S') = Inl Blocked \<and>
      (\<forall>later. length later < 2 ^ 32 - 2 \<longrightarrow> events_enabled nd 98 50 (es @ later) (first_scene Ch Cl Us) \<longrightarrow>
        (\<exists>K'' S'' Ch''. run (map (event_op nd) later) (K', S') = Inr ((), K'', S'') \<and>
          S_Objects S'' 0 = Channel Ch'' \<and> H_Sent Ch'' = H_Sent Ch @ [w]))"
proof -
  from second_word_scene [OF assms(7-12), folded assms(13)] obtain h where
    e: "events_enabled nd 98 50 es (first_scene Ch Cl Us)" and
    q: "fold scene_event es (first_scene Ch Cl Us) =
        quiet (FSM_Client_To_User_Return_Data, Inr v, ws, U_Printed Us @ [ans]) (FSM_Client_DNS_Recived, Inr v, Inr ans, True, None)
          (h\<lparr>v_name := Inr v\<rparr>) 2" and
    h: "v_state h = FSM_Channel_DNS_Request" "v_starts h = 2" "v_sent h = H_Sent Ch @ [w]" by blast
  let ?Q = "quiet (FSM_Client_To_User_Return_Data, Inr v, ws, U_Printed Us @ [ans])
    (FSM_Client_DNS_Recived, Inr v, Inr ans, True, None) (h\<lparr>v_name := Inr v\<rparr>) 2"
  from booted_events [OF assms(1-6) e] obtain K' S' where
    r: "run (boot nd E # map (event_op nd) es) (K, S) = Inr ((), K', S')" "running 98 50 K' S' ?Q"
    unfolding q by blast
  from user_shown [OF r(2)] obtain Us' where "S_Objects S' 2 = User Us'" "U_Console Us' = ws"
    "U_Printed Us' = U_Printed Us @ [ans]" by (auto simp: quiet_def)
  moreover from channel_shown [OF r(2)] obtain Ch' where "S_Objects S' 0 = Channel Ch'" "H_Sent Ch' = H_Sent Ch @ [w]"
    by (auto simp: quiet_def h(3))
  moreover have "start_body nd (program_vtable nd) (K', S') = Inl Blocked"
    by (rule round_blocks [OF r(2)]) (simp add: quiet_def)
  moreover have "no_messages K'" by (rule running_no_messages [OF r(2)]) (simp add: quiet_def)
  moreover have "\<exists>K'' S'' Ch''. run (map (event_op nd) later) (K', S') = Inr ((), K'', S'') \<and>
      S_Objects S'' 0 = Channel Ch'' \<and> H_Sent Ch'' = H_Sent Ch @ [w]"
    if l: "length later < 2 ^ 32 - 2" "events_enabled nd 98 50 (es @ later) (first_scene Ch Cl Us)" for later
  proof -
    have "events_enabled nd 98 50 later ?Q" using l(2) unfolding events_enabled_append q by simp
    from events_refine [OF r(2) this] obtain K'' S'' where
      r': "run (map (event_op nd) later) (K', S') = Inr ((), K'', S'')" "running 98 50 K'' S'' (fold scene_event later ?Q)" by blast
    have "sends_no_more (length later) (H_Sent Ch @ [w]) (q_channel ?Q)"
      using l(1) h by (simp add: sends_no_more_def quiet_def channel_states)
    from events_send_no_more [OF this] channel_shown [OF r'(2)] r'(1) show ?thesis by auto
  qed
  ultimately show ?thesis using r(1) by blast
qed


subsection \<open>A concrete program\<close>

definition raw_program :: "client \<Rightarrow> user \<Rightarrow> actor fsm_system" where
  "raw_program Cl Us = \<lparr>S_Automates = replicate 255 NoArray, S_NumberOfMbx = 0, S_NumberOfAutomates = 0,
     S_NumberOfObjects = replicate 255 0, S_FreeKernelMemory = False, S_SystemWorking = False, S_serverId = 0,
     S_UseFreeAutomateList = replicate 255 False, S_FreeAutomates = replicate 255 FSMList, S_Next = \<lambda>_. None,
     S_Objects = \<lambda>i. if i = 0 then Channel raw_channel else if i = 1 then Client Cl else User Us,
     S_Kernel = False\<rparr>"

definition demo_program :: "client \<Rightarrow> user \<Rightarrow> actor fsm_system" where
  "demo_program Cl Us = projr (FSMSystem AUTOMAT_COUNT MSGBOX_COUNT (raw_program Cl Us))"

definition raw_kernel :: kernel where
  "raw_kernel = (run_kernel [])\<lparr>K_mem := (run_mem [])\<lparr>m_top := 0\<rparr>\<rparr>"

lemma demo_program_raw:
  "FSMSystem AUTOMAT_COUNT MSGBOX_COUNT (raw_program Cl Us) = Inr (demo_program Cl Us)"
  "3 \<le> length (S_FreeAutomates (raw_program Cl Us))" "m_top (K_mem raw_kernel) = 0"
  by (simp_all add: demo_program_def FSMSystem_def AUTOMAT_COUNT_def MSGBOX_COUNT_def MAX_NUM_OF_AUTOMATES_TYPES_def
      Let_def raw_program_def raw_kernel_def)

lemma raw_automata_program:
  "raw_automata (raw_program (raw_client\<lparr>C_Table := tab\<rparr>) raw_user) raw_channel (raw_client\<lparr>C_Table := tab\<rparr>) raw_user"
  by (simp add: raw_automata_def raw_program_def raw_channel_def raw_client_def raw_user_def)

text \<open>The table \<open>a\<close>, \<open>1.2\<close>; the words \<open>ftn\<close> and \<open>a\<close> are typed.\<close>

abbreviation table_client :: client where
  "table_client \<equiv> raw_client\<lparr>C_Table := Some [97, 10, 49, 46, 50, 10]\<rparr>"

lemma raw_words: "U_Console raw_user = [[102, 116, 110], [97]]" "U_Printed raw_user = []" "H_Sent raw_channel = []"
  "connected raw_channel" "typable 98 [102, 116, 110]" "typable 98 [97]" "typable 98 [49, 46, 50]"
  by (simp_all add: raw_user_def raw_channel_def typable_def)

lemma demo_answer: "table_answer [97, 10, 49, 46, 50, 10] = [49, 46, 50]"
  by (simp add: table_answer_def answer_line_def)

text \<open>The configuration file is not there: the automata are unknown, and no message or timer has a name.\<close>

definition demo_env :: start_env where
  "demo_env = \<lparr>E_keys = 1, E_ini = \<lambda>_ _ _ d. d, E_opens = True, E_logmem = [], E_junk = \<lambda>_. [], E_ident = 1\<rparr>"

definition demo_log :: log_file where "demo_log = projr (SystemLog demo_env)"

lemma automate_names_default: "\<exists>F'. automate_names (\<lambda>_ _ d. d) is F = Inr F'"
  by (induction "is" arbitrary: F) (simp_all add: copy_str_def MAX_NAME_LENGTH_def str_def Let_def)

lemma demo_env_ok: "E_ident demo_env \<noteq> 0" "SystemLog demo_env = Inr demo_log"
proof -
  have "\<exists>F. SystemLog demo_env = Inr F"
    using automate_names_default [of "[0 ..< MAX_NUM_OF_AUTOMATE_TYPES]" "empty_names (str ''log.log'') (str ''./log.ini'')"]
    by (auto simp: SystemLog_def demo_env_def LogFile_def ReadIniFile_def read_keys_def copy_str_def str_def Let_def)
  then show "SystemLog demo_env = Inr demo_log" by (auto simp: demo_log_def)
qed (simp add: demo_env_def)

theorem program_boots_witness:
  "\<exists>K' S'. boot False demo_env (raw_kernel, demo_program table_client raw_user) = Inr ((), K', S') \<and>
    running 98 50 K' S' (first_scene raw_channel table_client raw_user)"
  by (rule program_boots [OF demo_program_raw(1,2) raw_automata_program demo_program_raw(3) demo_env_ok])

theorem words_answered_from_table_witness:
  "\<exists>K' S' Us'. run (boot False demo_env # replicate 17 (start_body False (program_vtable False)))
      (raw_kernel, demo_program table_client raw_user) = Inr ((), K', S') \<and> S_Objects S' 2 = User Us' \<and>
    U_Console Us' = [] \<and> U_Printed Us' = [[49, 46, 50], [49, 46, 50]]"
proof -
  have "C_Table table_client = Some [97, 10, 49, 46, 50, 10]"
    "length (table_answer [97, 10, 49, 46, 50, 10]) \<le> 98" "U_Console raw_user = [[102, 116, 110], [97]] @ []"
    "\<forall>w \<in> set [[102, 116, 110], [97]]. typable 98 w"
    using raw_words by (simp_all add: demo_answer)
  note W = words_answered_from_table [OF demo_program_raw(1,2) raw_automata_program demo_program_raw(3) demo_env_ok this]
  have n: "1 + 8 * length [[102 :: u8, 116, 110], [97]] = 17" by simp
  from W [of False, unfolded n] show ?thesis
    unfolding raw_words(2) demo_answer by (simp add: numeral_2_eq_2)
qed

abbreviation lookup_client :: client where
  "lookup_client \<equiv> raw_client\<lparr>C_Table := None\<rparr>"

theorem first_lookup_answered_witness:
  "\<exists>K' S' Ch' Us'. run (boot False demo_env # map (event_op False) (lookup_events [49, 46, 50]))
      (raw_kernel, demo_program lookup_client raw_user) = Inr ((), K', S') \<and> S_Objects S' 0 = Channel Ch' \<and>
    S_Objects S' 2 = User Us' \<and> H_Sent Ch' = [[102, 116, 110]] \<and> U_Printed Us' = [[49, 46, 50]]"
proof -
  have "C_Table lookup_client = None" by simp_all
  from first_lookup_answered [OF demo_program_raw(1,2) raw_automata_program demo_program_raw(3) demo_env_ok this
    raw_words(4,1,5,7), of False] show ?thesis
    unfolding raw_words(2,3) by auto
qed

text \<open>The server closes the connection after the second word has been typed.\<close>

theorem second_lookup_hangs_witness:
  "\<exists>K' S' Ch' Us' K'' S'' Ch''. run (boot False demo_env #
        map (event_op False) (lookup_events [49, 46, 50] @ replicate 8 Serve))
      (raw_kernel, demo_program lookup_client raw_user) = Inr ((), K', S') \<and> S_Objects S' 0 = Channel Ch' \<and>
    S_Objects S' 2 = User Us' \<and> H_Sent Ch' = [[102, 116, 110]] \<and> U_Printed Us' = [[49, 46, 50]] \<and> no_messages K' \<and>
    start_body False (program_vtable False) (K', S') = Inl Blocked \<and>
    run (map (event_op False) [Recv Closed]) (K', S') = Inr ((), K'', S'') \<and> S_Objects S'' 0 = Channel Ch'' \<and>
    H_Sent Ch'' = [[102, 116, 110]]"
proof -
  let ?es = "lookup_events [49, 46, 50] @ replicate 8 Serve"
  have t: "C_Table lookup_client = None" by simp
  have e: "events_enabled False 98 50 (?es @ [Recv Closed]) (first_scene raw_channel lookup_client raw_user)"
    using second_word_scene [OF t raw_words(4,1,5,6,7)] unfolding events_enabled_append by (auto simp: quiet_def)
  have l: "length [Recv Closed] < 2 ^ 32 - 2" by simp
  from second_lookup_hangs [OF demo_program_raw(1,2) raw_automata_program demo_program_raw(3) demo_env_ok t
    raw_words(4,1,5,6,7) refl, of False] obtain K' S' Ch' Us' where
    r: "run (boot False demo_env # map (event_op False) ?es) (raw_kernel, demo_program lookup_client raw_user) = Inr ((), K', S')"
      "S_Objects S' 0 = Channel Ch'" "S_Objects S' 2 = User Us'" "H_Sent Ch' = [[102, 116, 110]]" "U_Printed Us' = [[49, 46, 50]]"
      "no_messages K'" "start_body False (program_vtable False) (K', S') = Inl Blocked"
    and later: "\<forall>later. length later < 2 ^ 32 - 2 \<longrightarrow>
        events_enabled False 98 50 (?es @ later) (first_scene raw_channel lookup_client raw_user) \<longrightarrow>
        (\<exists>K'' S'' Ch''. run (map (event_op False) later) (K', S') = Inr ((), K'', S'') \<and>
          S_Objects S'' 0 = Channel Ch'' \<and> H_Sent Ch'' = [[102, 116, 110]])"
    unfolding raw_words(2,3) by auto
  from later [rule_format, OF l e] r show ?thesis by blast
qed

theorem program_refines_witness:
  "\<exists>K S K' S'. running 98 50 K S (first_scene raw_channel table_client raw_user) \<and>
    run (map (event_op False) (replicate 17 Serve)) (K, S) = Inr ((), K', S') \<and>
    running 98 50 K' S' (fold scene_event (replicate 17 Serve) (first_scene raw_channel table_client raw_user))"
proof -
  from boot_runs [OF demo_program_raw(1,2) raw_automata_program demo_program_raw(3) demo_env_ok] obtain K S where
    r: "running 98 50 K S (first_scene raw_channel table_client raw_user)" by blast
  have "C_Table table_client = Some [97, 10, 49, 46, 50, 10]" "length (table_answer [97, 10, 49, 46, 50, 10]) \<le> 98"
    "U_Console raw_user = [[102, 116, 110], [97]] @ []" "\<forall>w \<in> set [[102, 116, 110], [97]]. typable 98 w"
    using raw_words by (simp_all add: demo_answer)
  note T = table_events(1) [where Ch = raw_channel, OF this]
  have n: "Suc (8 * length [[102 :: u8, 116, 110], [97]]) = 17" by simp
  from program_refines [OF r T [unfolded n, of False]] r show ?thesis by blast
qed

end
