(* ===== verification/FsmProps.thy ===== *)
theory FsmProps
  imports SystemProps
begin

text \<open>
  Properties of \<open>FiniteStateMachine\<close> and \<open>FSMSystem\<close> that hold for every automaton: the branch tables,
  the timer blocks, and what the monitor loop does with messages it cannot deliver.
\<close>

subsection \<open>Branch tables\<close>

text \<open>C39: The branch table of an automaton is an association list.  When the constructor and one call of
  \<open>InitEventProc\<close> for each row of a table without duplicates have run, \<open>GetProcedure\<close> finds for every state
  of the table and every event exactly what the list of the rows holds under the two, and \<open>DoNothing\<close>,
  the default procedure for unexpected events, when it holds nothing.\<close>

theorem branch_table_is_association_list:
  assumes "n \<noteq> 0" "k \<noteq> 0" "table_fits k (unat n) tb"
  shows "\<exists>K' A'. run [FiniteStateMachine au mbx t n k True, init_rows tb] (K, A) = Inr ((), K', A') \<and>
    (\<forall>(st, _, _) \<in> set tb. \<forall>e nd. GetProcedure nd e (K', A'\<lparr>A_State := st\<rparr>) =
      Inr (Some (case map_of (map (\<lambda>(s, e, p). ((s, e), p)) tb) (st, e) of Some p \<Rightarrow> Proc p | None \<Rightarrow> DoNothing),
        K', A'\<lparr>A_State := st\<rparr>))"
proof -
  obtain K1 A1 where c: "FiniteStateMachine au mbx t n k True (K, A) = Inr ((), K1, A1)"
    "F_States A1 = Some (replicate (unat n) (fresh_state k))" "F_MaxNumOfProcPerState A1 = k"
    using FiniteStateMachine_ok [OF assms(1,2), of au mbx t K A] by simp
  from init_rows_fresh [OF this(2,3) assms(3), of K1] obtain ss where
    i: "init_rows tb (K1, A1) = Inr ((), K1, A1\<lparr>F_States := Some ss\<rparr>)" "states_ok k (unat n) tb ss" by blast
  let ?A = "A1\<lparr>F_States := Some ss\<rparr>"
  have "GetProcedure nd e (K1, ?A\<lparr>A_State := st\<rparr>) = Inr (Some (proc_for tb st e), K1, ?A\<lparr>A_State := st\<rparr>)"
    if "(st, e0, p0) \<in> set tb" for st e0 p0 e nd
  proof -
    have "\<exists>e p. (st, e, p) \<in> set tb" using that by blast
    moreover have "unat st < unat n" using that assms(3) by (auto simp: table_fits_def)
    ultimately show ?thesis
      using GetProcedure_table [of "?A\<lparr>A_State := st\<rparr>" ss k "unat n" tb nd e K1] i(2) by simp
  qed
  then show ?thesis using c(1) i(1) unfolding proc_for_def by (intro exI [of _ K1] exI [of _ ?A]) auto
qed

theorem branch_table_is_association_list_witness:
  "\<exists>K' A'. run [FiniteStateMachine 1 1 0 10 2 True, init_rows client_branches] (run_kernel [], raw_client) = Inr ((), K', A') \<and>
    GetProcedure False MSG_Timer_Expired (K', A'\<lparr>A_State := FSM_Client_DNS_Recived\<rparr>) =
      Inr (Some DoNothing, K', A'\<lparr>A_State := FSM_Client_DNS_Recived\<rparr>)"
proof -
  have f: "table_fits 2 (unat (10 :: u16)) client_branches" using client_table_fits by simp
  have "(FSM_Client_DNS_Recived, MSG_Client_To_User_Return_Data_Recived, FSM_Client_Pass_DNS_Request_To_Client) \<in>
      set client_branches" by (simp add: client_branches_def)
  moreover have "map_of (map (\<lambda>(s, e, p). ((s, e), p)) client_branches) (FSM_Client_DNS_Recived, MSG_Timer_Expired) = None"
    by (simp add: client_branches_def client_states msg_codes)
  ultimately show ?thesis
    using branch_table_is_association_list [OF _ _ f, of 1 1 0 "run_kernel []" raw_client] by fastforce
qed

text \<open>A second row for the same state and event is refused with the error 0x01010200.  But a row for a
  state that is full is not: it is written behind the end of \<open>PBranch\<close> before the number of branches is
  checked.\<close>

theorem InitEventProc_refuses:
  assumes "F_States A = Some ss" "states_ok k n tb ss" "F_MaxNumOfProcPerState A = k" "k \<noteq> 0" "unat st < n"
  shows "(\<forall>q. (st, e, q) \<in> set tb \<longrightarrow> InitEventProc st e p (K, A) = Inl (Throw 0x01010200)) \<and>
    ((\<forall>q. (st, e, q) \<notin> set tb) \<and> length (rows_of tb (unat st)) = unat k \<longrightarrow>
      InitEventProc st e p (K, A) = Inl OutOfBounds)"
proof (intro conjI allI impI)
  have b: "branches k (ss ! unat st) (rows_of tb (unat st))" and l: "length ss = n"
    using assms(2,5) by (simp_all add: states_ok_def)
  note I = InitEventProc_def state_at_def
  show "InitEventProc st e p (K, A) = Inl (Throw 0x01010200)" if "(st, e, q) \<in> set tb" for q
  proof -
    have "e \<in> fst ` set (rows_of tb (unat st))" unfolding rows_of_events using that by force
    from add_branch_known [OF b this, of p] show ?thesis using assms(1,3,5) l by (simp add: I)
  qed
  show "InitEventProc st e p (K, A) = Inl OutOfBounds"
    if "(\<forall>q. (st, e, q) \<notin> set tb) \<and> length (rows_of tb (unat st)) = unat k"
  proof -
    have "e \<notin> fst ` set (rows_of tb (unat st))" unfolding rows_of_events using that by auto
    from add_branch_full [OF b this _ assms(4), of p] that show ?thesis using assms(1,3,5) l by (simp add: I)
  qed
qed

theorem InitEventProc_refuses_witness:
  "\<exists>K A. InitEventProc FSM_Client_DNS_Recived MSG_Client_To_User_Return_Data_Recived None (K, A) = Inl (Throw 0x01010200) \<and>
    InitEventProc FSM_Client_DNS_Recived 0 None (K, A) = (Inl OutOfBounds :: (unit \<times> kernel \<times> client) result)"
proof -
  let ?A = "raw_client\<lparr>F_States := Some (replicate 10 (fresh_state 2)), F_MaxNumOfProcPerState := 2\<rparr>"
  have "F_States ?A = Some (replicate 10 (fresh_state 2))" "F_MaxNumOfProcPerState ?A = 2" by simp_all
  from init_rows_fresh [OF this client_table_fits, of "run_kernel []"] obtain ss where "states_ok 2 10 client_branches ss"
    by blast
  note R = InitEventProc_refuses [of "?A\<lparr>F_States := Some ss\<rparr>", OF _ this]
  have st: "unat FSM_Client_DNS_Recived < 10" by (simp add: client_states)
  have "(FSM_Client_DNS_Recived, MSG_Client_To_User_Return_Data_Recived, FSM_Client_Pass_DNS_Request_To_Client) \<in>
      set client_branches" by (simp add: client_branches_def)
  then have "\<exists>q. (FSM_Client_DNS_Recived, MSG_Client_To_User_Return_Data_Recived, q) \<in> set client_branches" by blast
  moreover have "\<forall>q. (FSM_Client_DNS_Recived, 0, q) \<notin> set client_branches"
    by (simp add: client_branches_def client_states msg_codes)
  moreover have "length (rows_of client_branches (unat FSM_Client_DNS_Recived)) = unat (2 :: u16)"
    by (simp add: client_branches_def client_states rows_of_def)
  ultimately show ?thesis
    using R [where p = None and K = "run_kernel []" and e = 0, OF _ _ _ st]
      R [where p = None and K = "run_kernel []" and e = MSG_Client_To_User_Return_Data_Recived, OF _ _ _ st]
    by (intro exI [of _ "run_kernel []"] exI [of _ "?A\<lparr>F_States := Some ss\<rparr>"]) simp
qed

subsection \<open>Timer blocks\<close>

text \<open>\<open>InitTimerBlock\<close> is off by one: it refuses an identifier greater than the number of timers with
  the error 0x01010200 and fills the block of every smaller one, but for the number itself, the
  first identifier without a block, it writes behind the end of the timer table.\<close>

theorem InitTimerBlock_bounds:
  assumes "length (F_TimerStore A) = unat (F_NumOfTimers A)"
  shows "InitTimerBlock i cnt sig (K, A) =
    (if i < F_NumOfTimers A then Inr ((), K, A\<lparr>F_TimerStore := (F_TimerStore A)[unat i :=
        \<lparr>tb_Count = cnt, tb_SignalId = sig, tb_Valid = True, tb_TimerBuffer = None\<rparr>]\<rparr>)
     else if i = F_NumOfTimers A then Inl OutOfBounds
     else Inl (Throw 0x01010200))"
  using assms by (auto simp: InitTimerBlock_def set_timer_def timer_at_def upd_def word_less_nat_alt word_unat_eq_iff checkC_def)

theorem InitTimerBlock_bounds_witness:
  "InitTimerBlock 1 TIMER1_COUNT MSG_Timer_Expired
     (run_kernel [], raw_client\<lparr>F_NumOfTimers := 1, F_TimerStore := [TimerBlock]\<rparr>) = Inl OutOfBounds"
  using InitTimerBlock_bounds [of "raw_client\<lparr>F_NumOfTimers := 1, F_TimerStore := [TimerBlock]\<rparr>"] by simp

subsection \<open>Messages that cannot be delivered\<close>

definition addressed :: "u8 \<Rightarrow> u32 \<Rightarrow> u8 list \<Rightarrow> bool" where
  "addressed au obj bs \<longleftrightarrow> MSG_HEADER_LENGTH \<le> length bs \<and> bs ! MSG_TO_AUTOMATE = au \<and> GetUint32 bs MSG_OBJECT_ID_TO = obj"

text \<open>C40: A message for any free object (object number 0xffffffff) when all are busy is not refused by the
  procedure for this case: \<open>FSMList::Get\<close> throws on the empty list of free objects before
  \<open>NoFreeObjectProcedure\<close> could be called, and the exception leaves the monitor loop.\<close>

theorem no_free_object_throws:
  assumes "addressed au 0xffffffff (bytes K a)" "au \<le> S_NumberOfAutomates S"
    and "unat au < length (S_NumberOfObjects S)" "S_NumberOfObjects S ! unat au \<noteq> 0"
    and "unat au < length (S_FreeAutomates S)" "fl_Head (S_FreeAutomates S ! unat au) = None"
  shows "dispatch nd vt a (K, S) = Inl (Throw 0x21030504)"
  using assms by (auto simp: dispatch_def addressed_def in_buff_def Let_def free_get_def fl_Get_def fl_GetFromHead_def
      bnd_def checkC_def)

text \<open>The number of an object is checked with one too many: a message for the object whose number is the
  number of objects is not discarded but read from behind the table of the objects, while every
  greater number is discarded; the same holds for the type of the automaton.\<close>

theorem dispatch_object_bounds:
  assumes "addressed au obj (bytes K a)" "au < S_NumberOfAutomates S" "obj \<noteq> 0xffffffff"
    and "unat au < length (S_NumberOfObjects S)" "unat au < length (S_Automates S)" "n = S_NumberOfObjects S ! unat au"
    and "n \<noteq> 0" "S_Automates S ! unat au = Array os" "length os = unat n"
  shows "dispatch nd vt a (K, S) =
    (if obj < n then deref (os ! unat obj) (\<lambda>i. on_object i (v_Process vt (Some a)) (K, S))
     else if obj = n then Inl OutOfBounds else DiscardMsg nd (Some a) (K, S))"
  using assms by (auto simp: dispatch_def addressed_def in_buff_def Let_def call_object_def object_at_def word_less_nat_alt
      word_unat_eq_iff)

definition lost_message :: "u32 \<Rightarrow> u8 list" where
  "lost_message obj = SetUint32 (SetByte (replicate 128 0) MSG_TO_AUTOMATE 0) MSG_OBJECT_ID_TO obj"

lemma lost_message_addressed: "addressed 0 obj (bytes (run_kernel (lost_message obj)) 3)"
proof -
  have "bytes (run_kernel (lost_message obj)) 3 = lost_message obj" by (rule run_kernel_ready)
  then show ?thesis by (simp add: addressed_def lost_message_def mem_simps offset_defs)
qed

text \<open>One automaton of the type 0, which is busy.\<close>

definition busy_program :: "actor fsm_system" where
  "busy_program = (raw_program raw_client raw_user)\<lparr>S_NumberOfAutomates := 1, S_NumberOfObjects := [1],
     S_Automates := [Array [Some 0]], S_Kernel := True\<rparr>"

theorem no_free_object_throws_witness:
  "dispatch False (program_vtable False) 3 (run_kernel (lost_message 0xffffffff), busy_program) = Inl (Throw 0x21030504)"
  by (rule no_free_object_throws [OF lost_message_addressed]) (simp_all add: busy_program_def raw_program_def FSMList_def)

theorem dispatch_object_bounds_witness:
  "dispatch False (program_vtable False) 3 (run_kernel (lost_message 1), busy_program) = Inl OutOfBounds"
  using dispatch_object_bounds [OF lost_message_addressed _ _ _ _ refl, where S = busy_program and os = "[Some 0]" and nd = False and
    vt = "program_vtable False" and obj = 1]
  by (simp add: busy_program_def)

end
