(* ===== verification/DistProps.thy ===== *)
theory DistProps
  imports DistRoutes FsmProps
begin

text \<open>
  The properties of \<open>Distribution\<close>: its configuration, the routing of messages between the computers,
  and the stream between two of them.
\<close>

subsection \<open>A concrete configuration\<close>

definition idle_socket :: socket where
  "idle_socket = \<lparr>so_in = [], so_out = [], so_send = True, so_closed = False\<rparr>"

definition raw_srv :: auto_srv where
  "raw_srv = \<lparr>startId = 0, lastId = 0, compId = []\<rparr>"

definition raw_dist :: distribution where
  "raw_dist = \<lparr>D_server = replicate 10 \<lparr>srv_init = True, srv_sock = idle_socket\<rparr>, D_serverName = [], connSocket = False, D_automate = [],
     D_next = \<lambda>_. None, D_srv = \<lambda>_. raw_srv, D_top = 0\<rparr>"




definition one_range :: distribution where
  "one_range = new_entry 0 (raw_srv\<lparr>compId := [0]\<rparr>) (InitLists raw_dist)"

lemma one_range_ok:
  "dist_ok one_range ((replicate MAX_AUTO_TYPES_NUM [])[0 := [0]])" "D_server one_range = D_server raw_dist"
  "D_srv one_range 0 = raw_srv\<lparr>compId := [0]\<rparr>"
proof -
  have l: "0 < length (replicate MAX_AUTO_TYPES_NUM ([] :: addr list))"
    by (simp add: MAX_AUTO_TYPES_NUM_def MAX_NUM_OF_AUTOMATES_TYPES_def)
  have t: "D_top (InitLists raw_dist) = 0" "D_server (InitLists raw_dist) = D_server raw_dist"
    by (simp_all add: InitLists_def raw_dist_def)
  note N = new_entry_ok [OF dist_lists_Init [of raw_dist] l, of "raw_srv\<lparr>compId := [0]\<rparr>", unfolded t, folded one_range_def]
  show s: "D_server one_range = D_server raw_dist" "D_srv one_range 0 = raw_srv\<lparr>compId := [0]\<rparr>" unfolding N(2,4) by simp_all
  have "pooled ((replicate MAX_AUTO_TYPES_NUM [])[0 := [0]]) = {0 :: addr}"
    by (simp add: pooled_def MAX_AUTO_TYPES_NUM_def MAX_NUM_OF_AUTOMATES_TYPES_def numeral_eq_Suc)
  moreover have "dist_lists one_range ((replicate MAX_AUTO_TYPES_NUM [])[0 := [0]])" using N(1) l by simp
  ultimately show "dist_ok one_range ((replicate MAX_AUTO_TYPES_NUM [])[0 := [0]])"
    using s by (simp add: dist_ok_def raw_dist_def comps_ok_def)
qed

subsection \<open>The properties\<close>



text \<open>C36: Every message goes where the tables say.  A message for this computer is processed here when an
  entry of its type that is active here covers its object, and discarded otherwise; one for no
  computer in particular is processed here or sent to the first active server of another entry; one
  for another computer is sent there.\<close>

theorem messages_follow_routes:
  assumes "dist_ok D ass" "t = bytes K a ! MSG_TO_AUTOMATE" "unat t < length ass" "MSG_HEADER_LENGTH \<le> length (bytes K a)"
  shows "route_msg nd vt a (K, S, D) =
    (case route D (map (D_srv D) (ass ! unat t)) (S_serverId S) (bytes K a ! MSG_TO_GROUP)
        (GetUint32 (bytes K a) MSG_OBJECT_ID_TO) of
      Local \<Rightarrow> ProcessMsg nd vt a (K, S, D)
    | Remote c \<Rightarrow> SendMsgToServer nd (unat c) a (K, S, D)
    | Discard \<Rightarrow> on_system (DiscardMsg nd (Some a)) (K, S, D))"
  unfolding route_msg_route [OF assms] take_route_def by (simp split: route.split)

text \<open>A message to the group 255 is sent to the only active server when this is another computer.\<close>

definition group_message :: "u8 list" where
  "group_message = SetByte (replicate 128 0) MSG_TO_GROUP 255"

theorem messages_follow_routes_witness:
  "route_msg False (program_vtable False) 3 (run_kernel group_message, busy_program\<lparr>S_serverId := 1\<rparr>, one_range) =
    SendMsgToServer False 0 3 (run_kernel group_message, busy_program\<lparr>S_serverId := 1\<rparr>, one_range)"
proof -
  have b: "bytes (run_kernel group_message) 3 = group_message" by (rule run_kernel_ready)
  have g: "group_message ! MSG_TO_AUTOMATE = 0" "group_message ! MSG_TO_GROUP = 255" "GetUint32 group_message MSG_OBJECT_ID_TO = 0"
    "MSG_HEADER_LENGTH \<le> length group_message"
    by (simp_all add: group_message_def mem_simps offset_defs GetUint32_def)
  have l: "0 < MAX_AUTO_TYPES_NUM" by (simp add: MAX_AUTO_TYPES_NUM_def MAX_NUM_OF_AUTOMATES_TYPES_def)
  have "active one_range (raw_srv\<lparr>compId := [0]\<rparr>) = 0"
    unfolding one_range_ok(2) by (simp add: active_server_def raw_dist_def INVALID_08_def)
  then have "route one_range [raw_srv\<lparr>compId := [0]\<rparr>] 1 255 0 = Remote 0"
    by (simp add: route_def served_here_def first_other_def INVALID_08_def)
  then show ?thesis
    using messages_follow_routes [OF one_range_ok(1), of 0 "run_kernel group_message" 3 False "program_vtable False"
        "busy_program\<lparr>S_serverId := 1\<rparr>", unfolded b g] g l one_range_ok(3) by simp
qed

text \<open>C37: What one server sends the other receives.  However the network cuts the bytes that
  \<open>SendMsgToServer\<close> hands to the socket, into pieces of at most 100 bytes of which the first has the two
  bytes of the length, \<open>ReceiveMsg\<close> puts the message together again and leaves the rest of the stream alone,
  also when it has arrived together with the end of the message.  But the system reads one byte of the
  length of a message only: what is sent of a message ends after its header and its length modulo 256.\<close>

theorem servers_exchange_messages:
  assumes "n = MSG_HEADER_LENGTH + unat (info_length (bytes K a)) mod 256" "n \<le> length (bytes K a)"
    and "i < length (D_server D)" "so_send (srv_sock (D_server D ! i))" "S_Kernel S"
    and "RetBuffer nd (Some a) (K_mem K, K_Buffers K) = Inr (m', B')"
  shows "\<exists>K' D' f. SendMsgToServer nd i a (K, S, D) = Inr ((), K', S, D') \<and>
    so_out (srv_sock (D_server D' ! i)) = so_out (srv_sock (D_server D ! i)) @ [f] \<and>
    (\<forall>qs x rest so junk. carried 2 f x qs \<longrightarrow> (\<forall>q \<in> set qs. length q \<le> DIST_BUFF) \<longrightarrow> so_in so = map Some qs @ rest \<longrightarrow>
      ReceiveMsg junk so = Inr ((n, take n (bytes K a)), so\<lparr>so_in := left_over x rest\<rparr>))"
proof -
  let ?bs = "take n (bytes K a)" and ?f = "frame (take n (bytes K a))"
  have s: "sent_part (bytes K a) = ?bs" unfolding sent_part_def assms(1) ..
  have "unat (info_length (bytes K a)) mod 256 < 256" by simp
  then have n: "length ?bs = n" "0 < n" "n \<le> DIST_MSG" using assms(1,2) by (simp_all add: DIST_MSG_def offset_defs)
  then have ne: "?bs \<noteq> []" by auto
  note S = SendMsgToServer_sent [of K a i D S nd m' B', unfolded s, OF _ assms(3-6)]
  have "ReceiveMsg junk so = Inr ((n, ?bs), so\<lparr>so_in := left_over x rest\<rparr>)"
    if "carried 2 ?f x qs" "\<forall>q \<in> set qs. length q \<le> DIST_BUFF" "so_in so = map Some qs @ rest"
    for qs x rest so junk
    using ReceiveMsg_pieces [OF that(1) ne _ that(2,3)] n(1,3) by simp
  then show ?thesis using S assms(1-3) by simp
qed

text \<open>The last byte of the length arrives with the header, and the next message with the last byte.\<close>

theorem servers_exchange_messages_witness:
  "\<exists>K' D' f. SendMsgToServer False 0 3 (run_kernel group_message, busy_program, one_range) = Inr ((), K', busy_program, D') \<and>
    so_out (srv_sock (D_server D' ! 0)) = [f] \<and>
    ReceiveMsg [] (idle_socket\<lparr>so_in := [Some (take 9 f), Some (drop 9 f @ [7, 7])]\<rparr>) =
      Inr ((21, take 21 group_message), idle_socket\<lparr>so_in := [Some [7, 7]]\<rparr>)"
proof -
  have len: "length group_message = 128" by (simp add: group_message_def)
  have b: "bytes (run_kernel group_message) 3 = group_message" by (rule run_kernel_ready)
  have il: "info_length group_message = 0" by (simp add: group_message_def info_length_def mem_simps offset_defs GetUint16_def)
  have "3 \<notin> pooled [[0, 1, 2 :: addr]]" "in_pool (run_mem group_message, run_pool) 3"
    using run_used [OF len] by (auto simp: used_buffers_def pooled_def)
  from RetBuffer_gives_back [OF run_tb_content [OF len] this, of False] obtain m' B' where
    ret: "RetBuffer False (Some 3) (K_mem (run_kernel group_message), K_Buffers (run_kernel group_message)) = Inr (m', B')"
    by (auto simp: run_kernel_def)
  have n: "21 = MSG_HEADER_LENGTH + unat (info_length (bytes (run_kernel group_message) 3)) mod 256"
    "21 \<le> length (bytes (run_kernel group_message) 3)" unfolding b il len by (simp_all add: offset_defs)
  have srv: "0 < length (D_server one_range)" "so_send (srv_sock (D_server one_range ! 0))" "S_Kernel busy_program"
    by (simp_all add: one_range_ok(2) raw_dist_def idle_socket_def busy_program_def)
  have out: "so_out (srv_sock (D_server one_range ! 0)) = []" by (simp add: one_range_ok(2) raw_dist_def idle_socket_def)
  from servers_exchange_messages [OF n srv ret] obtain K' D' f where
    r: "SendMsgToServer False 0 3 (run_kernel group_message, busy_program, one_range) = Inr ((), K', busy_program, D')"
      "so_out (srv_sock (D_server D' ! 0)) = [f]"
      "\<And>qs x rest so junk. carried 2 f x qs \<Longrightarrow> \<forall>q \<in> set qs. length q \<le> DIST_BUFF \<Longrightarrow> so_in so = map Some qs @ rest \<Longrightarrow>
        ReceiveMsg junk so = Inr ((21, take 21 group_message), so\<lparr>so_in := left_over x rest\<rparr>)"
    unfolding b out by auto
  have sent: "SendMsgToServer False 0 3 (run_kernel group_message, busy_program, one_range) = Inr ((), K\<^sub>0, S\<^sub>0, D\<^sub>0) \<Longrightarrow>
      so_out (srv_sock (D_server D\<^sub>0 ! 0)) = [frame (sent_part group_message)]" for K\<^sub>0 S\<^sub>0 D\<^sub>0
    using SendMsgToServer_sent [of "run_kernel group_message" 3 0 one_range busy_program False m' B', OF _ srv ret] n srv(1) out
    by (auto simp: b)
  have f: "length f = 23" using sent [OF r(1)] r(2) n(1) len frame_length(1) by (simp add: b frame_def sent_part_def)
  then have "take 9 f \<noteq> []" by auto
  then have "carried 2 f [7, 7] [take 9 f, drop 9 f @ [7, 7]]" using f by (simp add: carried_def)
  moreover have "\<forall>q \<in> set [take 9 f, drop 9 f @ [7, 7]]. length q \<le> DIST_BUFF" using f by (simp add: DIST_BUFF_def)
  ultimately show ?thesis
    using r(1,2) r(3) [of "[7, 7]" "[take 9 f, drop 9 f @ [7, 7]]" "idle_socket\<lparr>so_in := [Some (take 9 f), Some (drop 9 f @ [7, 7])]\<rparr>" "[]" "[]"]
    by (simp add: left_over_def)
qed

text \<open>A peer can write behind the array in the stack into which \<open>ReceiveMsg\<close> receives: a piece of more
  than 100 bytes that is not longer than the message that was announced is an access out of bounds.\<close>

theorem peer_overruns_buffer:
  assumes "DIST_BUFF < length p" "length p \<le> n" "n < 65536"
    and "so_in so = Some (SetUint16 [0, 0] 0 (of_nat n)) # Some p # rest"
  shows "ReceiveMsg junk so = Inl OutOfBounds"
  by (rule ReceiveMsg_overflow [OF assms])

theorem peer_overruns_buffer_witness:
  "ReceiveMsg [] (idle_socket\<lparr>so_in := [Some (SetUint16 [0, 0] 0 (of_nat 101)), Some (replicate 101 0)]\<rparr>) = Inl OutOfBounds"
  by (rule peer_overruns_buffer [of "replicate 101 0" 101 _ "[]"]) (simp_all add: DIST_BUFF_def)

end
