(* ===== verification/LogNames.thy ===== *)
theory LogNames
  imports LogFile
begin

text \<open>
  The names of \<open>LogFile\<close>: what \<open>ReadIniFile\<close> makes of a configuration file that lists the automata, the
  messages with their codes and codings, and the timers.
\<close>

subsection \<open>Codes in hexadecimal\<close>

definition hex_digit :: "u8 \<Rightarrow> u8" where
  "hex_digit d = (if d < 10 then d + 48 else d + 87)"

definition hex_text :: "u16 \<Rightarrow> u8 list" where
  "hex_text c = 48 # 120 # map (\<lambda>k. hex_digit (ucast (take_bit 4 (drop_bit k c)))) [12, 8, 4, 0]"

lemma less_16: "(n :: nat) < 16 \<Longrightarrow> n \<in> {0, 1, 2, 3, 4, 5, 6, 7, 8, 9, 10, 11, 12, 13, 14, 15}"
  unfolding insert_iff empty_iff by presburger

lemma hex_digit_facts:
  assumes "d < 16"
  shows "atob (hex_digit d) = d" "hex_digit d \<noteq> 44" "hex_digit d \<noteq> 32" "hex_digit d \<noteq> 88" "hex_digit d \<noteq> 120"
proof -
  have "unat d < 16" using assms by (simp add: word_less_nat_alt)
  from less_16 [OF this] have "(of_nat (unat d) :: u8) \<in> of_nat ` {0, 1, 2, 3, 4, 5, 6, 7, 8, 9, 10, 11, 12, 13, 14, 15 :: nat}" by (rule imageI)
  then have "d \<in> {0, 1, 2, 3, 4, 5, 6, 7, 8, 9, 10, 11, 12, 13, 14, 15}" by simp
  moreover have "\<forall>d \<in> {0, 1, 2, 3, 4, 5, 6, 7, 8, 9, 10, 11, 12, 13, 14, 15}. atob (hex_digit d) = d \<and> hex_digit d \<notin> {44, 32, 88, 120}"
    by (simp add: atob_def hex_digit_def)
  ultimately have "atob (hex_digit d) = d \<and> hex_digit d \<notin> {44, 32, 88, 120}" by blast
  then show "atob (hex_digit d) = d" "hex_digit d \<noteq> 44" "hex_digit d \<noteq> 32" "hex_digit d \<noteq> 88" "hex_digit d \<noteq> 120"
    by simp_all
qed

lemma nibble: "(ucast (take_bit 4 (x :: u16)) :: u8) < 16"
proof -
  have "unat (take_bit 4 x) < 16" using take_bit_nat_less_exp [of 4 "unat x"] by (simp add: unsigned_take_bit_eq)
  then have "unat (ucast (take_bit 4 x) :: u8) < 16"
    using le_less_trans [OF take_bit_nat_less_eq_self] by (simp add: unsigned_ucast_eq)
  then show ?thesis by (simp add: word_less_nat_alt)
qed

lemma hex_text_plain: "b \<in> {44, 32, 88} \<Longrightarrow> b \<notin> set (hex_text c)" "hex_text c = 48 # 120 # tl (tl (hex_text c))"
  using hex_digit_facts(2-4) [OF nibble] by (auto simp: hex_text_def)

lemma ConvertToBin_hex: "ucast (ConvertToBin (hex_text c)) = c"
proof -
  let ?ds = "map (\<lambda>k. hex_digit (ucast (take_bit 4 (drop_bit k c)))) [12, 8, 4, 0]"
  have "cut_space (hex_text c) = hex_text c" using hex_text_plain(1) [of 32 c]
    by (auto simp: cut_space_def takeWhile_eq_all_conv)
  moreover have "behind 88 (hex_text c) = hex_text c"
    using hex_text_plain(1) [of 88 c] by (simp add: behind_def str_cut_None [THEN iffD2])
  moreover have "str_cut 120 (hex_text c) = Some ([48], ?ds)" by (simp add: hex_text_def str_cut_Some)
  ultimately have "ConvertToBin (hex_text c) = hex_loop 0 ?ds" by (simp add: ConvertToBin_def behind_def)
  then have "ucast (ConvertToBin (hex_text c)) = (ucast (push_bit 4 (push_bit 4 (push_bit 4
      (ucast (ucast (take_bit 4 (drop_bit 12 c)) :: u8)) OR ucast (ucast (take_bit 4 (drop_bit 8 c)) :: u8)) OR
      ucast (ucast (take_bit 4 (drop_bit 4 c)) :: u8)) OR ucast (ucast (take_bit 4 c) :: u8) :: u32) :: u16)"
    using hex_digit_facts(1) [OF nibble] by simp
  also have "\<dots> = c"
  proof (rule bit_word_eqI)
    fix n assume "n < LENGTH(16)"
    then show "bit (ucast (push_bit 4 (push_bit 4 (push_bit 4
      (ucast (ucast (take_bit 4 (drop_bit 12 c)) :: u8)) OR ucast (ucast (take_bit 4 (drop_bit 8 c)) :: u8)) OR
      ucast (ucast (take_bit 4 (drop_bit 4 c)) :: u8)) OR ucast (ucast (take_bit 4 c) :: u8) :: u32) :: u16) n = bit c n"
      by (simp add: bit_simps) (cases "n < 4"; cases "n < 8"; cases "n < 12"; auto)
  qed
  finally show ?thesis .
qed

subsection \<open>Loops over the keys of a section\<close>

fun all_entries :: "(u8 list \<Rightarrow> log_file \<Rightarrow> (u8 list \<times> log_file) result) \<Rightarrow> u8 list list \<Rightarrow> log_file \<Rightarrow> log_file result" where
  "all_entries entry [] F = Inr F"
| "all_entries entry (x # xs) F = bindR (entry x F) (\<lambda>(_, F). all_entries entry xs F)"

text \<open>The section holds the texts \<open>xs\<close> under the keys 0, 1, .., and each fits the array \<open>data[300]\<close>.\<close>

lemma END_fits [simp]: "length (str ''END'') < 300"
  by (simp add: str_def)

definition section_holds :: "profile \<Rightarrow> u8 list \<Rightarrow> nat \<Rightarrow> u8 list list \<Rightarrow> bool" where
  "section_holds ini sec i xs \<longleftrightarrow> (\<forall>j < length xs. ini sec (decimal (i + j)) (str ''END'') = xs ! j) \<and>
     ini sec (decimal (i + length xs)) (str ''END'') = str ''END'' \<and> str ''END'' \<notin> set xs \<and> (\<forall>x \<in> set xs. length x < 300)"

lemma keys_loop_list:
  assumes "section_holds ini sec i xs" "data \<noteq> str ''END''" "length xs < fuel"
    and "\<And>x F d F'. x \<in> set xs \<Longrightarrow> entry x F = Inr (d, F') \<Longrightarrow> d \<noteq> str ''END''"
  shows "keys_loop entry ini sec fuel i data F = all_entries entry xs F"
  using assms
proof (induction xs arbitrary: i data fuel F)
  case Nil
  then have "ini_string 300 ini sec (decimal i) (str ''END'') = str ''END''" by (simp add: section_holds_def)
  with Nil show ?case by (cases fuel) auto
next
  case (Cons x xs)
  obtain n where n: "fuel = Suc n" "length xs < n" using Cons.prems(3) by (cases fuel) auto
  have x: "ini_string 300 ini sec (decimal i) (str ''END'') = x" "x \<noteq> str ''END''"
    using Cons.prems(1) by (auto simp: section_holds_def)
  have "section_holds ini sec (i + 1) xs" using Cons.prems(1) by (auto simp: section_holds_def All_less_Suc2)
  then have "keys_loop entry ini sec n (i + 1) d F' = all_entries entry xs F'" if "entry x F = Inr (d, F')" for d F'
    using Cons.prems(4) [of x F d F'] that n(2) by (intro Cons.IH Cons.prems(4)) auto
  then show ?case using n(1) x Cons.prems(2) by (cases "entry x F") (auto simp: Let_def)
qed

lemma read_keys_list:
  assumes "section_holds ini sec 0 xs" "length xs < fuel"
    and "\<And>x F d F'. x \<in> set xs \<Longrightarrow> entry x F = Inr (d, F') \<Longrightarrow> d \<noteq> str ''END''"
  shows "read_keys entry ini sec fuel F = all_entries entry xs F"
proof (cases xs)
  case Nil
  with assms(1) have "ini_string 300 ini sec (decimal 0) (str ''END'') = str ''END''" by (simp add: section_holds_def)
  with Nil assms(2) show ?thesis by (cases fuel) (auto simp: read_keys_def)
next
  case (Cons x ys)
  then have "ini_string 300 ini sec (decimal 0) (str ''END'') \<noteq> str ''END''" using assms(1) by (auto simp: section_holds_def)
  with keys_loop_list [OF assms(1) _ assms(2)] assms(3) show ?thesis by (simp add: read_keys_def)
qed

lemma starts_no_END: "s = c # r \<Longrightarrow> c \<noteq> 69 \<Longrightarrow> s \<noteq> str ''END''"
  by (simp add: str_def of_char_def)

lemma decimal_no_END: "decimal n \<noteq> str ''END''" "decimal n @ 44 # r \<noteq> str ''END''"
proof -
  obtain d r' where d: "d < 10" "decimal n = (48 + of_nat d) # r'" using decimal_Cons by blast
  have "is_digit (48 + of_nat d)" by (rule digit_facts [OF d(1)])
  moreover have "\<not> is_digit 69" by (simp add: is_digit_def)
  ultimately have "(48 + of_nat d :: u8) \<noteq> 69" by metis
  then show "decimal n \<noteq> str ''END''" "decimal n @ 44 # r \<noteq> str ''END''"
    using starts_no_END d(2) by (auto simp: str_def of_char_def)
qed

subsection \<open>Messages\<close>

type_synonym msg_entry = "u16 \<times> u8 list \<times> nat list"

fun comma_sep :: "nat list \<Rightarrow> u8 list" where
  "comma_sep [] = []"
| "comma_sep [c] = decimal c"
| "comma_sep (c # cs) = decimal c @ 44 # comma_sep cs"

fun msg_text :: "msg_entry \<Rightarrow> u8 list" where
  "msg_text (code, name, cs) = hex_text code @ 44 # name @ 44 # comma_sep cs"

fun msg_entry_ok :: "msg_entry \<Rightarrow> bool" where
  "msg_entry_ok (code, name, cs) \<longleftrightarrow> 44 \<notin> set name \<and> length name < MAX_NAME_LENGTH \<and> cs \<noteq> [] \<and>
     (\<forall>c \<in> set cs. c < MAX_NUM_OF_MSG_CODING_TYPES)"

text \<open>The table of a coding: the messages that name it, in their order.\<close>

definition coding_table :: "msg_entry list \<Rightarrow> nat \<Rightarrow> (u16 \<times> u8 list) list" where
  "coding_table ms c = concat (map (\<lambda>(code, name, cs). map (\<lambda>_. (code, name)) (filter ((=) c) cs)) ms)"

definition msgs_hold :: "(nat \<Rightarrow> (u16 \<times> u8 list) list) \<Rightarrow> msg_data list \<Rightarrow> bool" where
  "msgs_hold tab Ds \<longleftrightarrow> length Ds = MAX_NUM_OF_MSG_CODING_TYPES \<and> (\<forall>c < length Ds. let D = Ds ! c; n = unat (NumOfMsgs D) in
     length (msgCode D) = MAX_NUM_OF_MESSAGES \<and> length (msgName D) = MAX_NUM_OF_MESSAGES \<and>
     n = length (tab c) \<and> take n (zip (msgCode D) (msgName D)) = tab c)"

text \<open>Everything but the messages.\<close>

definition same_automata :: "log_file \<Rightarrow> log_file \<Rightarrow> bool" where
  "same_automata F F' \<longleftrightarrow> AutomateData F' = AutomateData F \<and> FileName F' = FileName F \<and> IniFileName F' = IniFileName F"

lemma same_automata_refl [simp]: "same_automata F F"
  by (simp add: same_automata_def)

lemma same_automata_trans: "same_automata F F' \<Longrightarrow> same_automata F' F'' \<Longrightarrow> same_automata F F''"
  by (simp add: same_automata_def)

lemma add_msg_ok:
  assumes "msgs_hold tab (MsgData F)" "c < MAX_NUM_OF_MSG_CODING_TYPES" "length name < MAX_NAME_LENGTH"
    and "length (tab c) < MAX_NUM_OF_MESSAGES"
  shows "\<exists>F'. add_msg code name (decimal c) F = Inr F' \<and> same_automata F F' \<and>
    msgs_hold (tab(c := tab c @ [(code, name)])) (MsgData F')"
proof -
  have c: "c < 2 ^ 31" "c < 5" using assms(2) by (simp_all add: MAX_NUM_OF_MSG_CODING_TYPES_def)
  then have u: "unat (of_int (atol (decimal c)) :: u16) = c" by (simp add: atol_decimal unat_of_nat_less)
  let ?D = "MsgData F ! c" and ?n = "length (tab c)"
  have D: "length (MsgData F) = MAX_NUM_OF_MSG_CODING_TYPES" "length (msgCode ?D) = MAX_NUM_OF_MESSAGES"
    "length (msgName ?D) = MAX_NUM_OF_MESSAGES" "unat (NumOfMsgs ?D) = ?n" "take ?n (zip (msgCode ?D) (msgName ?D)) = tab c"
    using assms(1,2) by (auto simp: msgs_hold_def Let_def)
  let ?D' = "\<lparr>msgName = (msgName ?D)[?n := name], msgCode = (msgCode ?D)[?n := code], NumOfMsgs = NumOfMsgs ?D + 1\<rparr>"
  have n: "?n < length (zip (msgCode ?D) (msgName ?D))" using assms(4) D(2,3) by simp
  have "zip (msgCode ?D') (msgName ?D') = (zip (msgCode ?D) (msgName ?D))[?n := (code, name)]"
    using D(2,3) by (simp add: update_zip)
  then have "take (Suc ?n) (zip (msgCode ?D') (msgName ?D')) = tab c @ [(code, name)]"
    using n D(5) by (simp add: take_Suc_conv_app_nth)
  moreover have "unat (NumOfMsgs ?D + 1) = Suc ?n"
    using D(4) assms(4) by (simp add: unat_word_ariths MAX_NUM_OF_MESSAGES_def)
  ultimately have "msgs_hold (tab(c := tab c @ [(code, name)])) ((MsgData F)[c := ?D'])"
    using assms(1) D by (auto simp: msgs_hold_def Let_def nth_list_update)
  then show ?thesis
    using assms(2-4) D(1-4) by (simp add: add_msg_def u Let_def copy_str_def longer_def same_automata_def)
qed

lemma codings_loop_ok:
  assumes "msgs_hold tab (MsgData F)" "length name < MAX_NAME_LENGTH" "cs \<noteq> []" "\<forall>c \<in> set cs. c < MAX_NUM_OF_MSG_CODING_TYPES"
    and "\<forall>c. length (tab c) + length (filter ((=) c) cs) \<le> MAX_NUM_OF_MESSAGES"
  shows "\<exists>F'. codings_loop code name (comma_sep cs) F = Inr F' \<and> same_automata F F' \<and>
    msgs_hold (\<lambda>c. tab c @ map (\<lambda>_. (code, name)) (filter ((=) c) cs)) (MsgData F')"
  using assms
proof (induction cs arbitrary: tab F rule: comma_sep.induct)
  case (2 c)
  have "str_cut 44 (decimal c) = None" by (simp add: str_cut_None)
  moreover have "length (tab c) < MAX_NUM_OF_MESSAGES" using spec [OF 2(5), of c] by simp
  moreover have "(\<lambda>x. tab x @ map (\<lambda>_. (code, name)) (filter ((=) x) [c])) = tab(c := tab c @ [(code, name)])" by auto
  ultimately show ?case using add_msg_ok [of tab F c name code] 2 by (simp add: codings_loop.simps)
next
  case (3 c c' cs)
  let ?tab = "tab(c := tab c @ [(code, name)])" and ?cs = "c' # cs"
  have "length (tab c) < MAX_NUM_OF_MESSAGES" using spec [OF 3(6), of c] by simp
  then obtain F1 where 1: "add_msg code name (decimal c) F = Inr F1" "same_automata F F1" "msgs_hold ?tab (MsgData F1)"
    using add_msg_ok [of tab F c name code] 3(2,3,5) by auto
  have "\<forall>x. length (?tab x) + length (filter ((=) x) ?cs) \<le> MAX_NUM_OF_MESSAGES"
  proof
    fix x
    show "length (?tab x) + length (filter ((=) x) ?cs) \<le> MAX_NUM_OF_MESSAGES"
      using spec [OF 3(6), of x] by (cases "x = c") (simp_all split: if_splits)
  qed
  from "3.IH" [OF 1(3) 3(3) _ _ this] 3(5) obtain F' where
    2: "codings_loop code name (comma_sep ?cs) F1 = Inr F'" "same_automata F1 F'"
      "msgs_hold (\<lambda>x. ?tab x @ map (\<lambda>_. (code, name)) (filter ((=) x) ?cs)) (MsgData F')" by auto
  have "(\<lambda>x. ?tab x @ map (\<lambda>_. (code, name)) (filter ((=) x) ?cs)) =
      (\<lambda>x. tab x @ map (\<lambda>_. (code, name)) (filter ((=) x) (c # ?cs)))" by auto
  moreover have "codings_loop code name (comma_sep (c # ?cs)) F = Inr F'"
    using 1(1) 2(1) by (subst codings_loop.simps) simp
  ultimately show ?case using 2(3) same_automata_trans [OF 1(2) 2(2)] by (intro exI [of _ F']) simp
qed simp

lemma read_msg_ok:
  assumes "msgs_hold tab (MsgData F)" "msg_entry_ok (code, name, cs)"
    and "\<forall>c. length (tab c) + length (filter ((=) c) cs) \<le> MAX_NUM_OF_MESSAGES"
  shows "\<exists>F'. read_msg (msg_text (code, name, cs)) F = Inr (hex_text code, F') \<and> same_automata F F' \<and>
    msgs_hold (\<lambda>c. tab c @ map (\<lambda>_. (code, name)) (filter ((=) c) cs)) (MsgData F')"
proof -
  have h: "44 \<notin> set (hex_text code)" "cut_space (hex_text code) = hex_text code"
    using hex_text_plain(1) by (auto simp: cut_space_def takeWhile_eq_all_conv)
  have n: "44 \<notin> set name" "length name < MAX_NAME_LENGTH" "cs \<noteq> []" "\<forall>c \<in> set cs. c < MAX_NUM_OF_MSG_CODING_TYPES"
    using assms(2) by simp_all
  from codings_loop_ok [OF assms(1) n(2-4) assms(3), of code] h n(1) show ?thesis
    by (auto simp: read_msg_def ConvertToBin_hex)
qed

lemma messages_ok:
  assumes "msgs_hold tab (MsgData F)" "\<forall>m \<in> set ms. msg_entry_ok m"
    and "\<forall>c. length (tab c) + length (coding_table ms c) \<le> MAX_NUM_OF_MESSAGES"
  shows "\<exists>F'. all_entries read_msg (map msg_text ms) F = Inr F' \<and> same_automata F F' \<and>
    msgs_hold (\<lambda>c. tab c @ coding_table ms c) (MsgData F')"
  using assms
proof (induction ms arbitrary: tab F)
  case Nil
  then show ?case by (simp add: coding_table_def)
next
  case (Cons m ms)
  obtain code name cs where m: "m = (code, name, cs)" by (cases m)
  let ?tab = "\<lambda>c. tab c @ map (\<lambda>_. (code, name)) (filter ((=) c) cs)"
  have l: "\<forall>c. length (tab c) + (length (filter ((=) c) cs) + length (coding_table ms c)) \<le> MAX_NUM_OF_MESSAGES"
    using Cons.prems(3) by (simp add: coding_table_def m)
  then have "\<forall>c. length (tab c) + length (filter ((=) c) cs) \<le> MAX_NUM_OF_MESSAGES" by (meson add_leE le_trans add_left_mono le_add1)
  from read_msg_ok [where code = code and name = name, OF Cons.prems(1) _ this] Cons.prems(2) obtain F1 where
    1: "read_msg (msg_text m) F = Inr (hex_text code, F1)" "same_automata F F1" "msgs_hold ?tab (MsgData F1)" by (auto simp: m)
  have "\<forall>c. length (?tab c) + length (coding_table ms c) \<le> MAX_NUM_OF_MESSAGES" using l by (simp add: ac_simps)
  from Cons.IH [OF 1(3) _ this] Cons.prems(2) obtain F' where
    2: "all_entries read_msg (map msg_text ms) F1 = Inr F'" "same_automata F1 F'"
      "msgs_hold (\<lambda>c. ?tab c @ coding_table ms c) (MsgData F')" by auto
  then show ?case using 1 same_automata_trans [OF 1(2) 2(2)] by (simp add: coding_table_def m)
qed

subsection \<open>Automata and timers\<close>

type_synonym timer_entry = "(nat \<times> nat) \<times> u8 list"

fun timer_text :: "timer_entry \<Rightarrow> u8 list" where
  "timer_text ((a, k), name) = decimal a @ 44 # decimal k @ 44 # name"

fun timer_entry_ok :: "timer_entry \<Rightarrow> bool" where
  "timer_entry_ok ((a, k), name) \<longleftrightarrow> a < MAX_NUM_OF_AUTOMATE_TYPES \<and> k < MAX_NUM_OF_TIMERS \<and> length name < MAX_NAME_LENGTH"

text \<open>The last entry counts.\<close>

definition timer_table :: "timer_entry list \<Rightarrow> nat \<times> nat \<Rightarrow> u8 list" where
  "timer_table ts ak = (case map_of (rev ts) ak of None \<Rightarrow> [] | Some name \<Rightarrow> name)"

definition automata_hold :: "(nat \<Rightarrow> u8 list) \<Rightarrow> (nat \<times> nat \<Rightarrow> u8 list) \<Rightarrow> automate_data list \<Rightarrow> bool" where
  "automata_hold nm tm Ds \<longleftrightarrow> length Ds = MAX_NUM_OF_AUTOMATE_TYPES \<and> (\<forall>i < MAX_NUM_OF_AUTOMATE_TYPES.
     automateName (Ds ! i) = nm i \<and> length (timerName (Ds ! i)) = MAX_NUM_OF_TIMERS \<and>
     (\<forall>k < MAX_NUM_OF_TIMERS. timerName (Ds ! i) ! k = tm (i, k)))"

lemma automate_names_ok:
  assumes "automata_hold old tm (AutomateData F)"
    and "\<forall>i \<in> set is. i < MAX_NUM_OF_AUTOMATE_TYPES \<and> ini (str ''AUTOMATES'') (decimal i) (str ''UNKNOWN'') = nm i \<and>
      length (nm i) < MAX_NAME_LENGTH"
  shows "\<exists>F'. automate_names ini is F = Inr F' \<and> automata_hold (\<lambda>i. if i \<in> set is then nm i else old i) tm (AutomateData F') \<and>
    MsgData F' = MsgData F"
  using assms
proof (induction "is" arbitrary: F old)
  case Nil
  then show ?case by simp
next
  case (Cons i "is")
  let ?F = "longer (nm i) (F\<lparr>AutomateData := (AutomateData F)[i := (AutomateData F ! i)\<lparr>automateName := nm i\<rparr>]\<rparr>)"
  have "automata_hold (old(i := nm i)) tm (AutomateData ?F)"
    using Cons.prems by (auto simp: automata_hold_def longer_def nth_list_update)
  from Cons.IH [OF this] Cons.prems(2) obtain F' where
    F': "automate_names ini is ?F = Inr F'" "MsgData F' = MsgData F"
      "automata_hold (\<lambda>j. if j \<in> set is then nm j else (old(i := nm i)) j) tm (AutomateData F')"
    by (auto simp: longer_def)
  have "(\<lambda>j. if j \<in> set is then nm j else (old(i := nm i)) j) = (\<lambda>j. if j \<in> set (i # is) then nm j else old j)" by auto
  moreover have "ini_string 300 ini (str ''AUTOMATES'') (decimal i) (str ''UNKNOWN'') = nm i"
    using Cons.prems(2) by (simp add: MAX_NAME_LENGTH_def)
  ultimately show ?case using F' Cons.prems(2) by (simp add: copy_str_def Let_def)
qed

lemma read_timer_ok:
  assumes "automata_hold nm tm (AutomateData F)" "timer_entry_ok ((a, k), name)"
  shows "\<exists>F'. read_timer (timer_text ((a, k), name)) F = Inr (decimal a, F') \<and>
    automata_hold nm (tm((a, k) := name)) (AutomateData F') \<and> MsgData F' = MsgData F"
proof -
  have b: "a < 50" "k < 20" "length name < MAX_NAME_LENGTH"
    using assms(2) by (simp_all add: MAX_NUM_OF_AUTOMATE_TYPES_def MAX_NUM_OF_TIMERS_def)
  then have u: "unat (of_int (atol (decimal a)) :: u16) = a" "unat (of_int (atol (decimal k)) :: u16) = k"
    by (simp_all add: atol_decimal unat_of_nat_less)
  let ?D = "(AutomateData F)[a := (AutomateData F ! a)\<lparr>timerName := (timerName (AutomateData F ! a))[k := name]\<rparr>]"
  have "automata_hold nm (tm((a, k) := name)) ?D"
    using assms by (auto simp: automata_hold_def nth_list_update)
  then show ?thesis
    using assms b(3) by (simp add: read_timer_def u Let_def copy_str_def automata_hold_def)
qed

lemma timers_ok:
  assumes "automata_hold nm tm (AutomateData F)" "\<forall>t \<in> set ts. timer_entry_ok t"
  shows "\<exists>F'. all_entries read_timer (map timer_text ts) F = Inr F' \<and> MsgData F' = MsgData F \<and>
    automata_hold nm (\<lambda>ak. case map_of (rev ts) ak of None \<Rightarrow> tm ak | Some name \<Rightarrow> name) (AutomateData F')"
  using assms
proof (induction ts arbitrary: F tm)
  case Nil
  then show ?case by simp
next
  case (Cons t ts)
  obtain a k name where t: "t = ((a, k), name)" by (cases t) auto
  from read_timer_ok [where name = name and a = a and k = k, OF Cons.prems(1)] Cons.prems(2) obtain F1 where
    1: "read_timer (timer_text t) F = Inr (decimal a, F1)" "automata_hold nm (tm((a, k) := name)) (AutomateData F1)"
      "MsgData F1 = MsgData F" by (auto simp: t)
  have "(\<lambda>ak. case map_of (rev ts) ak of None \<Rightarrow> (tm((a, k) := name)) ak | Some n \<Rightarrow> n) =
      (\<lambda>ak. case map_of (rev (t # ts)) ak of None \<Rightarrow> tm ak | Some n \<Rightarrow> n)"
    by (auto simp: t map_add_def split: option.splits)
  with Cons.IH [OF 1(2)] Cons.prems(2) 1 show ?case by auto
qed

subsection \<open>The whole file\<close>

text \<open>What the constructor reads from the file \<open>ini\<close>.\<close>

definition log_file_lists :: "profile \<Rightarrow> (nat \<Rightarrow> u8 list) \<Rightarrow> msg_entry list \<Rightarrow> timer_entry list \<Rightarrow> bool" where
  "log_file_lists ini nm ms ts \<longleftrightarrow>
     (\<forall>i < MAX_NUM_OF_AUTOMATE_TYPES. ini (str ''AUTOMATES'') (decimal i) (str ''UNKNOWN'') = nm i \<and> length (nm i) < MAX_NAME_LENGTH) \<and>
     section_holds ini (str ''MESSAGES'') 0 (map msg_text ms) \<and> (\<forall>m \<in> set ms. msg_entry_ok m) \<and>
     (\<forall>c. length (coding_table ms c) \<le> MAX_NUM_OF_MESSAGES) \<and>
     section_holds ini (str ''TIMERS'') 0 (map timer_text ts) \<and> (\<forall>t \<in> set ts. timer_entry_ok t)"

lemma read_msg_data: "x \<in> msg_text ` set ms \<Longrightarrow> read_msg x F = Inr (d, F') \<Longrightarrow> d \<noteq> str ''END''"
proof -
  assume "x \<in> msg_text ` set ms" and r: "read_msg x F = Inr (d, F')"
  then obtain code name cs where x: "x = hex_text code @ 44 # name @ 44 # comma_sep cs" by auto
  have c: "cut_at 44 x = Inr (hex_text code, name @ 44 # comma_sep cs)"
    unfolding x using hex_text_plain(1) [of 44 code] by simp
  obtain t where t: "hex_text code = 48 # 120 # t" using hex_text_plain(2) by blast
  have "d = cut_space (hex_text code)" using r c by (auto simp: read_msg_def bindR_eq_Inr)
  then show "d \<noteq> str ''END''" unfolding t by (intro starts_no_END [of _ 48]) (simp_all add: cut_space_def)
qed

lemma read_timer_data: "x \<in> timer_text ` set ts \<Longrightarrow> read_timer x F = Inr (d, F') \<Longrightarrow> d \<noteq> str ''END''"
proof -
  assume "x \<in> timer_text ` set ts" and r: "read_timer x F = Inr (d, F')"
  then obtain a k name where x: "x = decimal a @ 44 # decimal k @ 44 # name" by auto
  have "cut_at 44 x = Inr (decimal a, decimal k @ 44 # name)" unfolding x by simp
  then have "d = decimal a"
    using r by (auto simp: read_timer_def bindR_eq_Inr Let_def copy_str_def split: if_splits)
  then show "d \<noteq> str ''END''" using decimal_no_END(1) by simp
qed

lemma empty_names_hold:
  "automata_hold (\<lambda>_. []) (\<lambda>_. []) (AutomateData (empty_names f g))" "msgs_hold (\<lambda>_. []) (MsgData (empty_names f g))"
  by (simp_all add: empty_names_def automata_hold_def msgs_hold_def Let_def)

lemma ReadIniFile_ok:
  assumes "log_file_lists ini nm ms ts" "length ms < fuel" "length ts < fuel"
  shows "\<exists>F'. ReadIniFile fuel ini (empty_names f g) = Inr F' \<and> automata_hold nm (timer_table ts) (AutomateData F') \<and>
    msgs_hold (coding_table ms) (MsgData F')"
proof -
  note A = assms(1) [unfolded log_file_lists_def]
  from automate_names_ok [OF empty_names_hold(1), of "[0 ..< MAX_NUM_OF_AUTOMATE_TYPES]" ini nm f g] A obtain F1 where
    1: "automate_names ini [0 ..< MAX_NUM_OF_AUTOMATE_TYPES] (empty_names f g) = Inr F1" "MsgData F1 = MsgData (empty_names f g)"
      "automata_hold (\<lambda>i. if i \<in> set [0 ..< MAX_NUM_OF_AUTOMATE_TYPES] then nm i else []) (\<lambda>_. []) (AutomateData F1)" by auto
  have h1: "automata_hold nm (\<lambda>_. []) (AutomateData F1)" using 1(3) by (simp add: automata_hold_def)
  have "\<forall>c. length [] + length (coding_table ms c) \<le> MAX_NUM_OF_MESSAGES" using A by simp
  with messages_ok [of "\<lambda>_. []" F1 ms] 1(2) empty_names_hold(2) [of f g] A obtain F2 where
    2: "all_entries read_msg (map msg_text ms) F1 = Inr F2" "same_automata F1 F2" "msgs_hold (coding_table ms) (MsgData F2)"
    by auto
  have r2: "read_keys read_msg ini (str ''MESSAGES'') fuel F1 = Inr F2"
    using read_keys_list [of ini _ "map msg_text ms" fuel read_msg F1] read_msg_data [of _ ms] A assms(2) 2(1) by auto
  have "automata_hold nm (\<lambda>_. []) (AutomateData F2)" using h1 2(2) by (simp add: same_automata_def)
  from timers_ok [OF this, of ts] A obtain F3 where
    3: "all_entries read_timer (map timer_text ts) F2 = Inr F3" "MsgData F3 = MsgData F2"
      "automata_hold nm (\<lambda>ak. case map_of (rev ts) ak of None \<Rightarrow> [] | Some name \<Rightarrow> name) (AutomateData F3)" by auto
  have r3: "read_keys read_timer ini (str ''TIMERS'') fuel F2 = Inr F3"
    using read_keys_list [of ini _ "map timer_text ts" fuel read_timer F2] read_timer_data [of _ ts] A assms(3) 3(1) by auto
  show ?thesis using 1(1) r2 r3 2(3) 3(2,3) by (simp add: ReadIniFile_def timer_table_def [abs_def])
qed

end
