(* ===== verification/LogRecords.thy ===== *)
theory LogRecords
  imports LogFile
begin

text \<open>
  Records of the log: the parameters that \<open>LogInterface\<close> adds lie behind each other in \<open>LogBuffer\<close>, each with
  its code and its length, and \<open>FindParam\<close> of \<open>LogFile\<close> finds the first one of a code.
\<close>

type_synonym log_param = "u8 \<times> u8 list"

fun tlv :: "log_param \<Rightarrow> u8 list" where
  "tlv (c, bs) = c # of_nat (length bs) # bs"

definition tlvs :: "log_param list \<Rightarrow> u8 list" where
  "tlvs ps = concat (map tlv ps)"

lemma tlvs_simps [simp]: "tlvs [] = []" "tlvs (p # ps) = tlv p @ tlvs ps" "tlvs (ps @ qs) = tlvs ps @ tlvs qs"
  by (simp_all add: tlvs_def)

text \<open>The first four bytes of a record: its code and its length.\<close>

definition rec_header :: "u16 \<Rightarrow> u16 \<Rightarrow> u8 list" where
  "rec_header code n = SetUint16 (SetUint16 [0, 0, 0, 0] 0 code) 2 n"

lemma rec_header_simps [simp]: "length (rec_header code n) = 4"
  "GetUint16 (rec_header code n @ xs) 2 = n" "SetUint16 (rec_header code n @ xs) 2 v = rec_header code v @ xs"
proof -
  have l: "length (rec_header code n) = 4" by (simp add: rec_header_def)
  then show "length (rec_header code n) = 4" .
  have "GetUint16 (rec_header code n) 2 = n" by (simp add: rec_header_def mem_simps)
  then show "GetUint16 (rec_header code n @ xs) 2 = n" using l by (simp add: GetUint16_def nth_append)
  have "SetUint16 (rec_header code n) 2 v = rec_header code v" by (simp add: rec_header_def SetUint16_def)
  then show "SetUint16 (rec_header code n @ xs) 2 v = rec_header code v @ xs"
    using l by (simp add: SetUint16_def list_update_append)
qed

text \<open>The buffer holds a record with the parameters \<open>ps\<close>.\<close>

definition holds :: "u16 \<Rightarrow> log_param list \<Rightarrow> log_if \<Rightarrow> bool" where
  "holds code ps L \<longleftrightarrow> length (LogBuffer L) = LOG_BUFFER_SIZE \<and> (\<forall>(c, bs) \<in> set ps. length bs < 256) \<and>
     unat (ParamOffset L) = 4 + length (tlvs ps) \<and>
     (\<exists>r. LogBuffer L = rec_header code (ParamOffset L) @ tlvs ps @ r)"

subsection \<open>Adding\<close>

lemma put_bytes_append: "put_bytes (xs @ ys) L = bindR (put_bytes xs L) (\<lambda>(_, L). put_bytes ys L)"
  by (induction xs arbitrary: L) auto

lemma put_bytes_eq:
  assumes "unat (ParamOffset L) = length xs" "LogBuffer L = xs @ old @ ys" "length old = length bs" "length (LogBuffer L) < 65536"
  shows "put_bytes bs L = Inr ((), L\<lparr>LogBuffer := xs @ bs @ ys, ParamOffset := ParamOffset L + of_nat (length bs)\<rparr>)"
  using assms
proof (induction bs arbitrary: L xs old)
  case Nil
  then have "LogBuffer L = xs @ ys" by simp
  then show ?case by (cases L) simp
next
  case (Cons b bs)
  then obtain o1 old' where old: "old = o1 # old'" "length old' = length bs" by (cases old) auto
  let ?L = "L\<lparr>LogBuffer := (LogBuffer L)[unat (ParamOffset L) := b], ParamOffset := ParamOffset L + 1\<rparr>"
  have n: "length xs + 1 < 65536" using Cons.prems(2,4) old by simp
  have "unat (ParamOffset ?L) = length (xs @ [b])"
    using Cons.prems(1) n by (simp add: unat_word_ariths)
  moreover have "LogBuffer ?L = (xs @ [b]) @ old' @ ys" using Cons.prems(1,2) old by (simp add: list_update_append)
  moreover have "length (LogBuffer ?L) < 65536" using Cons.prems(4) by simp
  ultimately have "put_bytes bs ?L = Inr ((), ?L\<lparr>LogBuffer := (xs @ [b]) @ bs @ ys, ParamOffset := ParamOffset ?L + of_nat (length bs)\<rparr>)"
    using Cons.IH [OF _ _ old(2), of ?L "xs @ [b]"] by blast
  then show ?case using Cons.prems(1,2) old by (simp add: ac_simps)
qed

text \<open>Every function that adds a parameter appends its bytes and adds their number to the length.\<close>

definition put_param :: "log_param \<Rightarrow> (log_if, unit) op" where
  "put_param p = run [put_bytes (tlv p), add_length (of_nat (length (tlv p)))]"

lemma AddParam_put:
  "li_AddParamByte c b = put_param (c, [b])"
  "li_AddParamWord c w = put_param (c, SetUint16 [0, 0] 0 w)"
  "li_AddParamDWord c d = put_param (c, SetUint32 [0, 0, 0, 0] 0 d)"
  "bs \<noteq> [] \<Longrightarrow> length bs < 256 \<Longrightarrow> li_AddParam nd c (of_nat (length bs)) bs = put_param (c, bs)"
proof -
  show "li_AddParamByte c b = put_param (c, [b])"
    by (simp add: li_AddParamByte_def put_param_def)
  show "li_AddParamWord c w = put_param (c, SetUint16 [0, 0] 0 w)"
    using put_bytes_append [of "[c, 2]" "SetUint16 [0, 0] 0 w"]
    by (intro ext) (simp add: li_AddParamWord_def put_param_def bindR_assoc case_prod_beta' del: put_bytes.simps)
  show "li_AddParamDWord c d = put_param (c, SetUint32 [0, 0, 0, 0] 0 d)"
    using put_bytes_append [of "[c, 4]" "SetUint32 [0, 0, 0, 0] 0 d"]
    by (intro ext) (simp add: li_AddParamDWord_def put_param_def bindR_assoc case_prod_beta' del: put_bytes.simps)
  assume a: "bs \<noteq> []" "length bs < 256"
  then have u: "unat (of_nat (length bs) :: u8) = length bs" by (intro unat_of_nat_less) simp
  then have "(of_nat (length bs) :: u8) \<noteq> 0" using a(1) by (metis length_0_conv unat_0)
  moreover have "ucast (of_nat (length bs) :: u8) + 2 = (of_nat (length (tlv (c, bs))) :: u16)"
  proof -
    have "ucast (of_nat (length bs) :: u8) = (of_nat (unat (of_nat (length bs) :: u8)) :: u16)" by simp
    then show ?thesis unfolding u by simp
  qed
  ultimately show "li_AddParam nd c (of_nat (length bs)) bs = put_param (c, bs)"
    using put_bytes_append [of "[c, of_nat (length bs)]" bs] u
    by (intro ext) (simp add: li_AddParam_def put_param_def bindR_assoc case_prod_beta' src_bytes_def add.commute [of 2]
        del: put_bytes.simps)
qed

lemma put_param_holds:
  assumes "holds code ps L" "4 + length (tlvs (ps @ [p])) \<le> LOG_BUFFER_SIZE" "length (snd p) < 256"
  shows "\<exists>L'. put_param p L = Inr ((), L') \<and> holds code (ps @ [p]) L' \<and> ComputerId L' = ComputerId L"
proof -
  obtain r where b: "LogBuffer L = rec_header code (ParamOffset L) @ tlvs ps @ r" and
    L: "length (LogBuffer L) = LOG_BUFFER_SIZE" "\<forall>(c, bs) \<in> set ps. length bs < 256" "unat (ParamOffset L) = 4 + length (tlvs ps)"
    using assms(1) by (auto simp: holds_def)
  let ?h = "rec_header code (ParamOffset L)"
  have r: "length (tlv p) \<le> length r" using assms(2) b L(1) by (simp add: LOG_BUFFER_SIZE_def)
  let ?old = "take (length (tlv p)) r" and ?ys = "drop (length (tlv p)) r"
  have "unat (ParamOffset L) = length (?h @ tlvs ps)" "LogBuffer L = (?h @ tlvs ps) @ ?old @ ?ys" "length ?old = length (tlv p)"
    "length (LogBuffer L) < 65536" using b L r by (simp_all add: LOG_BUFFER_SIZE_def)
  note P = put_bytes_eq [OF this]
  let ?o = "ParamOffset L + of_nat (length (tlv p))"
  have "4 + length (tlvs ps) + length (tlv p) < 65536" using assms(2) by (simp add: LOG_BUFFER_SIZE_def)
  then have o: "unat ?o = 4 + length (tlvs (ps @ [p]))"
    using L(3) by (simp add: unat_word_ariths unat_of_nat_less)
  have l: "length (rec_header code ?o @ tlvs ps @ tlv p @ ?ys) = LOG_BUFFER_SIZE" using b L(1) r by simp
  let ?L = "L\<lparr>LogBuffer := rec_header code ?o @ tlvs ps @ tlv p @ ?ys, ParamOffset := ?o\<rparr>"
  have "put_param p L = Inr ((), ?L)"
    using P by (simp add: put_param_def add_length_def li_SetMsgInfoLength_def li_GetNewMsgInfoLength_def)
  moreover have "holds code (ps @ [p]) ?L"
    unfolding holds_def using o l L(2) assms(3) by (intro conjI exI [of _ ?ys]) (auto split: prod.splits)
  ultimately show ?thesis by (intro exI [of _ ?L]) simp
qed

fun param_ops :: "bool \<Rightarrow> log_param list \<Rightarrow> (log_if, unit) op list" where
  "param_ops nd [] = []"
| "param_ops nd ((c, bs) # ps) = li_AddParam nd c (of_nat (length bs)) bs # param_ops nd ps"

lemma param_ops_holds:
  assumes "holds code qs L" "4 + length (tlvs (qs @ ps)) \<le> LOG_BUFFER_SIZE" "\<forall>(c, bs) \<in> set ps. bs \<noteq> [] \<and> length bs < 256"
  shows "\<exists>L'. run (param_ops nd ps) L = Inr ((), L') \<and> holds code (qs @ ps) L'"
  using assms
proof (induction ps arbitrary: qs L)
  case Nil
  then show ?case by simp
next
  case (Cons p ps)
  obtain c bs where p: "p = (c, bs)" by (cases p)
  have "4 + length (tlvs (qs @ [p])) \<le> LOG_BUFFER_SIZE" using Cons.prems(2) by simp
  from put_param_holds [OF Cons.prems(1) this] Cons.prems(3) obtain L' where
    L': "put_param p L = Inr ((), L')" "holds code (qs @ [p]) L'" by (auto simp: p)
  from Cons.IH [OF L'(2)] Cons.prems(2,3) obtain L'' where
    "run (param_ops nd ps) L' = Inr ((), L'')" "holds code (qs @ p # ps) L''" by auto
  then show ?case using L'(1) Cons.prems(3) AddParam_put(4) [of bs nd c] by (auto simp: p)
qed

definition record_header :: "u32 \<Rightarrow> u8 \<Rightarrow> u8 \<Rightarrow> u32 \<Rightarrow> log_param list" where
  "record_header ltime cid au obj = [(LOG_PARAM_TIME, SetUint32 [0, 0, 0, 0] 0 ltime), (LOG_PARAM_COMPUTER_ID, [cid]),
     (LOG_PARAM_AUTOMATE, [au]), (LOG_PARAM_OBJECT_ID, SetUint32 [0, 0, 0, 0] 0 obj)]"

lemma PrepareNewRecord_holds:
  assumes "length (LogBuffer L) = LOG_BUFFER_SIZE"
  shows "\<exists>L'. li_PrepareNewRecord ltime code au obj L = Inr ((), L') \<and> holds code (record_header ltime (ComputerId L) au obj) L'"
proof -
  let ?L = "L\<lparr>ParamOffset := 4, LogBuffer := SetUint16 (SetUint16 (LogBuffer L) 0 code) 2 4\<rparr>"
  let ?t = "(LOG_PARAM_TIME, SetUint32 [0, 0, 0, 0] 0 ltime)" and ?c = "(LOG_PARAM_COMPUTER_ID, [ComputerId L])" and
    ?a = "(LOG_PARAM_AUTOMATE, [au])" and ?o = "(LOG_PARAM_OBJECT_ID, SetUint32 [0, 0, 0, 0] 0 obj)"
  let ?h = "take 4 (LogBuffer L)" and ?r = "drop 4 (LogBuffer L)"
  have "length ?h = 4" using assms by (simp add: LOG_BUFFER_SIZE_def)
  moreover have "length h = 4 \<Longrightarrow> \<exists>b0 b1 b2 b3. h = [b0, b1, b2, b3]" for h :: "u8 list"
    by (auto simp: numeral_eq_Suc length_Suc_conv)
  ultimately obtain b0 b1 b2 b3 where "?h = [b0, b1, b2, b3]" by blast
  then have "LogBuffer L = b0 # b1 # b2 # b3 # ?r" by (metis append_take_drop_id append_Cons append_Nil)
  then obtain r where r: "LogBuffer L = b0 # b1 # b2 # b3 # r" by blast
  then have "4 + length r = LOG_BUFFER_SIZE" using assms by simp
  moreover have "LogBuffer ?L = rec_header code 4 @ r" using r by (simp add: SetUint16_def rec_header_def)
  ultimately have 0: "holds code [] ?L" by (simp add: holds_def)
  have l: "4 + length (tlvs ([] @ [?t])) \<le> LOG_BUFFER_SIZE" "4 + length (tlvs ([?t] @ [?c])) \<le> LOG_BUFFER_SIZE"
    "4 + length (tlvs ([?t, ?c] @ [?a])) \<le> LOG_BUFFER_SIZE" "4 + length (tlvs ([?t, ?c, ?a] @ [?o])) \<le> LOG_BUFFER_SIZE"
    by (simp_all add: LOG_BUFFER_SIZE_def)
  from put_param_holds [OF 0 l(1)] obtain L1 where
    1: "put_param ?t ?L = Inr ((), L1)" "holds code [?t] L1" "ComputerId L1 = ComputerId L" by auto
  from put_param_holds [OF 1(2) l(2)] obtain L2 where
    2: "put_param ?c L1 = Inr ((), L2)" "holds code [?t, ?c] L2" by auto
  from put_param_holds [OF 2(2) l(3)] obtain L3 where 3: "put_param ?a L2 = Inr ((), L3)" "holds code [?t, ?c, ?a] L3" by auto
  from put_param_holds [OF 3(2) l(4)] obtain L4 where 4: "put_param ?o L3 = Inr ((), L4)" "holds code [?t, ?c, ?a, ?o] L4" by auto
  show ?thesis
    using 1(1,3) 2(1) 3(1) 4
    by (simp add: li_PrepareNewRecord_def li_SetMsgLogCode_def li_SetMsgInfoLength_def AddParam_put record_header_def)
qed

subsection \<open>Finding\<close>

text \<open>The search ends for every content of the buffer.\<close>

lemma find_log_param_ends:
  assumes "length (LogBuffer L) \<le> LOG_BUFFER_SIZE" "0 < fuel" "length (LogBuffer L) < unat pos + 2 * fuel"
  shows "find_log_param fuel c pos L \<noteq> Inl NoFuel"
  using assms(2,3)
proof (induction fuel arbitrary: pos)
  case (Suc fuel)
  let ?q = "pos + (ucast (LogBuffer L ! (unat pos + 1)) + 2)"
  have "find_log_param fuel c ?q L \<noteq> Inl NoFuel" if "unat pos + 1 < length (LogBuffer L)"
  proof -
    have "unat pos + 257 < 65536" using that assms(1) by (simp add: LOG_BUFFER_SIZE_def)
    moreover have "unat (ucast (LogBuffer L ! (unat pos + 1)) + 2 :: u16) = unat (LogBuffer L ! (unat pos + 1)) + 2"
      "unat (LogBuffer L ! (unat pos + 1)) < 256"
      using unsigned_less [of "LogBuffer L ! (unat pos + 1)", where ?'a = nat]
      by (simp_all add: unat_word_ariths unsigned_ucast_eq take_bit_nat_eq_self)
    ultimately have "unat ?q = unat pos + unat (LogBuffer L ! (unat pos + 1)) + 2" by (simp add: unat_word_ariths)
    then show ?thesis using that Suc.prems by (intro Suc.IH) auto
  qed
  then show ?case by simp
qed simp

lemma find_log_param_at:
  assumes "LogBuffer L = xs @ tlvs ps @ r" "unat pos = length xs" "unat (ParamOffset L) = length xs + length (tlvs ps)"
    and "length (LogBuffer L) \<le> LOG_BUFFER_SIZE" "\<forall>(c, bs) \<in> set ps. length bs < 256" "length ps < fuel"
  shows "case map_of ps c of None \<Rightarrow> find_log_param fuel c pos L = Inr None
    | Some bs \<Rightarrow> \<exists>i. find_log_param fuel c pos L = Inr (Some i) \<and> take (length bs + 2) (drop i (LogBuffer L)) = tlv (c, bs)"
  using assms(1-3,5,6)
proof (induction ps arbitrary: xs pos fuel)
  case Nil
  then obtain n where "fuel = Suc n" by (cases fuel) auto
  then show ?case using Nil by (simp add: word_less_nat_alt)
next
  case (Cons p ps)
  obtain c' bs where p: "p = (c', bs)" by (cases p)
  obtain n where n: "fuel = Suc n" "length ps < n" using Cons.prems(5) by (cases fuel) auto
  have lt: "pos < ParamOffset L" "unat pos < length (LogBuffer L)" "LogBuffer L ! unat pos = c'"
    using Cons.prems(1-3) by (simp_all add: word_less_nat_alt p)
  show ?case
  proof (cases "c' = c")
    case True
    then show ?thesis using lt n Cons.prems(1,2) by (auto simp: p)
  next
    case False
    have b: "length bs < 256" using Cons.prems(4) by (simp add: p)
    have l: "unat pos + 1 < length (LogBuffer L)" "LogBuffer L ! (unat pos + 1) = of_nat (length bs)"
      using Cons.prems(1,2) by (simp_all add: p nth_append)
    have le: "length xs + 2 + length bs \<le> 8192"
      using Cons.prems(1) assms(4) by (simp add: p LOG_BUFFER_SIZE_def)
    have "unat (ucast (of_nat (length bs) :: u8) + 2 :: u16) = length bs + 2"
      using b by (simp add: unat_word_ariths unsigned_ucast_eq take_bit_nat_eq_self unat_of_nat_less)
    then have q: "unat (pos + (ucast (LogBuffer L ! (unat pos + 1)) + 2)) = length (xs @ tlv p)"
      using l(2) Cons.prems(2) le by (simp add: unat_word_ariths p)
    have s: "find_log_param fuel c pos L = find_log_param n c (pos + (ucast (LogBuffer L ! (unat pos + 1)) + 2)) L"
      using lt l False n by simp
    have m: "map_of (p # ps) c = map_of ps c" using False by (simp add: p)
    show ?thesis
      unfolding s m using Cons.prems(1,3,4) by (intro Cons.IH [OF _ q _ _ n(2)]) simp_all
  qed
qed

lemma length_tlvs: "2 * length ps \<le> length (tlvs ps)"
  by (induction ps) auto

lemma FindParam_holds:
  assumes "holds code ps L"
  shows "case map_of ps c of None \<Rightarrow> lf_FindParam c L = Inr None
    | Some bs \<Rightarrow> \<exists>i. lf_FindParam c L = Inr (Some i) \<and> take (length bs + 2) (drop i (LogBuffer L)) = tlv (c, bs)"
proof -
  obtain h r where b: "length h = 4" "LogBuffer L = h @ tlvs ps @ r" and
    L: "length (LogBuffer L) = LOG_BUFFER_SIZE" "\<forall>(c, bs) \<in> set ps. length bs < 256" "unat (ParamOffset L) = 4 + length (tlvs ps)"
    using assms unfolding holds_def by (metis rec_header_simps(1))
  have "length (tlvs ps) \<le> LOG_BUFFER_SIZE" using b L(1) by simp
  then have "length ps < LOG_BUFFER_SIZE" using length_tlvs [of ps] by (simp add: LOG_BUFFER_SIZE_def)
  then show ?thesis
    unfolding lf_FindParam_def using b L by (intro find_log_param_at [of L h ps r]) auto
qed

end
