(* ===== verification/LogProps.thy ===== *)
theory LogProps
  imports LogNames LogRecords
begin

text \<open>
  The properties of \<open>LogFile\<close> and of the records that \<open>LogInterface\<close> builds for it.
\<close>

subsection \<open>A concrete configuration\<close>






subsection \<open>The properties\<close>



text \<open>C33: What is added to a record of the log is found in it.  After \<open>PrepareNewRecord\<close> and the calls of
  \<open>AddParam\<close> that fit into the buffer, \<open>FindParam\<close> returns for every code the first parameter with this
  code, its length and its bytes behind it, and the null pointer when there is none.\<close>

theorem log_record_found:
  assumes "length (LogBuffer L) = LOG_BUFFER_SIZE" "\<forall>(c, bs) \<in> set ps. bs \<noteq> [] \<and> length bs < 256"
    and "hs = record_header ltime (ComputerId L) au obj" "4 + length (tlvs (hs @ ps)) \<le> LOG_BUFFER_SIZE"
  shows "\<exists>L'. run (li_PrepareNewRecord ltime code au obj # param_ops nd ps) L = Inr ((), L') \<and>
    (\<forall>c. case map_of (hs @ ps) c of
        None \<Rightarrow> lf_FindParam c L' = Inr None
      | Some bs \<Rightarrow> \<exists>i. lf_FindParam c L' = Inr (Some i) \<and> take (length bs + 2) (drop i (LogBuffer L')) = tlv (c, bs))"
proof -
  from PrepareNewRecord_holds [OF assms(1), of ltime code au obj] obtain L1 where
    1: "li_PrepareNewRecord ltime code au obj L = Inr ((), L1)" "holds code hs L1" unfolding assms(3) by blast
  from param_ops_holds [OF 1(2) assms(4,2), of nd] obtain L' where
    "run (param_ops nd ps) L1 = Inr ((), L')" "holds code (hs @ ps) L'" by blast
  moreover note FindParam_holds [OF this(2)]
  ultimately show ?thesis using 1(1) by (intro exI [of _ L'] conjI allI) (simp_all del: map_of_append)
qed

theorem log_record_found_witness:
  "\<exists>L' i. run (li_PrepareNewRecord 7 LOG_STRING 1 2 # param_ops True [(LOG_PARAM_STRING, [104, 105])]) (LogInterface []) = Inr ((), L') \<and>
    lf_FindParam LOG_PARAM_STRING L' = Inr (Some i) \<and> take 4 (drop i (LogBuffer L')) = [LOG_PARAM_STRING, 2, 104, 105]"
proof -
  have "length (LogBuffer (LogInterface [])) = LOG_BUFFER_SIZE" by (simp add: LogInterface_def)
  from log_record_found [OF this _ refl, of "[(LOG_PARAM_STRING, [104, 105])]" 7 1 2 LOG_STRING True] obtain L' where
    L': "run (li_PrepareNewRecord 7 LOG_STRING 1 2 # param_ops True [(LOG_PARAM_STRING, [104, 105])]) (LogInterface []) = Inr ((), L')"
      "case map_of (record_header 7 (ComputerId (LogInterface [])) 1 2 @ [(LOG_PARAM_STRING, [104, 105])]) LOG_PARAM_STRING of
        None \<Rightarrow> lf_FindParam LOG_PARAM_STRING L' = Inr None
      | Some bs \<Rightarrow> \<exists>i. lf_FindParam LOG_PARAM_STRING L' = Inr (Some i) \<and>
          take (length bs + 2) (drop i (LogBuffer L')) = tlv (LOG_PARAM_STRING, bs)"
    by (auto simp: record_header_def LOG_BUFFER_SIZE_def)
  have "map_of (record_header 7 (ComputerId (LogInterface [])) 1 2 @ [(LOG_PARAM_STRING, [104, 105])]) LOG_PARAM_STRING = Some [104, 105]"
    by (simp add: record_header_def LOG_PARAM_TIME_def LOG_PARAM_COMPUTER_ID_def LOG_PARAM_AUTOMATE_def LOG_PARAM_OBJECT_ID_def
        LOG_PARAM_STRING_def)
  with L' show ?thesis by (auto simp: eval_nat_numeral)
qed

text \<open>C35: The search for a parameter ends for every content of the buffer, however the lengths in it are
  chosen: it returns a parameter or the null pointer, unless it reads behind the end of the buffer.\<close>

theorem log_search_terminates:
  assumes "length (LogBuffer L) = LOG_BUFFER_SIZE"
  shows "lf_FindParam c L \<noteq> Inl NoFuel"
  using find_log_param_ends [of L LOG_BUFFER_SIZE 4 c] assms by (simp add: lf_FindParam_def LOG_BUFFER_SIZE_def)

theorem log_search_terminates_witness: "lf_FindParam LOG_PARAM_STRING (LogInterface []) \<noteq> Inl NoFuel"
  by (rule log_search_terminates) (simp add: LogInterface_def)

end
