(* ===== verification/UdpLog.thy ===== *)
theory UdpLog
  imports LogRecords
begin

text \<open>
  \<open>UdpLogInterface\<close> (\<open>src/Kernel/UdpLogInterface.h\<close>, \<open>UdpLogInterface.cpp\<close>): the log that sends every record as a
  datagram.  The state is the record that is built, with the datagrams that have been given to \<open>sendto\<close>.
\<close>

type_synonym udp_log = "log_if \<times> u8 list list"

definition RECEIVE_PORT :: u16 where "RECEIVE_PORT = 4321"

text \<open>What \<open>WSAStartup\<close>, \<open>socket\<close> and \<open>bind\<close> yield.\<close>

definition initUdp :: "bool \<Rightarrow> bool \<Rightarrow> bool \<Rightarrow> unit result" where
  "initUdp startup socket_ok bind_ok = checkC (\<not> startup) 0x01010200 (checkC (\<not> socket_ok) 0x01010200
     (checkC (\<not> bind_ok) 0x01010200 (Inr ())))"

definition UdpLogInterface :: "bool \<Rightarrow> bool \<Rightarrow> bool \<Rightarrow> u8 list \<Rightarrow> udp_log result" where
  "UdpLogInterface startup socket_ok bind_ok junk =
     bindR (initUdp startup socket_ok bind_ok) (\<lambda>_. Inr (LogInterface junk, []))"

text \<open>The buffer has 8192 bytes, of which the first 1024 are cleared.\<close>

definition udp_Write :: "(udp_log, unit) op" where
  "udp_Write = (\<lambda>(L, sent). let len = li_GetNewMsgInfoLength L in
     if length (LogBuffer L) \<le> unat len then Inl OutOfBounds
     else let L = L\<lparr>LogBuffer := (LogBuffer L)[unat len := 0]\<rparr> in
       bindR (li_SetMsgInfoLength (li_GetNewMsgInfoLength L + 1) L) (\<lambda>(_, L).
         if length (LogBuffer L) < unat len + 1 then Inl OutOfBounds
         else Inr ((), L\<lparr>LogBuffer := replicate 1024 0 @ drop 1024 (LogBuffer L), ParamOffset := 0\<rparr>,
           sent @ [take (unat len + 1) (LogBuffer L)])))"

text \<open>A function of \<open>LogInterface\<close>.\<close>

definition on_record :: "(log_if, unit) op \<Rightarrow> (udp_log, unit) op" where
  "on_record f = (\<lambda>(L, sent). bindR (f L) (\<lambda>(_, L). Inr ((), L, sent)))"

lemma run_on_record:
  "run fs L = Inr ((), L') \<Longrightarrow> run (map on_record fs @ gs) (L, sent) = run gs (L', sent)"
  by (induction fs arbitrary: L) (auto simp: on_record_def bindR_eq_Inr)

lemma udp_Write_holds:
  assumes "holds code ps L" "4 + length (tlvs ps) < LOG_BUFFER_SIZE"
  shows "\<exists>L'. udp_Write (L, sent) = Inr ((), L', sent @ [rec_header code (of_nat (5 + length (tlvs ps))) @ tlvs ps @ [0]]) \<and>
    length (LogBuffer L') = LOG_BUFFER_SIZE \<and> ComputerId L' = ComputerId L"
proof -
  obtain r where b: "LogBuffer L = rec_header code (ParamOffset L) @ tlvs ps @ r" and
    L: "length (LogBuffer L) = LOG_BUFFER_SIZE" "unat (ParamOffset L) = 4 + length (tlvs ps)"
    using assms(1) by (auto simp: holds_def)
  have l: "li_GetNewMsgInfoLength L = ParamOffset L" by (simp add: li_GetNewMsgInfoLength_def b)
  obtain x r' where r: "r = x # r'" using assms(2) L(1) unfolding b by (cases r) (auto simp: LOG_BUFFER_SIZE_def)
  let ?L1 = "L\<lparr>LogBuffer := rec_header code (ParamOffset L) @ tlvs ps @ 0 # r'\<rparr>"
  have w: "(LogBuffer L)[unat (ParamOffset L) := 0] = LogBuffer ?L1"
    unfolding b L(2) r by (simp add: list_update_append)
  have n: "ParamOffset L + 1 = of_nat (5 + length (tlvs ps))"
  proof -
    have "ParamOffset L = of_nat (unat (ParamOffset L))" by simp
    then show ?thesis unfolding L(2) by (simp add: add.assoc)
  qed
  have s: "li_SetMsgInfoLength (li_GetNewMsgInfoLength ?L1 + 1) ?L1 =
      Inr ((), ?L1\<lparr>LogBuffer := rec_header code (of_nat (5 + length (tlvs ps))) @ tlvs ps @ 0 # r'\<rparr>)"
    by (simp add: li_SetMsgInfoLength_def li_GetNewMsgInfoLength_def n)
  let ?L2 = "?L1\<lparr>LogBuffer := rec_header code (of_nat (5 + length (tlvs ps))) @ tlvs ps @ 0 # r'\<rparr>"
  have len: "length (LogBuffer ?L2) = LOG_BUFFER_SIZE" using L(1) by (simp add: b r)
  have nb: "\<not> length (LogBuffer L) \<le> unat (ParamOffset L)" "\<not> length (LogBuffer ?L2) < unat (ParamOffset L) + 1"
    using assms(2) L len by simp_all
  have t: "take (unat (ParamOffset L) + 1) (LogBuffer ?L2) = rec_header code (of_nat (5 + length (tlvs ps))) @ tlvs ps @ [0]"
    unfolding L(2) by simp
  have e: "udp_Write (L, sent) = Inr ((), ?L2\<lparr>LogBuffer := replicate 1024 0 @ drop 1024 (LogBuffer ?L2), ParamOffset := 0\<rparr>,
      sent @ [take (unat (ParamOffset L) + 1) (LogBuffer ?L2)])"
    unfolding udp_Write_def prod.case Let_def l if_not_P [OF nb(1)] w
    using s nb(2) by simp
  let ?L3 = "?L2\<lparr>LogBuffer := replicate 1024 0 @ drop 1024 (LogBuffer ?L2), ParamOffset := 0\<rparr>"
  have "length (replicate 1024 0 @ drop 1024 (LogBuffer ?L2)) = LOG_BUFFER_SIZE"
    unfolding length_append length_replicate length_drop len by (simp add: LOG_BUFFER_SIZE_def)
  then have "length (LogBuffer ?L3) = LOG_BUFFER_SIZE" "ComputerId ?L3 = ComputerId L" by simp_all
  with e [unfolded t] show ?thesis by blast
qed

end
