(* ===== verification/UdpLogProps.thy ===== *)
theory UdpLogProps
  imports UdpLog
begin

text \<open>
  What \<open>UdpLogInterface\<close> sends: each record, whole and in order, with a 0 behind it.
\<close>

text \<open>A record: its time, code, automaton, object and parameters; the functions that are called for it, and its bytes.\<close>

type_synonym log_record = "u32 \<times> u16 \<times> u8 \<times> u32 \<times> log_param list"

fun record_ops :: "bool \<Rightarrow> log_record \<Rightarrow> (udp_log, unit) op list" where
  "record_ops nd (ltime, code, au, obj, ps) = map on_record (li_PrepareNewRecord ltime code au obj # param_ops nd ps) @ [udp_Write]"

fun datagram :: "u8 \<Rightarrow> log_record \<Rightarrow> u8 list" where
  "datagram cid (ltime, code, au, obj, ps) = (let bs = tlvs (record_header ltime cid au obj @ ps) in
     rec_header code (of_nat (5 + length bs)) @ bs @ [0])"

fun record_ok :: "log_record \<Rightarrow> bool" where
  "record_ok (ltime, code, au, obj, ps) \<longleftrightarrow> (\<forall>(c, bs) \<in> set ps. bs \<noteq> [] \<and> length bs < 256) \<and>
     22 + length (tlvs ps) < LOG_BUFFER_SIZE"

text \<open>The number of the computer is only read.\<close>

lemma put_bytes_computer: "put_bytes bs L = Inr ((), L') \<Longrightarrow> ComputerId L' = ComputerId L"
  by (induction bs arbitrary: L) (auto split: if_splits)

lemma PrepareNewRecord_computer:
  "li_PrepareNewRecord ltime code au obj L = Inr ((), L') \<Longrightarrow> ComputerId L' = ComputerId L"
  by (auto simp: li_PrepareNewRecord_def AddParam_put put_param_def add_length_def li_SetMsgInfoLength_def
      li_SetMsgLogCode_def bindR_eq_Inr dest!: put_bytes_computer simp del: put_bytes.simps tlv.simps)

lemma param_ops_computer:
  "run (param_ops nd ps) L = Inr ((), L') \<Longrightarrow> ComputerId L' = ComputerId L"
proof (induction ps arbitrary: L)
  case (Cons p ps)
  then show ?case
    by (cases p) (auto simp: li_AddParam_def add_length_def li_SetMsgInfoLength_def src_bytes_def bindR_eq_Inr asserts_def
        assertC_def dest!: put_bytes_computer split: if_splits simp del: put_bytes.simps)
qed simp

lemma record_sent:
  assumes "length (LogBuffer L) = LOG_BUFFER_SIZE" "record_ok q"
  shows "\<exists>L'. run (record_ops nd q) (L, sent) = Inr ((), L', sent @ [datagram (ComputerId L) q]) \<and>
    length (LogBuffer L') = LOG_BUFFER_SIZE \<and> ComputerId L' = ComputerId L"
proof -
  obtain ltime code au obj ps where q: "q = (ltime, code, au, obj, ps)" by (cases q)
  let ?hs = "record_header ltime (ComputerId L) au obj"
  have len: "4 + length (tlvs (?hs @ ps)) < LOG_BUFFER_SIZE" using assms(2) by (simp add: q record_header_def)
  from PrepareNewRecord_holds [OF assms(1), of ltime code au obj] obtain L1 where
    1: "li_PrepareNewRecord ltime code au obj L = Inr ((), L1)" "holds code ?hs L1" by blast
  from param_ops_holds [OF 1(2), of ps nd] len assms(2) obtain L2 where
    2: "run (param_ops nd ps) L1 = Inr ((), L2)" "holds code (?hs @ ps) L2" by (auto simp: q)
  have cid: "ComputerId L2 = ComputerId L"
    using PrepareNewRecord_computer [OF 1(1)] param_ops_computer [OF 2(1)] by simp
  have "run (li_PrepareNewRecord ltime code au obj # param_ops nd ps) L = Inr ((), L2)" using 1(1) 2(1) by simp
  from run_on_record [OF this, of "[udp_Write]" sent] udp_Write_holds [OF 2(2) len, of sent] cid show ?thesis
    by (auto simp: q Let_def)
qed

text \<open>C34: The log over UDP sends every record whole.  Whatever records are built one after the other, each with the parameters
  that fit into the buffer, one datagram is sent for each of them, in their order: its code, its length with the 0 at
  the end, time, computer, automaton and object, the parameters as they were added, and a 0; nothing of an earlier
  record is left in a later one.\<close>

theorem log_records_sent:
  assumes "length (LogBuffer L) = LOG_BUFFER_SIZE" "\<forall>q \<in> set qs. record_ok q"
  shows "\<exists>L'. run (concat (map (record_ops nd) qs)) (L, sent) = Inr ((), L', sent @ map (datagram (ComputerId L)) qs)"
  using assms
proof (induction qs arbitrary: L sent)
  case Nil
  then show ?case by simp
next
  case (Cons q qs)
  from record_sent [OF Cons.prems(1), of q nd sent] Cons.prems(2) obtain L1 where
    1: "run (record_ops nd q) (L, sent) = Inr ((), L1, sent @ [datagram (ComputerId L) q])"
      "length (LogBuffer L1) = LOG_BUFFER_SIZE" "ComputerId L1 = ComputerId L" by auto
  from Cons.IH [OF 1(2), of "sent @ [datagram (ComputerId L) q]"] Cons.prems(2) 1(1,3) show ?case
    by (auto simp: run_append)
qed

theorem log_records_sent_witness:
  "\<exists>L'. run (concat (map (record_ops True) [(7, LOG_STRING, 1, 2, [(LOG_PARAM_STRING, [104, 105])]), (8, LOG_END, 1, 2, [])]))
      (LogInterface [], []) = Inr ((), L', [datagram INVALID_08 (7, LOG_STRING, 1, 2, [(LOG_PARAM_STRING, [104, 105])]),
        datagram INVALID_08 (8, LOG_END, 1, 2, [])])"
proof -
  have "length (LogBuffer (LogInterface [])) = LOG_BUFFER_SIZE" "ComputerId (LogInterface []) = INVALID_08"
    by (simp_all add: LogInterface_def)
  with log_records_sent [of "LogInterface []" "[(7, LOG_STRING, 1, 2, [(LOG_PARAM_STRING, [104, 105])]), (8, LOG_END, 1, 2, [])]" True "[]"]
  show ?thesis by (simp add: LOG_BUFFER_SIZE_def del: record_ops.simps datagram.simps)
qed

end
