(* ===== verification/Transport.thy ===== *)
theory Transport
  imports Fsm HandlerApi Sockets CStrings
begin

text \<open>
  \<open>TransportInterface\<close> and \<open>NetFSM\<close> (\<open>src/Kernel/TransportInterface.h\<close>, \<open>TransportInterface.cpp\<close>, \<open>NetFSM.h\<close>,
  \<open>NetFSM.cpp\<close>): automata that exchange messages over a TCP connection.  The record \<open>net_fsm\<close> holds the one
  connection of the automaton: the socket \<open>N_sock\<close>, to which both the automaton (\<open>N_open\<close>: its member
  \<open>client\<close> is not 0) and the object \<open>receivingSide\<close> of its receiving thread have a handle.  What the abstract
  functions of a protocol do is the record \<open>net_vtable\<close>.
\<close>

definition NET_MAX_LENGTH_MESSAGE :: nat where "NET_MAX_LENGTH_MESSAGE = 40960"

record 'p transport = "'p fsm" +
  T_port :: u16
  T_ip :: "u8 list"
  fsmMessageR :: "u8 list"
  protocolMessageR :: "u8 list"
  fsmMessageS :: "u8 list"
  protocolMessageS :: "u8 list"
  sendMsgLength :: u16
  fsmMessageSInfoLength :: u16
  fsmMessageSLength :: u16
  receivedMessageLength :: u16
  fsmMessageRLength :: u16
  currentMessageCode :: u16

type_synonym ('p, 'z, 'a) top = "(kernel \<times> ('p, 'z) transport_scheme, 'a) op"

definition TransportInterface :: "u8 \<Rightarrow> u8 \<Rightarrow> u16 \<Rightarrow> u16 \<Rightarrow> u16 \<Rightarrow> ('p, 'z, unit) top" where
  "TransportInterface automateId1 mbxId1 numOfTimers numOfState maxNumOfProceduresPerState =
     FiniteStateMachine automateId1 mbxId1 numOfTimers numOfState maxNumOfProceduresPerState True"

text \<open>\<open>ip\<close> points to 16 bytes.\<close>

definition setIP :: "u8 list \<Rightarrow> ('p, 'z, unit) top" where
  "setIP ipnew = (\<lambda>(K, A). copy_str 16 ipnew (\<lambda>s. Inr ((), K, A\<lparr>T_ip := s\<rparr>)))"

definition getIP :: "('p, 'z, u8 list) top" where
  "getIP = (\<lambda>(K, A). Inr (T_ip A, K, A))"

definition setPort :: "u16 \<Rightarrow> ('p, 'z, unit) top" where
  "setPort p = (\<lambda>(K, A). Inr ((), K, A\<lparr>T_port := p\<rparr>))"

subsection \<open>The state of \<open>NetFSM\<close>\<close>

text \<open>The object of the class \<open>Client\<close> that receives: its handle, buffers, and whether its thread is to end.\<close>

record tcp_client =
  R_open :: bool
  ptrBuffer :: "u8 list"
  currentState :: int
  currentMsgLength :: u16
  R_priv :: "u8 list"
  recvMsgLength :: u16
  R_send :: bool
  haveMore :: bool
  readFromNET :: bool
  R_end :: bool

record 'p net_fsm = "'p transport" +
  N_parameters :: "u8 list option"
  receivingSide :: "tcp_client option"
  N_open :: bool
  N_sock :: socket
  N_priv :: "u8 list"

type_synonym ('p, 'z, 'a) nop = "(kernel \<times> ('p, 'z) net_fsm_scheme, 'a) op"

record ('p, 'z) net_vtable =
  v_convertNetToFSM :: "('p, 'z, u16) nop"
  v_convertFSMToNet :: "('p, 'z, unit) nop"
  v_getProtocolInfoCoding :: u8
  v_NetError :: "('p, 'z, unit) nop"
  v_getTPKTLen :: nat
  v_getLenFromTPKT :: "u8 list \<Rightarrow> u32"

text \<open>Memory from \<open>new\<close>; \<open>junk\<close> is what it holds.\<close>

definition new_array :: "nat \<Rightarrow> u8 list \<Rightarrow> u8 list" where
  "new_array n junk = take n (junk @ replicate n 0)"

text \<open>A closed socket fails.\<close>

definition sock_recv :: "bool \<Rightarrow> nat \<Rightarrow> socket \<Rightarrow> u8 list option \<times> socket" where
  "sock_recv open n so = (if open \<and> \<not> so_closed so then recv n so else (None, so))"

definition sock_send :: "u8 list \<Rightarrow> socket \<Rightarrow> int \<times> socket" where
  "sock_send bs so = (if so_closed so then (-1, so) else send bs so)"

definition strlen :: "u8 list \<Rightarrow> nat result" where
  "strlen bs = (if 0 \<in> set bs then Inr (length (takeWhile (\<lambda>b. b \<noteq> 0) bs)) else Inl OutOfBounds)"

text \<open>\<open>memcpy\<close> of all of \<open>bs\<close> to the index \<open>i\<close> of an array.\<close>

definition blit :: "nat \<Rightarrow> u8 list \<Rightarrow> u8 list \<Rightarrow> u8 list result" where
  "blit i bs xs = (if i + length bs \<le> length xs then Inr (take i xs @ bs @ drop (i + length bs) xs) else Inl OutOfBounds)"

subsection \<open>Construction and destruction\<close>

datatype wsa = WsaOk | WsaFails | WsaVersion

definition NetFSM :: "wsa \<Rightarrow> u8 list \<Rightarrow> u8 \<Rightarrow> u8 \<Rightarrow> u16 \<Rightarrow> u16 \<Rightarrow> u16 \<Rightarrow> ('p, 'z, unit) nop" where
  "NetFSM w junk automateId1 mbxId1 numOfTimers numOfState maxNumOfProceduresPerState =
     (let arr = new_array NET_MAX_LENGTH_MESSAGE junk in
      run [TransportInterface automateId1 mbxId1 numOfTimers numOfState maxNumOfProceduresPerState,
        (\<lambda>(K, A). Inr ((), K, A\<lparr>N_priv := arr, N_parameters := None, receivingSide := None, T_ip := new_array 16 junk,
           fsmMessageR := arr, protocolMessageR := arr, fsmMessageS := arr, protocolMessageS := arr\<rparr>)),
        (\<lambda>s. case w of WsaOk \<Rightarrow> Inr ((), s)
           | WsaFails \<Rightarrow> Inl (NetException ''Can't find usable WinSock.dll'')
           | WsaVersion \<Rightarrow> Inl (NetException ''WinSock DLL supports 2.2''))])"

text \<open>\<open>stop()\<close>\<close>

definition stop :: "tcp_client \<Rightarrow> tcp_client" where
  "stop r = r\<lparr>R_end := True\<rparr>"

definition NetFSM_destructor :: "bool \<Rightarrow> ('p, 'z, unit) nop" where
  "NetFSM_destructor nd = run [
     (\<lambda>(K, A). Inr ((), K, A\<lparr>N_parameters := None, receivingSide := map_option stop (receivingSide A)\<rparr>)),
     fsm_destructor nd]"

subsection \<open>The class \<open>Client\<close>: construction and release\<close>

definition CLIENT_MAX_LENGTH_MESSAGE :: nat where "CLIENT_MAX_LENGTH_MESSAGE = 1024"

definition Client :: "u8 list \<Rightarrow> tcp_client" where
  "Client junk = \<lparr>R_open = True, ptrBuffer = new_array CLIENT_MAX_LENGTH_MESSAGE junk, currentState = 0,
     currentMsgLength = 0, R_priv = new_array CLIENT_MAX_LENGTH_MESSAGE junk, recvMsgLength = 0, R_send = False,
     haveMore = False, readFromNET = True, R_end = False\<rparr>"

definition with_client :: "(tcp_client \<Rightarrow> ('p, 'z, 'a) nop) \<Rightarrow> ('p, 'z, 'a) nop" where
  "with_client f = (\<lambda>(K, A). case receivingSide A of None \<Rightarrow> Inl NullDeref | Some r \<Rightarrow> f r (K, A))"

definition set_client :: "tcp_client \<Rightarrow> ('p, 'z, unit) nop" where
  "set_client r = (\<lambda>(K, A). Inr ((), K, A\<lparr>receivingSide := Some r\<rparr>))"

definition releaseAll :: "('p, 'z, unit) nop" where
  "releaseAll = with_client (\<lambda>r (K, A). Inr ((), K, A\<lparr>receivingSide := Some (stop (r\<lparr>R_open := False\<rparr>)),
     N_sock := (if R_open r then closesocket (N_sock A) else N_sock A)\<rparr>))"

subsection \<open>Connections\<close>

text \<open>What the calls of the system yield: the thread can be created; the connected socket.  The texts of the
  exceptions are without their line ends.\<close>

definition acceptConnection :: "u8 list \<Rightarrow> bool \<Rightarrow> socket \<Rightarrow> u8 list option \<Rightarrow> ('p, 'z, int) nop" where
  "acceptConnection junk thr newSocket ex = (\<lambda>(K, A).
     let A = A\<lparr>N_parameters := ex, receivingSide := Some (Client junk), N_sock := newSocket\<rparr> in
     if thr then Inr (0, K, A\<lparr>N_open := True\<rparr>) else Inr (-1, K, A))"

record net_env =
  e_host :: bool
  e_socket :: bool
  e_option :: bool
  e_bind :: bool
  e_connect :: "socket option"
  e_thread :: bool

definition establishConnection :: "u8 list \<Rightarrow> net_env \<Rightarrow> ('p, 'z, unit) nop" where
  "establishConnection junk e = (\<lambda>(K, A).
     if \<not> (T_ip A \<noteq> [] \<and> 48 \<le> hd (T_ip A) \<and> hd (T_ip A) \<le> 57) \<and> \<not> e_host e then Inl NullDeref
     else if \<not> e_socket e then Inl (NetException ''Windows Sockets error.'')
     else if \<not> e_option e then Inl (NetException ''Windows Sockets error. Setsockopt.'')
     else if \<not> e_bind e then Inl (NetException ''Windows Sockets error. Couldn't bind socket.'')
     else case e_connect e of
       None \<Rightarrow> Inl (NetException ''Windows Sockets error. Connect.'')
     | Some so \<Rightarrow> let A = A\<lparr>N_open := True, N_sock := so, receivingSide := Some (Client junk)\<rparr> in
         if e_thread e then Inr ((), K, A)
         else Inl (ThreadException ''Can't create and start receivingSide.''))"

definition killConnection :: "('p, 'z) net_vtable \<Rightarrow> ('p, 'z, unit) nop" where
  "killConnection vt = run [v_NetError vt, releaseAll]"

subsection \<open>Messages\<close>

text \<open>
  The bytes up to the first 0 of \<open>protocolMessageS\<close> are sent.  The result of \<open>send\<close> is converted to
  \<open>uint16\<close>, so that an error (-1) becomes 65535.
\<close>

definition send_protocol :: "('p, 'z, unit) nop" where
  "send_protocol = (\<lambda>(K, A).
     if \<not> N_open A then Inl (NetException ''Connection is broken!'')
     else bindR (strlen (protocolMessageS A)) (\<lambda>n.
       let (sent, so) = sock_send (take n (protocolMessageS A)) (N_sock A); sendedBytes = (of_int sent :: u16) in
       if 0 < sendedBytes then Inr ((), K, A\<lparr>N_priv := take NET_MAX_LENGTH_MESSAGE (protocolMessageS A), N_sock := so\<rparr>)
       else Inl (NetException ''Message length is 0 in send call. NetFSM::SendToTCP()'')))"

definition sendToTCP :: "bool \<Rightarrow> ('p, 'z) net_vtable \<Rightarrow> ('p, 'z, unit) nop" where
  "sendToTCP nd vt = bnd mh_GetNewMsgInfoLength (\<lambda>len (K, A).
     let n = unat len + MSG_HEADER_LENGTH in
     deref (H_NewMessage A) (\<lambda>a. in_buff (K_mem K) a n
     (bindR (blit 0 (take n (m_data (K_mem K) a)) (fsmMessageS A)) (\<lambda>S.
      run [RetBuffer_op nd (Some a), SetNew None, v_convertFSMToNet vt, send_protocol]
        (K, A\<lparr>fsmMessageSInfoLength := len, fsmMessageSLength := len + of_nat MSG_HEADER_LENGTH, fsmMessageS := S\<rparr>)))))"

text \<open>\<open>memcpy(msg + MSG_HEADER_LENGTH, ..)\<close>\<close>

definition put_info :: "addr \<Rightarrow> u8 list \<Rightarrow> (kernel \<times> 'z, unit) op" where
  "put_info a bs = (\<lambda>(K, A). bindR (blit MSG_HEADER_LENGTH bs (m_data (K_mem K) a)) (\<lambda>d.
     Inr ((), K\<lparr>K_mem := SetData a d (K_mem K)\<rparr>, A)))"

definition workWhenReceive :: "bool \<Rightarrow> u16 \<Rightarrow> ('p, 'z, unit) nop" where
  "workWhenReceive nd msgCoding = (\<lambda>(K, A). let n = fsmMessageRLength A in
     bnd (GetBuffer_op nd (ucast n + of_nat MSG_HEADER_LENGTH)) (\<lambda>a.
       if length (fsmMessageR A) < unat n then fails OutOfBounds
       else run [put_info a (take (unat n) (fsmMessageR A)), SetMsgToAutomate_of (A_automateId A) (Some a),
         SetMsgToGroup_of (A_GroupId A) (Some a), SetMsgObjectNumberTo_of (A_ConnectionId A) (Some a),
         SetMsgInfoCoding_of (ucast msgCoding) (Some a), SetMsgCode_of (currentMessageCode A) (Some a),
         SetMsgInfoLength_of n (Some a), SendMessage_msg (A_mbxId A) (Some a)]) (K, A))"

text \<open>One byte of the code.\<close>

definition getMsgCodeFSMMessageS :: "('p, 'z) net_fsm_scheme \<Rightarrow> u16" where
  "getMsgCodeFSMMessageS A = ucast (fsmMessageS A ! MSG_CODE)"

definition getMsgCodingInfoFSMMessageS :: "('p, 'z) net_fsm_scheme \<Rightarrow> u8" where
  "getMsgCodingInfoFSMMessageS A = fsmMessageS A ! MSG_INFO_CODING"

definition net_sendTo :: "u8 list \<Rightarrow> ('p, 'z, int) nop" where
  "net_sendTo message = ret (-1)"

end
