(* ===== verification/Udp.thy ===== *)
theory Udp
  imports Transport
begin

text \<open>
  \<open>UdpFSM\<close> (\<open>src/Kernel/UdpFSM.h\<close>, \<open>UdpFSM.cpp\<close>): automata that exchange datagrams.  Two sockets, one
  for a multicast group, are read by a thread each; every datagram becomes a message in the own
  mailbox.  The handles \<open>sockToListen\<close> and \<open>sockToListenMulticast\<close> are \<open>None\<close> when they are 0.
\<close>

definition UDP_MAX_LENGTH_MESSAGE :: nat where "UDP_MAX_LENGTH_MESSAGE = 4096"
definition MAX_PACKAGE_SIZE :: nat where "MAX_PACKAGE_SIZE = 1500"

text \<open>
  A socket for datagrams: what arrives, with the address of the sender (\<open>None\<close> is an error), and what has
  been sent.  A call of \<open>recvfrom\<close> waits for a datagram; one that is longer than the buffer is lost, and the call
  fails, as it does on a closed socket.
\<close>

record udp_socket =
  us_in :: "(u32 \<times> u8 list) option list"
  us_out :: "u8 list list"
  us_send :: bool
  us_closed :: bool

definition recvfrom :: "nat \<Rightarrow> udp_socket \<Rightarrow> ((u32 \<times> u8 list) option \<times> udp_socket) result" where
  "recvfrom n us = (if us_closed us then Inr (None, us)
     else case us_in us of [] \<Rightarrow> Inl Blocked
     | d # ds \<Rightarrow> Inr (case d of None \<Rightarrow> None | Some (a, bs) \<Rightarrow> if length bs \<le> n then Some (a, bs) else None, us\<lparr>us_in := ds\<rparr>))"

definition us_sendto :: "u8 list \<Rightarrow> udp_socket \<Rightarrow> int \<times> udp_socket" where
  "us_sendto bs us = (if us_send us \<and> \<not> us_closed us then (int (length bs), us\<lparr>us_out := us_out us @ [bs]\<rparr>) else (-1, us))"

definition us_close :: "udp_socket \<Rightarrow> udp_socket" where
  "us_close us = us\<lparr>us_closed := True\<rparr>"

record 'p udp_fsm = "'p transport" +
  U_Err :: "u8 list"
  packageSize :: u16
  sockToListen :: "udp_socket option"
  sockToListenMulticast :: "udp_socket option"
  listening :: bool
  listeningMulticast :: bool
  portToListen :: u16
  portToListenMulticast :: u16
  U_receivedMessageLength :: int

type_synonym ('p, 'z, 'a) uop = "(kernel \<times> ('p, 'z) udp_fsm_scheme, 'a) op"

record ('p, 'z) udp_vtable =
  u_convertNetToFSM :: "('p, 'z, u16) uop"
  u_convertFSMToNet :: "('p, 'z, unit) uop"
  u_getProtocolInfoCoding :: u8

definition udp_set :: "(('p, 'z) udp_fsm_scheme \<Rightarrow> ('p, 'z) udp_fsm_scheme) \<Rightarrow> ('p, 'z, unit) uop" where
  "udp_set f = (\<lambda>(K, A). Inr ((), K, f A))"

definition UdpFSM :: "u8 list \<Rightarrow> u8 \<Rightarrow> u8 \<Rightarrow> ('p, 'z, unit) uop" where
  "UdpFSM junk automateId1 mbxId1 = (let arr = new_array UDP_MAX_LENGTH_MESSAGE junk in
     run [TransportInterface automateId1 mbxId1 100 100 100,
       udp_set (\<lambda>A. A\<lparr>T_ip := new_array 16 junk, sockToListen := None, portToListen := 4000, packageSize := 1024,
         fsmMessageR := arr, protocolMessageR := arr, fsmMessageS := arr, protocolMessageS := arr, U_Err := []\<rparr>)])"

subsection \<open>Sockets\<close>

definition closeListen :: "('p, 'z, unit) uop" where
  "closeListen = udp_set (\<lambda>A. A\<lparr>sockToListen := None, sockToListenMulticast := None\<rparr>)"

definition UdpFSM_destructor :: "bool \<Rightarrow> ('p, 'z, unit) uop" where
  "UdpFSM_destructor nd = run [closeListen, fsm_destructor nd]"

definition setPackageSize :: "u16 \<Rightarrow> ('p, 'z, unit) uop" where
  "setPackageSize p = udp_set (\<lambda>A. A\<lparr>packageSize := p\<rparr>)"

text \<open>What the calls of the system yield: the socket, and whether the calls succeed.\<close>

record udp_env =
  ue_sock :: udp_socket
  ue_startup :: bool
  ue_socket :: bool
  ue_option :: bool
  ue_bind :: bool
  ue_thread :: bool

text \<open>A socket that could not be created is a handle all the same; calls with it fail.\<close>

definition the_socket :: "udp_env \<Rightarrow> udp_socket" where
  "the_socket e = (if ue_socket e then ue_sock e else us_close (ue_sock e))"

definition listen :: "udp_env \<Rightarrow> ('p, 'z, int) uop" where
  "listen e = (\<lambda>(K, A). if sockToListen A \<noteq> None then Inr (0, K, A)
     else let A = A\<lparr>sockToListen := Some (the_socket e)\<rparr> in
       if \<not> ue_socket e \<or> \<not> ue_option e then Inr (0, K, A\<lparr>U_Err := str ''Cannot set socket options!''\<rparr>)
       else if \<not> ue_bind e then Inr (0, K, A\<lparr>U_Err := str ''Cannot bind!''\<rparr>)
       else Inr (1, K, A))"

definition listenMulticast :: "udp_env \<Rightarrow> ('p, 'z, int) uop" where
  "listenMulticast e = (\<lambda>(K, A). if \<not> ue_startup e then Inr (0, K, A)
     else if \<not> ue_socket e then Inr (0, K, A\<lparr>sockToListenMulticast := Some (the_socket e)\<rparr>)
     else if \<not> ue_bind e then Inr (0, K, A\<lparr>sockToListenMulticast := Some (us_close (the_socket e))\<rparr>)
     else if \<not> ue_option e then Inr (0, K, A\<lparr>sockToListenMulticast := Some (us_close (the_socket e))\<rparr>)
     else Inr (1, K, A\<lparr>sockToListenMulticast := Some (the_socket e)\<rparr>))"

definition startToListen :: "udp_env \<Rightarrow> int \<Rightarrow> ('p, 'z, int) uop" where
  "startToListen e p = bnd (udp_set (\<lambda>A. A\<lparr>portToListen := of_int p\<rparr>)) (\<lambda>_. bnd (listen e) (\<lambda>ok.
     if ok = 0 then ret 0 else if \<not> ue_thread e then ret 0
     else bnd (udp_set (\<lambda>A. A\<lparr>listening := True\<rparr>)) (\<lambda>_. ret 1)))"

definition startToListenMulticast :: "udp_env \<Rightarrow> int \<Rightarrow> ('p, 'z, int) uop" where
  "startToListenMulticast e p = bnd (udp_set (\<lambda>A. A\<lparr>portToListenMulticast := of_int p\<rparr>)) (\<lambda>_. bnd (listenMulticast e) (\<lambda>ok.
     if ok = 0 then ret 0 else if \<not> ue_thread e then ret 0
     else bnd (udp_set (\<lambda>A. A\<lparr>listeningMulticast := True\<rparr>)) (\<lambda>_. ret 1)))"

text \<open>In front of the two calls of \<open>WaitForSingleObject\<close>.\<close>

definition stopListening :: "('p, 'z, unit) uop" where
  "stopListening = run [udp_set (\<lambda>A. A\<lparr>listening := False, listeningMulticast := False\<rparr>), closeListen]"

definition stopListeningMulticast :: "('p, 'z, unit) uop" where
  "stopListeningMulticast = udp_set (\<lambda>A. A\<lparr>listeningMulticast := False, sockToListenMulticast := None\<rparr>)"

subsection \<open>Receiving\<close>

text \<open>
  \<open>read\<close> and \<open>readMulticast\<close> differ in the socket.  The datagram is received into an array of
  \<open>MAX_PACKAGE_SIZE\<close> bytes and appended to \<open>buffer\<close>.  When the call fails, the address is 0 and the length -1.
\<close>

definition read_socket :: "(('p, 'z) udp_fsm_scheme \<Rightarrow> udp_socket option) \<Rightarrow>
    (udp_socket \<Rightarrow> ('p, 'z) udp_fsm_scheme \<Rightarrow> ('p, 'z) udp_fsm_scheme) \<Rightarrow> u8 list \<Rightarrow> ('p, 'z, u32 \<times> u8 list) uop" where
  "read_socket sock set_sock buffer = (\<lambda>(K, A).
     let failed = (\<lambda>A. Inr ((0, buffer), K, A\<lparr>U_receivedMessageLength := -1, U_Err := str ''Error in reading!''\<rparr>)) in
     case sock A of None \<Rightarrow> failed A
     | Some us \<Rightarrow> bindR (recvfrom (unat (packageSize A)) us) (\<lambda>(d, us). let A = set_sock us A in
         case d of None \<Rightarrow> failed A
         | Some (a, bs) \<Rightarrow> if MAX_PACKAGE_SIZE < length bs then Inl OutOfBounds
             else Inr ((a, buffer @ bs), K, A\<lparr>U_receivedMessageLength := int (length bs)\<rparr>)))"

definition udp_read :: "u8 list \<Rightarrow> ('p, 'z, u32 \<times> u8 list) uop" where
  "udp_read = read_socket sockToListen (\<lambda>us A. A\<lparr>sockToListen := Some us\<rparr>)"

definition readMulticast :: "u8 list \<Rightarrow> ('p, 'z, u32 \<times> u8 list) uop" where
  "readMulticast = read_socket sockToListenMulticast (\<lambda>us A. A\<lparr>sockToListenMulticast := Some us\<rparr>)"

text \<open>\<open>memcpy\<close> of \<open>n\<close> bytes from \<open>message.c_str()\<close>.\<close>

definition c_str_bytes :: "int \<Rightarrow> u8 list \<Rightarrow> u8 list result" where
  "c_str_bytes n message = (if 0 \<le> n \<and> n \<le> int (length message) + 1 then Inr (take (nat n) (message @ [0])) else Inl OutOfBounds)"

definition Work :: "bool \<Rightarrow> ('p, 'z) udp_vtable \<Rightarrow> u8 list \<Rightarrow> u32 \<Rightarrow> ('p, 'z, unit) uop" where
  "Work nd vt message src = (\<lambda>(K, A). let n = U_receivedMessageLength A in
     bnd (GetBuffer_op nd (of_int n + of_nat MSG_HEADER_LENGTH)) (\<lambda>a s. bindR (c_str_bytes n message) (\<lambda>bs.
       bnd (run [put_info a bs, SetMsgToAutomate_of (A_automateId A) (Some a), SetMsgToGroup_of INVALID_08 (Some a),
           SetMsgObjectNumberTo_of (A_ConnectionId A) (Some a), SetMsgInfoCoding_of (u_getProtocolInfoCoding vt) (Some a),
           (\<lambda>(K, A). bindR (blit 0 bs (protocolMessageR A)) (\<lambda>p. Inr ((), K, A\<lparr>protocolMessageR := p\<rparr>)))]) (\<lambda>_.
         bnd (u_convertNetToFSM vt) (\<lambda>code. run [SetMsgCode_of code (Some a), SetMsgInfoLength_of (of_int n) (Some a),
           SendMessage_msg (A_mbxId A) (Some a)])) s)) (K, A))"

text \<open>
  The threads \<open>Listener\<close> and \<open>ListenerMulticast\<close>: one round, and the body of their loops.  The result of a
  round tells whether the loop goes on.
\<close>

definition listen_body :: "bool \<Rightarrow> ('p, 'z) udp_vtable \<Rightarrow> ('p, 'z, unit) uop" where
  "listen_body nd vt = bnd (udp_read []) (\<lambda>(src, message). Work nd vt message src)"

definition multicast_body :: "bool \<Rightarrow> ('p, 'z) udp_vtable \<Rightarrow> ('p, 'z, unit) uop" where
  "multicast_body nd vt = bnd (readMulticast []) (\<lambda>(src, message). Work nd vt message src)"

definition listen_round :: "bool \<Rightarrow> ('p, 'z) udp_vtable \<Rightarrow> ('p, 'z, bool) uop" where
  "listen_round nd vt = (\<lambda>(K, A). if listening A then bnd (listen_body nd vt) (\<lambda>_. ret True) (K, A) else Inr (False, K, A))"

definition multicast_round :: "bool \<Rightarrow> ('p, 'z) udp_vtable \<Rightarrow> ('p, 'z, bool) uop" where
  "multicast_round nd vt = (\<lambda>(K, A). if listeningMulticast A then bnd (multicast_body nd vt) (\<lambda>_. ret True) (K, A)
     else Inr (False, K, A))"

definition processConnection :: "bool \<Rightarrow> ('p, 'z) udp_vtable \<Rightarrow> u8 list \<Rightarrow> u32 \<Rightarrow> ('p, 'z, unit) uop" where
  "processConnection nd vt message src = (\<lambda>(K, A). if listening A then Work nd vt message src (K, A) else Inr ((), K, A))"

subsection \<open>Sending\<close>

datatype h_error = HOST_NOT_FOUND | NO_ADDRESS | NO_RECOVERY | TRY_AGAIN | OTHER_ERROR

fun h_text :: "h_error \<Rightarrow> u8 list" where
  "h_text HOST_NOT_FOUND = str ''The specified host is unknown.''"
| "h_text NO_ADDRESS = str ''The requested host name is valid but does not have an IP address.''"
| "h_text NO_RECOVERY = str ''A non-recoverable name server error occurred.''"
| "h_text TRY_AGAIN = str ''A temporary error occurred on an authoritative name server.''"
| "h_text OTHER_ERROR = str ''Unknown error in gethostbyname()''"

text \<open>\<open>gethostbyname\<close> and \<open>connect\<close>: the error of the first, and whether the second succeeds.\<close>

definition udp_connect :: "h_error option \<Rightarrow> bool \<Rightarrow> u8 list \<Rightarrow> ('p, 'z, int) uop \<Rightarrow> ('p, 'z, int) uop" where
  "udp_connect he ok host k = (\<lambda>(K, A). case he of
     Some e \<Rightarrow> Inr (0, K, A\<lparr>U_Err := h_text e\<rparr>)
   | None \<Rightarrow> if \<not> ok \<or> sockToListen A = None then Inr (0, K, A\<lparr>U_Err := str ''Cannot connect to the host: '' @ host\<rparr>)
     else k (K, A))"

definition udp_send :: "u8 list \<Rightarrow> ('p, 'z, int) uop" where
  "udp_send bs = (\<lambda>(K, A). case sockToListen A of None \<Rightarrow> Inr (-1, K, A)
     | Some us \<Rightarrow> let (n, us) = us_sendto bs us in Inr (n, K, A\<lparr>sockToListen := Some us\<rparr>))"

text \<open>\<open>packageSize\<close> bytes of the string are sent, however long it is.\<close>

definition sendToUDP_string :: "h_error option \<Rightarrow> bool \<Rightarrow> u8 list \<Rightarrow> u8 list \<Rightarrow> ('p, 'z, int) uop" where
  "sendToUDP_string he ok s host = udp_connect he ok host (\<lambda>(K, A).
     bindR (c_str_bytes (int (unat (packageSize A))) s) (\<lambda>bs. bnd (udp_send bs) (\<lambda>_. ret 1) (K, A)))"

text \<open>The information of the new message, converted.\<close>

definition take_new_info :: "bool \<Rightarrow> ('p, 'z) udp_vtable \<Rightarrow> ('p, 'z, unit) uop" where
  "take_new_info nd vt = bnd mh_GetNewMsgInfoLength (\<lambda>len (K, A).
     deref (H_NewMessage A) (\<lambda>a. in_buff (K_mem K) a (MSG_HEADER_LENGTH + unat len)
     (bindR (blit 0 (take (unat len) (drop MSG_HEADER_LENGTH (m_data (K_mem K) a))) (fsmMessageS A)) (\<lambda>S.
      run [RetBuffer_op nd (Some a), SetNew None, u_convertFSMToNet vt]
        (K, A\<lparr>fsmMessageSInfoLength := len, fsmMessageSLength := len, fsmMessageS := S\<rparr>)))))"

definition sendToUDP :: "bool \<Rightarrow> ('p, 'z) udp_vtable \<Rightarrow> h_error option \<Rightarrow> bool \<Rightarrow> u8 list \<Rightarrow> ('p, 'z, int) uop" where
  "sendToUDP nd vt he ok host = udp_connect he ok host (bnd (take_new_info nd vt) (\<lambda>_ (K, A).
     if length (fsmMessageS A) < unat (fsmMessageSLength A) then Inl OutOfBounds
     else bnd (udp_send (take (unat (fsmMessageSLength A)) (fsmMessageS A))) (\<lambda>sent.
       let sendedBytes = (of_int sent :: u16) in
       bnd (udp_set (\<lambda>A. if 0 < sendedBytes then A else if sendedBytes = 0 then A\<lparr>U_Err := str ''Message length is 0 in send call.''\<rparr>
         else A\<lparr>U_Err := str ''Sending message caused error - socket error.''\<rparr>)) (\<lambda>_. ret 1)) (K, A)))"

definition sendToUDPMulticast :: "bool \<Rightarrow> ('p, 'z) udp_vtable \<Rightarrow> ('p, 'z, int) uop" where
  "sendToUDPMulticast nd vt = bnd (take_new_info nd vt) (\<lambda>_ (K, A).
     if length (fsmMessageS A) < unat (fsmMessageSLength A) then Inl OutOfBounds
     else case sockToListenMulticast A of None \<Rightarrow> Inr (0, K, A)
     | Some us \<Rightarrow> (case us_sendto (take (unat (fsmMessageSLength A)) (fsmMessageS A)) us of
         (n, us) \<Rightarrow> if n = -1 then Inr (0, K, A\<lparr>sockToListenMulticast := Some (us_close us)\<rparr>)
           else Inr (1, K, A\<lparr>sockToListenMulticast := Some us\<rparr>)))"

text \<open>The string is not used.\<close>

definition udp_sendTo :: "bool \<Rightarrow> ('p, 'z) udp_vtable \<Rightarrow> h_error option \<Rightarrow> bool \<Rightarrow> ('p, 'z, int) uop" where
  "udp_sendTo nd vt he ok = (\<lambda>(K, A). bindR (strlen (T_ip A)) (\<lambda>n.
     bnd (sendToUDP nd vt he ok (take n (T_ip A))) (\<lambda>_. ret 0) (K, A)))"

definition udp_sendTo_message :: "bool \<Rightarrow> ('p, 'z) udp_vtable \<Rightarrow> h_error option \<Rightarrow> bool \<Rightarrow> u8 list \<Rightarrow> ('p, 'z, int) uop" where
  "udp_sendTo_message nd vt he ok message = udp_sendTo nd vt he ok"

definition sendToMulticast :: "bool \<Rightarrow> ('p, 'z) udp_vtable \<Rightarrow> ('p, 'z, int) uop" where
  "sendToMulticast nd vt = bnd (sendToUDPMulticast nd vt) (\<lambda>_. ret 0)"

definition udp_getProtocolInfoCoding :: u8 where "udp_getProtocolInfoCoding = 1"

definition StandardMessageCoding :: u8 where "StandardMessageCoding = 0"

definition udp_SetDefaultHeader :: "u8 \<Rightarrow> ('p, 'z, unit) uop" where
  "udp_SetDefaultHeader infoCoding = run [SetMsgInfoCoding infoCoding, SetMessageFromData]"

definition SetDefaultFSMData :: "('p, 'z, unit) uop" where
  "SetDefaultFSMData = udp_SetDefaultHeader StandardMessageCoding"

end
