(* ===== verification/TcpClient.thy ===== *)
theory TcpClient
  imports Transport
begin

text \<open>
  \<open>Client\<close> and \<open>Client_DTP\<close> (\<open>src/Kernel/Client.cpp\<close>, \<open>Client_DTP.cpp\<close>) with the loop of their threads
  (\<open>thread.cpp\<close>): the receiving side of a TCP connection.  \<open>Client\<close> receives messages with a header that
  holds their length (TPKT), \<open>Client_DTP\<close>, which \<open>NetFSM\<close> uses, takes what arrives.  Both write into the
  1024 bytes that the constructor of \<open>Client\<close> allocates.
\<close>

text \<open>\<open>recv(client, ptrBuffer, n, 0)\<close>; the result is the number of bytes, -1 for an error.\<close>

definition recv_buffer :: "nat \<Rightarrow> ('p, 'z, int) nop" where
  "recv_buffer n = with_client (\<lambda>r (K, A). case sock_recv (R_open r) n (N_sock A) of
     (None, so) \<Rightarrow> Inr (-1, K, A\<lparr>N_sock := so\<rparr>)
   | (Some bs, so) \<Rightarrow> bindR (blit 0 bs (ptrBuffer r)) (\<lambda>p.
       Inr (int (length bs), K, A\<lparr>N_sock := so, receivingSide := Some (r\<lparr>ptrBuffer := p\<rparr>)\<rparr>)))"

definition broken :: "('p, 'z) net_vtable \<Rightarrow> ('p, 'z, unit) nop" where
  "broken vt = run [v_NetError vt, releaseAll]"

subsection \<open>\<open>Client::workToDo\<close>\<close>

text \<open>
  The loop that puts a message together.  When the connection ends within a message, the loop goes on
  with the number of bytes that \<open>recv\<close> returned; with -1 it copies a negative number of bytes.
\<close>

fun msg_loop :: "nat \<Rightarrow> ('p, 'z) net_vtable \<Rightarrow> nat \<Rightarrow> int \<Rightarrow> ('p, 'z, unit) nop" where
  "msg_loop 0 vt len got s = Inl NoFuel"
| "msg_loop (Suc fuel) vt len got s = with_client (\<lambda>r (K, A).
     if got \<le> int len - int (unat (currentMsgLength r)) then
       if got < 0 then Inl OutOfBounds
       else bindR (blit (unat (currentMsgLength r)) (take (nat got) (ptrBuffer r)) (R_priv r)) (\<lambda>p.
         let r = r\<lparr>R_priv := p, currentMsgLength := currentMsgLength r + of_int got\<rparr>; A = A\<lparr>receivingSide := Some r\<rparr> in
         if len = unat (currentMsgLength r) then
           bindR (blit 0 (take len p) (ptrBuffer r)) (\<lambda>q. set_client (r\<lparr>ptrBuffer := q\<rparr>) (K, A))
         else bnd (recv_buffer (nat (int len - int (unat (currentMsgLength r))))) (\<lambda>got.
           if got \<le> 0 then bnd (broken vt) (\<lambda>_. msg_loop fuel vt len got)
           else msg_loop fuel vt len got) (K, A))
     else Inr ((), K, A)) s"

definition protocol_message :: "bool \<Rightarrow> ('p, 'z) net_vtable \<Rightarrow> nat \<Rightarrow> ('p, 'z, unit) nop" where
  "protocol_message nd vt len = with_client (\<lambda>r (K, A).
     bindR (blit 0 (take len (ptrBuffer r)) (protocolMessageR A)) (\<lambda>p.
     bnd (v_convertNetToFSM vt) (\<lambda>code (K, A).
       workWhenReceive nd (ucast (v_getProtocolInfoCoding vt)) (K, A\<lparr>currentMessageCode := code\<rparr>))
       (K, A\<lparr>receivedMessageLength := of_nat len, protocolMessageR := p\<rparr>)))"

text \<open>The length is cut to the size of the buffer.\<close>

definition message_length :: "('p, 'z) net_vtable \<Rightarrow> u8 list \<Rightarrow> nat" where
  "message_length vt buff = min (unat (ucast (v_getLenFromTPKT vt buff) :: u16)) CLIENT_MAX_LENGTH_MESSAGE"

definition workToDo :: "bool \<Rightarrow> ('p, 'z) net_vtable \<Rightarrow> ('p, 'z, unit) nop" where
  "workToDo nd vt = bnd (recv_buffer (v_getTPKTLen vt)) (\<lambda>receivedBytes.
     if receivedBytes \<le> 0 then broken vt
     else with_client (\<lambda>r. let len = message_length vt (ptrBuffer r) in
       bnd (recv_buffer len) (\<lambda>receivedBytesMess.
         if receivedBytesMess \<le> 0 then broken vt
         else bnd (msg_loop (len + 3) vt len receivedBytesMess) (\<lambda>_. protocol_message nd vt len))))"

text \<open>The thread.\<close>

fun thread_loop :: "nat \<Rightarrow> ('p, 'z, unit) nop \<Rightarrow> ('p, 'z, unit) nop" where
  "thread_loop 0 work s = Inl NoFuel"
| "thread_loop (Suc fuel) work s =
     with_client (\<lambda>r s. if R_end r then Inr ((), s) else bnd work (\<lambda>_. thread_loop fuel work) s) s"

subsection \<open>\<open>Client_DTP::workToDo\<close>\<close>

text \<open>One round of its endless loop.\<close>

definition dtp_round :: "('p, 'z) net_vtable \<Rightarrow> ('p, 'z, unit) nop" where
  "dtp_round vt = bnd (recv_buffer 2048) (\<lambda>receivedBytes.
     if receivedBytes = 0 then broken vt
     else if 0 < receivedBytes then with_client (\<lambda>r (K, A). let n = nat receivedBytes in
       bindR (blit 0 (take n (ptrBuffer r) @ [0]) (protocolMessageR A)) (\<lambda>p.
       bnd (v_convertNetToFSM vt) (\<lambda>code (K, A). Inr ((), K, A\<lparr>currentMessageCode := code\<rparr>))
         (K, A\<lparr>receivedMessageLength := of_nat n, protocolMessageR := p\<rparr>)))
     else ret ())"

fun dtp_workToDo :: "nat \<Rightarrow> ('p, 'z) net_vtable \<Rightarrow> ('p, 'z, unit) nop" where
  "dtp_workToDo 0 vt s = Inl NoFuel"
| "dtp_workToDo (Suc fuel) vt s = bindR (dtp_round vt s) (\<lambda>(_, s). dtp_workToDo fuel vt s)"

end
