(* ===== verification/TcpRuns.thy ===== *)
theory TcpRuns
  imports TcpClient KernelOps
begin

text \<open>
  Runs of the receiving side: the loop that puts a message together ends, the pieces of the first message
  are put together, and a received message is put into the mailbox of the automaton.
\<close>

lemma blit_ok [simp]: "i + length bs \<le> length xs \<Longrightarrow> blit i bs xs = Inr (take i xs @ bs @ drop (i + length bs) xs)"
  by (simp add: blit_def)

lemma length_blit: "blit i bs xs = Inr ys \<Longrightarrow> length ys = length xs"
  by (auto simp: blit_def split: if_splits)

subsection \<open>States of the receiving side\<close>

text \<open>The receiving side is \<open>r\<close>, its connection \<open>so\<close>.\<close>

definition receiving :: "('p, 'z) net_fsm_scheme \<Rightarrow> tcp_client \<Rightarrow> socket \<Rightarrow> bool" where
  "receiving A r so \<longleftrightarrow> receivingSide A = Some r \<and> N_sock A = so"

definition ready :: "tcp_client \<Rightarrow> socket \<Rightarrow> bool" where
  "ready r so \<longleftrightarrow> R_open r \<and> \<not> so_closed so \<and> length (ptrBuffer r) = CLIENT_MAX_LENGTH_MESSAGE \<and>
     length (R_priv r) = CLIENT_MAX_LENGTH_MESSAGE"

abbreviation got_bytes :: "u8 list \<Rightarrow> tcp_client \<Rightarrow> tcp_client" where
  "got_bytes bs r \<equiv> r\<lparr>ptrBuffer := bs @ drop (length bs) (ptrBuffer r)\<rparr>"

lemma recv_buffer_gets:
  assumes "receivingSide A = Some r" "ready r (N_sock A)" "recv n (N_sock A) = (Some bs, so)" "length bs \<le> CLIENT_MAX_LENGTH_MESSAGE"
  shows "recv_buffer n (K, A) = Inr (int (length bs), K, A\<lparr>N_sock := so, receivingSide := Some (got_bytes bs r)\<rparr>)"
  using assms by (simp add: recv_buffer_def with_client_def sock_recv_def ready_def)

lemma recv_buffer_end:
  assumes "receivingSide A = Some r" "ready r (N_sock A)" "so_in (N_sock A) = []"
  shows "recv_buffer n (K, A) = Inr (0, K, A)"
  using assms by (cases A; cases r) (simp add: recv_buffer_def with_client_def sock_recv_def recv_def ready_def)

lemma recv_buffer_closed:
  assumes "receivingSide A = Some r" "\<not> R_open r \<or> so_closed (N_sock A)"
  shows "recv_buffer n (K, A) = Inr (-1, K, A)"
  using assms by (cases A) (auto simp: recv_buffer_def with_client_def sock_recv_def)

text \<open>The function \<open>NetError\<close> as \<open>NetFSM\<close> declares it does nothing.\<close>

definition silent :: "('p, 'z) net_vtable \<Rightarrow> bool" where
  "silent vt \<longleftrightarrow> v_NetError vt = ret ()"

lemma broken_silent:
  assumes "silent vt" "receivingSide A = Some r"
  shows "broken vt (K, A) = Inr ((), K, A\<lparr>receivingSide := Some (r\<lparr>R_open := False, R_end := True\<rparr>),
    N_sock := (if R_open r then closesocket (N_sock A) else N_sock A)\<rparr>)"
  using assms by (simp add: broken_def silent_def releaseAll_def with_client_def stop_def)

text \<open>Once the handle has been given up.\<close>

lemma shut:
  assumes "\<not> R_open r"
  shows "recv_buffer n (K, A\<lparr>receivingSide := Some r\<rparr>) = Inr (-1, K, A\<lparr>receivingSide := Some r\<rparr>)"
    "silent vt \<Longrightarrow> broken vt (K, A\<lparr>receivingSide := Some r\<rparr>) = Inr ((), K, A\<lparr>receivingSide := Some (r\<lparr>R_end := True\<rparr>)\<rparr>)"
proof -
  show "recv_buffer n (K, A\<lparr>receivingSide := Some r\<rparr>) = Inr (-1, K, A\<lparr>receivingSide := Some r\<rparr>)"
    by (rule recv_buffer_closed [of _ r]) (use assms in simp_all)
  show "silent vt \<Longrightarrow> broken vt (K, A\<lparr>receivingSide := Some r\<rparr>) = Inr ((), K, A\<lparr>receivingSide := Some (r\<lparr>R_end := True\<rparr>)\<rparr>)"
    using assms by (cases A; cases r) (simp add: broken_silent)
qed

subsection \<open>The loop ends\<close>

lemma recv_buffer_result:
  assumes "recv_buffer n s = Inr (got, s')"
  shows "\<exists>r so. receivingSide (snd s') = Some r \<and> N_sock (snd s') = so \<and> got \<le> int n \<and>
    (\<exists>r0. receivingSide (snd s) = Some r0 \<and> currentMsgLength r = currentMsgLength r0 \<and> R_open r = R_open r0 \<and>
      (\<not> R_open r0 \<longrightarrow> got < 0))"
proof -
  obtain K A where s: "s = (K, A)" by (cases s)
  obtain r0 where r0: "receivingSide A = Some r0"
    using assms by (auto simp: s recv_buffer_def with_client_def split: option.splits)
  show ?thesis
  proof (cases "sock_recv (R_open r0) n (N_sock A)")
    case (Pair x so)
    show ?thesis
    proof (cases x)
      case None
      then show ?thesis using assms Pair r0 by (auto simp: s recv_buffer_def with_client_def)
    next
      case (Some bs)
      then have "R_open r0" "recv n (N_sock A) = (Some bs, so)" using Pair by (auto simp: sock_recv_def split: if_splits)
      then have "length bs \<le> n" by (auto dest: recv_length)
      then show ?thesis using assms Pair Some r0 \<open>R_open r0\<close>
        by (auto simp: s recv_buffer_def with_client_def bindR_eq_Inr)
    qed
  qed
qed

lemma recv_buffer_no_fuel: "recv_buffer n s \<noteq> Inl NoFuel"
  by (cases s) (auto simp: recv_buffer_def with_client_def blit_def bindR_eq_Inl split: option.splits prod.splits)

definition steps_left :: "nat \<Rightarrow> int \<Rightarrow> tcp_client \<Rightarrow> nat" where
  "steps_left len got r = (if got < 0 then 1 else if got = 0 then 2 else len - unat (currentMsgLength r) + 3)"

lemma msg_loop_ends:
  assumes "silent vt" "len < 65536" "receivingSide A = Some r" "got = 0 \<longrightarrow> \<not> R_open r" "steps_left len got r \<le> fuel"
  shows "msg_loop fuel vt len got (K, A) \<noteq> Inl NoFuel"
  using assms(3-5)
proof (induction fuel arbitrary: K A r got)
  case 0
  then show ?case by (simp add: steps_left_def split: if_splits)
next
  case (Suc fuel)
  let ?cur = "unat (currentMsgLength r)"
  show ?case
  proof (cases "0 \<le> got \<and> got \<le> int len - int ?cur")
    case False
    then show ?thesis using Suc.prems(1) by (auto simp: with_client_def)
  next
    case True
    then have c: "?cur + nat got \<le> len" and pos: "0 \<le> got" by linarith+
    have cur: "unat (currentMsgLength r + of_int got) = ?cur + nat got"
    proof -
      have "of_int got = (of_nat (nat got) :: u16)" using True by simp
      moreover have "unat (of_nat (nat got) :: u16) = nat got" using c assms(2) by (intro unat_of_nat_less) simp
      ultimately show ?thesis using c assms(2) by (simp add: unat_word_ariths)
    qed
    let ?step = "\<lambda>p. r\<lparr>R_priv := p, currentMsgLength := currentMsgLength r + of_int got\<rparr>"
    have IH: "bnd (recv_buffer n) (\<lambda>got. if got \<le> 0 then bnd (broken vt) (\<lambda>_. msg_loop fuel vt len got)
        else msg_loop fuel vt len got) (K, A\<lparr>receivingSide := Some (?step p)\<rparr>) \<noteq> Inl NoFuel"
      if less: "?cur + nat got < len" for p n
    proof (cases "recv_buffer n (K, A\<lparr>receivingSide := Some (?step p)\<rparr>)")
      case (Inl e)
      then show ?thesis using recv_buffer_no_fuel [of n] by (auto simp: bnd_def)
    next
      case (Inr res)
      obtain got' K' A' where res: "res = (got', K', A')" by (cases res) auto
      from recv_buffer_result [OF Inr [unfolded res]] obtain r' where
        r': "receivingSide A' = Some r'" "currentMsgLength r' = currentMsgLength r + of_int got" "R_open r' = R_open r"
          "\<not> R_open r \<longrightarrow> got' < 0" by auto
      show ?thesis
      proof (cases "got' \<le> 0")
        case True
        then have "msg_loop fuel vt len got' (K', A'\<lparr>receivingSide := Some (r'\<lparr>R_open := False, R_end := True\<rparr>),
            N_sock := (if R_open r' then closesocket (N_sock A') else N_sock A')\<rparr>) \<noteq> Inl NoFuel"
        proof (intro Suc.IH)
          show "steps_left len got' (r'\<lparr>R_open := False, R_end := True\<rparr>) \<le> fuel"
            using True Suc.prems(2,3) r'(4) less pos
            by (cases "got = 0") (auto simp: steps_left_def split: if_splits)
        qed auto
        then show ?thesis using Inr True broken_silent [OF assms(1) r'(1)] by (simp add: res)
      next
        case False
        have "R_open r" using False r'(4) by auto
        then have "0 < got" using Suc.prems(2) pos by (cases "got = 0") auto
        then have "steps_left len got' r' \<le> fuel"
          using Suc.prems(3) False r'(2) cur c by (simp add: steps_left_def)
        then have "msg_loop fuel vt len got' (K', A') \<noteq> Inl NoFuel" using False by (intro Suc.IH [OF r'(1)]) auto
        then show ?thesis using Inr False by (simp add: res)
      qed
    qed
    show ?thesis
    proof (cases "blit ?cur (take (nat got) (ptrBuffer r)) (R_priv r)")
      case (Inl e)
      then have "e = OutOfBounds" by (auto simp: blit_def split: if_splits)
      then show ?thesis using True Suc.prems(1) Inl by (simp add: with_client_def)
    next
      case (Inr p)
      have e: "bindR (blit 0 (take len p) (ptrBuffer r)) (\<lambda>q. set_client (x q) (K, A\<lparr>receivingSide := y\<rparr>)) \<noteq> Inl NoFuel" for x y
        by (auto simp: blit_def set_client_def)
      show ?thesis
      proof (cases "len = ?cur + nat got")
        case True
        then show ?thesis using pos c Suc.prems(1) Inr cur e by (simp add: with_client_def Let_def)
      next
        case False
        then have "?cur + nat got < len" using c by simp
        from IH [OF this] show ?thesis using False pos c Suc.prems(1) Inr cur by (simp add: with_client_def Let_def)
      qed
    qed
  qed
qed


subsection \<open>The first message\<close>

text \<open>What is left after a message: the receiving side has counted its bytes.\<close>

lemma msg_loop_pieces:
  assumes "silent vt" "len \<le> CLIENT_MAX_LENGTH_MESSAGE" "length got + length piece + length (concat ps) = len"
    and "[] \<notin> set (piece # ps)" "receivingSide A = Some r" "ready r (N_sock A)" "arrives ps rest (so_in (N_sock A))"
    and "unat (currentMsgLength r) = length got" "take (length got) (R_priv r) = got" "take (length piece) (ptrBuffer r) = piece"
    and "length ps < fuel"
  shows "\<exists>p b. msg_loop fuel vt len (int (length piece)) (K, A) = Inr ((), K, A\<lparr>N_sock := (N_sock A)\<lparr>so_in := rest\<rparr>,
      receivingSide := Some (r\<lparr>R_priv := p, currentMsgLength := of_nat len, ptrBuffer := b\<rparr>)\<rparr>) \<and>
    take len b = got @ piece @ concat ps \<and> length b = CLIENT_MAX_LENGTH_MESSAGE \<and> length p = CLIENT_MAX_LENGTH_MESSAGE"
  using assms(3-)
proof (induction ps arbitrary: got piece r A fuel)
  case Nil
  obtain n where n: "fuel = Suc n" using Nil.prems(9) by (cases fuel) auto
  have l: "length (ptrBuffer r) = CLIENT_MAX_LENGTH_MESSAGE" "length (R_priv r) = CLIENT_MAX_LENGTH_MESSAGE"
    using Nil.prems(4) by (simp_all add: ready_def)
  have c: "length got + length piece = len" using Nil.prems(1) by simp
  have i: "uint (currentMsgLength r) = int (length got)" using Nil.prems(6) by (metis uint_nat)
  have cur: "currentMsgLength r + of_nat (length piece) = of_nat len"
  proof -
    have "of_nat (unat (currentMsgLength r)) = currentMsgLength r" by simp
    then have "currentMsgLength r = of_nat (length got)" unfolding Nil.prems(6) by simp
    then show ?thesis using c by (metis of_nat_add)
  qed
  have u: "unat (of_nat len :: u16) = len" using assms(2) by (intro unat_of_nat_less) (simp add: CLIENT_MAX_LENGTH_MESSAGE_def)
  let ?p = "take (length got) (R_priv r) @ piece @ drop (length got + length piece) (R_priv r)"
  have p: "length ?p = CLIENT_MAX_LENGTH_MESSAGE" "take len ?p = got @ piece"
    using l(2) c assms(2) Nil.prems(7) by simp_all
  have "(N_sock A)\<lparr>so_in := rest\<rparr> = N_sock A" using Nil.prems(5) by (cases "N_sock A") simp
  then have sock: "A\<lparr>N_sock := (N_sock A)\<lparr>so_in := rest\<rparr>, receivingSide := x\<rparr> = A\<lparr>receivingSide := x\<rparr>" for x by (cases A) simp
  show ?case
    unfolding sock
    by (rule exI [of _ ?p], rule exI [of _ "take len ?p @ drop len (ptrBuffer r)"],
        use Nil.prems(3,6,8) l c p cur u assms(2) i in \<open>simp add: n with_client_def Let_def set_client_def\<close>)
next
  case (Cons q ps)
  then obtain n where n: "fuel = Suc n" "length ps < n" by (cases fuel) auto
  have l: "length (ptrBuffer r) = CLIENT_MAX_LENGTH_MESSAGE" "length (R_priv r) = CLIENT_MAX_LENGTH_MESSAGE"
    using Cons.prems(4) by (simp_all add: ready_def)
  have c: "length got + length piece + length q + length (concat ps) = len" using Cons.prems(1) by simp
  have q: "q \<noteq> []" "piece \<noteq> []" using Cons.prems(2) by auto
  then have lt: "length got + length piece < len" using c by (cases q) auto
  have lts: "len < 65536" "len \<le> 1024" using assms(2) by (simp_all add: CLIENT_MAX_LENGTH_MESSAGE_def)
  let ?p = "take (length got) (R_priv r) @ piece @ drop (length got + length piece) (R_priv r)"
  let ?r = "r\<lparr>R_priv := ?p, currentMsgLength := currentMsgLength r + of_nat (length piece)\<rparr>"
  let ?A = "A\<lparr>receivingSide := Some ?r\<rparr>"
  have u: "unat (currentMsgLength ?r) = length got + length piece"
    using Cons.prems(6) lt lts by (simp add: unat_word_ariths unat_of_nat_less)
  have p: "length ?p = CLIENT_MAX_LENGTH_MESSAGE" "take (length got + length piece) ?p = got @ piece"
    using l(2) c lts Cons.prems(7) by (simp_all add: CLIENT_MAX_LENGTH_MESSAGE_def)
  have rdy: "ready ?r (N_sock ?A)" using Cons.prems(4) p(1) by (simp add: ready_def)
  have ql: "length q \<le> CLIENT_MAX_LENGTH_MESSAGE" using c assms(2) by simp
  from recv_arrives [OF Cons.prems(5), of "len - (length got + length piece)"] c obtain s where
    s: "recv (len - (length got + length piece)) (N_sock A) = (Some q, (N_sock A)\<lparr>so_in := s\<rparr>)" "arrives ps rest s" by auto
  from recv_buffer_gets [where A = ?A, OF _ rdy _ ql] s(1)
  have rb: "recv_buffer (len - (length got + length piece)) (K, ?A) = Inr (int (length q), K,
      ?A\<lparr>N_sock := (N_sock A)\<lparr>so_in := s\<rparr>, receivingSide := Some (got_bytes q ?r)\<rparr>)" by simp
  let ?A' = "?A\<lparr>N_sock := (N_sock A)\<lparr>so_in := s\<rparr>, receivingSide := Some (got_bytes q ?r)\<rparr>"
  have "ready (got_bytes q ?r) (N_sock ?A')" using rdy l(1) c lts by (simp add: ready_def CLIENT_MAX_LENGTH_MESSAGE_def)
  moreover have "length (got @ piece) + length q + length (concat ps) = len" "[] \<notin> set (q # ps)"
    using c Cons.prems(2) by simp_all
  ultimately obtain p' b where
    r: "msg_loop n vt len (int (length q)) (K, ?A') = Inr ((), K, ?A'\<lparr>N_sock := (N_sock ?A')\<lparr>so_in := rest\<rparr>,
        receivingSide := Some ((got_bytes q ?r)\<lparr>R_priv := p', currentMsgLength := of_nat len, ptrBuffer := b\<rparr>)\<rparr>)"
      "take len b = (got @ piece) @ q @ concat ps" "length b = CLIENT_MAX_LENGTH_MESSAGE" "length p' = CLIENT_MAX_LENGTH_MESSAGE"
    using Cons.IH [of "got @ piece" q ?A' "got_bytes q ?r" n] u p n(2) s(2) by auto
  have i: "uint (currentMsgLength r) = int (length got)" using Cons.prems(6) by (metis uint_nat)
  have "msg_loop fuel vt len (int (length piece)) (K, A) = msg_loop n vt len (int (length q)) (K, ?A')"
    using Cons.prems(3,6,8) lt u l q rb i assms(2)
    by (simp add: n(1) with_client_def Let_def nat_diff_distrib' flip: of_nat_add)
  then show ?case using r by (intro exI [of _ p'] exI [of _ b]) simp
qed

end
