(* ===== verification/NetMessages.thy ===== *)
theory NetMessages
  imports TcpRuns
begin

text \<open>
  What a network automaton does with a received message: it takes a buffer of the kernel, copies the
  information behind the header, writes header fields, and sends the message to its own mailbox.
\<close>

definition deliver_info :: "bool \<Rightarrow> u32 \<Rightarrow> u8 list \<Rightarrow> header \<Rightarrow> hfield list \<Rightarrow> u8 \<Rightarrow> (kernel \<times> 'z, unit) op" where
  "deliver_info nd len bs h xs mbx = bnd (GetBuffer_op nd len) (\<lambda>a.
     run (put_info a bs # map (set_field_of h (Some a)) xs @ [SendMessage_msg mbx (Some a)]))"

text \<open>The four steps: a buffer, its information, header fields, and the mailbox.\<close>

lemma fill_buffer:
  assumes K: "k_ok K own mss L fss" and fit: "fits_class (K_Buffers K) len i" "fss ! i = a # as"
    and len: "MSG_HEADER_LENGTH + length bs \<le> unat len"
  shows "\<exists>K1 K2. GetBuffer_op nd len (K, A) = Inr (a, K1, A) \<and> put_info a bs (K1, A) = Inr ((), K2, A) \<and>
    k_ok K2 (a # own) mss L (fss[i := as]) \<and> MSG_HEADER_LENGTH \<le> length (bytes K2 a) \<and>
    take (length bs) (drop MSG_HEADER_LENGTH (bytes K2 a)) = bs \<and>
    same_pool (K_Buffers K) (K_Buffers K2) \<and> K_PostOffice K2 = K_PostOffice K"
proof -
  have hl: "MSG_HEADER_LENGTH \<le> unat len" using len by simp
  from GetBuffer_op_ok [OF K fit hl, of nd A] obtain B' where
    B: "GetBuffer_op nd len (K, A) = Inr (a, K\<lparr>K_Buffers := B'\<rparr>, A)" "k_ok (K\<lparr>K_Buffers := B'\<rparr>) (a # own) mss L (fss[i := as])"
      "same_pool (K_Buffers K) B'" "unat len \<le> length (bytes K a)" by blast
  let ?K1 = "K\<lparr>K_Buffers := B'\<rparr>"
  let ?d = "take MSG_HEADER_LENGTH (bytes K a) @ bs @ drop (MSG_HEADER_LENGTH + length bs) (bytes K a)"
  let ?K2 = "?K1\<lparr>K_mem := SetData a ?d (K_mem ?K1)\<rparr>"
  have p: "put_info a bs (?K1, A) = Inr ((), ?K2, A)" using B(4) len by (simp add: put_info_def)
  have d: "length ?d = length (bytes ?K1 a)" "take (length bs) (drop MSG_HEADER_LENGTH ?d) = bs" using B(4) len by simp_all
  have k2: "k_ok ?K2 (a # own) mss L (fss[i := as])" by (rule k_ok_write [OF B(2) _ d(1)]) simp
  have b2: "bytes ?K2 a = ?d" by (simp add: SetData_def)
  have "MSG_HEADER_LENGTH \<le> length (bytes ?K2 a)" unfolding b2 d(1) using B(4) hl by simp
  moreover have "take (length bs) (drop MSG_HEADER_LENGTH (bytes ?K2 a)) = bs" unfolding b2 by (rule d(2))
  moreover have "same_pool (K_Buffers K) (K_Buffers ?K2)" "K_PostOffice ?K2 = K_PostOffice K" using B(3) by simp_all
  ultimately show ?thesis using B(1) p k2 by blast
qed

lemma own_fields:
  assumes K: "k_ok K (a # own) mss L fss" "MSG_HEADER_LENGTH \<le> length (bytes K a)"
  shows "\<exists>K'. run (map (set_field_of h (Some a)) xs) (K, A) = Inr ((), K', A) \<and> k_ok K' (a # own) mss L fss \<and>
    (\<forall>y \<in> set xs. agree_on y (header_of (bytes K' a)) h) \<and>
    (\<forall>y g. y \<notin> set xs \<longrightarrow> agree_on y (header_of (bytes K' a)) g = agree_on y (header_of (bytes K a)) g) \<and>
    drop MSG_HEADER_LENGTH (bytes K' a) = drop MSG_HEADER_LENGTH (bytes K a) \<and>
    MSG_HEADER_LENGTH \<le> length (bytes K' a) \<and> K_Buffers K' = K_Buffers K \<and> K_PostOffice K' = K_PostOffice K"
proof -
  from set_fields [OF K(2), of h xs A] obtain e where
    e: "run (map (set_field_of h (Some a)) xs) (K, A) = Inr ((), K\<lparr>K_mem := SetData a e (K_mem K)\<rparr>, A)"
      "length e = length (bytes K a)" "\<forall>y \<in> set xs. agree_on y (header_of e) h"
      "\<forall>y g. y \<notin> set xs \<longrightarrow> agree_on y (header_of e) g = agree_on y (header_of (bytes K a)) g"
      "drop MSG_HEADER_LENGTH e = drop MSG_HEADER_LENGTH (bytes K a)" by blast
  let ?K = "K\<lparr>K_mem := SetData a e (K_mem K)\<rparr>"
  have "k_ok ?K (a # own) mss L fss" by (rule k_ok_write [OF K(1) _ e(2)]) simp
  moreover have "bytes ?K a = e" by (simp add: SetData_def)
  ultimately show ?thesis using e K(2) by (intro exI [of _ ?K]) simp
qed

lemma own_send:
  assumes K: "k_ok K (a # own) mss L fss" "mbx < MailBoxesNum (K_PostOffice K)"
  shows "\<exists>K'. SendMessage_msg mbx (Some a) (K, A) = Inr ((), K', A) \<and>
    k_ok K' own (mss[unat mbx := mss ! unat mbx @ [a]]) L fss \<and> bytes K' a = bytes K a \<and>
    K_Buffers K' = K_Buffers K \<and> MailBoxesNum (K_PostOffice K') = MailBoxesNum (K_PostOffice K)"
proof -
  from SendMessage_msg_ok [OF K refl, of A] obtain m' P' where
    s: "SendMessage_msg mbx (Some a) (K, A) = Inr ((), K\<lparr>K_mem := m', K_PostOffice := P'\<rparr>, A)"
      "k_ok (K\<lparr>K_mem := m', K_PostOffice := P'\<rparr>) own (mss[unat mbx := mss ! unat mbx @ [a]]) L fss"
      "same_bytes (K_mem K) m'" "MailBoxesNum P' = MailBoxesNum (K_PostOffice K)" by blast
  then show ?thesis by (intro exI [of _ "K\<lparr>K_mem := m', K_PostOffice := P'\<rparr>"]) (simp add: same_bytes_def)
qed

lemma deliver_info_ok:
  assumes K: "k_ok K own mss L fss" and fit: "fits_class (K_Buffers K) len i" "fss ! i = a # as"
    and len: "MSG_HEADER_LENGTH + length bs \<le> unat len" and mbx: "mbx < MailBoxesNum (K_PostOffice K)"
  shows "\<exists>K'. deliver_info nd len bs h xs mbx (K, A) = Inr ((), K', A) \<and>
    k_ok K' own (mss[unat mbx := mss ! unat mbx @ [a]]) L (fss[i := as]) \<and>
    (\<forall>y \<in> set xs. agree_on y (header_of (bytes K' a)) h) \<and> take (length bs) (drop MSG_HEADER_LENGTH (bytes K' a)) = bs \<and>
    same_pool (K_Buffers K) (K_Buffers K') \<and> MailBoxesNum (K_PostOffice K') = MailBoxesNum (K_PostOffice K)"
proof -
  from fill_buffer [OF K fit len, of nd A] obtain K1 K2 where
    f: "GetBuffer_op nd len (K, A) = Inr (a, K1, A)" "put_info a bs (K1, A) = Inr ((), K2, A)"
      "k_ok K2 (a # own) mss L (fss[i := as])" "MSG_HEADER_LENGTH \<le> length (bytes K2 a)"
      "take (length bs) (drop MSG_HEADER_LENGTH (bytes K2 a)) = bs"
      "same_pool (K_Buffers K) (K_Buffers K2)" "K_PostOffice K2 = K_PostOffice K" by blast
  from own_fields [OF f(3,4), of h xs A] obtain K3 where
    w: "run (map (set_field_of h (Some a)) xs) (K2, A) = Inr ((), K3, A)" "k_ok K3 (a # own) mss L (fss[i := as])"
      "\<forall>y \<in> set xs. agree_on y (header_of (bytes K3 a)) h"
      "drop MSG_HEADER_LENGTH (bytes K3 a) = drop MSG_HEADER_LENGTH (bytes K2 a)"
      "K_Buffers K3 = K_Buffers K2" "K_PostOffice K3 = K_PostOffice K2" by blast
  have "mbx < MailBoxesNum (K_PostOffice K3)" using mbx w(6) f(7) by simp
  from own_send [OF w(2) this, of A] obtain K4 where
    "SendMessage_msg mbx (Some a) (K3, A) = Inr ((), K4, A)" "k_ok K4 own (mss[unat mbx := mss ! unat mbx @ [a]]) L (fss[i := as])"
    "bytes K4 a = bytes K3 a" "K_Buffers K4 = K_Buffers K3" "MailBoxesNum (K_PostOffice K4) = MailBoxesNum (K_PostOffice K3)" by blast
  then show ?thesis using f w by (intro exI [of _ K4]) (simp add: deliver_info_def run_append)
qed

text \<open>The message of \<open>NetFSM\<close>.\<close>

definition net_header :: "('p, 'z) transport_scheme \<Rightarrow> u8 \<Rightarrow> u8 \<Rightarrow> u16 \<Rightarrow> u16 \<Rightarrow> header" where
  "net_header A grp coding code len = \<lparr>h_FromAutomate = 0, h_FromGroup = 0, h_ToAutomate = A_automateId A, h_ToGroup = grp,
     h_Code = code, h_ObjectFrom = 0, h_ObjectTo = A_ConnectionId A, h_CallId = 0, h_Coding = coding, h_Length = len\<rparr>"

lemma workWhenReceive_deliver:
  assumes "unat (fsmMessageRLength A) \<le> length (fsmMessageR A)"
  shows "workWhenReceive nd cod (K, A) = deliver_info nd (ucast (fsmMessageRLength A) + of_nat MSG_HEADER_LENGTH)
    (take (unat (fsmMessageRLength A)) (fsmMessageR A))
    (net_header A (A_GroupId A) (ucast cod) (currentMessageCode A) (fsmMessageRLength A))
    [ToAutomate, ToGroup, ObjectTo, Coding, Code, InfoLength] (A_mbxId A) (K, A)"
  using assms by (simp add: workWhenReceive_def deliver_info_def net_header_def Let_def)

subsection \<open>Whole messages\<close>

text \<open>What is done with the bytes \<open>bs\<close> of a message.\<close>

definition hand_over :: "bool \<Rightarrow> ('p, 'z) net_vtable \<Rightarrow> u8 list \<Rightarrow> ('p, 'z, unit) nop" where
  "hand_over nd vt bs = (\<lambda>(K, A). bnd (v_convertNetToFSM vt) (\<lambda>code (K, A).
       workWhenReceive nd (ucast (v_getProtocolInfoCoding vt)) (K, A\<lparr>currentMessageCode := code\<rparr>))
     (K, A\<lparr>receivedMessageLength := of_nat (length bs), protocolMessageR := bs @ drop (length bs) (protocolMessageR A)\<rparr>))"

text \<open>A header is there, and it announces \<open>n\<close> bytes.\<close>

definition announces :: "('p, 'z) net_vtable \<Rightarrow> u8 list \<Rightarrow> tcp_client \<Rightarrow> nat \<Rightarrow> bool" where
  "announces vt hdr r n \<longleftrightarrow> hdr \<noteq> [] \<and> length hdr \<le> v_getTPKTLen vt \<and> length hdr \<le> CLIENT_MAX_LENGTH_MESSAGE \<and>
     message_length vt (hdr @ drop (length hdr) (ptrBuffer r)) = n"

lemma protocol_message_hand_over:
  assumes "receivingSide A = Some r" "take n (ptrBuffer r) = bs" "length bs = n" "n \<le> length (protocolMessageR A)"
  shows "protocol_message nd vt n (K, A) = hand_over nd vt bs (K, A)"
  using assms by (simp add: protocol_message_def with_client_def hand_over_def)

lemma ready_got:
  assumes "ready r so" "length bs \<le> CLIENT_MAX_LENGTH_MESSAGE"
  shows "ready (got_bytes bs r) (so\<lparr>so_in := ps\<rparr>)"
  using assms by (simp add: ready_def)

text \<open>The two calls of \<open>recv\<close> in front of the loop.\<close>

lemma workToDo_gets:
  assumes A: "receivingSide A = Some r" "ready r (N_sock A)" "recv (v_getTPKTLen vt) (N_sock A) = (Some hdr, (N_sock A)\<lparr>so_in := s\<rparr>)"
    and p: "recv n ((N_sock A)\<lparr>so_in := s\<rparr>) = (Some p, (N_sock A)\<lparr>so_in := ps\<rparr>)"
    and h: "announces vt hdr r n" "p \<noteq> []" "length p \<le> n"
  shows "workToDo nd vt (K, A) = bnd (msg_loop (n + 3) vt n (int (length p))) (\<lambda>_. protocol_message nd vt n)
    (K, A\<lparr>N_sock := (N_sock A)\<lparr>so_in := ps\<rparr>, receivingSide := Some (got_bytes p (got_bytes hdr r))\<rparr>)"
proof -
  have hd: "hdr \<noteq> []" "length hdr \<le> v_getTPKTLen vt" "length hdr \<le> CLIENT_MAX_LENGTH_MESSAGE"
    "message_length vt (hdr @ drop (length hdr) (ptrBuffer r)) = n" using h(1) by (simp_all add: announces_def)
  have n: "n \<le> CLIENT_MAX_LENGTH_MESSAGE" using hd(4) by (simp add: message_length_def)
  let ?A1 = "A\<lparr>N_sock := (N_sock A)\<lparr>so_in := s\<rparr>, receivingSide := Some (got_bytes hdr r)\<rparr>"
  have 1: "recv_buffer (v_getTPKTLen vt) (K, A) = Inr (int (length hdr), K, ?A1)"
    by (rule recv_buffer_gets [OF A hd(3)])
  have rd: "ready (got_bytes hdr r) (N_sock ?A1)" using ready_got [OF A(2) hd(3)] by simp
  have "length p \<le> CLIENT_MAX_LENGTH_MESSAGE" using h(3) n by simp
  then have 2: "recv_buffer n (K, ?A1) = Inr (int (length p), K, A\<lparr>N_sock := (N_sock A)\<lparr>so_in := ps\<rparr>,
      receivingSide := Some (got_bytes p (got_bytes hdr r))\<rparr>)"
    using recv_buffer_gets [where A = ?A1, OF _ rd] p by simp
  show ?thesis
    unfolding workToDo_def bnd_def [of "recv_buffer (v_getTPKTLen vt)"] 1
    using hd(1,4) h(2) 2 by (simp add: with_client_def Let_def bnd_def [of "recv_buffer n"])
qed

lemma workToDo_start:
  assumes A: "receivingSide A = Some r" "ready r (N_sock A)" "so_in (N_sock A) = Some hdr # Some p # ps"
    and h: "announces vt hdr r n" "p \<noteq> []" "length p \<le> n"
  shows "workToDo nd vt (K, A) = bnd (msg_loop (n + 3) vt n (int (length p))) (\<lambda>_. protocol_message nd vt n)
    (K, A\<lparr>N_sock := (N_sock A)\<lparr>so_in := ps\<rparr>, receivingSide := Some (got_bytes p (got_bytes hdr r))\<rparr>)"
  by (rule workToDo_gets [OF A(1,2) _ _ h, where s = "Some p # ps"]) (use A(3) h in \<open>simp_all add: announces_def\<close>)

lemma length_concat_pieces: "[] \<notin> set ps \<Longrightarrow> length ps \<le> length (concat ps)"
proof (induction ps)
  case (Cons p ps)
  then have "p \<noteq> []" "length ps \<le> length (concat ps)" by auto
  then show ?case by (cases p) simp_all
qed simp

text \<open>The first message is put together from its pieces.\<close>

lemma workToDo_first:
  assumes v: "silent vt" and A: "receivingSide A = Some r" "ready r (N_sock A)"
      "recv (v_getTPKTLen vt) (N_sock A) = (Some hdr, (N_sock A)\<lparr>so_in := s\<rparr>)" "arrives ps rest s"
    and h: "announces vt hdr r (length bs)" "pieces_of bs ps" "bs \<noteq> []" "currentMsgLength r = 0"
    and p: "CLIENT_MAX_LENGTH_MESSAGE \<le> length (protocolMessageR A)"
  shows "\<exists>r'. workToDo nd vt (K, A) = hand_over nd vt bs (K, A\<lparr>N_sock := (N_sock A)\<lparr>so_in := rest\<rparr>, receivingSide := Some r'\<rparr>) \<and>
    currentMsgLength r' = of_nat (length bs) \<and> ready r' ((N_sock A)\<lparr>so_in := rest\<rparr>)"
proof -
  obtain q qs where ps: "ps = q # qs" using h(2,3) by (cases ps) (auto simp: pieces_of_def)
  have c: "length q + length (concat qs) = length bs" "q \<noteq> []" "[] \<notin> set (q # qs)" "q @ concat qs = bs"
    using h(2) by (auto simp: pieces_of_def ps)
  have n: "length bs \<le> CLIENT_MAX_LENGTH_MESSAGE" using h(1) by (auto simp: announces_def message_length_def)
  have qn: "length q \<le> length bs" "length q \<le> CLIENT_MAX_LENGTH_MESSAGE" using c(1) n by simp_all
  have hdr: "length hdr \<le> CLIENT_MAX_LENGTH_MESSAGE" using h(1) by (simp add: announces_def)
  let ?r = "got_bytes q (got_bytes hdr r)"
  from recv_arrives [of q qs rest "(N_sock A)\<lparr>so_in := s\<rparr>" "length bs"] A(4) c(1) obtain s' where
    s': "recv (length bs) ((N_sock A)\<lparr>so_in := s\<rparr>) = (Some q, (N_sock A)\<lparr>so_in := s'\<rparr>)" "arrives qs rest s'"
    by (auto simp: ps)
  let ?A = "A\<lparr>N_sock := (N_sock A)\<lparr>so_in := s'\<rparr>, receivingSide := Some ?r\<rparr>"
  note S = workToDo_gets [OF A(1-3) s'(1) h(1) c(2) qn(1), of nd K]
  have rd: "ready ?r (N_sock ?A)"
    using ready_got [OF ready_got [OF A(2) hdr] qn(2), of s'] by simp
  have "length (concat qs) < length bs" using c(1,2) by (cases q) auto
  moreover have "length qs \<le> length (concat qs)" using c(3) by (intro length_concat_pieces) simp
  ultimately have f: "length qs < length bs + 3" by simp
  have z: "unat (currentMsgLength ?r) = length ([] :: u8 list)" "take (length ([] :: u8 list)) (R_priv ?r) = []"
    "take (length q) (ptrBuffer ?r) = q" "length ([] :: u8 list) + length q + length (concat qs) = length bs"
    "arrives qs rest (so_in (N_sock ?A))" "receivingSide ?A = Some ?r" using c(1) h(4) s'(2) by simp_all
  from msg_loop_pieces [OF v n z(4) c(3) z(6) rd z(5) z(1-3) f, of K] obtain pr b where
    L: "msg_loop (length bs + 3) vt (length bs) (int (length q)) (K, ?A) = Inr ((), K, ?A\<lparr>N_sock := (N_sock ?A)\<lparr>so_in := rest\<rparr>,
        receivingSide := Some (?r\<lparr>R_priv := pr, currentMsgLength := of_nat (length bs), ptrBuffer := b\<rparr>)\<rparr>)"
      "take (length bs) b = [] @ q @ concat qs" "length b = CLIENT_MAX_LENGTH_MESSAGE" "length pr = CLIENT_MAX_LENGTH_MESSAGE"
    by blast
  have b: "take (length bs) b = bs" using L(2) c(4) by simp
  let ?r' = "?r\<lparr>R_priv := pr, currentMsgLength := of_nat (length bs), ptrBuffer := b\<rparr>"
  have "workToDo nd vt (K, A) = hand_over nd vt bs (K, A\<lparr>N_sock := (N_sock A)\<lparr>so_in := rest\<rparr>, receivingSide := Some ?r'\<rparr>)"
    unfolding S using L(1) p n b
    by (simp add: bnd_def protocol_message_hand_over [where r = ?r' and bs = bs])
  moreover have "ready ?r' ((N_sock A)\<lparr>so_in := rest\<rparr>)" using A(2) L(3,4) by (simp add: ready_def)
  ultimately show ?thesis by (intro exI [of _ ?r']) simp
qed

text \<open>The bytes that have been counted are never forgotten: of a later message that is not longer, only the
  first piece is taken.\<close>

lemma workToDo_later:
  assumes A: "receivingSide A = Some r" "ready r (N_sock A)" "so_in (N_sock A) = Some hdr # Some p # rest"
    and h: "announces vt hdr r n" "p \<noteq> []" "length p \<le> n" "n \<le> unat (currentMsgLength r)"
    and p: "CLIENT_MAX_LENGTH_MESSAGE \<le> length (protocolMessageR A)"
  shows "\<exists>r'. workToDo nd vt (K, A) = hand_over nd vt (take n (p @ drop (length p) (hdr @ drop (length hdr) (ptrBuffer r))))
    (K, A\<lparr>N_sock := (N_sock A)\<lparr>so_in := rest\<rparr>, receivingSide := Some r'\<rparr>)"
proof -
  let ?r = "got_bytes p (got_bytes hdr r)"
  let ?A = "A\<lparr>N_sock := (N_sock A)\<lparr>so_in := rest\<rparr>, receivingSide := Some ?r\<rparr>"
  have hdr: "length hdr \<le> CLIENT_MAX_LENGTH_MESSAGE" and n: "n \<le> CLIENT_MAX_LENGTH_MESSAGE"
    using h(1) by (auto simp: announces_def message_length_def)
  have lb: "length (ptrBuffer r) = CLIENT_MAX_LENGTH_MESSAGE" using A(2) by (simp add: ready_def)
  have "int n \<le> int (unat (currentMsgLength r))" using h(4) by (simp only: of_nat_le_iff)
  moreover have "0 < length p" using h(2) by simp
  ultimately have "\<not> int (length p) \<le> int n - int (unat (currentMsgLength r))" by linarith
  then have "msg_loop (n + 3) vt n (int (length p)) (K, ?A) = Inr ((), K, ?A)"
    by (simp add: with_client_def numeral_3_eq_3)
  moreover have "protocol_message nd vt n (K, ?A) =
      hand_over nd vt (take n (p @ drop (length p) (hdr @ drop (length hdr) (ptrBuffer r)))) (K, ?A)"
    using p n hdr lb h(3) by (intro protocol_message_hand_over [where r = ?r]) simp_all
  ultimately show ?thesis
    unfolding workToDo_start [OF A h(1-3)] by (intro exI [of _ ?r]) (simp add: bnd_def)
qed

text \<open>When the connection ends within a message, the loop copies with the length -1.\<close>

lemma workToDo_cut:
  assumes v: "silent vt" and A: "receivingSide A = Some r" "ready r (N_sock A)" "so_in (N_sock A) = [Some hdr, Some p]"
    and h: "announces vt hdr r n" "p \<noteq> []" "length p < n" "currentMsgLength r = 0"
  shows "workToDo nd vt (K, A) = Inl OutOfBounds"
proof -
  let ?r = "got_bytes p (got_bytes hdr r)"
  let ?A = "A\<lparr>N_sock := (N_sock A)\<lparr>so_in := []\<rparr>, receivingSide := Some ?r\<rparr>"
  have hdr: "length hdr \<le> CLIENT_MAX_LENGTH_MESSAGE" and n: "n \<le> CLIENT_MAX_LENGTH_MESSAGE"
    using h(1) by (auto simp: announces_def message_length_def)
  have pn: "length p \<le> n" "length p \<le> CLIENT_MAX_LENGTH_MESSAGE" using h(3) n by simp_all
  have lens: "length (ptrBuffer r) = CLIENT_MAX_LENGTH_MESSAGE" "length (R_priv r) = CLIENT_MAX_LENGTH_MESSAGE"
    using A(2) by (simp_all add: ready_def)
  have rd: "ready ?r (N_sock ?A)" using ready_got [OF ready_got [OF A(2) hdr] pn(2), of "[]"] by simp
  let ?r1 = "?r\<lparr>R_priv := p @ drop (length p) (R_priv r), currentMsgLength := of_nat (length p)\<rparr>"
  let ?A1 = "?A\<lparr>receivingSide := Some ?r1\<rparr>"
  have u: "unat (of_nat (length p) :: u16) = length p" "uint (of_nat (length p) :: u16) = int (length p)"
    using pn(2) by (simp_all add: unat_of_nat_less CLIENT_MAX_LENGTH_MESSAGE_def uint_nat)
  have rd1: "ready ?r1 (N_sock ?A1)" using rd pn(2) lens by (simp add: ready_def)
  let ?r2 = "?r1\<lparr>R_open := False, R_end := True\<rparr>"
  let ?A2 = "?A1\<lparr>receivingSide := Some ?r2, N_sock := closesocket (N_sock ?A1)\<rparr>"
  have e1: "recv_buffer m (K, ?A1) = Inr (0, K, ?A1)" for m by (rule recv_buffer_end [OF _ rd1]) simp_all
  have b1: "broken vt (K, ?A1) = Inr ((), K, ?A2)"
    using broken_silent [OF v, of ?A1 ?r1 K] rd1 by (simp add: ready_def)
  have l1: "msg_loop (n + 3) vt n (int (length p)) (K, ?A) = msg_loop (n + 2) vt n 0 (K, ?A2)"
    using h(3,4) pn lens e1 b1 u by (subst numeral_3_eq_3) (simp add: with_client_def Let_def)
  have l2: "msg_loop (n + 2) vt n 0 (K, ?A2) = Inl OutOfBounds"
    using h(3) u pn(2) lens by (subst numeral_2_eq_2) (simp add: with_client_def Let_def shut v)
  show ?thesis
    unfolding workToDo_start [OF A h(1,2) pn(1)] bnd_def l1 l2 by simp
qed

end
