(* ===== verification/NetProps.thy ===== *)
theory NetProps
  imports NetMessages DemoAutomata
begin

text \<open>
  The properties of automata on a TCP connection: received bytes become a message in the own mailbox,
  the first message is put together from its pieces, what becomes of later and of broken messages, and
  that the receiving loop ends.
\<close>

text \<open>The message \<open>a\<close> of \<open>NetFSM\<close> with the code \<open>code\<close> and the information \<open>info\<close>.\<close>

definition net_message :: "kernel \<Rightarrow> addr \<Rightarrow> ('p, 'z) transport_scheme \<Rightarrow> u8 \<Rightarrow> u16 \<Rightarrow> u8 list \<Rightarrow> bool" where
  "net_message K a A coding code info \<longleftrightarrow> (let h = header_of (bytes K a) in
     h_ToAutomate h = A_automateId A \<and> h_ToGroup h = A_GroupId A \<and> h_ObjectTo h = A_ConnectionId A \<and>
     h_Coding h = coding \<and> h_Code h = code \<and> h_Length h = of_nat (length info)) \<and>
     take (length info) (drop MSG_HEADER_LENGTH (bytes K a)) = info"

text \<open>A buffer for \<open>n\<close> bytes of information is the first of the class \<open>i\<close>.\<close>

definition has_room :: "kernel \<Rightarrow> nat \<Rightarrow> nat \<Rightarrow> addr \<Rightarrow> addr list list \<Rightarrow> bool" where
  "has_room K n i a fss \<longleftrightarrow> n < 65536 \<and> fits_class (K_Buffers K) (of_nat (n + MSG_HEADER_LENGTH)) i \<and>
     (\<exists>as. fss ! i = a # as)"

lemma workWhenReceive_puts:
  assumes K: "k_ok K own mss L fss" "has_room K (length info) i a fss" "A_mbxId A < MailBoxesNum (K_PostOffice K)"
    and info: "fsmMessageRLength A = of_nat (length info)" "take (length info) (fsmMessageR A) = info"
  shows "\<exists>K'. workWhenReceive nd cod (K, A) = Inr ((), K', A) \<and>
    k_ok K' own (mss[unat (A_mbxId A) := mss ! unat (A_mbxId A) @ [a]]) L (fss[i := tl (fss ! i)]) \<and>
    net_message K' a A (ucast cod) (currentMessageCode A) info"
proof -
  obtain as where r: "length info < 65536" "fits_class (K_Buffers K) (of_nat (length info + MSG_HEADER_LENGTH)) i" "fss ! i = a # as"
    using K(2) by (auto simp: has_room_def)
  have u: "unat (fsmMessageRLength A) = length info" unfolding info(1) using r(1) by (intro unat_of_nat_less) simp
  have "length (take (length info) (fsmMessageR A)) = length info" unfolding info(2) by (rule refl)
  then have le: "unat (fsmMessageRLength A) \<le> length (fsmMessageR A)" unfolding u by simp
  have len: "ucast (fsmMessageRLength A) + of_nat MSG_HEADER_LENGTH = (of_nat (length info + MSG_HEADER_LENGTH) :: u32)"
  proof -
    have "ucast (fsmMessageRLength A) = (of_nat (unat (fsmMessageRLength A)) :: u32)" by simp
    then show ?thesis unfolding u by simp
  qed
  have "unat (of_nat (length info + MSG_HEADER_LENGTH) :: u32) = length info + MSG_HEADER_LENGTH"
    using r(1) by (intro unat_of_nat_less) (simp add: offset_defs)
  then have "MSG_HEADER_LENGTH + length info \<le> unat (of_nat (length info + MSG_HEADER_LENGTH) :: u32)" by simp
  from deliver_info_ok [OF K(1) r(2,3) this K(3), of nd "net_header A (A_GroupId A) (ucast cod) (currentMessageCode A) (fsmMessageRLength A)"
      "[ToAutomate, ToGroup, ObjectTo, Coding, Code, InfoLength]" A]
  show ?thesis
    unfolding workWhenReceive_deliver [OF le] u info(2) len r(3)
    by (auto simp: net_message_def net_header_def Let_def u info(1))
qed

subsection \<open>Protocols\<close>

text \<open>The protocol turns the received bytes into a code and information.\<close>

definition converts :: "('p, 'z) net_vtable \<Rightarrow> (u8 list \<Rightarrow> u16 \<times> u8 list) \<Rightarrow> bool" where
  "converts vt conv \<longleftrightarrow> v_convertNetToFSM vt = (\<lambda>(K, A).
     let (code, info) = conv (take (unat (receivedMessageLength A)) (protocolMessageR A)) in
     Inr (code, K, A\<lparr>fsmMessageR := info @ drop (length info) (fsmMessageR A), fsmMessageRLength := of_nat (length info)\<rparr>))"

subsection \<open>A protocol\<close>

text \<open>
  The automaton and the protocol at which the properties are applied: a header of four bytes, of which the last
  is the length; the first byte of a message is its code.
\<close>

definition demo_net :: "socket \<Rightarrow> tcp_client \<Rightarrow> unit net_fsm" where
  "demo_net so r = \<lparr>H_CurrentMessage = None, H_NewMessage = None, H_codec = pc16, H_If = MessageInterface,
     A_mbxId = 1, A_automateId = 5, A_TimerResolution = Timer1s, A_LogFlag = 0, A_ConnectionId = 9, A_GroupId = 2,
     A_CallId = 0, A_LeftMbx = 0, A_LeftAutomate = 0, A_LeftGroup = 0, A_LeftObjectId = 0, A_RightMbx = 0,
     A_RightAutomate = 0, A_RightGroup = 0, A_RightObjectId = 0, A_State = 0,
     F_ReturnMemory = False, F_TimerStore = [], F_NumOfStates = 0, F_NumOfTimers = 0,
     F_MaxNumOfProcPerState = 0, F_States = None,
     T_port = 0, T_ip = [], fsmMessageR = [8, 8, 8], protocolMessageR = replicate NET_MAX_LENGTH_MESSAGE 0,
     fsmMessageS = [], protocolMessageS = [65, 66, 0], sendMsgLength = 0, fsmMessageSInfoLength = 0,
     fsmMessageSLength = 0, receivedMessageLength = 0, fsmMessageRLength = 3, currentMessageCode = 7,
     N_parameters = None, receivingSide = Some r, N_open = True, N_sock = so, N_priv = []\<rparr>"

definition demo_vt :: "(unit, unit) net_vtable" where
  "demo_vt = \<lparr>v_convertNetToFSM = (\<lambda>(K, A). let bs = take (unat (receivedMessageLength A)) (protocolMessageR A); info = tl bs in
       Inr (ucast (hd bs), K, A\<lparr>fsmMessageR := info @ drop (length info) (fsmMessageR A), fsmMessageRLength := of_nat (length info)\<rparr>)),
     v_convertFSMToNet = ret (), v_getProtocolInfoCoding = 3, v_NetError = ret (), v_getTPKTLen = 4,
     v_getLenFromTPKT = (\<lambda>buff. ucast (buff ! 3))\<rparr>"

definition demo_conv :: "u8 list \<Rightarrow> u16 \<times> u8 list" where
  "demo_conv bs = (ucast (hd bs), tl bs)"

definition demo_socket :: "u8 list option list \<Rightarrow> socket" where
  "demo_socket ps = \<lparr>so_in = ps, so_out = [], so_send = False, so_closed = False\<rparr>"

lemma demo_vt_ok: "silent demo_vt" "converts demo_vt demo_conv" "v_getProtocolInfoCoding demo_vt = 3"
  by (simp_all add: silent_def demo_vt_def converts_def demo_conv_def Let_def)

lemma demo_net_simps [simp]: "receivingSide (demo_net so r) = Some r" "N_sock (demo_net so r) = so" "N_open (demo_net so r)"
  "A_mbxId (demo_net so r) = 1" "fsmMessageRLength (demo_net so r) = 3" "fsmMessageR (demo_net so r) = [8, 8, 8]"
  "protocolMessageR (demo_net so r) = replicate NET_MAX_LENGTH_MESSAGE 0" "protocolMessageS (demo_net so r) = [65, 66, 0]"
  "so_in (demo_socket ps) = ps" "currentMessageCode (demo_net so r) = 7"
  by (simp_all add: demo_net_def demo_socket_def)

lemma demo_client_ready: "ready (Client []) (demo_socket ps)" "currentMsgLength (Client []) = 0"
  "length (ptrBuffer (Client [])) = CLIENT_MAX_LENGTH_MESSAGE"
  by (simp_all add: ready_def Client_def demo_socket_def new_array_def)

lemma demo_announces: "announces demo_vt [3, 0, 0, 5] (r\<lparr>currentMsgLength := c\<rparr>) 5"
  by (simp add: announces_def demo_vt_def message_length_def CLIENT_MAX_LENGTH_MESSAGE_def)

lemma demo_room:
  assumes "length bs = 128" "n \<le> 107"
  shows "has_room (run_kernel bs) n 0 0 [[0, 1, 2]]"
proof -
  have "(of_nat (n + 21) :: u32) \<le> 128"
    using assms(2) by (simp add: word_le_nat_alt unat_of_nat_less del: of_nat_add)
  then show ?thesis using assms(2) by (simp add: has_room_def fits_class_def run_defs offset_defs)
qed

text \<open>\<open>NetFSM::workWhenReceive\<close> takes a buffer of the smallest class that is long enough and puts it,
  behind all other messages, into the mailbox of the automaton: with the automaton, its group and its
  connection as the receiver, with the code and the coding of the protocol, and with the received
  information behind the header.  No buffer is lost and nothing else is changed.\<close>

theorem net_message_delivered:
  assumes "k_ok K own mss L fss" "has_room K (length info) i a fss" "A_mbxId A < MailBoxesNum (K_PostOffice K)"
    and "fsmMessageRLength A = of_nat (length info)" "take (length info) (fsmMessageR A) = info"
  shows "\<exists>K'. workWhenReceive nd cod (K, A) = Inr ((), K', A) \<and>
    k_ok K' own (mss[unat (A_mbxId A) := mss ! unat (A_mbxId A) @ [a]]) L (fss[i := tl (fss ! i)]) \<and>
    net_message K' a A (ucast cod) (currentMessageCode A) info"
  by (rule workWhenReceive_puts [OF assms])

theorem net_message_delivered_witness:
  "\<exists>K'. workWhenReceive False 3 (run_kernel (replicate 128 0), demo_net (demo_socket []) (Client [])) =
      Inr ((), K', demo_net (demo_socket []) (Client [])) \<and>
    k_ok K' [3] [[], [0], []] [(4, 5)] [[1, 2]] \<and> net_message K' 0 (demo_net (demo_socket []) (Client [])) 3 7 [8, 8, 8]"
proof -
  let ?A = "demo_net (demo_socket []) (Client [])" and ?K = "run_kernel (replicate 128 0)"
  have "k_ok ?K [3] [[], [], []] [(4, 5)] [[0, 1, 2]]" by (rule run_k_ok) simp
  moreover have "has_room ?K (length [8 :: u8, 8, 8]) 0 0 [[0, 1, 2]]" by (rule demo_room) simp_all
  moreover have "A_mbxId ?A < MailBoxesNum (K_PostOffice ?K)" by (simp add: run_kernel_ready)
  moreover have "fsmMessageRLength ?A = of_nat (length [8 :: u8, 8, 8])" "take (length [8 :: u8, 8, 8]) (fsmMessageR ?A) = [8, 8, 8]" by simp_all
  note net_message_delivered [OF calculation, of False 3]
  then show ?thesis by simp
qed

lemma hand_over_puts:
  assumes c: "converts vt conv" "conv bs = (code, info)" "length bs < 65536"
    and K: "k_ok K own mss L fss" "has_room K (length info) i a fss" "A_mbxId A < MailBoxesNum (K_PostOffice K)"
  shows "\<exists>K' A'. hand_over nd vt bs (K, A) = Inr ((), K', A') \<and> N_sock A' = N_sock A \<and>
    receivingSide A' = receivingSide A \<and>
    k_ok K' own (mss[unat (A_mbxId A) := mss ! unat (A_mbxId A) @ [a]]) L (fss[i := tl (fss ! i)]) \<and>
    net_message K' a A (v_getProtocolInfoCoding vt) code info"
proof -
  let ?A = "A\<lparr>receivedMessageLength := of_nat (length bs), protocolMessageR := bs @ drop (length bs) (protocolMessageR A),
     fsmMessageR := info @ drop (length info) (fsmMessageR A), fsmMessageRLength := of_nat (length info), currentMessageCode := code\<rparr>"
  have u: "unat (of_nat (length bs) :: u16) = length bs" using c(3) by (intro unat_of_nat_less) simp
  have "hand_over nd vt bs (K, A) = workWhenReceive nd (ucast (v_getProtocolInfoCoding vt)) (K, ?A)"
    using c(1,2) u by (simp add: hand_over_def converts_def Let_def)
  moreover have "A_mbxId ?A < MailBoxesNum (K_PostOffice K)" "fsmMessageRLength ?A = of_nat (length info)"
    "take (length info) (fsmMessageR ?A) = info" using K(3) by simp_all
  moreover note workWhenReceive_puts [OF K(1,2) this, of nd "ucast (v_getProtocolInfoCoding vt)"]
  moreover have "ucast (ucast c :: u16) = c" for c :: u8 by (rule ucast_up_ucast_id) (simp add: is_up)
  ultimately show ?thesis by (auto simp: net_message_def)
qed

text \<open>C26: The first message of a connection is delivered whole, however the network cuts it, if the first piece
  has the whole header: the header may stand alone or together with the beginning or the whole of
  the message, and the last piece of the message may go on with later bytes, which stay in the
  socket.  \<open>Client::workToDo\<close> reads the header with the length, collects the pieces, has the protocol convert
  exactly the bytes of the message, and puts the result into the mailbox of the automaton.\<close>

theorem first_message_delivered:
  assumes "silent vt" "converts vt conv" "conv bs = (code, info)"
    and A: "receivingSide A = Some r" "ready r (N_sock A)" "so_in (N_sock A) = map Some qs @ rest"
    and q: "carried (v_getTPKTLen vt) (hdr @ bs) x qs" "length hdr = v_getTPKTLen vt"
    and h: "announces vt hdr r (length bs)" "bs \<noteq> []" "currentMsgLength r = 0"
    and p: "CLIENT_MAX_LENGTH_MESSAGE \<le> length (protocolMessageR A)"
    and K: "k_ok K own mss L fss" "has_room K (length info) i a fss" "A_mbxId A < MailBoxesNum (K_PostOffice K)"
  shows "\<exists>K' A'. workToDo nd vt (K, A) = Inr ((), K', A') \<and> so_in (N_sock A') = left_over x rest \<and>
    k_ok K' own (mss[unat (A_mbxId A) := mss ! unat (A_mbxId A) @ [a]]) L (fss[i := tl (fss ! i)]) \<and>
    net_message K' a A (v_getProtocolInfoCoding vt) code info"
proof -
  from carried_head [OF q(1) [folded q(2)] h(2) A(3)] obtain ps s where
    s: "recv (v_getTPKTLen vt) (N_sock A) = (Some hdr, (N_sock A)\<lparr>so_in := s\<rparr>)" "arrives ps (left_over x rest) s"
      "pieces_of bs ps" unfolding q(2) by blast
  from workToDo_first [OF assms(1) A(1,2) s(1,2) h(1) s(3) h(2,3) p, of nd K] obtain r' where
    w: "workToDo nd vt (K, A) = hand_over nd vt bs (K, A\<lparr>N_sock := (N_sock A)\<lparr>so_in := left_over x rest\<rparr>, receivingSide := Some r'\<rparr>)"
    by blast
  let ?A = "A\<lparr>N_sock := (N_sock A)\<lparr>so_in := left_over x rest\<rparr>, receivingSide := Some r'\<rparr>"
  have "length bs < 65536" using h(1) by (auto simp: announces_def message_length_def CLIENT_MAX_LENGTH_MESSAGE_def)
  moreover have "A_mbxId ?A < MailBoxesNum (K_PostOffice K)" using K(3) by simp
  ultimately show ?thesis
    using hand_over_puts [OF assms(2,3) _ K(1,2), of ?A nd] unfolding w by (auto simp: net_message_def)
qed

theorem first_message_delivered_witness:
  "\<exists>K' A'. workToDo False demo_vt (run_kernel (replicate 128 0),
      demo_net (demo_socket [Some [3, 0, 0, 5, 7, 1], Some [2, 3, 4, 3]]) (Client [])) = Inr ((), K', A') \<and>
    so_in (N_sock A') = [Some [3]] \<and> k_ok K' [3] [[], [0], []] [(4, 5)] [[1, 2]] \<and>
    net_message K' 0 (demo_net (demo_socket []) (Client [])) 3 7 [1, 2, 3, 4]"
proof -
  let ?so = "demo_socket [Some [3, 0, 0, 5, 7, 1], Some [2, 3, 4, 3]]"
  let ?A = "demo_net ?so (Client [])" and ?K = "run_kernel (replicate 128 0)"
  have c: "demo_conv [7, 1, 2, 3, 4] = (7, [1, 2, 3, 4])" by (simp add: demo_conv_def)
  have i: "so_in (N_sock ?A) = map Some [[3, 0, 0, 5, 7, 1], [2, 3, 4, 3]] @ []" by simp
  have a: "announces demo_vt [3, 0, 0, 5] (Client []) (length [7 :: u8, 1, 2, 3, 4])"
    using demo_announces [of 0 "Client []"] by (simp add: Client_def numeral_eq_Suc)
  have p: "carried (v_getTPKTLen demo_vt) ([3, 0, 0, 5] @ [7, 1, 2, 3, 4]) [3] [[3, 0, 0, 5, 7, 1], [2, 3, 4, 3]]"
    "length [3 :: u8, 0, 0, 5] = v_getTPKTLen demo_vt" by (simp_all add: carried_def demo_vt_def)
  have k: "k_ok ?K [3] [[], [], []] [(4, 5)] [[0, 1, 2]]" by (rule run_k_ok) simp
  have r: "has_room ?K (length [1 :: u8, 2, 3, 4]) 0 0 [[0, 1, 2]]" by (rule demo_room) simp_all
  have m: "A_mbxId ?A < MailBoxesNum (K_PostOffice ?K)" by (simp add: run_kernel_ready)
  have "CLIENT_MAX_LENGTH_MESSAGE \<le> length (protocolMessageR ?A)"
    by (simp add: CLIENT_MAX_LENGTH_MESSAGE_def NET_MAX_LENGTH_MESSAGE_def)
  from first_message_delivered [OF demo_vt_ok(1,2) c _ _ i p a _ _ this k r m, of False] demo_client_ready
  show ?thesis by (simp add: demo_vt_ok(3) left_over_def) (simp add: net_message_def demo_net_def)
qed

text \<open>C29: The count of received bytes is never set back: of a later message that is not longer than the bytes
  counted, only the first piece is taken, filled up with bytes of earlier messages.  The rest of it stays in the
  socket, where it is taken for the next header.\<close>

theorem later_message_loses_pieces:
  assumes "converts vt conv" "conv (take n (p @ drop (length p) (hdr @ drop (length hdr) (ptrBuffer r)))) = (code, info)"
    and A: "receivingSide A = Some r" "ready r (N_sock A)" "so_in (N_sock A) = Some hdr # Some p # rest"
    and h: "announces vt hdr r n" "p \<noteq> []" "length p \<le> n" "n \<le> unat (currentMsgLength r)"
    and p: "CLIENT_MAX_LENGTH_MESSAGE \<le> length (protocolMessageR A)"
    and K: "k_ok K own mss L fss" "has_room K (length info) i a fss" "A_mbxId A < MailBoxesNum (K_PostOffice K)"
  shows "\<exists>K' A'. workToDo nd vt (K, A) = Inr ((), K', A') \<and> so_in (N_sock A') = rest \<and>
    net_message K' a A (v_getProtocolInfoCoding vt) code info"
proof -
  let ?bs = "take n (p @ drop (length p) (hdr @ drop (length hdr) (ptrBuffer r)))"
  from workToDo_later [OF A h p, of nd K] obtain r' where
    w: "workToDo nd vt (K, A) = hand_over nd vt ?bs (K, A\<lparr>N_sock := (N_sock A)\<lparr>so_in := rest\<rparr>, receivingSide := Some r'\<rparr>)" by blast
  let ?A = "A\<lparr>N_sock := (N_sock A)\<lparr>so_in := rest\<rparr>, receivingSide := Some r'\<rparr>"
  have "n < 65536" using h(1) by (auto simp: announces_def message_length_def CLIENT_MAX_LENGTH_MESSAGE_def)
  then have "length ?bs < 65536" by simp
  moreover have "A_mbxId ?A < MailBoxesNum (K_PostOffice K)" using K(3) by simp
  ultimately show ?thesis
    using hand_over_puts [OF assms(1,2) _ K(1,2), of ?A nd] unfolding w by (auto simp: net_message_def)
qed

theorem later_message_loses_pieces_witness:
  "\<exists>K' A'. workToDo False demo_vt (run_kernel (replicate 128 0), demo_net (demo_socket [Some [3, 0, 0, 5], Some [7, 1], Some [2, 3, 4]])
      ((Client [])\<lparr>currentMsgLength := 5\<rparr>)) = Inr ((), K', A') \<and> so_in (N_sock A') = [Some [2, 3, 4]] \<and>
    net_message K' 0 (demo_net (demo_socket []) (Client [])) 3 7 [1, 0, 5, 0]"
proof -
  let ?so = "demo_socket [Some [3, 0, 0, 5], Some [7, 1], Some [2, 3, 4]]" and ?r = "(Client [])\<lparr>currentMsgLength := 5\<rparr>"
  let ?A = "demo_net ?so ?r" and ?K = "run_kernel (replicate 128 0)"
  have b: "ptrBuffer ?r = 0 # 0 # 0 # 0 # 0 # replicate 1019 0"
    by (simp add: Client_def new_array_def CLIENT_MAX_LENGTH_MESSAGE_def flip: replicate_Suc)
  have c: "demo_conv (take 5 ([7, 1] @ drop (length [7 :: u8, 1]) ([3, 0, 0, 5] @ drop (length [3 :: u8, 0, 0, 5]) (ptrBuffer ?r)))) =
    (7, [1, 0, 5, 0])" unfolding b by (simp add: demo_conv_def)
  have i: "so_in (N_sock ?A) = Some [3, 0, 0, 5] # Some [7, 1] # [Some [2, 3, 4]]" by simp
  have k: "k_ok ?K [3] [[], [], []] [(4, 5)] [[0, 1, 2]]" by (rule run_k_ok) simp
  have r: "has_room ?K (length [1 :: u8, 0, 5, 0]) 0 0 [[0, 1, 2]]" by (rule demo_room) simp_all
  have m: "A_mbxId ?A < MailBoxesNum (K_PostOffice ?K)" by (simp add: run_kernel_ready)
  have p: "CLIENT_MAX_LENGTH_MESSAGE \<le> length (protocolMessageR ?A)"
    by (simp add: CLIENT_MAX_LENGTH_MESSAGE_def NET_MAX_LENGTH_MESSAGE_def)
  have "ready ?r (N_sock ?A)" using demo_client_ready(1) by (simp add: ready_def)
  from later_message_loses_pieces [OF demo_vt_ok(2) c _ this i demo_announces _ _ _ p k r m, of False]
  show ?thesis by (simp add: demo_vt_ok(3)) (simp add: net_message_def demo_net_def)
qed

text \<open>When the connection ends within a message, \<open>Client::workToDo\<close> goes on with the results 0 and -1 of
  \<open>recv\<close> and copies a block of negative length.\<close>

theorem cut_message_crashes:
  assumes "silent vt" "receivingSide A = Some r" "ready r (N_sock A)" "so_in (N_sock A) = [Some hdr, Some p]"
    and "announces vt hdr r n" "p \<noteq> []" "length p < n" "currentMsgLength r = 0"
  shows "workToDo nd vt (K, A) = Inl OutOfBounds"
  by (rule workToDo_cut [OF assms])

theorem cut_message_crashes_witness:
  "workToDo False demo_vt (run_kernel [], demo_net (demo_socket [Some [3, 0, 0, 5], Some [7, 1]]) (Client [])) = Inl OutOfBounds"
proof -
  have "announces demo_vt [3, 0, 0, 5] (Client []) 5" using demo_announces [of 0 "Client []"] by (simp add: Client_def)
  from cut_message_crashes [OF demo_vt_ok(1) _ _ _ this, of _ "[7, 1]"] show ?thesis by (simp add: demo_client_ready)
qed

text \<open>C31: The loop that puts a message together ends after at most three calls of \<open>recv\<close> more than the message
  has bytes, whatever the socket delivers and whatever state the buffers are in.\<close>

theorem receive_loop_ends:
  assumes "silent vt" "len < 65536" "receivingSide A = Some r" "0 < got"
  shows "msg_loop (len + 3) vt len got (K, A) \<noteq> Inl NoFuel"
  by (rule msg_loop_ends [OF assms(1-3)]) (use assms(4) in \<open>simp_all add: steps_left_def\<close>)


theorem receive_loop_ends_witness:
  "msg_loop 8 demo_vt 5 2 (run_kernel [], demo_net (demo_socket [None]) (Client [])) \<noteq> Inl NoFuel"
  using receive_loop_ends [where len = 5 and got = 2 and A = "demo_net (demo_socket [None]) (Client [])" and vt = demo_vt and K = "run_kernel []"] by (simp add: demo_vt_ok)

lemma dtp_shut:
  assumes "receivingSide A = Some r" "\<not> R_open r"
  shows "dtp_workToDo fuel vt (K, A) = Inl NoFuel"
proof (induction fuel)
  case (Suc fuel)
  have "dtp_round vt (K, A) = Inr ((), K, A)" using recv_buffer_closed [of A r] assms by (simp add: dtp_round_def)
  then show ?case using Suc.IH by simp
qed simp

text \<open>\<open>Client_DTP::workToDo\<close> never returns: when the peer has closed the connection it closes the socket, tells
  its own thread to stop, and then calls \<open>recv\<close> on the closed socket for ever.\<close>

theorem dtp_spins_after_close:
  assumes "silent vt" "receivingSide A = Some r" "ready r (N_sock A)" "so_in (N_sock A) = []"
  shows "dtp_round vt (K, A) = Inr ((), K, A\<lparr>receivingSide := Some (r\<lparr>R_open := False, R_end := True\<rparr>),
      N_sock := closesocket (N_sock A)\<rparr>) \<and> dtp_workToDo fuel vt (K, A) = Inl NoFuel"
proof -
  have r: "dtp_round vt (K, A) = Inr ((), K, A\<lparr>receivingSide := Some (r\<lparr>R_open := False, R_end := True\<rparr>),
      N_sock := closesocket (N_sock A)\<rparr>)"
    using recv_buffer_end [OF assms(2-4), of 2048 K] broken_silent [OF assms(1,2), of K] assms(3)
    by (simp add: dtp_round_def ready_def)
  moreover have "dtp_workToDo fuel vt (K, A) = Inl NoFuel"
  proof (cases fuel)
    case (Suc n)
    show ?thesis using r by (simp add: Suc dtp_shut)
  qed simp
  ultimately show ?thesis ..
qed

theorem dtp_spins_after_close_witness:
  "\<forall>fuel. dtp_workToDo fuel demo_vt (run_kernel [], demo_net (demo_socket []) (Client [])) = Inl NoFuel"
  using dtp_spins_after_close [OF demo_vt_ok(1), of "demo_net (demo_socket []) (Client [])" "Client []"]
  by (simp add: demo_client_ready)

text \<open>An error of \<open>send\<close> is taken for success: its result -1 becomes 65535 in the \<open>uint16\<close> it is stored in, so that
  the test for a failure never holds; nothing has been sent.  Only a missing connection is reported.\<close>

theorem send_failure_unnoticed:
  assumes "N_open A" "strlen (protocolMessageS A) = Inr n" "so_closed (N_sock A) \<or> \<not> so_send (N_sock A)"
  shows "send_protocol (K, A) = Inr ((), K, A\<lparr>N_priv := take NET_MAX_LENGTH_MESSAGE (protocolMessageS A)\<rparr>)"
proof -
  have "sock_send bs (N_sock A) = (-1, N_sock A)" for bs using assms(3) by (auto simp: sock_send_def send_def)
  moreover have "(0 :: u16) < -1" by (simp add: word_gt_0)
  ultimately show ?thesis using assms(1,2) by (cases A) (simp add: send_protocol_def Let_def)
qed

theorem send_failure_unnoticed_witness:
  "send_protocol (run_kernel [], demo_net (demo_socket []) (Client [])) =
    Inr ((), run_kernel [], (demo_net (demo_socket []) (Client []))\<lparr>N_priv := [65, 66, 0]\<rparr>)"
  using send_failure_unnoticed [of "demo_net (demo_socket []) (Client [])" 2 "run_kernel []"]
  by (simp add: strlen_def demo_socket_def NET_MAX_LENGTH_MESSAGE_def)

end
