(* ===== verification/UdpProps.thy ===== *)
theory UdpProps
  imports Udp NetProps
begin

text \<open>
  The properties of automata that exchange datagrams: a datagram becomes a message in the own mailbox; a
  read that fails ends the program, also the one that waits when the automaton stops listening.
\<close>

text \<open>The abstract function \<open>convertNetToFSMMessage\<close> yields the code of a datagram.\<close>

definition codes :: "('p, 'z) udp_vtable \<Rightarrow> (u8 list \<Rightarrow> u16) \<Rightarrow> bool" where
  "codes vt cf \<longleftrightarrow> u_convertNetToFSM vt = (\<lambda>(K, A).
     Inr (cf (take (nat (U_receivedMessageLength A)) (protocolMessageR A)), K, A))"

text \<open>The message of \<open>UdpFSM\<close>.\<close>

definition udp_header :: "('p, 'z) transport_scheme \<Rightarrow> u8 \<Rightarrow> u16 \<Rightarrow> u16 \<Rightarrow> header" where
  "udp_header A coding code len = (net_header A INVALID_08 coding code len)"

definition udp_message :: "kernel \<Rightarrow> addr \<Rightarrow> ('p, 'z) transport_scheme \<Rightarrow> u8 \<Rightarrow> u16 \<Rightarrow> u8 list \<Rightarrow> bool" where
  "udp_message K a A coding code info \<longleftrightarrow> (let h = header_of (bytes K a) in
     h_ToAutomate h = A_automateId A \<and> h_ToGroup h = INVALID_08 \<and> h_ObjectTo h = A_ConnectionId A \<and>
     h_Coding h = coding \<and> h_Code h = code \<and> h_Length h = of_nat (length info)) \<and>
     take (length info) (drop MSG_HEADER_LENGTH (bytes K a)) = info"

lemma Work_puts:
  assumes K: "k_ok K own mss L fss" "has_room K (length bs) i a fss" "A_mbxId A < MailBoxesNum (K_PostOffice K)"
    and c: "codes vt cf" "U_receivedMessageLength A = int (length bs)" "length bs \<le> length (protocolMessageR A)"
  shows "\<exists>K'. Work nd vt bs src (K, A) =
      Inr ((), K', A\<lparr>protocolMessageR := bs @ drop (length bs) (protocolMessageR A)\<rparr>) \<and>
    k_ok K' own (mss[unat (A_mbxId A) := mss ! unat (A_mbxId A) @ [a]]) L (fss[i := tl (fss ! i)]) \<and>
    udp_message K' a A (u_getProtocolInfoCoding vt) (cf bs) bs"
proof -
  obtain as where r: "length bs < 65536" "fits_class (K_Buffers K) (of_nat (length bs + MSG_HEADER_LENGTH)) i" "fss ! i = a # as"
    using K(2) by (auto simp: has_room_def)
  let ?h = "udp_header A (u_getProtocolInfoCoding vt) (cf bs) (of_nat (length bs))"
  have u: "unat (of_nat (length bs + MSG_HEADER_LENGTH) :: u32) = length bs + MSG_HEADER_LENGTH"
    using r(1) by (intro unat_of_nat_less) (simp add: offset_defs)
  then have "MSG_HEADER_LENGTH + length bs \<le> unat (of_nat (length bs + MSG_HEADER_LENGTH) :: u32)" by simp
  from fill_buffer [OF K(1) r(2,3) this, of nd A] obtain K1 K2 where
    f: "GetBuffer_op nd (of_nat (length bs + MSG_HEADER_LENGTH)) (K, A) = Inr (a, K1, A)" "put_info a bs (K1, A) = Inr ((), K2, A)"
      "k_ok K2 (a # own) mss L (fss[i := as])" "MSG_HEADER_LENGTH \<le> length (bytes K2 a)"
      "take (length bs) (drop MSG_HEADER_LENGTH (bytes K2 a)) = bs" "K_PostOffice K2 = K_PostOffice K" by blast
  let ?A = "A\<lparr>protocolMessageR := bs @ drop (length bs) (protocolMessageR A)\<rparr>"
  let ?xs = "[ToAutomate, ToGroup, ObjectTo, Coding]" and ?ys = "[Code, InfoLength]"
  from own_fields [OF f(3,4), of ?h ?xs A] obtain K3 where
    e: "run (map (set_field_of ?h (Some a)) ?xs) (K2, A) = Inr ((), K3, A)" "k_ok K3 (a # own) mss L (fss[i := as])"
      "\<forall>y \<in> set ?xs. agree_on y (header_of (bytes K3 a)) ?h"
      "drop MSG_HEADER_LENGTH (bytes K3 a) = drop MSG_HEADER_LENGTH (bytes K2 a)" "MSG_HEADER_LENGTH \<le> length (bytes K3 a)"
      "K_PostOffice K3 = K_PostOffice K2" by blast
  from own_fields [OF e(2,5), of ?h ?ys ?A] obtain K4 where
    g: "run (map (set_field_of ?h (Some a)) ?ys) (K3, ?A) = Inr ((), K4, ?A)" "k_ok K4 (a # own) mss L (fss[i := as])"
      "\<forall>y \<in> set ?ys. agree_on y (header_of (bytes K4 a)) ?h"
      "\<forall>y x. y \<notin> set ?ys \<longrightarrow> agree_on y (header_of (bytes K4 a)) x = agree_on y (header_of (bytes K3 a)) x"
      "drop MSG_HEADER_LENGTH (bytes K4 a) = drop MSG_HEADER_LENGTH (bytes K3 a)" "K_PostOffice K4 = K_PostOffice K3" by blast
  have "A_mbxId A < MailBoxesNum (K_PostOffice K4)" using K(3) f(6) e(6) g(6) by simp
  from own_send [OF g(2) this, of ?A] obtain K5 where
    s: "SendMessage_msg (A_mbxId A) (Some a) (K4, ?A) = Inr ((), K5, ?A)"
      "k_ok K5 own (mss[unat (A_mbxId A) := mss ! unat (A_mbxId A) @ [a]]) L (fss[i := as])" "bytes K5 a = bytes K4 a" by blast
  have "agree_on y (header_of (bytes K4 a)) ?h" if "y \<in> set ?xs" for y
  proof -
    have "y \<notin> set ?ys" using that by auto
    then show ?thesis using g(4) e(3) that by blast
  qed
  then have "\<forall>y \<in> set (?xs @ ?ys). agree_on y (header_of (bytes K5 a)) ?h" using g(3) unfolding s(3) set_append by blast
  then have "udp_message K5 a A (u_getProtocolInfoCoding vt) (cf bs) bs"
    using f(5) e(4) g(5) s(3) by (simp add: udp_message_def udp_header_def net_header_def)
  moreover have "Work nd vt bs src (K, A) = Inr ((), K5, ?A)"
  proof -
    let ?cp = "\<lambda>(K, A). bindR (blit 0 bs (protocolMessageR A)) (\<lambda>p. Inr ((), K, A\<lparr>protocolMessageR := p\<rparr>))"
    have "run (put_info a bs # map (set_field_of ?h (Some a)) ?xs @ [?cp]) (K1, A) = Inr ((), K3, ?A)"
      unfolding run.simps(2) run_append f(2) bindR_Inr prod.case e(1) using c(3) by simp
    note w1 = this [unfolded list.map set_field_of.simps append.simps udp_header_def net_header_def header.simps]
    have "run (map (set_field_of ?h (Some a)) ?ys @ [SendMessage_msg (A_mbxId A) (Some a)]) (K3, ?A) = Inr ((), K5, ?A)"
      unfolding run_append g(1) bindR_Inr prod.case using s(1) by simp
    note w2 = this [unfolded list.map set_field_of.simps append.simps udp_header_def net_header_def header.simps]
    have "u_convertNetToFSM vt (K3, ?A) = Inr (cf bs, K3, ?A)" "c_str_bytes (int (length bs)) bs = Inr bs"
      "A_mbxId ?A = A_mbxId A" using c by (simp_all add: codes_def c_str_bytes_def)
    moreover have "of_int (int (length bs)) + of_nat MSG_HEADER_LENGTH = (of_nat (length bs + MSG_HEADER_LENGTH) :: u32)"
      "of_int (int (length bs)) = (of_nat (length bs) :: u16)" by simp_all
    ultimately show ?thesis by (simp only: Work_def Let_def bnd_def prod.case c(2) f(1) bindR_Inr w1 w2)
  qed
  ultimately show ?thesis using s(2) r(3) by auto
qed


subsection \<open>An automaton\<close>

definition demo_udp :: "(u32 \<times> u8 list) option list \<Rightarrow> unit udp_fsm" where
  "demo_udp ds = \<lparr>H_CurrentMessage = None, H_NewMessage = None, H_codec = pc16, H_If = MessageInterface,
     A_mbxId = 1, A_automateId = 5, A_TimerResolution = Timer1s, A_LogFlag = 0, A_ConnectionId = 9, A_GroupId = 2,
     A_CallId = 0, A_LeftMbx = 0, A_LeftAutomate = 0, A_LeftGroup = 0, A_LeftObjectId = 0, A_RightMbx = 0,
     A_RightAutomate = 0, A_RightGroup = 0, A_RightObjectId = 0, A_State = 0,
     F_ReturnMemory = False, F_TimerStore = [], F_NumOfStates = 0, F_NumOfTimers = 0,
     F_MaxNumOfProcPerState = 0, F_States = None,
     T_port = 0, T_ip = [], fsmMessageR = [], protocolMessageR = replicate UDP_MAX_LENGTH_MESSAGE 0,
     fsmMessageS = [], protocolMessageS = [], sendMsgLength = 0, fsmMessageSInfoLength = 0,
     fsmMessageSLength = 0, receivedMessageLength = 0, fsmMessageRLength = 0, currentMessageCode = 0,
     U_Err = [], packageSize = 4,
     sockToListen = Some \<lparr>us_in = ds, us_out = [], us_send = True, us_closed = False\<rparr>, sockToListenMulticast = None,
     listening = True, listeningMulticast = False, portToListen = 4000, portToListenMulticast = 0,
     U_receivedMessageLength = 0\<rparr>"

definition demo_udp_vt :: "(unit, unit) udp_vtable" where
  "demo_udp_vt = \<lparr>u_convertNetToFSM = (\<lambda>(K, A). Inr (ucast (hd (take (nat (U_receivedMessageLength A)) (protocolMessageR A))), K, A)),
     u_convertFSMToNet = ret (), u_getProtocolInfoCoding = udp_getProtocolInfoCoding\<rparr>"

lemma demo_udp_simps [simp]:
  "sockToListen (demo_udp ds) = Some \<lparr>us_in = ds, us_out = [], us_send = True, us_closed = False\<rparr>"
  "listening (demo_udp ds)" "packageSize (demo_udp ds) = 4" "A_mbxId (demo_udp ds) = 1"
  "length (protocolMessageR (demo_udp ds)) = UDP_MAX_LENGTH_MESSAGE"
  by (simp_all add: demo_udp_def)

lemma demo_udp_message: "udp_message K a (demo_udp ds) = udp_message K a (demo_udp [])"
  by (simp add: udp_message_def demo_udp_def fun_eq_iff)

lemma demo_udp_codes: "codes demo_udp_vt (\<lambda>bs. ucast (hd bs))"
  by (simp add: codes_def demo_udp_vt_def)

subsection \<open>The properties\<close>

text \<open>C27: A round of the listening thread of an automaton on UDP turns the next datagram into a message: it is put,
  whole, into the mailbox of the automaton with the code that the protocol finds in it, and the thread goes on with
  the next datagram.  The datagram may not be longer than the package size and the array it is received in.\<close>

theorem datagram_delivered:
  assumes "codes vt cf" "listening A" "sockToListen A = Some us" "\<not> us_closed us" "us_in us = Some (src, bs) # ds"
    and len: "length bs \<le> unat (packageSize A)" "length bs \<le> MAX_PACKAGE_SIZE" "length bs \<le> length (protocolMessageR A)"
    and K: "k_ok K own mss L fss" "has_room K (length bs) i a fss" "A_mbxId A < MailBoxesNum (K_PostOffice K)"
  shows "\<exists>K'. listen_round nd vt (K, A) = Inr (True, K', A\<lparr>sockToListen := Some (us\<lparr>us_in := ds\<rparr>),
      U_receivedMessageLength := int (length bs), protocolMessageR := bs @ drop (length bs) (protocolMessageR A)\<rparr>) \<and>
    k_ok K' own (mss[unat (A_mbxId A) := mss ! unat (A_mbxId A) @ [a]]) L (fss[i := tl (fss ! i)]) \<and>
    udp_message K' a A (u_getProtocolInfoCoding vt) (cf bs) bs"
proof -
  let ?A = "A\<lparr>sockToListen := Some (us\<lparr>us_in := ds\<rparr>), U_receivedMessageLength := int (length bs)\<rparr>"
  have "udp_read [] (K, A) = Inr ((src, bs), K, ?A)"
    using assms(3-5) len by (simp add: udp_read_def read_socket_def recvfrom_def Let_def)
  then have r: "listen_round nd vt (K, A) = bindR (Work nd vt bs src (K, ?A)) (\<lambda>(_, s). Inr (True, s))"
    using assms(2) by (simp add: listen_round_def listen_body_def bnd_def bindR_assoc ret_def)
  have "A_mbxId ?A < MailBoxesNum (K_PostOffice K)" "U_receivedMessageLength ?A = int (length bs)"
    "length bs \<le> length (protocolMessageR ?A)" using K(3) len(3) by simp_all
  from Work_puts [OF K(1,2) this(1) assms(1) this(2,3), of nd src] r show ?thesis by (auto simp: udp_message_def)
qed

theorem datagram_delivered_witness:
  "\<exists>K' A'. listen_round False demo_udp_vt (run_kernel (replicate 128 0), demo_udp [Some (127, [7, 8, 9])]) = Inr (True, K', A') \<and>
    k_ok K' [3] [[], [0], []] [(4, 5)] [[1, 2]] \<and> udp_message K' 0 (demo_udp []) 1 7 [7, 8, 9]"
proof -
  let ?A = "demo_udp [Some (127, [7, 8, 9])]" and ?K = "run_kernel (replicate 128 0)"
  have k: "k_ok ?K [3] [[], [], []] [(4, 5)] [[0, 1, 2]]" by (rule run_k_ok) simp
  have r: "has_room ?K (length [7 :: u8, 8, 9]) 0 0 [[0, 1, 2]]" by (rule demo_room) simp_all
  have m: "A_mbxId ?A < MailBoxesNum (K_PostOffice ?K)" by (simp add: run_kernel_ready)
  have "u_getProtocolInfoCoding demo_udp_vt = 1" by (simp add: demo_udp_vt_def udp_getProtocolInfoCoding_def)
  with datagram_delivered [OF demo_udp_codes _ _ _ _ _ _ _ k r m, where src = 127 and ds = "[]" and nd = False]
  obtain K' A' where "listen_round False demo_udp_vt (?K, ?A) = Inr (True, K', A')" "k_ok K' [3] [[], [0], []] [(4, 5)] [[1, 2]]"
    "udp_message K' 0 ?A 1 7 [7, 8, 9]" by (auto simp: MAX_PACKAGE_SIZE_def UDP_MAX_LENGTH_MESSAGE_def)
  then show ?thesis unfolding demo_udp_message [of _ _ "[Some (127, [7, 8, 9])]"] by blast
qed

text \<open>The call of \<open>recvfrom\<close> fails: there is no socket, it is closed, or the datagram is too long.\<close>

definition read_fails :: "('p, 'z) udp_fsm_scheme \<Rightarrow> bool" where
  "read_fails A \<longleftrightarrow> (case sockToListen A of None \<Rightarrow> True
     | Some us \<Rightarrow> (case recvfrom (unat (packageSize A)) us of Inr (None, _) \<Rightarrow> True | _ \<Rightarrow> False))"

lemma failed_read:
  assumes K: "k_ok K own mss L fss" "fits_class (K_Buffers K) 20 i" "fss ! i = a # as" and "read_fails A"
  shows "listen_body nd vt (K, A) = Inl OutOfBounds"
proof -
  obtain A' where r: "udp_read [] (K, A) = Inr ((0, []), K, A')" "U_receivedMessageLength A' = -1"
    using assms(4)
    by (auto simp: read_fails_def udp_read_def read_socket_def Let_def split: option.splits sum.splits prod.splits)
  note D = k_okD [OF K(1)]
  from GetBuffer_hit [OF D(5) K(2,3), of nd] obtain B' where "GetBuffer nd 20 (K_mem K, K_Buffers K) = Inr (a, K_mem K, B')" by blast
  then show ?thesis using r D(1)
    by (simp add: listen_body_def bnd_def Work_def Let_def GetBuffer_op_def c_str_bytes_def offset_defs)
qed

text \<open>C30: A read that fails ends the program: its result -1 is taken as the length of the datagram, and a block of
  negative length is copied.  This happens when a datagram is longer than the package size, and whenever the
  automaton stops listening while the thread waits for a datagram.\<close>

theorem failed_read_crashes:
  assumes "k_ok K own mss L fss" "fits_class (K_Buffers K) 20 i" "fss ! i = a # as"
  shows "(read_fails A \<longrightarrow> listen_body nd vt (K, A) = Inl OutOfBounds) \<and>
    bnd stopListening (\<lambda>_. listen_body nd vt) (K, A) = Inl OutOfBounds"
proof -
  let ?A = "A\<lparr>listening := False, listeningMulticast := False, sockToListen := None, sockToListenMulticast := None\<rparr>"
  have "stopListening (K, A) = Inr ((), K, ?A)" by (simp add: stopListening_def udp_set_def closeListen_def)
  moreover have "read_fails ?A" by (simp add: read_fails_def)
  ultimately show ?thesis
    using failed_read [OF assms, of A nd vt] failed_read [OF assms, of ?A nd vt] by (simp add: bnd_def)
qed

theorem failed_read_crashes_witness:
  "listen_body False demo_udp_vt (run_kernel (replicate 128 0), demo_udp [Some (127, [7, 8, 9, 10, 11])]) = Inl OutOfBounds \<and>
   bnd stopListening (\<lambda>_. listen_body False demo_udp_vt) (run_kernel (replicate 128 0), demo_udp []) = Inl OutOfBounds"
proof -
  have k: "k_ok (run_kernel (replicate 128 0)) [3] [[], [], []] [(4, 5)] [[0, 1, 2]]" by (rule run_k_ok) simp
  have f: "fits_class (K_Buffers (run_kernel (replicate 128 0))) 20 0" "[[0, 1, 2]] ! 0 = (0 :: nat) # [1, 2]"
    by (simp_all add: fits_class_def run_defs)
  have "read_fails (demo_udp [Some (127, [7, 8, 9, 10, 11])])" by (simp add: read_fails_def demo_udp_def recvfrom_def)
  then show ?thesis using failed_read_crashes [OF k f] by blast
qed

end
