(* ===== verification/TcpServers.thy ===== *)
theory TcpServers
  imports FsmSystem
begin

text \<open>
  \<open>TCPSystemSupport\<close> (\<open>src/Kernel/systemTCP.h\<close>, \<open>systemTCP.cpp\<close>): servers that accept TCP connections and
  give each of them to a free automaton of their type.  The global array \<open>Server\<close> tells which entries point
  to this object.  The class \<open>FSMSystemWithTCP\<close>, which is also a system of automata, is the pair of both states.
\<close>

definition MAX_NUM_OF_TCP_SERVERS :: nat where "MAX_NUM_OF_TCP_SERVERS = 10"

record ex_param =
  ep_index :: nat
  ep_param :: "u8 list"

definition exParam :: "u8 list \<Rightarrow> nat \<Rightarrow> ex_param result" where
  "exParam paramIn len = (if length paramIn < len then Inl OutOfBounds
     else Inr \<lparr>ep_index = 0, ep_param = take len paramIn\<rparr>)"

text \<open>\<open>sd_Thread\<close> is the parameter of the thread, once it has been created.\<close>

record server_data =
  ConnectionSocket :: bool
  AutomateType :: u8
  ClientObject :: "oid option"
  Used :: bool
  sd_Thread :: "ex_param option option"

record tcp_support =
  Server :: "bool list"
  ServerData :: "server_data list"

definition set_server :: "nat \<Rightarrow> (server_data \<Rightarrow> server_data) \<Rightarrow> tcp_support \<Rightarrow> tcp_support" where
  "set_server i f T = T\<lparr>ServerData := (ServerData T)[i := f (ServerData T ! i)]\<rparr>"

text \<open>All entries of the global array are reset, also those of other objects.\<close>

definition TCPSystemSupport :: "tcp_support \<Rightarrow> tcp_support" where
  "TCPSystemSupport T = T\<lparr>Server := replicate MAX_NUM_OF_TCP_SERVERS False,
     ServerData := map (\<lambda>d. d\<lparr>Used := False, ClientObject := None\<rparr>) (ServerData T)\<rparr>"

subsection \<open>Servers\<close>

text \<open>Whether the calls of the system succeed.\<close>

record tcp_env =
  te_socket :: bool
  te_bind :: bool
  te_thread :: bool

fun first_unused :: "nat \<Rightarrow> server_data list \<Rightarrow> nat option" where
  "first_unused i [] = None"
| "first_unused i (d # ds) = (if \<not> Used d then Some i else first_unused (i + 1) ds)"

definition InitTCPServer :: "tcp_env \<Rightarrow> u8 \<Rightarrow> u8 list option \<Rightarrow> nat \<Rightarrow> tcp_support \<Rightarrow> (int \<times> tcp_support) result" where
  "InitTCPServer e automateType param len T = (case first_unused 0 (ServerData T) of None \<Rightarrow> Inr (0, T)
   | Some i \<Rightarrow>
       if \<not> te_socket e then Inr (-1, set_server i (\<lambda>d. d\<lparr>ConnectionSocket := False\<rparr>) T)
       else if \<not> te_bind e then Inr (-1, set_server i (\<lambda>d. d\<lparr>ConnectionSocket := False\<rparr>) T)
       else let T = set_server i (\<lambda>d. d\<lparr>ConnectionSocket := True, ClientObject := None\<rparr>) T; T = T\<lparr>Server := (Server T)[i := True]\<rparr> in
         bindR (case param of None \<Rightarrow> Inr None | Some p \<Rightarrow> bindR (exParam p len) (\<lambda>priv. Inr (Some (priv\<lparr>ep_index := i\<rparr>)))) (\<lambda>priv.
           if \<not> te_thread e then Inr (-1, T)
           else Inr (0, set_server i (\<lambda>d. d\<lparr>AutomateType := automateType, Used := True, sd_Thread := Some priv\<rparr>) T)))"

definition DeinitTCPServer :: "bool \<Rightarrow> nat \<Rightarrow> tcp_support \<Rightarrow> (int \<times> tcp_support) result" where
  "DeinitTCPServer closed i T = at_index (ServerData T) i (\<lambda>_.
     if \<not> closed then Inr (-1, T)
     else Inr (0, set_server i (\<lambda>d. d\<lparr>ConnectionSocket := False, Used := False\<rparr>) T))"

fun deinit_loop :: "nat list \<Rightarrow> tcp_support \<Rightarrow> tcp_support result" where
  "deinit_loop [] T = Inr T"
| "deinit_loop (i # is) T = at_index (ServerData T) i (\<lambda>d.
     bindR (if Used d then DeinitTCPServer True i T else Inr (0, T)) (\<lambda>(_, T). deinit_loop is T))"

definition TCPSystemSupport_destructor :: "tcp_support \<Rightarrow> tcp_support result" where
  "TCPSystemSupport_destructor = deinit_loop [0..<MAX_NUM_OF_TCP_SERVERS]"

subsection \<open>Connections\<close>

type_synonym ('o, 'a) wop = "(tcp_support \<times> kernel \<times> 'o fsm_system, 'a) op"

text \<open>What \<open>listen\<close> and \<open>accept\<close> yield; the abstract function \<open>acceptConnection\<close> of the automata.\<close>

datatype arrival = ListenFails | AcceptFails | Connected

type_synonym 'o accept = "ex_param option \<Rightarrow> (kernel \<times> 'o, int) op"

definition GetClientObject :: "nat \<Rightarrow> ('o, oid option) wop" where
  "GetClientObject automatType = (\<lambda>(T, KS). bindR (free_get automatType KS) (\<lambda>(info, KS). Inr (info, T, KS)))"

definition accept_on :: "oid \<Rightarrow> (kernel \<times> 'o, int) op \<Rightarrow> ('o, int) wop" where
  "accept_on a f = (\<lambda>(T, K, S). bindR (f (K, S_Objects S a)) (\<lambda>(r, K, A).
     Inr (r, T, K, S\<lparr>S_Objects := (S_Objects S)(a := A)\<rparr>)))"

text \<open>The automaton is not put back into its list when it refuses the connection.\<close>

definition WaitConnection :: "'o accept \<Rightarrow> arrival \<Rightarrow> nat \<Rightarrow> ex_param option \<Rightarrow> ('o, int) wop" where
  "WaitConnection acc arr i exPrm = (\<lambda>(T, KS). at_index (ServerData T) i (\<lambda>d. case arr of
     ListenFails \<Rightarrow> Inr (-1, T, KS)
   | AcceptFails \<Rightarrow> Inr (-1, T, KS)
   | Connected \<Rightarrow> bnd (GetClientObject (unat (AutomateType d))) (\<lambda>info (T, KS).
       let s = (set_server i (\<lambda>d. d\<lparr>ClientObject := info\<rparr>) T, KS) in
       case info of None \<Rightarrow> Inr (-1, s)
       | Some a \<Rightarrow> bnd (accept_on a (acc exPrm)) (\<lambda>r. if r < 0 then ret (-1) else ret 0) s) (T, KS)))"

text \<open>The loops of \<open>ServerThread\<close> and \<open>ServerThreadParam\<close>, for what arrives; the result tells whether the thread
  is still waiting.\<close>

fun server_loop :: "'o accept \<Rightarrow> nat \<Rightarrow> ex_param option \<Rightarrow> arrival list \<Rightarrow> ('o, bool) wop" where
  "server_loop acc i p [] s = Inr (True, s)"
| "server_loop acc i p (arr # arrs) s = (case s of (T, KS) \<Rightarrow> at_index (Server T) i (\<lambda>this. if \<not> this then Inl NullDeref
     else bindR (WaitConnection acc arr i p (T, KS)) (\<lambda>(r, s). if r = 0 then server_loop acc i p arrs s else Inr (False, s))))"

definition ServerThread :: "'o accept \<Rightarrow> nat \<Rightarrow> arrival list \<Rightarrow> ('o, bool) wop" where
  "ServerThread acc i arrs = server_loop acc i None arrs"

definition ServerThreadParam :: "'o accept \<Rightarrow> ex_param \<Rightarrow> arrival list \<Rightarrow> ('o, bool) wop" where
  "ServerThreadParam acc p arrs = server_loop acc (ep_index p) (Some p) arrs"

end
