(* ===== verification/TcpServerProps.thy ===== *)
theory TcpServerProps
  imports TcpServers DemoAutomata
begin

text \<open>
  What a TCP server does with its connections: each of them is given to the automaton of its type that has
  been free for the longest time; a connection too many ends the program.
\<close>

text \<open>The server \<open>i\<close> runs for automata of the type \<open>t\<close>, of which \<open>os\<close> are free.\<close>

definition serving :: "nat \<Rightarrow> u8 \<Rightarrow> oid list \<Rightarrow> tcp_support \<Rightarrow> 'o fsm_system \<Rightarrow> bool" where
  "serving i t os T S \<longleftrightarrow> i < length (ServerData T) \<and> i < length (Server T) \<and> Server T ! i \<and>
     AutomateType (ServerData T ! i) = t \<and> unat t < length (S_FreeAutomates S) \<and>
     fl_content (S_Next S, S_FreeAutomates S ! unat t) os \<and> length os < 2 ^ 32 \<and>
     FreeFSMCount (S_FreeAutomates S ! unat t) = of_nat (length os)"

lemma free_get_first:
  assumes "serving i t (a # os) T S"
  shows "\<exists>nx L. free_get (unat t) (K, S) = Inr (Some a, K, S\<lparr>S_Next := nx, S_FreeAutomates := (S_FreeAutomates S)[unat t := L]\<rparr>) \<and>
    serving i t os T (S\<lparr>S_Next := nx, S_FreeAutomates := (S_FreeAutomates S)[unat t := L]\<rparr>)"
proof -
  let ?L = "S_FreeAutomates S ! unat t"
  from assms have s: "unat t < length (S_FreeAutomates S)" "fl_content (S_Next S, ?L) (a # os)" "length os < 2 ^ 32 - 1"
    "FreeFSMCount ?L = of_nat (length os) + 1" by (simp_all add: serving_def)
  from fl_GetFromHead_cons [OF s(2)] obtain L' where
    L: "fl_GetFromHead (S_Next S, ?L) = (Some a, (S_Next S)(a := None), L')" "fl_content ((S_Next S)(a := None), L') os"
      "FreeFSMCount L' = of_nat (length os) + 1" using s(4) by auto
  have "(of_nat (length os) + 1 :: u32) \<noteq> 0"
  proof
    assume "(of_nat (length os) + 1 :: u32) = 0"
    then have "unat (of_nat (Suc (length os)) :: u32) = 0" by (simp add: add.commute)
    moreover have "unat (of_nat (Suc (length os)) :: u32) = Suc (length os)" using s(3) by (intro unat_of_nat_less) simp
    ultimately show False by simp
  qed
  then have g: "fl_Get (S_Next S, ?L) = Inr (Some a, (S_Next S)(a := None), L'\<lparr>FreeFSMCount := of_nat (length os)\<rparr>)"
    using L(1,3) by (simp add: fl_Get_def checkC_def)
  have "fl_content ((S_Next S)(a := None), L'\<lparr>FreeFSMCount := of_nat (length os)\<rparr>) os" using L(2) by (simp add: fl_content_def)
  then show ?thesis using g s(1) assms
    by (intro exI [of _ "(S_Next S)(a := None)"] exI [of _ "L'\<lparr>FreeFSMCount := of_nat (length os)\<rparr>"])
      (simp add: free_get_def serving_def)
qed

lemma free_get_none:
  assumes "serving i t [] T S"
  shows "free_get (unat t) (K, S) = Inl (Throw 0x21030504)"
  using assms by (auto simp: serving_def free_get_def fl_content_def fl_Get_def fl_GetFromHead_def checkC_def)

lemma WaitConnection_first:
  assumes S: "serving i t (a # os) T S" and acc: "\<And>K x. acc p (K, x) = Inr (0, K, g x)"
  shows "\<exists>T' S'. WaitConnection acc Connected i p (T, K, S) = Inr (0, T', K, S') \<and> serving i t os T' S' \<and>
    S_Objects S' = (S_Objects S)(a := g (S_Objects S a)) \<and> ClientObject (ServerData T' ! i) = Some a"
proof -
  from free_get_first [OF S, of K] obtain nx L where
    f: "free_get (unat t) (K, S) = Inr (Some a, K, S\<lparr>S_Next := nx, S_FreeAutomates := (S_FreeAutomates S)[unat t := L]\<rparr>)"
      "serving i t os T (S\<lparr>S_Next := nx, S_FreeAutomates := (S_FreeAutomates S)[unat t := L]\<rparr>)" by blast
  have i: "i < length (ServerData T)" "AutomateType (ServerData T ! i) = t" using S by (simp_all add: serving_def)
  let ?T = "set_server i (\<lambda>d. d\<lparr>ClientObject := Some a\<rparr>) T"
  let ?S = "S\<lparr>S_Next := nx, S_FreeAutomates := (S_FreeAutomates S)[unat t := L], S_Objects := (S_Objects S)(a := g (S_Objects S a))\<rparr>"
  have "WaitConnection acc Connected i p (T, K, S) = Inr (0, ?T, K, ?S)"
    using f(1) i acc by (simp add: WaitConnection_def GetClientObject_def bnd_def accept_on_def ret_def)
  moreover have "unat t < length (S_FreeAutomates S)" using S by (simp add: serving_def)
  then have "serving i t os ?T ?S" using f(2) i by (simp add: serving_def set_server_def)
  moreover have "ClientObject (ServerData ?T ! i) = Some a" using i(1) by (simp add: set_server_def)
  ultimately show ?thesis by (intro exI [of _ ?T] exI [of _ ?S]) simp
qed

lemma server_loop_served:
  assumes "serving i t (bs @ cs) T S" and acc: "\<And>K x. acc p (K, x) = Inr (0, K, g x)" and "distinct bs"
  shows "\<exists>T' S'. (\<forall>arrs. server_loop acc i p (replicate (length bs) Connected @ arrs) (T, K, S) = server_loop acc i p arrs (T', K, S')) \<and>
    serving i t cs T' S' \<and> S_Objects S' = (\<lambda>a. if a \<in> set bs then g (S_Objects S a) else S_Objects S a)"
  using assms(1,3)
proof (induction bs arbitrary: T S)
  case Nil
  then show ?case by auto
next
  case (Cons b bs)
  have s: "serving i t (b # bs @ cs) T S" using Cons.prems(1) by simp
  from WaitConnection_first [of i t b "bs @ cs" T S acc p g K, OF s acc] obtain T1 S1 where
    w: "WaitConnection acc Connected i p (T, K, S) = Inr (0, T1, K, S1)" "serving i t (bs @ cs) T1 S1"
      "S_Objects S1 = (S_Objects S)(b := g (S_Objects S b))" by blast
  from Cons.IH [OF w(2)] Cons.prems(2) obtain T' S' where
    i: "\<forall>arrs. server_loop acc i p (replicate (length bs) Connected @ arrs) (T1, K, S1) = server_loop acc i p arrs (T', K, S')"
      "serving i t cs T' S'" "S_Objects S' = (\<lambda>a. if a \<in> set bs then g (S_Objects S1 a) else S_Objects S1 a)" by auto
  have "i < length (Server T)" "Server T ! i" using s by (simp_all add: serving_def)
  then have "\<forall>arrs. server_loop acc i p (replicate (length (b # bs)) Connected @ arrs) (T, K, S) = server_loop acc i p arrs (T', K, S')"
    using w(1) i(1) by simp
  moreover have "S_Objects S' = (\<lambda>a. if a \<in> set (b # bs) then g (S_Objects S a) else S_Objects S a)"
    using i(3) w(3) Cons.prems(2) by (auto simp: fun_eq_iff)
  ultimately show ?case using i(2) by blast
qed

text \<open>C28: A TCP server gives its connections to the free automata of its type in the order in which these have become
  free, one each, and goes on waiting; the others stay free.  When no automaton is free, the next connection throws
  out of the thread of the server: the test for a missing automaton comes too late.\<close>

theorem connections_get_free_automata:
  assumes "serving i t (bs @ cs) T S" "\<And>K x. acc p (K, x) = Inr (0, K, g x)"
  shows "\<exists>T' S'. server_loop acc i p (replicate (length bs) Connected) (T, K, S) = Inr (True, T', K, S') \<and>
    serving i t cs T' S' \<and> S_Objects S' = (\<lambda>a. if a \<in> set bs then g (S_Objects S a) else S_Objects S a) \<and>
    (cs = [] \<longrightarrow> server_loop acc i p (replicate (length bs + 1) Connected) (T, K, S) = Inl (Throw 0x21030504))"
proof -
  have "distinct bs" using assms(1) by (simp add: serving_def fl_content_def lq_def)
  from server_loop_served [OF assms(1), of acc p g K, OF assms(2) this] obtain T' S' where
    s: "\<And>arrs. server_loop acc i p (replicate (length bs) Connected @ arrs) (T, K, S) = server_loop acc i p arrs (T', K, S')"
      "serving i t cs T' S'" "S_Objects S' = (\<lambda>a. if a \<in> set bs then g (S_Objects S a) else S_Objects S a)" by blast
  have "server_loop acc i p [Connected] (T', K, S') = Inl (Throw 0x21030504)" if "cs = []"
    using s(2) that free_get_none [of i t T' S' K]
    by (simp add: serving_def WaitConnection_def GetClientObject_def bnd_def)
  then show ?thesis using s(1) [of "[]"] s(1) [of "[Connected]"] s(2,3)
    by (intro exI [of _ T'] exI [of _ S']) (simp add: replicate_append_same)
qed

definition demo_servers :: tcp_support where
  "demo_servers = \<lparr>Server = True # replicate 9 False,
     ServerData = \<lparr>ConnectionSocket = True, AutomateType = 0, ClientObject = None, Used = True, sd_Thread = Some None\<rparr> #
       replicate 9 \<lparr>ConnectionSocket = False, AutomateType = 0, ClientObject = None, Used = False, sd_Thread = None\<rparr>\<rparr>"

definition demo_system :: "nat fsm_system" where
  "demo_system = \<lparr>S_Automates = [Array [Some 0, Some 1]], S_NumberOfMbx = 1, S_NumberOfAutomates = 1, S_NumberOfObjects = [2],
     S_FreeKernelMemory = False, S_SystemWorking = True, S_serverId = 0, S_UseFreeAutomateList = [True],
     S_FreeAutomates = [\<lparr>fl_Head = Some 1, fl_Tail = Some 0, FreeFSMCount = 2\<rparr>],
     S_Next = (\<lambda>a. if a = 1 then Some 0 else None), S_Objects = (\<lambda>a. a), S_Kernel = True\<rparr>"

theorem connections_get_free_automata_witness:
  "\<exists>T' S'. server_loop (\<lambda>p (K, x). Inr (0, K, x + 10)) 0 None (replicate 1 Connected) (demo_servers, run_kernel [], demo_system) =
      Inr (True, T', run_kernel [], S') \<and> serving 0 0 [0] T' S' \<and> S_Objects S' 1 = 11 \<and> S_Objects S' 0 = 0 \<and>
    server_loop (\<lambda>p (K, x). Inr (0, K, x + 10)) 0 None (replicate 3 Connected) (demo_servers, run_kernel [], demo_system) =
      Inl (Throw 0x21030504)"
proof -
  have "serving 0 0 ([1, 0] @ []) demo_servers demo_system"
    by (simp add: serving_def demo_servers_def demo_system_def fl_content_def lq_def)
  from connections_get_free_automata [OF this, where acc = "\<lambda>p (K, x). Inr (0, K, x + 10)" and p = None and
      g = "\<lambda>x. x + 10" and K = "run_kernel []"]
  have t: "server_loop (\<lambda>p (K, x). Inr (0, K, x + 10)) 0 None (replicate 3 Connected) (demo_servers, run_kernel [], demo_system) =
      Inl (Throw 0x21030504)" by (auto simp: numeral_eq_Suc)
  have "serving 0 0 ([1] @ [0]) demo_servers demo_system"
    by (simp add: serving_def demo_servers_def demo_system_def fl_content_def lq_def)
  from connections_get_free_automata [OF this, where acc = "\<lambda>p (K, x). Inr (0, K, x + 10)" and p = None and
      g = "\<lambda>x. x + 10" and K = "run_kernel []"]
  obtain T' S' where "server_loop (\<lambda>p (K, x). Inr (0, K, x + 10)) 0 None (replicate 1 Connected) (demo_servers, run_kernel [], demo_system) =
      Inr (True, T', run_kernel [], S')" "serving 0 0 [0] T' S'"
    "S_Objects S' = (\<lambda>a. if a \<in> set [1] then S_Objects demo_system a + 10 else S_Objects demo_system a)" by auto
  then show ?thesis using t by (intro exI [of _ T'] exI [of _ S']) (simp add: demo_system_def)
qed

end
