(* ===== verification/Spec2Isabelle.thy ===== *)
theory Spec2Isabelle
  imports KernelProps StandardMsg HandlerProps DistProps LogProps UdpLogProps UdpProps TcpServerProps
begin

text \<open>
  The FSM kernel library of \<open>src/Kernel\<close> and the DNS client of \<open>src/POP3ClientCppUnit\<close>.

  \<^bold>\<open>The program.\<close>  The library runs automata that exchange messages.  A message is a buffer of a fixed
  memory pool (\<open>TBuffers\<close>, one queue \<open>TBufferQue\<close> per length); it waits in a mailbox (\<open>TMailBox\<close>) of the
  \<open>TPostOffice\<close>, which counts the messages of a mailbox with a semaphore; timers are messages that \<open>CTimer\<close>
  puts into a mailbox when they are due.  An automaton is an object of a class that extends
  \<open>MessageInterface\<close>, \<open>MessageHandler\<close>, \<open>KernelAPI\<close>, \<open>LogAutomateNew\<close> and \<open>FiniteStateMachine\<close>: it has a state,
  a table that binds a procedure to a state and the code of a message, timers, a received and a new message.
  \<open>FSMSystem\<close> has the tables of automata, and a monitor loop that takes a message out of a mailbox and calls
  \<open>Process\<close> of the automaton it is for.  \<open>Distribution\<close> extends it to several computers.  The DNS client has
  three automata: \<open>UserAuto\<close> reads words from the console, \<open>ClAuto\<close> looks them up in a local table or asks
  \<open>ChAuto\<close>, which sends them to a server and has a thread that receives the answer.  \<open>NetFSM\<close> and \<open>UdpFSM\<close> are base
  classes of automata on TCP and UDP, with receiving threads of their own; \<open>TCPSystemSupport\<close> accepts connections.

  \<^bold>\<open>The model.\<close>  The C++ code is taken as it is built for WIN32, with the parameter checks and without
  \<open>__BUFFER_PROTECTION__\<close>; the argument \<open>nd\<close> is the macro \<open>NDEBUG\<close>, with which the assertions are compiled away.
  Integers are words of their width.  A function that can throw, fail an assertion, dereference a null pointer, leave
  an array, wait or run for ever returns a value of \<open>fault + 'a\<close>; state is passed explicitly.  Buffers
  live in one memory (record \<open>mem\<close> in \<open>KHeap\<close>): the header fields \<open>BUFF_NEXT\<close>, \<open>BUFF_PREV\<close> and \<open>BUFF_CODE\<close> are
  functions on addresses, the rest of a buffer is its list of bytes.  A class is a record, a class that extends
  another is a record that extends its record, so that the operations of a base class work on every automaton.

  \<^item> \<open>Prelude\<close>, \<open>CStrings\<close>, \<open>Sockets\<close>: results and their sequencing (\<open>bindR\<close>, \<open>bnd\<close>, \<open>run\<close>), strings of the C
    library, streams.
  \<^item> \<open>KernelTypes\<close> (\<open>kernelTypes.h\<close>, \<open>kernelConsts.h\<close>, \<open>KernelFunctions.cpp\<close>), \<open>KHeap\<close>: access to bytes and to the memory;
    the locale \<open>fifo_list\<close> is the contract of all queues, interpreted for \<open>TBufferQue\<close>, \<open>TMailBox\<close>, \<open>FSMList\<close> and the lists
    of \<open>Distribution\<close>.
  \<^item> \<open>BufferQueue\<close>, \<open>Buffers\<close>, \<open>Mailbox\<close>, \<open>PostOffice\<close>, \<open>Timer\<close> (the files of the same names): the kernel objects, each
    with a predicate that says which list it holds.  \<open>DeltaList\<close> is the abstract timer list, \<open>TimerRuns\<close> has
    many ticks.
  \<^item> \<open>MsgInterface\<close>, \<open>StdMsg\<close>, \<open>StandardMsg\<close> (\<open>msgInterface.cpp\<close>, \<open>stdMsgpc16pl16.cpp\<close>, \<open>standardMsg.cpp\<close>): parameters of
    messages.  One model of both codecs, with the width of the fields as an argument; the locales \<open>param_message\<close> and
    \<open>codec_capacity\<close> are the contract that the handlers of messages use.
  \<^item> \<open>Log\<close>, \<open>LogAutomate\<close>, \<open>LogFile\<close>, \<open>LogRecords\<close>, \<open>LogNames\<close>, \<open>UdpLog\<close> (\<open>logAutomate.cpp\<close>, \<open>LogFile.cpp\<close>,
    \<open>UdpLogInterface.cpp\<close>): records of the log, the names that are read for it, and the log over UDP.
  \<^item> \<open>Messages\<close>, \<open>HandlerApi\<close>, \<open>KernelApi\<close>, \<open>Fsm\<close>, \<open>FsmSystem\<close> (\<open>messages.cpp\<close>, \<open>kernelAPI.cpp\<close>, \<open>fsm.cpp\<close>, \<open>fsmSystem.cpp\<close>):
    the layers of an automaton and the system.  \<open>KernelOps\<close>, \<open>SendOps\<close>, \<open>ParamOps\<close>, \<open>ProcessOps\<close>, \<open>TimerOps\<close>,
    \<open>AutomatonOps\<close> and \<open>SystemOps\<close> say what these operations do in terms of the lists of buffers: the invariant
    \<open>k_ok K own mss L fss\<close> says that the automaton owns the buffers \<open>own\<close>, that the mailboxes hold the messages \<open>mss\<close>,
    the timer list is \<open>L\<close>, the free buffers are \<open>fss\<close>, that these are all buffers and that no mailbox has fewer signals
    than messages.
  \<^item> \<open>AutomatonContract\<close>: the locale \<open>automaton\<close> is the contract between \<open>Process\<close> and the procedures of an automaton:
    procedures that make the steps of an abstract automaton give a \<open>Process\<close> that makes them.  It is interpreted
    for the three automata of the client.
  \<^item> \<open>AppConst\<close>, \<open>UserAuto\<close>, \<open>ClAuto\<close>, \<open>ChAuto\<close> (\<open>const.h\<close> and the files of the same names), \<open>Program\<close> (\<open>main.cpp\<close>); \<open>UserSpec\<close>,
    \<open>ClientSpec\<close>, \<open>ClientProcs\<close>, \<open>ChannelSpec\<close> have the abstract automata, \<open>BranchTable\<close> the branch tables.
  \<^item> \<open>Scene\<close>, \<open>SceneRuns\<close>, \<open>SceneRefines\<close>, \<open>Boot\<close>: the abstract program of three automata and their mailboxes, its runs, the
    proof that the program refines it, and the start from raw memory and from what \<open>start_env\<close> holds.
  \<^item> \<open>DistTables\<close>, \<open>Distribution\<close>, \<open>DistConfig\<close>, \<open>DistRoutes\<close> (\<open>Distribution.cpp\<close>): tables, messages between servers, configuration.
  \<^item> \<open>Transport\<close>, \<open>TcpClient\<close>, \<open>TcpRuns\<close>, \<open>NetMessages\<close> (\<open>TransportInterface.cpp\<close>, \<open>NetFSM.cpp\<close>, \<open>Client.cpp\<close>, \<open>Client_DTP.cpp\<close>,
    \<open>thread.cpp\<close>), \<open>Udp\<close> (\<open>UdpFSM.cpp\<close>), \<open>TcpServers\<close> (\<open>systemTCP.cpp\<close>): automata on the network.
  \<^item> \<open>DemoKernel\<close>, \<open>DemoAutomata\<close>: concrete kernels at which the properties are applied.

  \<^bold>\<open>The properties.\<close>  \<open>SystemProps\<close> has those of the whole program: it starts when its log can be opened; in every interleaving of rounds of the
  monitor loop with calls of \<open>recv\<close> it makes the steps of the abstract program; every word is answered when there is
  a local table; without one the first word is answered by the server, and the second never is, since the channel
  answers one start only.  \<open>KernelProps\<close>: the pool and its classes, mailboxes and signals, the timers as a stable insertion
  by expiry time, and where the code leaves a lock held or wraps a count.  \<open>StdMsg\<close>, \<open>HandlerProps\<close>: round trips
  of parameters and headers.  \<open>ClientProps\<close>, \<open>UserProps\<close>, \<open>ChannelProps\<close>: each automaton refines an abstract one.  \<open>FsmProps\<close>: the
  branch table is an association list.  \<open>DistProps\<close>: routing, exchange of messages, configuration.  \<open>LogProps\<close>, \<open>UdpLogProps\<close>: names
  and parameters of the log are found again, and records are sent whole.  \<open>NetProps\<close>, \<open>UdpProps\<close>, \<open>TcpServerProps\<close>: what is received becomes a message,
  connections get free automata, and where the receiving threads lose data, copy a negative length or throw.
  Theorems without a claim number in these files are further facts about the code, several of them about its faults.

  \<^bold>\<open>Bounds and fuel.\<close>  A walk over a linked list gets the number of allocated buffers plus one (\<open>m_top + 1\<close>, \<open>D_top + 1\<close>)
  as its fuel, which a list without a cycle never exhausts; that none has a cycle is part of the invariants.  The loop
  of \<open>Client::workToDo\<close> gets the length of the message plus 3, which is proved to be enough for everything a socket can deliver;
  the search of a log record gets the size of the log buffer, also proved to be enough.  \<open>ReadIniFile\<close> and the thread loops
  take their fuel as an argument (\<open>E_keys\<close> in the start of the program); that \<open>Client_DTP::workToDo\<close> never returns is the statement that no fuel is enough.  The properties
  of the program are for words and answers of at most 98 bytes, which fit the smallest buffers of \<open>main.cpp\<close> (128 bytes), and
  the 50 buffers of that length are never exhausted.  The round trips of the configuration files are for lines of fewer than
  300 characters, the size of the arrays they are read into.  What \<open>Client::workToDo\<close> and \<open>Distribution::ReceiveMsg\<close> receive may be cut
  into any pieces of which the first has the header (\<open>carried\<close> in \<open>Sockets\<close>), since both read the header with one \<open>recv\<close>.

  \<^bold>\<open>Parameters.\<close>  Code that is not under \<open>src\<close> is an argument: what \<open>recv\<close>, \<open>recvfrom\<close>, \<open>connect\<close>, \<open>accept\<close>, \<open>bind\<close> and the other
  calls of the system yield (fields of the state or arguments that hold their results), the configuration files (\<open>profile\<close>; of a
  line \<open>GetPrivateProfileString\<close> gives what fits the array, \<open>ini_string\<close>), \<open>time\<close>, the console, and what uninitialised memory holds.  The abstract functions of \<open>NetFSM\<close>, \<open>UdpFSM\<close> and of
  automata that accept connections are records or arguments; the hypotheses \<open>silent\<close>, \<open>converts\<close>, \<open>codes\<close> say
  what a protocol does, and each is shown to hold for a concrete protocol.  Semaphores and
  \<open>WaitForMultipleObjects\<close> are modelled as WIN32 documents them.

  \<^bold>\<open>Threads.\<close>  The listening thread of \<open>ChAuto\<close> runs between rounds of the monitor loop, each of its calls of \<open>recv\<close> with what
  follows as one step; finer interleavings are not modelled.  Ticks of the timer are modelled for the kernel (\<open>KernelProps\<close>) but are
  not steps of the whole program: an expired timer leaves a stale pointer in its automaton, so that stopping it
  writes into a buffer that may belong to someone else.

  \<^bold>\<open>Not modelled.\<close>  \<open>errorObject\<close> (its exceptions are values, its printing is not modelled), the replacements of WIN32 calls for LINUX (\<open>linuxFunctions.cpp\<close>, \<open>systemFunctions.cpp\<close>), the
  debug texts of \<open>Client::getError\<close>, the end of \<open>mainProgram\<close>, which waits for a flag that nothing sets, code that is commented out or stands behind the \<open>return\<close> of \<open>LogFile::Write\<close>, the
  unit tests, and the vendored framework CppUnit, which is the rest of the repository.
\<close>

end
